(* ===== verification/Prelude.thy ===== *)
theory Prelude
  imports Main "HOL-Library.Word"
begin

text \<open>
  Shared vocabulary of the development.

  The kernel is built for the Intel 8086 with \<^verbatim>\<open>ia16-elf-gcc\<close>: \<^verbatim>\<open>int\<close>, \<^verbatim>\<open>size_t\<close> and
  near pointers are 16 bits wide, \<^verbatim>\<open>long\<close>, \<^verbatim>\<open>off_t\<close> and far pointers 32 bits, \<^verbatim>\<open>long long\<close>
  64 bits (\<^verbatim>\<open>libc/include/stdint.h\<close>, \<^verbatim>\<open>libc/include/stddef.h\<close>, \<^verbatim>\<open>libc/include/sys/types.h\<close>).
  Unsigned integers are words of their width.  Signed integers are HOL integers in the range
  of their C type; where the source can leave that range, the reduction is written out with
  \<open>int16\<close> and \<open>int32\<close>, which is what the compiler's two's complement arithmetic does.

  This theory also holds the error codes of \<^verbatim>\<open>kernel/core/error.h\<close>, the memory block
  operations used by several components (\<open>mem_put\<close>, the effect of \<^verbatim>\<open>memcpy\<close> into a buffer)
  and the lemmas on words and lists that the component proofs share.
\<close>

unbundle bit_operations_syntax

section \<open>Machine integers\<close>

type_synonym u8 = "8 word"
type_synonym u16 = "16 word"
type_synonym u32 = "32 word"
type_synonym u64 = "64 word"

text \<open>\<^verbatim>\<open>size_t\<close> is \<^verbatim>\<open>unsigned int\<close>, 16 bits on this target.\<close>

type_synonym size_t = u16

definition int16 :: "int \<Rightarrow> int" where
  "int16 x = signed_take_bit 15 x"

definition int32 :: "int \<Rightarrow> int" where
  "int32 x = signed_take_bit 31 x"

definition in_int16 :: "int \<Rightarrow> bool" where
  "in_int16 x \<longleftrightarrow> - 32768 \<le> x \<and> x < 32768"

definition in_int32 :: "int \<Rightarrow> bool" where
  "in_int32 x \<longleftrightarrow> - 2147483648 \<le> x \<and> x < 2147483648"

section \<open>Error codes (kernel/core/error.h)\<close>

definition ERR_NO_ENTRY :: int where [simp]: "ERR_NO_ENTRY = - 2"
definition ERR_IO :: int where [simp]: "ERR_IO = - 5"
definition ERR_NO_MEM :: int where [simp]: "ERR_NO_MEM = - 12"
definition ERR_NO_DEV :: int where [simp]: "ERR_NO_DEV = - 19"
definition ERR_NOT_DIR :: int where [simp]: "ERR_NOT_DIR = - 20"
definition ERR_INVAL :: int where [simp]: "ERR_INVAL = - 22"
definition ERR_NOT_SUPP :: int where [simp]: "ERR_NOT_SUPP = - 134"

section \<open>Memory blocks\<close>

text \<open>
  \<open>mem_put buf i bs\<close> is the buffer \<open>buf\<close> after the bytes \<open>bs\<close> were copied into it at offset
  \<open>i\<close>; \<open>mem_get buf i n\<close> is what a copy of \<open>n\<close> bytes out of offset \<open>i\<close> reads.
\<close>

definition mem_put :: "'a list \<Rightarrow> nat \<Rightarrow> 'a list \<Rightarrow> 'a list" where
  "mem_put buf i bs = take i buf @ bs @ drop (i + length bs) buf"

definition mem_get :: "'a list \<Rightarrow> nat \<Rightarrow> nat \<Rightarrow> 'a list" where
  "mem_get buf i n = take n (drop i buf)"

text \<open>The last \<open>c\<close> elements of a list: what a store of capacity \<open>c\<close> remembers of a stream.\<close>

definition keep_last :: "nat \<Rightarrow> 'a list \<Rightarrow> 'a list" where
  "keep_last c xs = drop (length xs - c) xs"

section \<open>Fact collections\<close>

named_theorems cdefs \<open>definitions of the C operations, unfolded by name in component proofs\<close>
named_theorems word_nat \<open>reading words as natural numbers\<close>
named_theorems mem_simps \<open>laws of memory blocks\<close>

section \<open>Signed integers\<close>

lemma int16_id [simp]: "in_int16 x \<Longrightarrow> int16 x = x"
  unfolding int16_def in_int16_def by (rule signed_take_bit_int_eq_self) auto

lemma int32_id [simp]: "in_int32 x \<Longrightarrow> int32 x = x"
  unfolding int32_def in_int32_def by (rule signed_take_bit_int_eq_self) auto

lemma in_int16_int16 [simp]: "in_int16 (int16 x)"
  using signed_take_bit_int_greater_eq_minus_exp [of 15 x] signed_take_bit_int_less_exp [of 15 x]
  by (simp add: in_int16_def int16_def)

lemma in_int32_int32 [simp]: "in_int32 (int32 x)"
  using signed_take_bit_int_greater_eq_minus_exp [of 31 x] signed_take_bit_int_less_exp [of 31 x]
  by (simp add: in_int32_def int32_def)

lemma in_int16_nat: "n < 32768 \<Longrightarrow> in_int16 (int n)"
  by (simp add: in_int16_def)

lemma in_int32_nat: "n < 2147483648 \<Longrightarrow> in_int32 (int n)"
  by (simp add: in_int32_def)

lemma in_int16_in_int32: "in_int16 x \<Longrightarrow> in_int32 x"
  by (simp add: in_int16_def in_int32_def)

lemma word_of_int_int16: "(word_of_int (int16 x) :: u16) = word_of_int x"
proof (rule bit_word_eqI)
  fix n assume "n < LENGTH(16)"
  then have "n < 15 \<or> n = 15" by auto
  then show "bit (word_of_int (int16 x) :: u16) n = bit (word_of_int x :: u16) n"
    by (auto simp: int16_def bit_simps min_def)
qed

lemma int16_eq: "int16 x = (x + 32768) mod 65536 - 32768"
  by (simp add: int16_def signed_take_bit_eq_take_bit_shift take_bit_eq_mod)

lemma int32_eq: "int32 x = (x + 2147483648) mod 4294967296 - 2147483648"
  by (simp add: int32_def signed_take_bit_eq_take_bit_shift take_bit_eq_mod)

lemma and_byte_int: "(x :: int) AND 0xff = x mod 256"
proof -
  have "(0xff :: int) = mask 8" by (simp add: mask_eq_exp_minus_1)
  then have "x AND 0xff = x mod 2 ^ 8" by (simp only: take_bit_eq_mask [symmetric] take_bit_eq_mod)
  then show ?thesis by simp
qed

section \<open>Words\<close>

lemma unat_u8_lt [simp]: "unat (x :: u8) < 256"
  using unsigned_less [of x] by simp

lemma unat_u16_lt [simp]: "unat (x :: u16) < 65536"
  using unsigned_less [of x] by simp

lemma unat_u32_lt [simp]: "unat (x :: u32) < 4294967296"
  using unsigned_less [of x] by simp

lemma unat_and_mask [word_nat]:
  fixes x :: "'a::len word"
  shows "unat (x AND mask k) = unat x mod 2 ^ k"
  by (simp only: unsigned_take_bit_eq take_bit_eq_mod [symmetric] take_bit_eq_mask [symmetric])

lemma and_not_mask: "(x :: 'a::len word) AND NOT (mask n) = push_bit n (drop_bit n x)"
  by (rule bit_word_eqI) (auto simp: bit_simps)

lemma unat_mask_u16 [word_nat]:
  assumes "k \<le> 15"
  shows "unat (mask k :: u16) = 2 ^ k - 1"
proof -
  have "int (unat (mask k :: u16)) = mask (min 16 k)"
    using uint_mask_eq [where 'a = 16, of k] by simp
  also have "\<dots> = int (2 ^ k - 1)"
    using assms by (simp add: min_def mask_eq_exp_minus_1 of_nat_diff)
  finally have "int (unat (mask k :: u16)) = int (2 ^ k - 1)" .
  then show ?thesis by (simp only: of_nat_eq_iff)
qed

lemma mod_65536_mod_power2 [simp]: "k \<le> 16 \<Longrightarrow> x mod 65536 mod 2 ^ k = (x :: nat) mod 2 ^ k"
proof -
  assume "k \<le> 16"
  then have "(2 :: nat) ^ k dvd 2 ^ 16" by (rule le_imp_power_dvd)
  then show ?thesis by (simp add: mod_mod_cancel)
qed

lemma unat_plus_u16 [word_nat]: "unat (x + y :: u16) = (unat x + unat y) mod 65536"
  by (simp add: unat_word_ariths)

lemma unat_minus_u16 [word_nat]: "unat (x - y :: u16) = (unat x + (65536 - unat y)) mod 65536"
proof -
  have "int (unat (x - y)) = (uint x - uint y) mod 65536"
    by (simp add: uint_word_ariths)
  also have "\<dots> = (uint x + (65536 - uint y)) mod 65536"
    using mod_add_self2 [of "uint x - uint y" 65536] by (simp add: algebra_simps)
  also have "\<dots> = int ((unat x + (65536 - unat y)) mod 65536)"
    by (simp only: zmod_int of_nat_add of_nat_diff [OF less_imp_le [OF unat_u16_lt]]) simp
  finally show ?thesis by (simp only: of_nat_eq_iff)
qed

lemma unat_ucast_u16_u32 [simp]: "unat (ucast (x :: u16) :: u32) = unat x"
  using order.strict_trans [OF unat_u16_lt [of x], of "2 ^ 32"]
  by (simp add: unsigned_ucast_eq take_bit_nat_eq_self_iff)

lemma unat_ucast_u8_u16 [simp]: "unat (ucast (x :: u8) :: u16) = unat x"
  using order.strict_trans [OF unat_u8_lt [of x], of "2 ^ 16"]
  by (simp add: unsigned_ucast_eq take_bit_nat_eq_self_iff)

lemma unat_ucast_u32_u16: "unat (x :: u32) < 65536 \<Longrightarrow> unat (ucast x :: u16) = unat x"
  by (simp add: unsigned_ucast_eq take_bit_nat_eq_self_iff)

lemma unat_of_nat_u16: "n < 65536 \<Longrightarrow> unat (of_nat n :: u16) = n"
  by (simp add: unat_of_nat)

lemma unat_of_nat_u32: "n < 4294967296 \<Longrightarrow> unat (of_nat n :: u32) = n"
  by (simp add: unat_of_nat)

lemma unat_word_of_int_u16: "0 \<le> i \<Longrightarrow> i < 65536 \<Longrightarrow> unat (word_of_int i :: u16) = nat i"
  using unat_of_nat_u16 [of "nat i"] by simp

lemma unat_word_of_int_u32: "0 \<le> i \<Longrightarrow> i < 4294967296 \<Longrightarrow> unat (word_of_int i :: u32) = nat i"
  using unat_of_nat_u32 [of "nat i"] by simp

lemma unat_drop_bit_u16 [word_nat]: "unat (drop_bit k (x :: u16)) = unat x div 2 ^ k"
proof -
  have "unat (drop_bit k x) = drop_bit k (unat x)" by (simp only: unsigned_drop_bit_eq) (simp add: take_bit_nat_eq_self)
  then show ?thesis by (simp only: drop_bit_eq_div)
qed

lemma unat_plus_u32: "unat x + unat y < 4294967296 \<Longrightarrow> unat (x + y :: u32) = unat x + unat y"
  by (simp add: unat_word_ariths)

lemma unat_mult_u32: "unat x * unat y < 4294967296 \<Longrightarrow> unat (x * y :: u32) = unat x * unat y"
  by (simp add: unat_word_ariths)

lemma unat_diff_u16: "y \<le> x \<Longrightarrow> unat (x - y :: u16) = unat x - unat y"
  by (rule unat_sub)

lemma unat_min_u16: "unat (min x y :: u16) = min (unat x) (unat y)"
  by (simp add: min_def word_le_nat_alt)

section \<open>Bounded streams\<close>

lemma length_keep_last [simp]: "length (keep_last c xs) = min c (length xs)"
  by (simp add: keep_last_def)

lemma keep_last_all [simp]: "length xs \<le> c \<Longrightarrow> keep_last c xs = xs"
  by (simp add: keep_last_def)

lemma keep_last_keep_last [simp]: "keep_last c (keep_last c xs @ ys) = keep_last c (xs @ ys)"
proof -
  define d where "d = length xs - c"
  have "keep_last c xs @ ys = drop d (xs @ ys)"
    by (simp add: keep_last_def d_def)
  moreover have "length (drop d (xs @ ys)) - c + d = length (xs @ ys) - c"
    by (simp add: d_def)
  ultimately show ?thesis by (simp only: keep_last_def drop_drop)
qed

section \<open>Memory blocks: laws\<close>

lemma length_mem_put [simp, mem_simps]:
  "i + length bs \<le> length buf \<Longrightarrow> length (mem_put buf i bs) = length buf"
  by (simp add: mem_put_def)

lemma length_mem_get [simp, mem_simps]:
  "i + n \<le> length buf \<Longrightarrow> length (mem_get buf i n) = n"
  by (simp add: mem_get_def)

lemma mem_put_Nil [simp, mem_simps]: "mem_put buf i [] = buf"
  by (simp add: mem_put_def)

lemma mem_get_0 [simp, mem_simps]: "mem_get buf i 0 = []"
  by (simp add: mem_get_def)

lemma nth_mem_put [mem_simps]:
  "i + length bs \<le> length buf \<Longrightarrow> j < length buf \<Longrightarrow>
     mem_put buf i bs ! j = (if i \<le> j \<and> j < i + length bs then bs ! (j - i) else buf ! j)"
  by (auto simp: mem_put_def nth_append)

lemma nth_mem_get [mem_simps]:
  "i + n \<le> length buf \<Longrightarrow> j < n \<Longrightarrow> mem_get buf i n ! j = buf ! (i + j)"
  by (simp add: mem_get_def)

lemma mem_get_put_same [mem_simps]:
  "i + length bs \<le> length buf \<Longrightarrow> mem_get (mem_put buf i bs) i (length bs) = bs"
  by (simp add: mem_get_def mem_put_def)

lemma mem_get_append [mem_simps]:
  "mem_get buf i m @ mem_get buf (i + m) n = mem_get buf i (m + n)"
  by (simp add: mem_get_def take_add add.commute)

lemma mem_get_mem_get [mem_simps]:
  "i + n \<le> m \<Longrightarrow> mem_get (mem_get buf j m) i n = mem_get buf (j + i) n"
  by (simp add: mem_get_def drop_take take_take add.commute)

lemma mem_put_drop [mem_simps]:
  "k \<le> length buf \<Longrightarrow> take k buf @ mem_put (drop k buf) 0 bs = mem_put buf k bs"
  by (simp add: mem_put_def add.commute)

lemma mem_put_append [mem_simps]:
  "i + length xs + length ys \<le> length buf \<Longrightarrow>
     mem_put (mem_put buf i xs) (i + length xs) ys = mem_put buf i (xs @ ys)"
  by (simp add: mem_put_def ac_simps)

text \<open>Replacing part of a region by way of a copy of the region.\<close>

lemma mem_put_get_block [mem_simps]:
  assumes "i + m \<le> length c" "r + length d \<le> m"
  shows "mem_put c i (mem_put (mem_get c i m) r d) = mem_put c (i + r) d"
proof (rule nth_equalityI)
  have l: "length (mem_put (mem_get c i m) r d) = m" using assms by simp
  then show "length (mem_put c i (mem_put (mem_get c i m) r d)) = length (mem_put c (i + r) d)" using assms by simp
  fix j assume "j < length (mem_put c i (mem_put (mem_get c i m) r d))"
  then have j: "j < length c" using assms l by simp
  show "mem_put c i (mem_put (mem_get c i m) r d) ! j = mem_put c (i + r) d ! j"
    using assms l j by (auto simp: nth_mem_put nth_mem_get)
qed

lemma mem_get_put_inside [mem_simps]:
  assumes "i + m \<le> length c" "r + length d \<le> m"
  shows "mem_get (mem_put c (i + r) d) i m = mem_put (mem_get c i m) r d"
proof (rule nth_equalityI)
  show "length (mem_get (mem_put c (i + r) d) i m) = length (mem_put (mem_get c i m) r d)" using assms by simp
  fix j assume "j < length (mem_get (mem_put c (i + r) d) i m)"
  then have "j < m" using assms by simp
  then show "mem_get (mem_put c (i + r) d) i m ! j = mem_put (mem_get c i m) r d ! j"
    using assms by (auto simp: nth_mem_put nth_mem_get)
qed

lemma mem_get_put_outside [mem_simps]:
  assumes "r + length d \<le> length c" "i + m \<le> length c" "i + m \<le> r \<or> r + length d \<le> i"
  shows "mem_get (mem_put c r d) i m = mem_get c i m"
proof (rule nth_equalityI)
  show "length (mem_get (mem_put c r d) i m) = length (mem_get c i m)" using assms by simp
  fix j assume "j < length (mem_get (mem_put c r d) i m)"
  then have "j < m" using assms by simp
  then show "mem_get (mem_put c r d) i m ! j = mem_get c i m ! j"
    using assms by (auto simp: nth_mem_put nth_mem_get)
qed

section \<open>Bytes of the data segment\<close>

definition mem_bytes :: "(u16 \<Rightarrow> u8) \<Rightarrow> u16 \<Rightarrow> nat \<Rightarrow> u8 list" where
  "mem_bytes m a n = map (\<lambda>i. m (a + of_nat i)) [0..<n]"

definition mem_store :: "(u16 \<Rightarrow> u8) \<Rightarrow> u16 \<Rightarrow> u8 list \<Rightarrow> (u16 \<Rightarrow> u8)" where
  "mem_store m a bs = (\<lambda>x. if unat (x - a) < length bs then bs ! unat (x - a) else m x)"

lemma length_mem_bytes [simp]: "length (mem_bytes m a n) = n"
  by (simp add: mem_bytes_def)

lemma mem_bytes_store:
  assumes "length bs \<le> 65536"
  shows "mem_bytes (mem_store m a bs) a (length bs) = bs"
proof -
  have "unat (of_nat i :: u16) = i" if "i < length bs" for i
    using that assms by (simp add: unat_of_nat)
  then show ?thesis by (auto simp: mem_bytes_def mem_store_def intro!: nth_equalityI)
qed

lemma mem_store_append:
  assumes "length xs + length ys \<le> 65536"
  shows "mem_store (mem_store m a xs) (a + of_nat (length xs)) ys = mem_store m a (xs @ ys)"
proof
  fix x
  let ?i = "unat (x - a)"
  show "mem_store (mem_store m a xs) (a + of_nat (length xs)) ys x = mem_store m a (xs @ ys) x"
  proof (cases "ys = []")
    case False
    then have n: "length xs < 65536" using assms by (cases ys) auto
    have i: "?i < 65536" by (rule unat_u16_lt)
    have "unat (x - (a + of_nat (length xs))) = (?i + 65536 - length xs) mod 65536"
      using n unat_minus_u16 [of "x - a" "of_nat (length xs)"] by (simp only: diff_diff_eq) (simp add: unat_of_nat)
    moreover have "(?i + 65536 - length xs) mod 65536 = ?i - length xs" if "length xs \<le> ?i"
    proof -
      have e: "?i + 65536 - length xs = ?i - length xs + 65536" using that by linarith
      have "?i - length xs < 65536" using i by linarith
      then show ?thesis unfolding e by (simp only: mod_add_self2 mod_less)
    qed
    ultimately have u: "unat (x - (a + of_nat (length xs))) = (if length xs \<le> ?i then ?i - length xs else 65536 + ?i - length xs)"
      using i by auto
    then show ?thesis using assms n i by (auto simp: mem_store_def nth_append)
  qed (simp add: mem_store_def)
qed

end
