(* ===== verification/Ringbuffer.thy ===== *)
theory Ringbuffer
  imports Prelude
begin

text \<open>
  The byte ring buffer of \<^verbatim>\<open>kernel/core/ringbuffer.c\<close> and \<^verbatim>\<open>kernel/core/ringbuffer.h\<close>, used by
  the console and by both UART drivers.  The state is the C struct with its 16-bit indices, the
  storage being the byte list \<open>buffer\<close>; every index computation keeps the mask arithmetic of the
  source.  The abstract view of a buffer is the list of stored bytes, oldest first
  (\<open>rb_contents\<close>), and the specification is a FIFO of bounded capacity that drops its oldest
  element on overflow.  It is stated once as the locale \<open>bounded_fifo\<close>, in which the facts the
  clients need are proved, and interpreted on the C operations.
\<close>

section \<open>The struct and the operations\<close>

record ring_buffer_t =
  buffer :: "u8 list"
  buffer_mask :: size_t
  tail_index :: size_t
  head_index :: size_t

definition RING_BUFFER_IS_POWER_OF_TWO :: "size_t \<Rightarrow> bool" where
  "RING_BUFFER_IS_POWER_OF_TWO sz = ((sz AND (sz - 1)) = 0)"

definition ring_buffer_init :: "u8 list \<Rightarrow> size_t \<Rightarrow> ring_buffer_t" where
  "ring_buffer_init buf buf_size =
     \<lparr>buffer = buf, buffer_mask = buf_size - 1, tail_index = 0, head_index = 0\<rparr>"

definition ring_buffer_is_empty :: "ring_buffer_t \<Rightarrow> bool" where
  "ring_buffer_is_empty rb = (head_index rb = tail_index rb)"

definition ring_buffer_is_full :: "ring_buffer_t \<Rightarrow> bool" where
  "ring_buffer_is_full rb =
     (((head_index rb - tail_index rb) AND buffer_mask rb) = buffer_mask rb)"

definition ring_buffer_num_items :: "ring_buffer_t \<Rightarrow> size_t" where
  "ring_buffer_num_items rb = ((head_index rb - tail_index rb) AND buffer_mask rb)"

definition ring_buffer_queue :: "ring_buffer_t \<Rightarrow> u8 \<Rightarrow> ring_buffer_t" where
  "ring_buffer_queue rb data =
     (let rb1 = (if ring_buffer_is_full rb
                 then rb\<lparr>tail_index := (tail_index rb + 1) AND buffer_mask rb\<rparr> else rb);
          rb2 = rb1\<lparr>buffer := (buffer rb1)[unat (head_index rb1) := data]\<rparr>
      in rb2\<lparr>head_index := (head_index rb2 + 1) AND buffer_mask rb2\<rparr>)"

text \<open>The loop of \<^verbatim>\<open>ring_buffer_queue_arr\<close> over the \<^verbatim>\<open>size\<close> bytes of \<^verbatim>\<open>data\<close>.\<close>

fun ring_buffer_queue_arr :: "ring_buffer_t \<Rightarrow> u8 list \<Rightarrow> ring_buffer_t" where
  "ring_buffer_queue_arr rb [] = rb"
| "ring_buffer_queue_arr rb (d # ds) = ring_buffer_queue_arr (ring_buffer_queue rb d) ds"

text \<open>\<^verbatim>\<open>ring_buffer_dequeue\<close> returns 0 and leaves \<^verbatim>\<open>*data\<close> alone, or 1 and the byte.\<close>

definition ring_buffer_dequeue :: "ring_buffer_t \<Rightarrow> u8 option \<times> ring_buffer_t" where
  "ring_buffer_dequeue rb =
     (if ring_buffer_is_empty rb then (None, rb)
      else (Some (buffer rb ! unat (tail_index rb)),
            rb\<lparr>tail_index := (tail_index rb + 1) AND buffer_mask rb\<rparr>))"

text \<open>The bytes written to \<^verbatim>\<open>data\<close>; the count returned is their number.\<close>

fun ring_buffer_dequeue_loop :: "ring_buffer_t \<Rightarrow> nat \<Rightarrow> u8 list \<times> ring_buffer_t" where
  "ring_buffer_dequeue_loop rb 0 = ([], rb)"
| "ring_buffer_dequeue_loop rb (Suc len) =
     (case ring_buffer_dequeue rb of
        (None, rb') \<Rightarrow> ([], rb')
      | (Some d, rb') \<Rightarrow>
          (case ring_buffer_dequeue_loop rb' len of (ds, rb'') \<Rightarrow> (d # ds, rb'')))"

definition ring_buffer_dequeue_arr :: "ring_buffer_t \<Rightarrow> size_t \<Rightarrow> u8 list \<times> ring_buffer_t" where
  "ring_buffer_dequeue_arr rb len =
     (if ring_buffer_is_empty rb then ([], rb) else ring_buffer_dequeue_loop rb (unat len))"

definition ring_buffer_peek :: "ring_buffer_t \<Rightarrow> size_t \<Rightarrow> u8 option" where
  "ring_buffer_peek rb index =
     (if index \<ge> ring_buffer_num_items rb then None
      else Some (buffer rb ! unat ((tail_index rb + index) AND buffer_mask rb)))"

section \<open>Well-formed buffers and their contents\<close>

text \<open>
  A buffer is well formed when its storage has a power-of-two size of at most \<open>2\<^sup>1\<^sup>5\<close>
  bytes (the sizes a \<^verbatim>\<open>size_t\<close> can hold), the mask matches it, and both indices are inside it.
\<close>

definition rb_wf :: "ring_buffer_t \<Rightarrow> bool" where
  "rb_wf rb \<longleftrightarrow> (\<exists>k \<in> {0..15}. length (buffer rb) = 2 ^ k \<and> buffer_mask rb = mask k)
     \<and> unat (tail_index rb) < length (buffer rb) \<and> unat (head_index rb) < length (buffer rb)"

text \<open>The distance from the tail index to the head index around a ring of \<open>n\<close> cells.\<close>

definition ring_dist :: "nat \<Rightarrow> nat \<Rightarrow> nat \<Rightarrow> nat" where
  "ring_dist n t h = (if t \<le> h then h - t else h + n - t)"

definition rb_count :: "ring_buffer_t \<Rightarrow> nat" where
  "rb_count rb = ring_dist (length (buffer rb)) (unat (tail_index rb)) (unat (head_index rb))"

definition rb_contents :: "ring_buffer_t \<Rightarrow> u8 list" where
  "rb_contents rb =
     map (\<lambda>i. buffer rb ! ((unat (tail_index rb) + i) mod length (buffer rb))) [0..<rb_count rb]"

definition rb_cap :: "ring_buffer_t \<Rightarrow> nat" where
  "rb_cap rb = length (buffer rb) - 1"

section \<open>The interface: a FIFO of bounded capacity\<close>

locale bounded_fifo =
  fixes contents :: "'q \<Rightarrow> 'a list"
    and cap :: "'q \<Rightarrow> nat"
    and wf :: "'q \<Rightarrow> bool"
    and enq :: "'q \<Rightarrow> 'a \<Rightarrow> 'q"
    and deq :: "'q \<Rightarrow> 'a option \<times> 'q"
  assumes wf_enq: "wf q \<Longrightarrow> wf (enq q x)"
    and wf_deq: "wf q \<Longrightarrow> wf (snd (deq q))"
    and cap_enq: "wf q \<Longrightarrow> cap (enq q x) = cap q"
    and cap_deq: "wf q \<Longrightarrow> cap (snd (deq q)) = cap q"
    and contents_cap: "wf q \<Longrightarrow> length (contents q) \<le> cap q"
    and contents_enq: "wf q \<Longrightarrow> contents (enq q x) = keep_last (cap q) (contents q @ [x])"
    and deq_empty: "wf q \<Longrightarrow> contents q = [] \<Longrightarrow> deq q = (None, q)"
    and deq_hd: "wf q \<Longrightarrow> contents q = x # xs \<Longrightarrow>
                   fst (deq q) = Some x \<and> contents (snd (deq q)) = xs"
begin

lemma wf_foldl_enq: "wf q \<Longrightarrow> wf (foldl enq q xs) \<and> cap (foldl enq q xs) = cap q"
  by (induction xs arbitrary: q) (auto simp: wf_enq cap_enq)

lemma contents_foldl: "wf q \<Longrightarrow> contents (foldl enq q xs) = keep_last (cap q) (contents q @ xs)"
proof (induction xs arbitrary: q)
  case Nil
  then show ?case by (simp add: contents_cap)
next
  case (Cons x xs)
  then show ?case by (simp add: wf_enq cap_enq contents_enq)
qed

lemma contents_foldl_fits:
  "wf q \<Longrightarrow> length (contents q) + length xs \<le> cap q \<Longrightarrow>
     contents (foldl enq q xs) = contents q @ xs"
  by (simp add: contents_foldl)

end

section \<open>Index arithmetic\<close>

lemma rb_wfE:
  assumes "rb_wf rb"
  obtains k where "k \<le> 15" "length (buffer rb) = 2 ^ k" "buffer_mask rb = mask k"
    "unat (tail_index rb) < 2 ^ k" "unat (head_index rb) < 2 ^ k"
  using assms by (auto simp: rb_wf_def)

lemma unat_succ_masked:
  "k \<le> 15 \<Longrightarrow> unat ((i + 1 :: size_t) AND mask k) = Suc (unat i) mod 2 ^ k"
  by (simp add: unat_and_mask unat_plus_u16)

lemma unat_add_masked:
  "k \<le> 15 \<Longrightarrow> unat ((i + j :: size_t) AND mask k) = (unat i + unat j) mod 2 ^ k"
  by (simp add: unat_and_mask unat_plus_u16)

lemma unat_diff_masked:
  assumes "k \<le> 15" "unat t < 2 ^ k" "unat h < 2 ^ k"
  shows "unat ((h - t :: size_t) AND mask k) = ring_dist (2 ^ k) (unat t) (unat h)"
proof -
  have p: "(65536::nat) = 2 ^ k * 2 ^ (16 - k)" using assms by (simp flip: power_add)
  have "(unat h + (65536 - unat t)) mod 2 ^ k = ring_dist (2 ^ k) (unat t) (unat h)"
  proof (cases "unat t \<le> unat h")
    case True
    then have "unat h + (65536 - unat t) = (unat h - unat t) + 2 ^ k * 2 ^ (16 - k)"
      using less_imp_le [OF unat_u16_lt [of t]] by (simp flip: p)
    then have "(unat h + (65536 - unat t)) mod 2 ^ k = (unat h - unat t) mod 2 ^ k"
      by (simp only: mod_mult_self2)
    with True assms show ?thesis by (simp add: ring_dist_def less_imp_diff_less)
  next
    case False
    have "(2::nat) ^ k * (2 ^ (16 - k) - 1) = 65536 - 2 ^ k"
      using p by (simp add: algebra_simps)
    moreover have "(2::nat) ^ k \<le> 2 ^ 16" using assms by (intro power_increasing) auto
    ultimately have "unat h + (65536 - unat t)
        = (unat h + 2 ^ k - unat t) + 2 ^ k * (2 ^ (16 - k) - 1)"
      using False assms by simp
    moreover have "unat h + 2 ^ k - unat t < 2 ^ k" using False assms by simp
    ultimately show ?thesis using False by (simp add: ring_dist_def)
  qed
  then show ?thesis using assms by (simp add: unat_and_mask unat_minus_u16)
qed

lemma num_items_count: "rb_wf rb \<Longrightarrow> unat (ring_buffer_num_items rb) = rb_count rb"
  by (erule rb_wfE) (simp add: ring_buffer_num_items_def rb_count_def unat_diff_masked)

lemma is_full_count: "rb_wf rb \<Longrightarrow> ring_buffer_is_full rb \<longleftrightarrow> rb_count rb = rb_cap rb"
proof (erule rb_wfE)
  fix k
  assume k: "k \<le> 15" "length (buffer rb) = 2 ^ k" "buffer_mask rb = mask k"
    "unat (tail_index rb) < 2 ^ k" "unat (head_index rb) < 2 ^ k"
  have "ring_buffer_is_full rb
          \<longleftrightarrow> unat ((head_index rb - tail_index rb) AND mask k) = unat (mask k :: size_t)"
    by (simp only: ring_buffer_is_full_def k word_unat_eq_iff)
  then show ?thesis
    using k by (simp only: unat_diff_masked unat_mask_u16 rb_count_def rb_cap_def)
qed

text \<open>The index steps of the two ends, on natural numbers.\<close>

lemma Suc_mod_ring: "i < n \<Longrightarrow> Suc i mod n = (if Suc i = n then 0 else Suc i)"
  by auto

lemma ring_index:
  "t < n \<Longrightarrow> i < n \<Longrightarrow> (t + i) mod n = (if t + i < n then t + i else t + i - n)" for n :: nat
  by (auto simp: mod_if)

lemma ring_dist_lt: "t < n \<Longrightarrow> h < n \<Longrightarrow> ring_dist n t h < n"
  by (auto simp: ring_dist_def)

lemma ring_dist_eq_0: "t < n \<Longrightarrow> h < n \<Longrightarrow> ring_dist n t h = 0 \<longleftrightarrow> h = t"
  by (auto simp: ring_dist_def)

lemma ring_step_tail:
  "t < n \<Longrightarrow> h < n \<Longrightarrow> h \<noteq> t \<Longrightarrow> ring_dist n t h = Suc (ring_dist n (Suc t mod n) h)"
  by (auto simp: ring_dist_def Suc_mod_ring)

lemma ring_step_head:
  "t < n \<Longrightarrow> h < n \<Longrightarrow> ring_dist n t h < n - 1 \<Longrightarrow>
     ring_dist n t (Suc h mod n) = Suc (ring_dist n t h)"
  by (auto simp: ring_dist_def Suc_mod_ring split: if_splits)

lemma ring_end: "t < n \<Longrightarrow> h < n \<Longrightarrow> (t + ring_dist n t h) mod n = h"
  by (auto simp: ring_dist_def ring_index)

lemma ring_before_end:
  assumes "t < n" "h < n" "i < ring_dist n t h"
  shows "(t + i) mod n \<noteq> h"
proof -
  have "i < n" using assms ring_dist_lt [of t n h] by simp
  with assms show ?thesis by (auto simp: ring_dist_def ring_index split: if_splits)
qed

lemma rb_count_le_cap: "rb_wf rb \<Longrightarrow> rb_count rb \<le> rb_cap rb"
  using ring_dist_lt by (fastforce elim: rb_wfE simp: rb_count_def rb_cap_def)

lemma is_empty_count: "rb_wf rb \<Longrightarrow> ring_buffer_is_empty rb \<longleftrightarrow> rb_count rb = 0"
  by (auto simp: rb_wf_def ring_buffer_is_empty_def rb_count_def ring_dist_eq_0 word_unat_eq_iff)

lemma length_rb_contents [simp]: "length (rb_contents rb) = rb_count rb"
  by (simp add: rb_contents_def)

section \<open>Moving the two ends\<close>

definition rb_advance_tail :: "ring_buffer_t \<Rightarrow> ring_buffer_t" where
  "rb_advance_tail rb = rb\<lparr>tail_index := (tail_index rb + 1) AND buffer_mask rb\<rparr>"

definition rb_put_head :: "ring_buffer_t \<Rightarrow> u8 \<Rightarrow> ring_buffer_t" where
  "rb_put_head rb d = rb\<lparr>buffer := (buffer rb)[unat (head_index rb) := d],
                        head_index := (head_index rb + 1) AND buffer_mask rb\<rparr>"

lemma ring_buffer_queue_alt:
  "ring_buffer_queue rb d =
     rb_put_head (if ring_buffer_is_full rb then rb_advance_tail rb else rb) d"
  by (simp add: ring_buffer_queue_def rb_put_head_def rb_advance_tail_def Let_def)

lemma rb_advance_tail:
  assumes "rb_wf rb"
  shows "rb_wf (rb_advance_tail rb)" "rb_cap (rb_advance_tail rb) = rb_cap rb"
    "0 < rb_count rb \<Longrightarrow> rb_contents (rb_advance_tail rb) = tl (rb_contents rb)"
proof -
  from assms show "rb_wf (rb_advance_tail rb)"
    by (elim rb_wfE) (auto simp: rb_wf_def rb_advance_tail_def unat_succ_masked)
  show "rb_cap (rb_advance_tail rb) = rb_cap rb"
    by (simp add: rb_cap_def rb_advance_tail_def)
  assume c: "0 < rb_count rb"
  from assms obtain k where k: "k \<le> 15" "length (buffer rb) = 2 ^ k" "buffer_mask rb = mask k"
    "unat (tail_index rb) < 2 ^ k" "unat (head_index rb) < 2 ^ k"
    by (rule rb_wfE)
  have "unat (head_index rb) \<noteq> unat (tail_index rb)"
    using c assms is_empty_count [of rb] by (simp add: ring_buffer_is_empty_def word_unat_eq_iff)
  with k have "rb_count rb = Suc (rb_count (rb_advance_tail rb))"
    by (simp add: rb_count_def rb_advance_tail_def unat_succ_masked ring_step_tail)
  then show "rb_contents (rb_advance_tail rb) = tl (rb_contents rb)"
    using k by (simp add: rb_contents_def rb_advance_tail_def unat_succ_masked upt_conv_Cons
        mod_simps flip: map_Suc_upt del: upt_Suc)
qed

lemma rb_put_head:
  assumes "rb_wf rb"
  shows "rb_wf (rb_put_head rb d)" "rb_cap (rb_put_head rb d) = rb_cap rb"
    "rb_count rb < rb_cap rb \<Longrightarrow> rb_contents (rb_put_head rb d) = rb_contents rb @ [d]"
proof -
  from assms show "rb_wf (rb_put_head rb d)"
    by (elim rb_wfE) (auto simp: rb_wf_def rb_put_head_def unat_succ_masked)
  show "rb_cap (rb_put_head rb d) = rb_cap rb"
    by (simp add: rb_cap_def rb_put_head_def)
  assume c: "rb_count rb < rb_cap rb"
  from assms obtain k where k: "k \<le> 15" "length (buffer rb) = 2 ^ k" "buffer_mask rb = mask k"
    "unat (tail_index rb) < 2 ^ k" "unat (head_index rb) < 2 ^ k"
    by (rule rb_wfE)
  with c have n: "rb_count (rb_put_head rb d) = Suc (rb_count rb)"
    by (simp add: rb_count_def rb_cap_def rb_put_head_def unat_succ_masked ring_step_head)
  have "unat (head_index rb) \<noteq> (unat (tail_index rb) + i) mod 2 ^ k" if "i < rb_count rb" for i
    using that k ring_before_end [of "unat (tail_index rb)" "2 ^ k" "unat (head_index rb)" i]
    by (simp add: rb_count_def eq_commute)
  moreover have "(unat (tail_index rb) + rb_count rb) mod 2 ^ k = unat (head_index rb)"
    using k by (simp add: rb_count_def ring_end)
  ultimately show "rb_contents (rb_put_head rb d) = rb_contents rb @ [d]"
    using k n by (auto simp: rb_contents_def) (simp_all add: rb_put_head_def)
qed

section \<open>The ring buffer is a bounded FIFO\<close>

lemma ring_buffer_queue_wf:
  assumes "rb_wf rb"
  shows "rb_wf (ring_buffer_queue rb d)" "rb_cap (ring_buffer_queue rb d) = rb_cap rb"
  using assms by (simp_all add: ring_buffer_queue_alt rb_put_head rb_advance_tail)

lemma ring_buffer_queue_contents:
  assumes "rb_wf rb"
  shows "rb_contents (ring_buffer_queue rb d) = keep_last (rb_cap rb) (rb_contents rb @ [d])"
proof (cases "ring_buffer_is_full rb")
  case False
  with assms have "rb_count rb < rb_cap rb"
    using rb_count_le_cap [of rb] by (simp add: is_full_count)
  with False assms show ?thesis by (simp add: ring_buffer_queue_alt rb_put_head)
next
  case True
  with assms have full: "rb_count rb = rb_cap rb" by (simp add: is_full_count)
  show ?thesis
  proof (cases "rb_cap rb")
    case 0
    with assms ring_buffer_queue_wf [OF assms, of d] rb_count_le_cap [of "ring_buffer_queue rb d"]
    have "rb_contents (ring_buffer_queue rb d) = []"
      by (simp flip: length_0_conv)
    with 0 show ?thesis by (simp add: keep_last_def full)
  next
    case (Suc c)
    let ?rb = "rb_advance_tail rb"
    have "rb_contents ?rb = tl (rb_contents rb)"
      using assms full Suc by (simp add: rb_advance_tail)
    moreover from this have "rb_count ?rb < rb_cap ?rb"
      using full Suc assms by (simp add: rb_advance_tail flip: length_rb_contents)
    ultimately have "rb_contents (ring_buffer_queue rb d) = tl (rb_contents rb) @ [d]"
      using True assms by (simp add: ring_buffer_queue_alt rb_put_head rb_advance_tail)
    with Suc full show ?thesis
      by (cases "rb_contents rb") (auto simp: keep_last_def simp flip: length_rb_contents)
  qed
qed

lemma ring_buffer_dequeue_alt:
  "rb_wf rb \<Longrightarrow> ring_buffer_dequeue rb =
     (case rb_contents rb of [] \<Rightarrow> (None, rb) | d # ds \<Rightarrow> (Some d, rb_advance_tail rb))"
proof (cases "rb_count rb")
  case 0
  moreover assume "rb_wf rb"
  moreover have "rb_contents rb = []" using 0 by (simp flip: length_0_conv)
  ultimately show ?thesis by (simp add: ring_buffer_dequeue_def is_empty_count)
next
  case (Suc n)
  moreover assume wf: "rb_wf rb"
  moreover have "rb_contents rb = buffer rb ! unat (tail_index rb) # tl (rb_contents rb)"
    using Suc wf by (auto simp: rb_contents_def upt_conv_Cons rb_wf_def simp del: upt_Suc)
  ultimately show ?thesis
    by (cases "rb_contents rb")
      (simp_all add: ring_buffer_dequeue_def is_empty_count rb_advance_tail_def)
qed

interpretation rbq: bounded_fifo rb_contents rb_cap rb_wf ring_buffer_queue ring_buffer_dequeue
proof unfold_locales
  fix rb :: ring_buffer_t and d x :: u8 and xs :: "u8 list"
  assume wf: "rb_wf rb"
  show "rb_wf (ring_buffer_queue rb d)" and "rb_cap (ring_buffer_queue rb d) = rb_cap rb"
    using wf by (rule ring_buffer_queue_wf)+
  show "rb_contents (ring_buffer_queue rb d) = keep_last (rb_cap rb) (rb_contents rb @ [d])"
    using wf by (rule ring_buffer_queue_contents)
  show "rb_wf (snd (ring_buffer_dequeue rb))" "rb_cap (snd (ring_buffer_dequeue rb)) = rb_cap rb"
    using wf by (auto simp: ring_buffer_dequeue_alt rb_advance_tail split: list.split)
  show "length (rb_contents rb) \<le> rb_cap rb"
    using wf by (simp add: rb_count_le_cap)
  show "ring_buffer_dequeue rb = (None, rb)" if "rb_contents rb = []"
    using that wf by (simp add: ring_buffer_dequeue_alt)
  assume c: "rb_contents rb = x # xs"
  then have "0 < rb_count rb" by (simp flip: length_rb_contents)
  with c wf show "fst (ring_buffer_dequeue rb) = Some x \<and>
      rb_contents (snd (ring_buffer_dequeue rb)) = xs"
    by (simp add: ring_buffer_dequeue_alt rb_advance_tail)
qed

section \<open>Arrays, peeking and initialisation\<close>

lemma ring_buffer_queue_arr_foldl: "ring_buffer_queue_arr rb ds = foldl ring_buffer_queue rb ds"
  by (induction rb ds rule: ring_buffer_queue_arr.induct) simp_all

lemma ring_buffer_queue_arr_wf [simp]:
  "rb_wf rb \<Longrightarrow> rb_wf (ring_buffer_queue_arr rb ds)"
  "rb_wf rb \<Longrightarrow> rb_cap (ring_buffer_queue_arr rb ds) = rb_cap rb"
  by (simp_all add: ring_buffer_queue_arr_foldl rbq.wf_foldl_enq)

lemma ring_buffer_queue_arr_contents:
  "rb_wf rb \<Longrightarrow> rb_contents (ring_buffer_queue_arr rb ds) = keep_last (rb_cap rb) (rb_contents rb @ ds)"
  by (simp add: ring_buffer_queue_arr_foldl rbq.contents_foldl)

lemma ring_buffer_dequeue_loop_spec:
  "rb_wf rb \<Longrightarrow> ring_buffer_dequeue_loop rb n = (ds, rb') \<Longrightarrow>
     ds = take n (rb_contents rb) \<and> rb_contents rb' = drop n (rb_contents rb) \<and>
     rb_wf rb' \<and> rb_cap rb' = rb_cap rb"
proof (induction n arbitrary: rb ds rb')
  case 0
  then show ?case by simp
next
  case (Suc n)
  show ?case
  proof (cases "rb_contents rb")
    case Nil
    with Suc.prems show ?thesis by (simp add: rbq.deq_empty)
  next
    case (Cons x xs)
    obtain rb1 where d: "ring_buffer_dequeue rb = (Some x, rb1)"
      using rbq.deq_hd [OF Suc.prems(1) Cons] by (cases "ring_buffer_dequeue rb") auto
    then have "rb_contents rb1 = xs" "rb_wf rb1" "rb_cap rb1 = rb_cap rb"
      using rbq.deq_hd [OF Suc.prems(1) Cons] rbq.wf_deq [OF Suc.prems(1)]
        rbq.cap_deq [OF Suc.prems(1)] by simp_all
    with d Cons Suc show ?thesis by (auto split: prod.splits)
  qed
qed

lemma ring_buffer_dequeue_arr_spec:
  assumes "rb_wf rb" "ring_buffer_dequeue_arr rb len = (ds, rb')"
  shows "ds = take (unat len) (rb_contents rb) \<and> rb_contents rb' = drop (unat len) (rb_contents rb) \<and>
    rb_wf rb' \<and> rb_cap rb' = rb_cap rb"
proof (cases "ring_buffer_is_empty rb")
  case True
  then have "rb_contents rb = []"
    using assms(1) by (simp add: is_empty_count flip: length_0_conv)
  with True assms show ?thesis by (auto simp: ring_buffer_dequeue_arr_def)
next
  case False
  with assms show ?thesis
    by (auto simp: ring_buffer_dequeue_arr_def dest: ring_buffer_dequeue_loop_spec)
qed

lemma ring_buffer_peek_spec:
  "rb_wf rb \<Longrightarrow> ring_buffer_peek rb i =
     (if unat i < length (rb_contents rb) then Some (rb_contents rb ! unat i) else None)"
  by (auto simp: ring_buffer_peek_def word_le_nat_alt num_items_count rb_contents_def
      elim!: rb_wfE simp: unat_add_masked)

text \<open>The check of \<^verbatim>\<open>RING_BUFFER_IS_POWER_OF_TWO\<close> accepts exactly zero and the powers of two.\<close>

lemma nat_and_pred_power_of_2: "x AND (x - 1) = 0 \<Longrightarrow> x \<noteq> 0 \<Longrightarrow> \<exists>k. x = 2 ^ k" for x :: nat
proof (induction x rule: less_induct)
  case (less x)
  show ?case
  proof (cases "even x")
    case False
    then obtain y where y: "x = 2 * y + 1" by (elim oddE)
    have "x AND (x - 1) = 2 * y"
      unfolding y by (simp add: and_nat_rec [of "Suc (2 * y)"])
    with less.prems y have "x = 2 ^ 0" by simp
    then show ?thesis by (rule exI)
  next
    case True
    then obtain y where y: "x = 2 * y" by (elim evenE)
    with less.prems have "0 < y" by simp
    then have "(2 * y - 1) div 2 = y - 1" "odd (2 * y - 1)" by auto
    then have "x AND (x - 1) = 2 * (y AND (y - 1))"
      unfolding y by (simp add: and_nat_rec [of "2 * y"])
    with less.prems have "y AND (y - 1) = 0" by simp
    with less.IH [of y] \<open>0 < y\<close> y obtain k where "y = 2 ^ k" by auto
    with y have "x = 2 ^ Suc k" by simp
    then show ?thesis by (rule exI)
  qed
qed

lemma power_of_two_check:
  assumes "RING_BUFFER_IS_POWER_OF_TWO sz" "sz \<noteq> 0"
  shows "\<exists>k\<le>15. unat sz = 2 ^ k \<and> sz - 1 = mask k"
proof -
  have "unat (sz - 1) = unat sz - 1"
    using assms(2) by (simp add: unat_minus_one)
  then have "unat sz AND (unat sz - 1) = unat (sz AND (sz - 1))"
    by (simp add: unsigned_and_eq)
  with assms have "unat sz AND (unat sz - 1) = 0" "unat sz \<noteq> 0"
    by (simp_all add: RING_BUFFER_IS_POWER_OF_TWO_def unat_eq_zero)
  then obtain k where k: "unat sz = 2 ^ k"
    using nat_and_pred_power_of_2 by blast
  have "(2::nat) ^ k < 2 ^ 16" using unat_u16_lt [of sz] k by simp
  then have "k < 16" by (rule power_less_imp_less_exp [rotated]) simp
  then have "k \<le> 15" by simp
  moreover have "sz - 1 = mask k"
    using k \<open>unat (sz - 1) = unat sz - 1\<close> calculation by (simp add: word_unat_eq_iff unat_mask_u16)
  ultimately show ?thesis using k by auto
qed

lemma ring_buffer_init_wf:
  assumes "RING_BUFFER_IS_POWER_OF_TWO sz" "sz \<noteq> 0" "length buf = unat sz"
  shows "rb_wf (ring_buffer_init buf sz)" "rb_contents (ring_buffer_init buf sz) = []"
    "rb_cap (ring_buffer_init buf sz) = unat sz - 1"
  using power_of_two_check [OF assms(1,2)] assms(3)
  by (auto simp: rb_wf_def ring_buffer_init_def rb_contents_def rb_count_def ring_dist_def rb_cap_def)

section \<open>Properties\<close>

text \<open>
  C22. A ring buffer initialised on a power-of-two storage is a FIFO of \<open>size - 1\<close> bytes: after
  any array was queued, dequeuing an array of any length returns the most recent bytes that
  fit, oldest first, what stays behind is the rest of them, and the indices stay inside the
  storage.
\<close>

theorem ring_buffer_fifo:
  assumes "RING_BUFFER_IS_POWER_OF_TWO sz" "sz \<noteq> 0" "length buf = unat sz"
    and "rb = ring_buffer_queue_arr (ring_buffer_init buf sz) ds"
    and "ring_buffer_dequeue_arr rb len = (out, rb')"
  shows "out = take (unat len) (keep_last (unat sz - 1) ds) \<and>
    rb_contents rb' = drop (unat len) (keep_last (unat sz - 1) ds) \<and>
    unat (tail_index rb') < unat sz \<and> unat (head_index rb') < unat sz"
proof -
  note init = ring_buffer_init_wf [OF assms(1-3)]
  have rb: "rb_wf rb" "rb_cap rb = unat sz - 1" "rb_contents rb = keep_last (unat sz - 1) ds"
    using init by (simp_all add: assms(4) ring_buffer_queue_arr_contents)
  note out = ring_buffer_dequeue_arr_spec [OF rb(1) assms(5)]
  moreover have "length (buffer rb') = unat sz"
  proof -
    have "0 < length (buffer rb')" "0 < unat sz"
      using out assms(2) by (auto simp: rb_wf_def unat_gt_0)
    moreover have "length (buffer rb') - 1 = unat sz - 1"
      using out rb(2) by (simp add: rb_cap_def)
    ultimately show ?thesis by linarith
  qed
  ultimately show ?thesis using rb by (simp add: rb_wf_def)
qed

theorem ring_buffer_fifo_witness:
  "ring_buffer_dequeue_arr (ring_buffer_queue_arr (ring_buffer_init [0, 0, 0, 0] 4) [1, 2, 3, 4, 5]) 2
     = ([3, 4], snd (ring_buffer_dequeue_arr
         (ring_buffer_queue_arr (ring_buffer_init [0, 0, 0, 0] 4) [1, 2, 3, 4, 5]) 2))"
proof -
  have p: "RING_BUFFER_IS_POWER_OF_TWO 4" by (simp add: RING_BUFFER_IS_POWER_OF_TWO_def)
  have "keep_last 3 [1, 2, 3, 4, 5 :: u8] = [3, 4, 5]" by (simp add: keep_last_def)
  with ring_buffer_fifo [OF p _ _ refl surjective_pairing, of "[0, 0, 0, 0]" "[1, 2, 3, 4, 5]" 2]
  show ?thesis by (simp add: prod_eq_iff)
qed

text \<open>
  The observers agree with the contents: emptiness, fullness, the item count, and peeking at
  any index.
\<close>

theorem ring_buffer_observers:
  assumes "rb_wf rb"
  shows "(ring_buffer_is_empty rb \<longleftrightarrow> rb_contents rb = []) \<and>
    (ring_buffer_is_full rb \<longleftrightarrow> length (rb_contents rb) = rb_cap rb) \<and>
    unat (ring_buffer_num_items rb) = length (rb_contents rb) \<and>
    ring_buffer_peek rb i =
      (if unat i < length (rb_contents rb) then Some (rb_contents rb ! unat i) else None)"
  using assms by (simp add: is_empty_count is_full_count num_items_count ring_buffer_peek_spec
      flip: length_0_conv)

theorem ring_buffer_observers_witness:
  "rb_wf (ring_buffer_queue (ring_buffer_init [0, 0] 2) 7) \<and>
   ring_buffer_peek (ring_buffer_queue (ring_buffer_init [0, 0] 2) 7) 0 = Some 7"
proof -
  have i: "rb_wf (ring_buffer_init [0, 0] 2)" "rb_contents (ring_buffer_init [0, 0] 2) = []"
    "rb_cap (ring_buffer_init [0, 0] 2) = 1"
    using ring_buffer_init_wf [of 2 "[0, 0]"] by (simp_all add: RING_BUFFER_IS_POWER_OF_TWO_def)
  have wf: "rb_wf (ring_buffer_queue (ring_buffer_init [0, 0] 2) 7)"
    using i(1) by (rule ring_buffer_queue_wf)
  have "rb_contents (ring_buffer_queue (ring_buffer_init [0, 0] 2) 7) = [7]"
    using i by (simp add: ring_buffer_queue_contents)
  with wf ring_buffer_observers [OF wf, of 0] show ?thesis by simp
qed

end
