(* ===== verification/Intrusive_List.thy ===== *)
theory Intrusive_List
  imports Prelude "HOL-Library.Monad_Syntax"
begin

text \<open>
  The circular doubly linked lists of \<^verbatim>\<open>kernel/core/list.h\<close>.  A node is the address of a
  \<^verbatim>\<open>struct list_node\<close>; the two pointer fields of all nodes are a heap (\<open>prv\<close>, \<open>nxt\<close>).  The
  functions are polymorphic in the address type because \<^verbatim>\<open>kernel/page.c\<close> has the same lists
  with far pointers.  A list is the address of its head node, and the element node is the first
  member of the structures that use it (\<^verbatim>\<open>struct task\<close>, \<^verbatim>\<open>struct blkdev\<close>, \<^verbatim>\<open>struct fs_mount\<close>),
  so \<^verbatim>\<open>containerof\<close> is the identity on addresses.

  The walks (\<^verbatim>\<open>list_for_every\<close>, \<^verbatim>\<open>list_for_every_entry\<close>) are partial functions whose result
  \<open>None\<close> is a walk that never comes back to the head.  \<open>is_list h l xs\<close> says that the list at
  \<open>l\<close> holds the nodes \<open>xs\<close>; \<open>rep_queues\<close> says it of several lists that share no node, which
  is the state of the kernel's queues.
\<close>

section \<open>Nodes and operations\<close>

record 'a node_heap =
  prv :: "'a \<Rightarrow> 'a"
  nxt :: "'a \<Rightarrow> 'a"

definition set_prv :: "'a node_heap \<Rightarrow> 'a \<Rightarrow> 'a \<Rightarrow> 'a node_heap" where
  "set_prv h a v = h\<lparr>prv := (prv h)(a := v)\<rparr>"

definition set_nxt :: "'a node_heap \<Rightarrow> 'a \<Rightarrow> 'a \<Rightarrow> 'a node_heap" where
  "set_nxt h a v = h\<lparr>nxt := (nxt h)(a := v)\<rparr>"

definition list_initialize :: "'a node_heap \<Rightarrow> 'a \<Rightarrow> 'a node_heap" where
  "list_initialize h l = set_prv (set_nxt h l l) l l"

definition list_clear_node :: "'a::zero node_heap \<Rightarrow> 'a \<Rightarrow> 'a node_heap" where
  "list_clear_node h item = set_prv (set_nxt h item 0) item 0"

definition list_in_list :: "'a::zero node_heap \<Rightarrow> 'a \<Rightarrow> bool" where
  "list_in_list h item = (if prv h item = 0 \<and> nxt h item = 0 then False else True)"

definition list_add_head :: "'a node_heap \<Rightarrow> 'a \<Rightarrow> 'a \<Rightarrow> 'a node_heap" where
  "list_add_head h list item =
     (let h = set_nxt h item (nxt h list);
          h = set_prv h item list;
          h = set_prv h (nxt h list) item;
          h = set_nxt h list item
      in h)"

definition list_add_tail :: "'a node_heap \<Rightarrow> 'a \<Rightarrow> 'a \<Rightarrow> 'a node_heap" where
  "list_add_tail h list item =
     (let h = set_prv h item (prv h list);
          h = set_nxt h item list;
          h = set_nxt h (prv h list) item;
          h = set_prv h list item
      in h)"

text \<open>\<^verbatim>\<open>list_add_after\<close> and \<^verbatim>\<open>list_add_before\<close> are macros for the two functions above.\<close>

definition list_add_after :: "'a node_heap \<Rightarrow> 'a \<Rightarrow> 'a \<Rightarrow> 'a node_heap" where
  "list_add_after h entry new_entry = list_add_head h entry new_entry"

definition list_add_before :: "'a node_heap \<Rightarrow> 'a \<Rightarrow> 'a \<Rightarrow> 'a node_heap" where
  "list_add_before h entry new_entry = list_add_tail h entry new_entry"

definition list_delete :: "'a::zero node_heap \<Rightarrow> 'a \<Rightarrow> 'a node_heap" where
  "list_delete h item =
     (let h = set_prv h (nxt h item) (prv h item);
          h = set_nxt h (prv h item) (nxt h item);
          h = set_nxt h item 0;
          h = set_prv h item 0
      in h)"

text \<open>The functions that return a node or \<^verbatim>\<open>NULL\<close> return \<open>0\<close> for \<^verbatim>\<open>NULL\<close>.\<close>

definition list_remove_head :: "'a::zero node_heap \<Rightarrow> 'a \<Rightarrow> 'a \<times> 'a node_heap" where
  "list_remove_head h list =
     (if nxt h list \<noteq> list then (nxt h list, list_delete h (nxt h list)) else (0, h))"

definition list_remove_tail :: "'a::zero node_heap \<Rightarrow> 'a \<Rightarrow> 'a \<times> 'a node_heap" where
  "list_remove_tail h list =
     (if prv h list \<noteq> list then (prv h list, list_delete h (prv h list)) else (0, h))"

definition list_peek_head :: "'a::zero node_heap \<Rightarrow> 'a \<Rightarrow> 'a" where
  "list_peek_head h list = (if nxt h list \<noteq> list then nxt h list else 0)"

definition list_peek_tail :: "'a::zero node_heap \<Rightarrow> 'a \<Rightarrow> 'a" where
  "list_peek_tail h list = (if prv h list \<noteq> list then prv h list else 0)"

definition list_prev :: "'a::zero node_heap \<Rightarrow> 'a \<Rightarrow> 'a \<Rightarrow> 'a" where
  "list_prev h list item = (if prv h item \<noteq> list then prv h item else 0)"

definition list_prev_wrap :: "'a::zero node_heap \<Rightarrow> 'a \<Rightarrow> 'a \<Rightarrow> 'a" where
  "list_prev_wrap h list item =
     (if prv h item \<noteq> list then prv h item
      else if prv h (prv h item) \<noteq> list then prv h (prv h item) else 0)"

definition list_next :: "'a::zero node_heap \<Rightarrow> 'a \<Rightarrow> 'a \<Rightarrow> 'a" where
  "list_next h list item = (if nxt h item \<noteq> list then nxt h item else 0)"

definition list_next_wrap :: "'a::zero node_heap \<Rightarrow> 'a \<Rightarrow> 'a \<Rightarrow> 'a" where
  "list_next_wrap h list item =
     (if nxt h item \<noteq> list then nxt h item
      else if nxt h (nxt h item) \<noteq> list then nxt h (nxt h item) else 0)"

definition list_is_empty :: "'a node_heap \<Rightarrow> 'a \<Rightarrow> bool" where
  "list_is_empty h list = (nxt h list = list)"

text \<open>The loop of \<^verbatim>\<open>list_length\<close>, with its 16-bit counter.\<close>

partial_function (option) list_length_from :: "'a node_heap \<Rightarrow> 'a \<Rightarrow> 'a \<Rightarrow> size_t \<Rightarrow> size_t option" where
  "list_length_from h list node cnt =
     (if node = list then Some cnt else list_length_from h list (nxt h node) (cnt + 1))"

definition list_length :: "'a node_heap \<Rightarrow> 'a \<Rightarrow> size_t option" where
  "list_length h list = list_length_from h list (nxt h list) 0"

text \<open>
  A \<^verbatim>\<open>list_for_every_entry\<close> loop that leaves at the first entry satisfying a condition:
  \<open>Some e\<close> where the body left with entry \<open>e\<close>, \<open>None\<close> where the loop ended.  Evaluating the
  condition reads the entry's structure and can itself be undefined.
\<close>

partial_function (option) list_find_from ::
    "'a node_heap \<Rightarrow> 'a \<Rightarrow> ('a \<Rightarrow> bool option) \<Rightarrow> 'a \<Rightarrow> 'a option option" where
  "list_find_from h list P node =
     (if node = list then Some None
      else do { b \<leftarrow> P node;
                if b then Some (Some node) else list_find_from h list P (nxt h node) })"

definition list_find_entry :: "'a node_heap \<Rightarrow> 'a \<Rightarrow> ('a \<Rightarrow> bool option) \<Rightarrow> 'a option option" where
  "list_find_entry h list P = list_find_from h list P (nxt h list)"

section \<open>Lists in the heap\<close>

text \<open>\<open>lseg h p xs q\<close>: following \<open>nxt\<close> from \<open>p\<close> visits \<open>xs\<close> and reaches \<open>q\<close>, and \<open>prv\<close> leads back.\<close>

fun lseg :: "'a node_heap \<Rightarrow> 'a \<Rightarrow> 'a list \<Rightarrow> 'a \<Rightarrow> bool" where
  "lseg h p [] q \<longleftrightarrow> nxt h p = q \<and> prv h q = p"
| "lseg h p (x # xs) q \<longleftrightarrow> nxt h p = x \<and> prv h x = p \<and> lseg h x xs q"

definition is_list :: "'a::zero node_heap \<Rightarrow> 'a \<Rightarrow> 'a list \<Rightarrow> bool" where
  "is_list h l xs \<longleftrightarrow> lseg h l xs l \<and> distinct (l # xs) \<and> 0 \<notin> set (l # xs)"

definition rep_queues :: "'a::zero node_heap \<Rightarrow> 'a list \<Rightarrow> ('a \<Rightarrow> 'a list) \<Rightarrow> bool" where
  "rep_queues h Qs f \<longleftrightarrow> (\<forall>q \<in> set Qs. is_list h q (f q)) \<and>
     (\<forall>q \<in> set Qs. \<forall>r \<in> set Qs. q \<noteq> r \<longrightarrow> set (q # f q) \<inter> set (r # f r) = {})"

text \<open>The nodes of all queues, the heads included.\<close>

definition queued :: "'a list \<Rightarrow> ('a \<Rightarrow> 'a list) \<Rightarrow> 'a set" where
  "queued Qs f = (\<Union>q \<in> set Qs. set (q # f q))"

section \<open>Segments\<close>

lemma set_fields [simp]:
  "prv (set_prv h a v) = (prv h)(a := v)" "nxt (set_prv h a v) = nxt h"
  "nxt (set_nxt h a v) = (nxt h)(a := v)" "prv (set_nxt h a v) = prv h"
  by (simp_all add: set_prv_def set_nxt_def)

lemma lseg_append [simp]:
  "lseg h p (xs @ y # ys) q \<longleftrightarrow> lseg h p xs y \<and> lseg h y ys q"
  by (induction xs arbitrary: p) auto

lemma lseg_frame:
  "(\<And>a. a \<in> set (p # xs) \<Longrightarrow> nxt h' a = nxt h a) \<Longrightarrow> (\<And>a. a \<in> set (xs @ [q]) \<Longrightarrow> prv h' a = prv h a) \<Longrightarrow>
     lseg h' p xs q \<longleftrightarrow> lseg h p xs q"
  by (induction xs arbitrary: p) auto

lemma lseg_first: "lseg h p xs q \<Longrightarrow> nxt h p = hd (xs @ [q])"
  by (cases xs) auto

lemma lseg_last: "lseg h p xs q \<Longrightarrow> prv h q = last (p # xs)"
  by (induction xs arbitrary: p) auto

lemma is_list_frame:
  "(\<And>a. a \<in> set (l # xs) \<Longrightarrow> nxt h' a = nxt h a \<and> prv h' a = prv h a) \<Longrightarrow> is_list h' l xs \<longleftrightarrow> is_list h l xs"
  using lseg_frame [of l xs h' h l] by (auto simp: is_list_def)

lemma is_list_nonzero: "is_list h l xs \<Longrightarrow> x \<in> set xs \<Longrightarrow> x \<noteq> 0"
  by (auto simp: is_list_def)

text \<open>A list can be read starting at any of its nodes.\<close>

lemma is_list_rotate: "is_list h l (xs @ e # ys) \<longleftrightarrow> is_list h e (ys @ l # xs)"
  by (auto simp: is_list_def)

section \<open>Insertion and removal at a node\<close>

lemma list_add_head_is_list:
  assumes "is_list h l xs" "item \<notin> set (l # xs)" "item \<noteq> 0"
  shows "is_list (list_add_head h l item) l (item # xs)"
proof (cases xs)
  case Nil
  with assms show ?thesis by (auto simp: is_list_def list_add_head_def Let_def)
next
  case (Cons x ys)
  with assms have "lseg (list_add_head h l item) x ys l \<longleftrightarrow> lseg h x ys l"
    by (intro lseg_frame) (auto simp: is_list_def list_add_head_def Let_def)
  with Cons assms show ?thesis
    by (auto simp: is_list_def) (auto simp: list_add_head_def Let_def)
qed

lemma list_add_tail_is_list:
  assumes "is_list h l xs" "item \<notin> set (l # xs)" "item \<noteq> 0"
  shows "is_list (list_add_tail h l item) l (xs @ [item])"
proof (cases xs rule: rev_cases)
  case Nil
  with assms show ?thesis by (auto simp: is_list_def list_add_tail_def Let_def)
next
  case (snoc ys x)
  with assms have "lseg (list_add_tail h l item) l ys x \<longleftrightarrow> lseg h l ys x"
    by (intro lseg_frame) (auto simp: is_list_def list_add_tail_def Let_def)
  with snoc assms show ?thesis
    by (auto simp: is_list_def) (auto simp: list_add_tail_def Let_def)
qed

lemma list_delete_head:
  assumes "is_list h l (item # xs)"
  shows "is_list (list_delete h item) l xs"
proof (cases xs)
  case Nil
  with assms show ?thesis by (auto simp: is_list_def list_delete_def Let_def)
next
  case (Cons x ys)
  with assms have "lseg (list_delete h item) x ys l \<longleftrightarrow> lseg h x ys l"
    by (intro lseg_frame) (auto simp: is_list_def list_delete_def Let_def)
  with Cons assms show ?thesis
    by (auto simp: is_list_def) (auto simp: list_delete_def Let_def)
qed

lemma list_delete_is_list:
  assumes "is_list h l (xs @ item # ys)"
  shows "is_list (list_delete h item) l (xs @ ys)"
proof (cases xs rule: rev_cases)
  case Nil
  with assms show ?thesis by (simp add: list_delete_head)
next
  case (snoc zs x)
  with assms have "is_list h x (item # ys @ l # zs)"
    using is_list_rotate [of h l zs x "item # ys"] by simp
  then have "is_list (list_delete h item) x (ys @ l # zs)" by (rule list_delete_head)
  with snoc show ?thesis using is_list_rotate [of _ l zs x ys] by simp
qed

lemma list_add_after_is_list:
  assumes "is_list h l (xs @ e # ys)" "item \<notin> set (l # xs @ e # ys)" "item \<noteq> 0"
  shows "is_list (list_add_after h e item) l (xs @ e # item # ys)"
  using list_add_head_is_list [of h e "ys @ l # xs" item] assms is_list_rotate [of _ l xs e]
    is_list_rotate [of _ l xs e "item # ys"]
  by (auto simp: list_add_after_def)

lemma list_add_before_is_list:
  assumes "is_list h l (xs @ e # ys)" "item \<notin> set (l # xs @ e # ys)" "item \<noteq> 0"
  shows "is_list (list_add_before h e item) l (xs @ item # e # ys)"
proof -
  have "is_list (list_add_tail h e item) e ((ys @ l # xs) @ [item])"
    using assms is_list_rotate [of h l xs e ys] by (intro list_add_tail_is_list) auto
  then show ?thesis using is_list_rotate [of _ l "xs @ [item]" e ys]
    by (simp add: list_add_before_def)
qed

section \<open>What an operation leaves alone\<close>

lemma list_add_head_frame:
  "is_list h l xs \<Longrightarrow> a \<notin> set (l # xs) \<Longrightarrow> a \<noteq> item \<Longrightarrow>
     nxt (list_add_head h l item) a = nxt h a \<and> prv (list_add_head h l item) a = prv h a"
  by (cases xs) (auto simp: is_list_def list_add_head_def Let_def dest: lseg_first)

lemma list_add_tail_frame:
  assumes "is_list h l xs" "a \<notin> set (l # xs)" "a \<noteq> item"
  shows "nxt (list_add_tail h l item) a = nxt h a \<and> prv (list_add_tail h l item) a = prv h a"
proof -
  have "prv h l \<in> set (l # xs)"
    using assms(1) lseg_last [of h l xs l] last_in_set [of "l # xs"] by (auto simp: is_list_def)
  with assms show ?thesis by (auto simp: list_add_tail_def Let_def)
qed

lemma is_list_neighbours:
  assumes "is_list h l xs" "item \<in> set (l # xs)"
  shows "nxt h item \<in> set (l # xs)" "prv h item \<in> set (l # xs)"
proof -
  obtain ys where ys: "is_list h item ys" "set (item # ys) = set (l # xs)"
  proof (cases "item = l")
    case True
    with assms that show ?thesis by blast
  next
    case False
    with assms obtain us vs where "xs = us @ item # vs" by (auto simp: in_set_conv_decomp)
    with assms is_list_rotate [of h l us item vs] that [of "vs @ l # us"] show ?thesis by auto
  qed
  from ys(1) have l: "lseg h item ys item" by (simp add: is_list_def)
  show "nxt h item \<in> set (l # xs)"
    unfolding ys(2) [symmetric] using lseg_first [OF l] by (cases ys) auto
  show "prv h item \<in> set (l # xs)"
    unfolding ys(2) [symmetric] using lseg_last [OF l] last_in_set [of "item # ys"] by auto
qed

lemma list_delete_frame:
  assumes "is_list h l xs" "item \<in> set xs" "a \<notin> set (l # xs)"
  shows "nxt (list_delete h item) a = nxt h a \<and> prv (list_delete h item) a = prv h a"
  using is_list_neighbours [OF assms(1), of item] assms(2,3)
  by (auto simp: list_delete_def Let_def)

section \<open>Walks and observers\<close>

lemma list_is_empty_iff: "is_list h l xs \<Longrightarrow> list_is_empty h l \<longleftrightarrow> xs = []"
  by (cases xs) (auto simp: is_list_def list_is_empty_def)

lemma list_peek_head_is_list: "is_list h l xs \<Longrightarrow> list_peek_head h l = (if xs = [] then 0 else hd xs)"
  by (cases xs) (auto simp: is_list_def list_peek_head_def)

lemma list_peek_tail_is_list: "is_list h l xs \<Longrightarrow> list_peek_tail h l = (if xs = [] then 0 else last xs)"
  by (cases xs rule: rev_cases) (auto simp: is_list_def list_peek_tail_def)

lemma list_remove_head_Cons:
  "is_list h l (x # xs) \<Longrightarrow> list_remove_head h l = (x, list_delete h x)"
  by (auto simp: is_list_def list_remove_head_def)

lemma list_remove_head_Nil: "is_list h l [] \<Longrightarrow> list_remove_head h l = (0, h)"
  by (auto simp: is_list_def list_remove_head_def)

lemma list_remove_tail_snoc:
  "is_list h l (xs @ [x]) \<Longrightarrow> list_remove_tail h l = (x, list_delete h x)"
  by (auto simp: is_list_def list_remove_tail_def)

lemma list_length_from_lseg:
  "lseg h p xs l \<Longrightarrow> l \<notin> set xs \<Longrightarrow> list_length_from h l (nxt h p) cnt = Some (cnt + of_nat (length xs))"
proof (induction xs arbitrary: p cnt)
  case Nil
  then show ?case by (simp add: list_length_from.simps)
next
  case (Cons x xs)
  then have "list_length_from h l (nxt h p) cnt = list_length_from h l (nxt h x) (cnt + 1)"
    by (subst list_length_from.simps) auto
  with Cons show ?case by (simp add: ac_simps)
qed

lemma list_find_from_lseg:
  "lseg h p xs l \<Longrightarrow> l \<notin> set xs \<Longrightarrow> (\<And>x. x \<in> set xs \<Longrightarrow> P x = Some (b x)) \<Longrightarrow>
     list_find_from h l P (nxt h p) = Some (find b xs)"
proof (induction xs arbitrary: p)
  case Nil
  then show ?case by (simp add: list_find_from.simps)
next
  case (Cons x xs)
  then have "nxt h p = x" "x \<noteq> l" "P x = Some (b x)" by auto
  then have "list_find_from h l P (nxt h p) =
      (if b x then Some (Some x) else list_find_from h l P (nxt h x))"
    by (subst list_find_from.simps) simp
  with Cons show ?case by simp
qed

lemma list_find_entry_is_list:
  "is_list h l xs \<Longrightarrow> (\<And>x. x \<in> set xs \<Longrightarrow> P x = Some (b x)) \<Longrightarrow> list_find_entry h l P = Some (find b xs)"
  by (auto simp: list_find_entry_def is_list_def intro!: list_find_from_lseg)

text \<open>A walk that reaches an entry whose condition cannot be evaluated is undefined.\<close>

lemma list_find_from_faults:
  "lseg h p (us @ x # vs) l \<Longrightarrow> l \<notin> set (us @ x # vs) \<Longrightarrow> (\<And>u. u \<in> set us \<Longrightarrow> P u = Some False) \<Longrightarrow> P x = None \<Longrightarrow>
     list_find_from h l P (nxt h p) = None"
proof (induction us arbitrary: p)
  case Nil
  then show ?case by (auto simp: list_find_from.simps)
next
  case (Cons u us)
  then have "list_find_from h l P (nxt h p) = list_find_from h l P (nxt h u)"
    by (subst list_find_from.simps) auto
  with Cons show ?case by simp
qed

lemma list_find_entry_faults:
  "is_list h l (us @ x # vs) \<Longrightarrow> (\<And>u. u \<in> set us \<Longrightarrow> P u = Some False) \<Longrightarrow> P x = None \<Longrightarrow> list_find_entry h l P = None"
  unfolding list_find_entry_def is_list_def by (rule list_find_from_faults) auto

lemma find_split:
  "find b xs = Some x \<Longrightarrow> xs = takeWhile (\<lambda>y. \<not> b y) xs @ x # tl (dropWhile (\<lambda>y. \<not> b y) xs) \<and> b x"
  by (induction xs) (auto split: if_splits)

lemma find_Some_set: "find b xs = Some x \<Longrightarrow> x \<in> set xs"
  by (auto simp: find_Some_iff)

section \<open>Several lists\<close>

lemma rep_queuesD:
  "rep_queues h Qs f \<Longrightarrow> q \<in> set Qs \<Longrightarrow> is_list h q (f q)"
  by (simp add: rep_queues_def)

lemma rep_queues_unique:
  "rep_queues h Qs f \<Longrightarrow> q \<in> set Qs \<Longrightarrow> r \<in> set Qs \<Longrightarrow> x \<in> set (q # f q) \<Longrightarrow> x \<in> set (r # f r) \<Longrightarrow> q = r"
  unfolding rep_queues_def by blast

text \<open>An operation on one list, within its nodes and possibly a fresh one, leaves the others.\<close>

lemma rep_queues_step:
  assumes rep: "rep_queues h Qs f" and q: "q \<in> set Qs"
    and new: "is_list h' q ys" and nodes: "set ys \<subseteq> set (f q) \<union> N"
    and fresh: "N \<inter> queued Qs f = {}"
    and frame: "\<And>a. a \<notin> set (q # f q) \<Longrightarrow> a \<notin> N \<Longrightarrow> nxt h' a = nxt h a \<and> prv h' a = prv h a"
  shows "rep_queues h' Qs (f(q := ys))"
proof -
  have other: "is_list h' r (f r)" if r: "r \<in> set Qs" "r \<noteq> q" for r
  proof -
    have "set (r # f r) \<inter> set (q # f q) = {}" "set (r # f r) \<inter> N = {}"
      using rep q r fresh by (auto simp: rep_queues_def queued_def)
    then have "is_list h' r (f r) \<longleftrightarrow> is_list h r (f r)"
      by (intro is_list_frame frame) auto
    then show ?thesis using rep r by (simp add: rep_queues_def)
  qed
  have disj: "set (q # ys) \<inter> set (r # f r) = {}" if r: "r \<in> set Qs" "r \<noteq> q" for r
    using rep q r nodes fresh unfolding rep_queues_def queued_def by fastforce
  show ?thesis
    unfolding rep_queues_def
  proof (intro conjI ballI impI)
    fix r assume "r \<in> set Qs"
    then show "is_list h' r ((f(q := ys)) r)" using new other by auto
  next
    fix r s assume "r \<in> set Qs" "s \<in> set Qs" "r \<noteq> s"
    then show "set (r # (f(q := ys)) r) \<inter> set (s # (f(q := ys)) s) = {}"
      using disj rep by (cases "r = q"; cases "s = q") (auto simp: rep_queues_def)
  qed
qed

lemma rep_add_before:
  assumes "rep_queues h Qs f" "q \<in> set Qs" "f q = xs @ e # ys" "item \<notin> queued Qs f" "item \<noteq> 0"
  shows "rep_queues (list_add_before h e item) Qs (f(q := xs @ item # e # ys))"
proof (rule rep_queues_step [OF assms(1,2), where N = "{item}"])
  note l = rep_queuesD [OF assms(1,2), unfolded assms(3)]
  have i: "item \<notin> set (q # xs @ e # ys)" using assms by (auto simp: queued_def)
  show "is_list (list_add_before h e item) q (xs @ item # e # ys)"
    using l i assms(5) by (rule list_add_before_is_list)
  show "nxt (list_add_before h e item) a = nxt h a \<and> prv (list_add_before h e item) a = prv h a"
    if "a \<notin> set (q # f q)" "a \<notin> {item}" for a
    unfolding list_add_before_def
    by (rule list_add_tail_frame [where xs = "ys @ q # xs"])
      (use l that assms(3) is_list_rotate [of h q xs e ys] in auto)
qed (use assms in auto)

lemma rep_add_after:
  assumes "rep_queues h Qs f" "q \<in> set Qs" "f q = xs @ e # ys" "item \<notin> queued Qs f" "item \<noteq> 0"
  shows "rep_queues (list_add_after h e item) Qs (f(q := xs @ e # item # ys))"
proof (rule rep_queues_step [OF assms(1,2), where N = "{item}"])
  note l = rep_queuesD [OF assms(1,2), unfolded assms(3)]
  have i: "item \<notin> set (q # xs @ e # ys)" using assms by (auto simp: queued_def)
  show "is_list (list_add_after h e item) q (xs @ e # item # ys)"
    using l i assms(5) by (rule list_add_after_is_list)
  show "nxt (list_add_after h e item) a = nxt h a \<and> prv (list_add_after h e item) a = prv h a"
    if "a \<notin> set (q # f q)" "a \<notin> {item}" for a
    unfolding list_add_after_def
    by (rule list_add_head_frame [where xs = "ys @ q # xs"])
      (use l that assms(3) is_list_rotate [of h q xs e ys] in auto)
qed (use assms in auto)

lemma rep_add_tail:
  assumes "rep_queues h Qs f" "q \<in> set Qs" "item \<notin> queued Qs f" "item \<noteq> 0"
  shows "rep_queues (list_add_tail h q item) Qs (f(q := f q @ [item]))"
proof (rule rep_queues_step [OF assms(1,2), where N = "{item}"])
  note l = rep_queuesD [OF assms(1,2)]
  show "is_list (list_add_tail h q item) q (f q @ [item])"
    using l assms by (intro list_add_tail_is_list) (auto simp: queued_def)
  show "nxt (list_add_tail h q item) a = nxt h a \<and> prv (list_add_tail h q item) a = prv h a"
    if "a \<notin> set (q # f q)" "a \<notin> {item}" for a
    using that by (intro list_add_tail_frame [OF l]) auto
qed (use assms in auto)

lemma rep_add_head:
  assumes "rep_queues h Qs f" "q \<in> set Qs" "item \<notin> queued Qs f" "item \<noteq> 0"
  shows "rep_queues (list_add_head h q item) Qs (f(q := item # f q))"
proof (rule rep_queues_step [OF assms(1,2), where N = "{item}"])
  note l = rep_queuesD [OF assms(1,2)]
  show "is_list (list_add_head h q item) q (item # f q)"
    using l assms by (intro list_add_head_is_list) (auto simp: queued_def)
  show "nxt (list_add_head h q item) a = nxt h a \<and> prv (list_add_head h q item) a = prv h a"
    if "a \<notin> set (q # f q)" "a \<notin> {item}" for a
    using that by (intro list_add_head_frame [OF l]) auto
qed (use assms in auto)

lemma rep_delete:
  assumes "rep_queues h Qs f" "q \<in> set Qs" "f q = xs @ item # ys"
  shows "rep_queues (list_delete h item) Qs (f(q := xs @ ys))"
proof (rule rep_queues_step [OF assms(1,2), where N = "{}"])
  note l = rep_queuesD [OF assms(1,2), unfolded assms(3)]
  show "is_list (list_delete h item) q (xs @ ys)" using l by (rule list_delete_is_list)
  show "nxt (list_delete h item) a = nxt h a \<and> prv (list_delete h item) a = prv h a"
    if "a \<notin> set (q # f q)" "a \<notin> {}" for a
    using that assms(3) by (intro list_delete_frame [OF l]) auto
qed (use assms in auto)

lemma rep_remove_head:
  assumes "rep_queues h Qs f" "q \<in> set Qs" "f q = x # xs"
  shows "fst (list_remove_head h q) = x" "rep_queues (snd (list_remove_head h q)) Qs (f(q := xs))"
  using list_remove_head_Cons [of h q x xs] rep_queuesD [OF assms(1,2)]
    rep_delete [of h Qs f q "[]" x xs] assms by simp_all

section \<open>The interface: queues of nodes\<close>

text \<open>
  What the users of linked lists rely on: a heap represents an assignment of node sequences to
  the list heads, the operations act on the sequence of one list, and the removed node can be
  queued again.
\<close>

locale node_queues =
  fixes rep :: "'h \<Rightarrow> 'a::zero list \<Rightarrow> ('a \<Rightarrow> 'a list) \<Rightarrow> bool"
    and push :: "'h \<Rightarrow> 'a \<Rightarrow> 'a \<Rightarrow> 'h"
    and queue :: "'h \<Rightarrow> 'a \<Rightarrow> 'a \<Rightarrow> 'h"
    and pop :: "'h \<Rightarrow> 'a \<Rightarrow> 'a \<times> 'h"
    and empty :: "'h \<Rightarrow> 'a \<Rightarrow> bool"
  assumes push_rep: "rep h Qs f \<Longrightarrow> q \<in> set Qs \<Longrightarrow> x \<notin> queued Qs f \<Longrightarrow> x \<noteq> 0 \<Longrightarrow>
      rep (push h q x) Qs (f(q := x # f q))"
    and queue_rep: "rep h Qs f \<Longrightarrow> q \<in> set Qs \<Longrightarrow> x \<notin> queued Qs f \<Longrightarrow> x \<noteq> 0 \<Longrightarrow>
      rep (queue h q x) Qs (f(q := f q @ [x]))"
    and pop_rep: "rep h Qs f \<Longrightarrow> q \<in> set Qs \<Longrightarrow> f q = x # xs \<Longrightarrow>
      fst (pop h q) = x \<and> rep (snd (pop h q)) Qs (f(q := xs))"
    and pop_empty: "rep h Qs f \<Longrightarrow> q \<in> set Qs \<Longrightarrow> f q = [] \<Longrightarrow> pop h q = (0, h)"
    and empty_rep: "rep h Qs f \<Longrightarrow> q \<in> set Qs \<Longrightarrow> empty h q \<longleftrightarrow> f q = []"
begin

lemma queue_all:
  "rep h Qs f \<Longrightarrow> q \<in> set Qs \<Longrightarrow> distinct xs \<Longrightarrow> set xs \<inter> queued Qs f = {} \<Longrightarrow> 0 \<notin> set xs \<Longrightarrow>
     rep (foldl (\<lambda>h x. queue h q x) h xs) Qs (f(q := f q @ xs))"
proof (induction xs arbitrary: h f)
  case Nil
  then show ?case by simp
next
  case (Cons x xs)
  let ?f = "f(q := f q @ [x])"
  have rep: "rep (queue h q x) Qs ?f" using Cons.prems by (intro queue_rep) auto
  have "queued Qs ?f = insert x (queued Qs f)"
    using Cons.prems(2) by (auto simp: queued_def split: if_splits)
  then have fresh: "set xs \<inter> queued Qs ?f = {}" using Cons.prems(3,4) by simp
  have "rep (foldl (\<lambda>h x. queue h q x) (queue h q x) xs) Qs (?f(q := ?f q @ xs))"
    by (rule Cons.IH [OF rep Cons.prems(2) _ fresh]) (use Cons.prems in auto)
  moreover have "?f(q := ?f q @ xs) = f(q := f q @ x # xs)" by auto
  ultimately show ?case by (simp only: foldl.simps)
qed

lemma push_pop: "rep h Qs f \<Longrightarrow> q \<in> set Qs \<Longrightarrow> x \<notin> queued Qs f \<Longrightarrow> x \<noteq> 0 \<Longrightarrow>
    fst (pop (push h q x) q) = x \<and> rep (snd (pop (push h q x) q)) Qs f"
  using pop_rep [of "push h q x" Qs "f(q := x # f q)" q x "f q"] push_rep [of h Qs f q x] by simp

end

interpretation listq: node_queues rep_queues list_add_head list_add_tail list_remove_head list_is_empty
proof unfold_locales
  fix h :: "'a::zero node_heap" and Qs f q x xs
  assume rep: "rep_queues h Qs f" "q \<in> set Qs"
  show "rep_queues (list_add_head h q x) Qs (f(q := x # f q))" if "x \<notin> queued Qs f" "x \<noteq> 0"
    using rep that by (rule rep_add_head)
  show "rep_queues (list_add_tail h q x) Qs (f(q := f q @ [x]))" if "x \<notin> queued Qs f" "x \<noteq> 0"
    using rep that by (rule rep_add_tail)
  show "fst (list_remove_head h q) = x \<and> rep_queues (snd (list_remove_head h q)) Qs (f(q := xs))"
    if "f q = x # xs" using rep_remove_head [OF rep that] by simp
  show "list_remove_head h q = (0, h)" if "f q = []"
    using rep_queuesD [OF rep] that by (simp add: list_remove_head_Nil)
  show "list_is_empty h q \<longleftrightarrow> f q = []"
    using rep_queuesD [OF rep] by (rule list_is_empty_iff)
qed

section \<open>Properties\<close>

text \<open>
  C21. The pointer surgery of \<^verbatim>\<open>list_delete\<close>, \<^verbatim>\<open>list_add_before\<close> and \<^verbatim>\<open>list_add_after\<close> at any
  node of a list implements removal and insertion at that place of the sequence the list
  represents, and leaves every other list of the heap as it is.
\<close>

theorem list_surgery:
  assumes "rep_queues h Qs f" "q \<in> set Qs" "f q = xs @ e # ys" "x \<notin> queued Qs f" "x \<noteq> 0"
  shows "rep_queues (list_delete h e) Qs (f(q := xs @ ys)) \<and>
    rep_queues (list_add_before h e x) Qs (f(q := xs @ x # e # ys)) \<and>
    rep_queues (list_add_after h e x) Qs (f(q := xs @ e # x # ys)) \<and>
    \<not> list_in_list (list_delete h e) e"
  using rep_delete [OF assms(1-3)] rep_add_before [OF assms] rep_add_after [OF assms]
  by (simp add: list_in_list_def list_delete_def Let_def)

text \<open>A heap for the witnesses: two lists at addresses 1 and 2, the first holding nodes 3 and 4.\<close>

definition sample_heap :: "u16 node_heap" where
  "sample_heap = list_add_tail (list_add_tail (list_initialize (list_initialize
     \<lparr>prv = (\<lambda>_. 0), nxt = (\<lambda>_. 0)\<rparr> 1) 2) 1 3) 1 4"

lemma sample_heap_rep: "rep_queues sample_heap [1, 2] ((\<lambda>_. [])(1 := [3, 4]))"
  by (simp add: sample_heap_def rep_queues_def is_list_def list_add_tail_def list_initialize_def
      Let_def)

theorem list_surgery_witness:
  "rep_queues (list_delete sample_heap 3) [1, 2] ((\<lambda>_. [])(1 := [4])) \<and>
   rep_queues (list_add_before sample_heap 3 5) [1, 2] ((\<lambda>_. [])(1 := [5, 3, 4]))"
  using list_surgery [OF sample_heap_rep, of 1 "[]" 3 "[4]" 5] by (simp add: queued_def)

text \<open>
  Every walk over a represented list ends: \<^verbatim>\<open>list_length\<close> returns the number of nodes (in
  16 bits), and a \<^verbatim>\<open>list_for_every_entry\<close> loop that leaves at the first entry satisfying a
  condition finds exactly the first such node of the sequence, or none.
\<close>

theorem list_walks_end:
  assumes "is_list h l xs" "\<And>x. x \<in> set xs \<Longrightarrow> P x = Some (b x)"
  shows "list_length h l = Some (of_nat (length xs)) \<and> list_find_entry h l P = Some (find b xs)"
  using assms list_find_entry_is_list [OF assms(1), of P b] list_length_from_lseg [of h l xs l 0]
  by (simp add: is_list_def list_length_def)

theorem list_walks_end_witness:
  "list_length sample_heap 1 = Some 2 \<and> list_find_entry sample_heap 1 (\<lambda>x. Some (x = 4)) = Some (Some 4)"
  using list_walks_end [of sample_heap 1 "[3, 4]" "\<lambda>x. Some (x = 4)" "\<lambda>x. x = 4"]
    rep_queuesD [OF sample_heap_rep, of 1] by simp

end
