(* ===== verification/Task.thy ===== *)
theory Task
  imports Prelude "HOL-Library.Monad_Syntax"
begin

text \<open>
  The process structure of \<^verbatim>\<open>kernel/core/task.h\<close> and its descriptor table
  (\<^verbatim>\<open>kernel/core/task.c\<close>).  Pointers are 16-bit near addresses, \<open>0\<close> being \<^verbatim>\<open>NULL\<close>.

  The descriptor table is the block \<^verbatim>\<open>calloc\<close> returned for it.  It is modelled by the entries
  that lie inside the block: \<^verbatim>\<open>task_put_desc\<close> asks for \<^verbatim>\<open>MAX_FD * sizeof(desc_t)\<close> bytes, so the
  block holds fewer than \<open>MAX_FD\<close> structures, and the result \<open>None\<close> of an operation is an access
  outside of it.
\<close>

type_synonym ptr = u16

datatype task_state = READY | RUNNING | WAITING | ZOMBIE

datatype desc_t = DESC_UNSET | DESC_FILE | DESC_DIR | DESC_MAX

record descriptor =
  desc_type :: desc_t
  handle :: ptr

record cpu_context =
  ctx_sp :: ptr
  ctx_ss :: u16

text \<open>
  \<^verbatim>\<open>wait_state\<close> is an untyped pointer to what the sleeping task waits for: the process id of
  \<^verbatim>\<open>scheduler_wait\<close>, the deadline of \<^verbatim>\<open>clk_nanosleep\<close>, or the block request of the
  CompactFlash driver.
\<close>

datatype wait_data = WNone | WPid int | WDeadline u64 | WBio ptr

record task =
  state :: task_state
  pid :: int
  parent :: int
  prio :: int
  ctx :: cpu_context
  status :: int
  stack :: ptr
  wait_state :: wait_data
  descriptors :: "descriptor list option"

definition MAX_FD :: nat where "MAX_FD = 16"

text \<open>Sizes of \<^verbatim>\<open>desc_t\<close> (an \<^verbatim>\<open>int\<close>) and of \<^verbatim>\<open>struct descriptor\<close> (an \<^verbatim>\<open>int\<close> and a near pointer).\<close>

definition sizeof_desc_t :: nat where "sizeof_desc_t = 2"
definition sizeof_descriptor :: nat where "sizeof_descriptor = 4"

text \<open>What \<^verbatim>\<open>calloc\<close> returns: zeroed memory.\<close>

definition zero_descriptor :: descriptor where
  "zero_descriptor = \<lparr>desc_type = DESC_UNSET, handle = 0\<rparr>"

definition zero_task :: task where
  "zero_task = \<lparr>state = READY, pid = 0, parent = 0, prio = 0, ctx = \<lparr>ctx_sp = 0, ctx_ss = 0\<rparr>,
     status = 0, stack = 0, wait_state = WNone, descriptors = None\<rparr>"

definition calloc_descriptors :: "descriptor list" where
  "calloc_descriptors =
     replicate ((MAX_FD * sizeof_desc_t) div sizeof_descriptor) zero_descriptor"

definition task_set_desc :: "descriptor \<Rightarrow> desc_t \<Rightarrow> ptr \<Rightarrow> descriptor" where
  "task_set_desc d type h =
     (let d = d\<lparr>desc_type := type\<rparr>
      in case type of
           DESC_FILE \<Rightarrow> d\<lparr>handle := h\<rparr>
         | DESC_DIR \<Rightarrow> d\<lparr>handle := h\<rparr>
         | _ \<Rightarrow> d)"

text \<open>
  The search loop of \<^verbatim>\<open>task_put_desc\<close> from index \<open>i\<close> with \<open>n\<close> iterations to go: the index and
  the new table, or the error code.
\<close>

fun task_put_desc_loop ::
    "descriptor list \<Rightarrow> desc_t \<Rightarrow> ptr \<Rightarrow> nat \<Rightarrow> nat \<Rightarrow> (int \<times> descriptor list) option" where
  "task_put_desc_loop ds type h i 0 = Some (ERR_NO_MEM, ds)"
| "task_put_desc_loop ds type h i (Suc n) =
     (if i \<ge> length ds then None
      else if desc_type (ds ! i) = DESC_UNSET
      then Some (int i, ds[i := task_set_desc (ds ! i) type h])
      else task_put_desc_loop ds type h (Suc i) n)"

text \<open>\<open>alloc\<close> tells whether the \<^verbatim>\<open>calloc\<close> of the table succeeds; the source does not check it.\<close>

definition task_put_desc :: "bool \<Rightarrow> task \<Rightarrow> desc_t \<Rightarrow> ptr \<Rightarrow> (int \<times> task) option" where
  "task_put_desc alloc t type h =
     do { ds \<leftarrow> (case descriptors t of
                   None \<Rightarrow> if alloc then Some calloc_descriptors else None
                 | Some ds \<Rightarrow> Some ds);
          (r, ds') \<leftarrow> task_put_desc_loop ds type h 0 MAX_FD;
          Some (r, t\<lparr>descriptors := Some ds'\<rparr>) }"

text \<open>\<^verbatim>\<open>task_get_desc\<close> indexes the table with the unchecked \<^verbatim>\<open>fd\<close>; the inner result is \<^verbatim>\<open>NULL\<close> or the entry.\<close>

definition task_get_desc :: "task \<Rightarrow> int \<Rightarrow> descriptor option option" where
  "task_get_desc t fd =
     (case descriptors t of
        None \<Rightarrow> Some None
      | Some ds \<Rightarrow>
          if fd < 0 \<or> nat fd \<ge> length ds then None
          else if desc_type (ds ! nat fd) \<noteq> DESC_UNSET then Some (Some (ds ! nat fd))
          else Some None)"

definition task_reset_desc :: "task \<Rightarrow> int \<Rightarrow> task option" where
  "task_reset_desc t fd =
     (case descriptors t of
        None \<Rightarrow> None
      | Some ds \<Rightarrow>
          if fd < 0 \<or> nat fd \<ge> length ds then None
          else Some (t\<lparr>descriptors := Some (ds[nat fd := (ds ! nat fd)\<lparr>desc_type := DESC_UNSET\<rparr>])\<rparr>))"

section \<open>The descriptor table\<close>

lemma task_put_desc_loop_spec:
  assumes "i + n = MAX_FD" "\<exists>j. i \<le> j \<and> j < length ds \<and> j < MAX_FD \<and> desc_type (ds ! j) = DESC_UNSET"
  shows "\<exists>j. i \<le> j \<and> j < length ds \<and> desc_type (ds ! j) = DESC_UNSET \<and>
    (\<forall>k. i \<le> k \<and> k < j \<longrightarrow> desc_type (ds ! k) \<noteq> DESC_UNSET) \<and>
    task_put_desc_loop ds type h i n = Some (int j, ds[j := task_set_desc (ds ! j) type h])"
  using assms
proof (induction n arbitrary: i)
  case 0
  then show ?case by (auto simp: MAX_FD_def)
next
  case (Suc n)
  then obtain j where j: "i \<le> j" "j < length ds" "j < MAX_FD" "desc_type (ds ! j) = DESC_UNSET"
    by blast
  show ?case
  proof (cases "desc_type (ds ! i) = DESC_UNSET")
    case True
    with j show ?thesis by (intro exI [of _ i]) auto
  next
    case False
    with j have "Suc i \<le> j" by (metis le_eq_less_or_eq Suc_leI)
    with Suc.IH [of "Suc i"] Suc.prems j obtain k where
      "Suc i \<le> k \<and> k < length ds \<and> desc_type (ds ! k) = DESC_UNSET \<and>
       (\<forall>m. Suc i \<le> m \<and> m < k \<longrightarrow> desc_type (ds ! m) \<noteq> DESC_UNSET) \<and>
       task_put_desc_loop ds type h (Suc i) n = Some (int k, ds[k := task_set_desc (ds ! k) type h])"
      by auto
    with False j show ?thesis
      by (intro exI [of _ k]) (auto simp: Suc_le_eq dest: le_neq_implies_less)
  qed
qed

lemma task_put_desc_loop_full:
  "i + n = MAX_FD \<Longrightarrow> i \<le> length ds \<Longrightarrow> \<forall>k < length ds. desc_type (ds ! k) \<noteq> DESC_UNSET \<Longrightarrow>
     task_put_desc_loop ds type h i n = (if length ds < MAX_FD then None else Some (ERR_NO_MEM, ds))"
proof (induction n arbitrary: i)
  case 0
  then show ?case by auto
next
  case (Suc n)
  show ?case
  proof (cases "i < length ds")
    case True
    with Suc.prems show ?thesis using Suc.IH [of "Suc i"] by auto
  next
    case False
    with Suc.prems show ?thesis by auto
  qed
qed

lemma nth_list_update_fd [simp]:
  "fd \<noteq> int j \<Longrightarrow> \<not> fd < 0 \<Longrightarrow> xs[j := x] ! nat fd = xs ! nat fd"
  by (rule nth_list_update_neq) auto

section \<open>Properties\<close>

text \<open>
  A handle put into a descriptor table with a free entry gets the lowest free index, the
  lookup of that index returns it, resetting it makes the lookup fail and the other descriptors
  are unchanged by both.
\<close>

theorem task_desc_roundtrip:
  assumes "descriptors t = Some ds" "\<exists>j < length ds. j < MAX_FD \<and> desc_type (ds ! j) = DESC_UNSET"
    and "type = DESC_FILE \<or> type = DESC_DIR"
  shows "\<exists>j t'. task_put_desc a t type h = Some (int j, t') \<and> desc_type (ds ! j) = DESC_UNSET \<and>
    (\<forall>k < j. desc_type (ds ! k) \<noteq> DESC_UNSET) \<and>
    task_get_desc t' (int j) = Some (Some \<lparr>desc_type = type, handle = h\<rparr>) \<and>
    (\<forall>fd. fd \<noteq> int j \<longrightarrow> task_get_desc t' fd = task_get_desc t fd) \<and>
    (\<exists>t''. task_reset_desc t' (int j) = Some t'' \<and> task_get_desc t'' (int j) = Some None \<and>
      (\<forall>fd. fd \<noteq> int j \<longrightarrow> task_get_desc t'' fd = task_get_desc t fd))"
proof -
  obtain j where j: "j < length ds" "desc_type (ds ! j) = DESC_UNSET"
    "\<forall>k < j. desc_type (ds ! k) \<noteq> DESC_UNSET"
    "task_put_desc_loop ds type h 0 MAX_FD = Some (int j, ds[j := task_set_desc (ds ! j) type h])"
    using task_put_desc_loop_spec [of 0 MAX_FD ds type h] assms(2) by auto
  let ?d = "task_set_desc (ds ! j) type h"
  have d: "?d = \<lparr>desc_type = type, handle = h\<rparr>" "type \<noteq> DESC_UNSET"
    using assms(3) by (auto simp: task_set_desc_def)
  have "task_put_desc a t type h = Some (int j, t\<lparr>descriptors := Some (ds[j := ?d])\<rparr>)"
    using assms(1) j by (simp add: task_put_desc_def)
  then show ?thesis
    using assms(1) j d
    by (intro exI [of _ j] exI [of _ "t\<lparr>descriptors := Some (ds[j := ?d])\<rparr>"])
      (auto simp: task_get_desc_def task_reset_desc_def)
qed

theorem task_desc_roundtrip_witness:
  "\<exists>j t'. task_put_desc True (zero_task\<lparr>descriptors := Some calloc_descriptors\<rparr>) DESC_FILE 42
            = Some (int j, t') \<and>
          task_get_desc t' (int j) = Some (Some \<lparr>desc_type = DESC_FILE, handle = 42\<rparr>)"
proof -
  let ?t = "zero_task\<lparr>descriptors := Some calloc_descriptors\<rparr>"
  have "\<exists>j < length calloc_descriptors. j < MAX_FD \<and> desc_type (calloc_descriptors ! j) = DESC_UNSET"
    by (intro exI [of _ 0])
      (simp add: calloc_descriptors_def zero_descriptor_def MAX_FD_def sizeof_desc_t_def sizeof_descriptor_def)
  then show ?thesis using task_desc_roundtrip [of ?t calloc_descriptors DESC_FILE True 42] by auto
qed

text \<open>
  The table allocated by \<^verbatim>\<open>task_put_desc\<close> holds eight descriptors although \<^verbatim>\<open>MAX_FD\<close> is
  sixteen: with all eight in use, the next call runs past the end of the allocated block instead
  of returning \<^verbatim>\<open>ERR_NO_MEM\<close>.
\<close>

theorem task_put_desc_overflows:
  assumes "descriptors t = Some ds" "length ds = length calloc_descriptors"
    and "\<forall>k < length ds. desc_type (ds ! k) \<noteq> DESC_UNSET"
  shows "length calloc_descriptors = 8 \<and> task_put_desc a t type h = None"
proof -
  have "length calloc_descriptors = 8"
    by (simp add: calloc_descriptors_def MAX_FD_def sizeof_desc_t_def sizeof_descriptor_def)
  moreover have "task_put_desc_loop ds type h 0 MAX_FD = None"
    using task_put_desc_loop_full [of 0 MAX_FD ds type h] assms(2,3) calculation
    by (simp add: MAX_FD_def)
  ultimately show ?thesis using assms(1) by (simp add: task_put_desc_def)
qed

theorem task_put_desc_overflows_witness:
  "task_put_desc True (zero_task\<lparr>descriptors := Some (replicate 8 \<lparr>desc_type = DESC_FILE, handle = 1\<rparr>)\<rparr>)
     DESC_FILE 2 = None"
proof -
  have "length calloc_descriptors = 8"
    by (simp add: calloc_descriptors_def MAX_FD_def sizeof_desc_t_def sizeof_descriptor_def)
  then show ?thesis
    using task_put_desc_overflows [of "zero_task\<lparr>descriptors :=
        Some (replicate 8 \<lparr>desc_type = DESC_FILE, handle = 1\<rparr>)\<rparr>"] by simp
qed

end
