(* ===== verification/Scheduler.thy ===== *)
theory Scheduler
  imports Intrusive_List Task
begin

text \<open>
  The scheduler of \<^verbatim>\<open>kernel/core/scheduler.c\<close>, at the level of its pointers: the state holds the
  list nodes, the \<^verbatim>\<open>struct task\<close> objects by address (\<open>None\<close> where no task is allocated), the
  global \<^verbatim>\<open>current\<close> and \<^verbatim>\<open>next_pid\<close>, the addresses of the list heads \<^verbatim>\<open>ready\<close>, \<^verbatim>\<open>zombies\<close> and
  \<^verbatim>\<open>waiters\<close>, and the processor's stack registers, which \<^verbatim>\<open>ctx_switch\<close> saves and loads.  An
  operation returns \<open>None\<close> where the code reads a task that is not allocated or reaches its
  \<^verbatim>\<open>assert(0)\<close>.

  The abstract scheduler has the same fields with the sequences of tasks of the queues in the
  place of the list nodes.  The refinement lemmas show that the pointer code never faults on a
  state that represents a well-formed abstract one and computes the abstract result; the
  invariant is proved of the abstract operations and carried over to the reachable states.
\<close>

section \<open>State\<close>

record sched_base =
  tasks :: "ptr \<Rightarrow> task option"
  current :: ptr
  next_pid :: int
  regs :: cpu_context
  ready :: ptr
  zombies :: ptr
  waiters :: ptr

record sched = sched_base +
  heap :: "ptr node_heap"

text \<open>An assignment to members of the task at an address.\<close>

definition upd_task :: "ptr \<Rightarrow> (task \<Rightarrow> task) \<Rightarrow> 'a sched_base_scheme \<Rightarrow> 'a sched_base_scheme option" where
  "upd_task p g s = do { t \<leftarrow> tasks s p; Some (s\<lparr>tasks := (tasks s)(p \<mapsto> g t)\<rparr>) }"

section \<open>Queues of tasks\<close>

definition task_get :: "sched \<Rightarrow> ptr \<Rightarrow> ptr \<times> sched" where
  "task_get s list =
     (let (t, h) = list_remove_head (heap s) list in (t, s\<lparr>heap := h\<rparr>))"

definition task_put :: "sched \<Rightarrow> ptr \<Rightarrow> ptr \<Rightarrow> sched option" where
  "task_put s list tsk =
     (if list_is_empty (heap s) list
      then Some (s\<lparr>heap := list_add_before (heap s) list tsk\<rparr>)
      else do {
        n \<leftarrow> tasks s tsk;
        let t = list_peek_tail (heap s) list;
        at_end \<leftarrow> (if t \<noteq> 0 then do { l \<leftarrow> tasks s t; Some (prio l \<ge> prio n) } else Some False);
        if at_end then Some (s\<lparr>heap := list_add_after (heap s) t tsk\<rparr>)
        else do {
          r \<leftarrow> list_find_entry (heap s) list
                 (\<lambda>t. do { e \<leftarrow> tasks s t; Some (prio e < prio n) });
          case r of
            Some t \<Rightarrow> Some (s\<lparr>heap := list_add_before (heap s) t tsk\<rparr>)
          | None \<Rightarrow> None } })"

definition task_find :: "sched \<Rightarrow> ptr \<Rightarrow> int \<Rightarrow> ptr option" where
  "task_find s list p =
     do { r \<leftarrow> list_find_entry (heap s) list (\<lambda>t. do { e \<leftarrow> tasks s t; Some (pid e = p) });
          Some (case r of Some t \<Rightarrow> t | None \<Rightarrow> 0) }"

definition task_find_child_of :: "sched \<Rightarrow> ptr \<Rightarrow> int \<Rightarrow> ptr option" where
  "task_find_child_of s list p =
     do { r \<leftarrow> list_find_entry (heap s) list (\<lambda>t. do { e \<leftarrow> tasks s t; Some (parent e = p) });
          Some (case r of Some t \<Rightarrow> t | None \<Rightarrow> 0) }"

section \<open>Scheduler operations\<close>

text \<open>
  \<open>p\<close> is the result of \<^verbatim>\<open>calloc\<close>, which the source uses without a check; at the null pointer
  the assignments are undefined.
\<close>

definition scheduler_initialize :: "sched \<Rightarrow> ptr \<Rightarrow> sched option" where
  "scheduler_initialize s p =
     (if p = 0 then None
      else do {
        let s = s\<lparr>current := p, tasks := (tasks s)(p \<mapsto> zero_task)\<rparr>;
        s \<leftarrow> upd_task p (\<lambda>t. t\<lparr>pid := next_pid s\<rparr>) s;
        let s = s\<lparr>next_pid := int16 (next_pid s + 1)\<rparr>;
        s \<leftarrow> upd_task p (\<lambda>t. t\<lparr>parent := - 1, state := RUNNING, prio := 0\<rparr>) s;
        Some (s\<lparr>heap := list_initialize (heap s) p\<rparr>) })"

text \<open>\<^verbatim>\<open>ctx_switch\<close>: save the stack registers in \<open>prev\<close>'s context, load those of \<open>next\<close>.\<close>

definition ctx_switch :: "ptr \<Rightarrow> ptr \<Rightarrow> 'a sched_base_scheme \<Rightarrow> 'a sched_base_scheme option" where
  "ctx_switch prev next s =
     do { s \<leftarrow> upd_task prev (\<lambda>t. t\<lparr>ctx := regs s\<rparr>) s;
          n \<leftarrow> tasks s next;
          Some (s\<lparr>regs := ctx n\<rparr>) }"

definition schedule :: "sched \<Rightarrow> sched option" where
  "schedule s =
     (if current s = 0 \<or> list_is_empty (heap s) (ready s) then Some s
      else do {
        let (next, s) = task_get s (ready s);
        let prev = current s;
        let s = s\<lparr>current := next\<rparr>;
        p \<leftarrow> tasks s prev;
        s \<leftarrow> (if state p = RUNNING
              then do { s \<leftarrow> upd_task prev (\<lambda>t. t\<lparr>state := READY\<rparr>) s; task_put s (ready s) prev }
              else Some s);
        s \<leftarrow> upd_task next (\<lambda>t. t\<lparr>state := RUNNING\<rparr>) s;
        ctx_switch prev next s })"

definition scheduler_current :: "sched \<Rightarrow> ptr" where
  "scheduler_current s = current s"

definition scheduler_queue_new :: "sched \<Rightarrow> ptr \<Rightarrow> int \<Rightarrow> (int \<times> sched) option" where
  "scheduler_queue_new s t pr =
     do { s \<leftarrow> upd_task t (\<lambda>x. x\<lparr>pid := next_pid s\<rparr>) s;
          let s = s\<lparr>next_pid := int16 (next_pid s + 1)\<rparr>;
          c \<leftarrow> tasks s (current s);
          s \<leftarrow> upd_task t (\<lambda>x. x\<lparr>parent := pid c, prio := pr, state := READY\<rparr>) s;
          s \<leftarrow> task_put s (ready s) t;
          x \<leftarrow> tasks s t;
          Some (pid x, s) }"

definition scheduler_wake_up :: "sched \<Rightarrow> ptr \<Rightarrow> sched option" where
  "scheduler_wake_up s t =
     (if t = 0 then Some s
      else do { s \<leftarrow> upd_task t (\<lambda>x. x\<lparr>state := READY\<rparr>) s; task_put s (ready s) t })"

text \<open>The test a waiter \<open>w\<close> is put to when the task \<open>c\<close> exits.\<close>

definition waits_for :: "task \<Rightarrow> task \<Rightarrow> bool option" where
  "waits_for c w =
     (case wait_state w of
        WPid p \<Rightarrow> Some (p > 0 \<and> pid c = p \<or> p = - 1 \<and> pid w = parent c)
      | _ \<Rightarrow> None)"

definition scheduler_exit :: "sched \<Rightarrow> int \<Rightarrow> sched option" where
  "scheduler_exit s st =
     (if current s = 0 then Some s
      else do {
        c \<leftarrow> tasks s (current s);
        if pid c = 0 then Some s
        else do {
          s \<leftarrow> upd_task (current s) (\<lambda>t. t\<lparr>state := ZOMBIE, status := st\<rparr>) s;
          let s = s\<lparr>heap := list_add_before (heap s) (zombies s) (current s)\<rparr>;
          r \<leftarrow> list_find_entry (heap s) (waiters s)
                 (\<lambda>t. do { w \<leftarrow> tasks s t; waits_for c w });
          s \<leftarrow> (case r of
                  Some t \<Rightarrow> scheduler_wake_up (s\<lparr>heap := list_delete (heap s) t\<rparr>) t
                | None \<Rightarrow> Some s);
          schedule s } })"

definition scheduler_getpid :: "sched \<Rightarrow> int option" where
  "scheduler_getpid s =
     (if current s = 0 then Some ERR_NO_ENTRY else do { c \<leftarrow> tasks s (current s); Some (pid c) })"

definition scheduler_sleep_on :: "sched \<Rightarrow> ptr \<Rightarrow> wait_data \<Rightarrow> sched option" where
  "scheduler_sleep_on s queue d =
     (if queue = 0 then Some s
      else do {
        s \<leftarrow> upd_task (current s) (\<lambda>t. t\<lparr>state := WAITING, wait_state := d\<rparr>) s;
        let s = s\<lparr>heap := list_add_before (heap s) queue (current s)\<rparr>;
        schedule s })"

text \<open>
  \<^verbatim>\<open>scheduler_wait\<close> is a loop around a blocking call.  One pass of its body either returns, finds
  a zombie and collects it, or puts the caller to sleep, in which case another task runs; the
  next pass is the same function, in the state in which the caller is current again.  Collecting
  a task returns its process id and the value stored to \<^verbatim>\<open>*wstatus\<close>, and frees its stack and
  its structure.
\<close>

datatype wait_pass =
    WaitReturns int
  | WaitCollects int int "ptr list"
  | WaitSleeps

definition WNOHANG :: int where "WNOHANG = 1"

definition wait_status :: "int \<Rightarrow> int" where
  "wait_status st = int16 (push_bit 8 (st AND 0xff))"

definition scheduler_wait_pass :: "sched \<Rightarrow> int \<Rightarrow> int \<Rightarrow> (wait_pass \<times> sched) option" where
  "scheduler_wait_pass s p options =
     do { t \<leftarrow> (if p = - 1
                then do { c \<leftarrow> tasks s (current s); task_find_child_of s (zombies s) (pid c) }
                else task_find s (zombies s) p);
          if t = 0 \<and> options AND WNOHANG \<noteq> 0 then Some (WaitReturns 0, s)
          else if t = 0
          then do { s \<leftarrow> scheduler_sleep_on s (waiters s) (WPid p); Some (WaitSleeps, s) }
          else do { z \<leftarrow> tasks s t;
                    Some (WaitCollects (pid z) (wait_status (status z)) [stack z, t],
                          s\<lparr>tasks := (tasks s)(t := None)\<rparr>) } }"

definition scheduler_wait :: "sched \<Rightarrow> int \<Rightarrow> int \<Rightarrow> (wait_pass \<times> sched) option" where
  "scheduler_wait s p options =
     (if p < - 1 then Some (WaitReturns ERR_NOT_SUPP, s) else scheduler_wait_pass s p options)"

text \<open>The macros of \<^verbatim>\<open>sys/wait.h\<close> that read the stored status.\<close>

definition WIFEXITED :: "int \<Rightarrow> bool" where "WIFEXITED w \<longleftrightarrow> w AND 0xff = 0"
definition WEXITSTATUS :: "int \<Rightarrow> int" where "WEXITSTATUS w = drop_bit 8 w AND 0xff"

section \<open>The abstract scheduler\<close>

record asched = sched_base +
  queues :: "ptr \<Rightarrow> ptr list"

definition prio_of :: "(ptr \<Rightarrow> task option) \<Rightarrow> ptr \<Rightarrow> int" where
  "prio_of ts p = (case ts p of Some t \<Rightarrow> prio t | None \<Rightarrow> 0)"

text \<open>A task enters a queue behind every task of at least its priority.\<close>

definition prio_insert :: "(ptr \<Rightarrow> task option) \<Rightarrow> ptr \<Rightarrow> ptr list \<Rightarrow> ptr list" where
  "prio_insert ts x xs =
     takeWhile (\<lambda>y. prio_of ts y \<ge> prio_of ts x) xs @ x #
     dropWhile (\<lambda>y. prio_of ts y \<ge> prio_of ts x) xs"

definition by_prio :: "(ptr \<Rightarrow> task option) \<Rightarrow> ptr list \<Rightarrow> bool" where
  "by_prio ts xs = sorted_wrt (\<lambda>x y. prio_of ts x \<ge> prio_of ts y) xs"

definition a_set :: "ptr \<Rightarrow> (task \<Rightarrow> task) \<Rightarrow> asched \<Rightarrow> asched" where
  "a_set p g a = a\<lparr>tasks := (tasks a)(p := map_option g (tasks a p))\<rparr>"

definition a_queue :: "ptr \<Rightarrow> (ptr list \<Rightarrow> ptr list) \<Rightarrow> asched \<Rightarrow> asched" where
  "a_queue q g a = a\<lparr>queues := (queues a)(q := g (queues a q))\<rparr>"

definition a_put :: "ptr \<Rightarrow> asched \<Rightarrow> asched" where
  "a_put x a = a_queue (ready a) (prio_insert (tasks a) x) a"

definition a_wake :: "ptr \<Rightarrow> asched \<Rightarrow> asched" where
  "a_wake x a = a_put x (a_set x (\<lambda>t. t\<lparr>state := READY\<rparr>) a)"

definition a_run :: "ptr \<Rightarrow> ptr \<Rightarrow> asched \<Rightarrow> asched" where
  "a_run prev next a =
     (let a = a_set prev (\<lambda>t. t\<lparr>ctx := regs a\<rparr>) (a_set next (\<lambda>t. t\<lparr>state := RUNNING\<rparr>) a)
      in a\<lparr>current := next, regs := ctx (the (tasks a next))\<rparr>)"

definition a_schedule :: "asched \<Rightarrow> asched" where
  "a_schedule a =
     (case queues a (ready a) of
        [] \<Rightarrow> a
      | next # rest \<Rightarrow>
          let b = a_queue (ready a) (\<lambda>_. rest) a;
              b = (if map_option state (tasks a (current a)) = Some RUNNING
                   then a_wake (current a) b else b)
          in a_run (current a) next b)"

definition a_sleep_on :: "ptr \<Rightarrow> wait_data \<Rightarrow> asched \<Rightarrow> asched" where
  "a_sleep_on q d a =
     a_schedule (a_queue q (\<lambda>xs. xs @ [current a])
       (a_set (current a) (\<lambda>t. t\<lparr>state := WAITING, wait_state := d\<rparr>) a))"

definition a_new :: "ptr \<Rightarrow> int \<Rightarrow> asched \<Rightarrow> asched" where
  "a_new x pr a =
     a_put x (a_set x (\<lambda>t. t\<lparr>pid := next_pid a, parent := pid (the (tasks a (current a))),
                             prio := pr, state := READY\<rparr>)
                (a\<lparr>next_pid := int16 (next_pid a + 1)\<rparr>))"

definition a_exit :: "int \<Rightarrow> asched \<Rightarrow> asched" where
  "a_exit st a =
     (let c = the (tasks a (current a));
          b = a_queue (zombies a) (\<lambda>xs. xs @ [current a])
                (a_set (current a) (\<lambda>t. t\<lparr>state := ZOMBIE, status := st\<rparr>) a);
          b = (case find (\<lambda>x. waits_for c (the (tasks a x)) = Some True) (queues a (waiters a)) of
                 Some x \<Rightarrow> a_wake x (a_queue (waiters a) (remove1 x) b)
               | None \<Rightarrow> b)
      in a_schedule b)"

text \<open>The pointer state \<open>s\<close> represents the abstract state \<open>a\<close> on the queues \<open>Qs\<close>.\<close>

definition rep_sched :: "ptr list \<Rightarrow> sched \<Rightarrow> asched \<Rightarrow> bool" where
  "rep_sched Qs s a \<longleftrightarrow> rep_queues (heap s) Qs (queues a) \<and>
     sched_base.truncate s = sched_base.truncate a"

text \<open>The tasks of the scheduler: the running one and those in a queue.\<close>

definition a_members :: "ptr list \<Rightarrow> asched \<Rightarrow> ptr set" where
  "a_members Qs a = insert (current a) (\<Union>q \<in> set Qs. set (queues a q))"

definition queue_state :: "asched \<Rightarrow> ptr \<Rightarrow> task_state" where
  "queue_state a q = (if q = ready a then READY else if q = zombies a then ZOMBIE else WAITING)"

text \<open>
  The scheduler invariant.  \<open>idle\<close> is the task of \<^verbatim>\<open>_kernel_idle\<close>, which neither sleeps nor
  exits.
\<close>

definition entry_ok :: "asched \<Rightarrow> ptr \<Rightarrow> ptr \<Rightarrow> bool" where
  "entry_ok a q x \<longleftrightarrow> (\<exists>t. tasks a x = Some t \<and> state t = queue_state a q \<and>
     (q = waiters a \<longrightarrow> (\<exists>p. wait_state t = WPid p)))"

definition queue_ok :: "asched \<Rightarrow> ptr \<Rightarrow> bool" where
  "queue_ok a q \<longleftrightarrow> (\<forall>x \<in> set (queues a q). entry_ok a q x)"

definition heads_ok :: "ptr list \<Rightarrow> asched \<Rightarrow> bool" where
  "heads_ok Qs a \<longleftrightarrow> ready a \<in> set Qs \<and> zombies a \<in> set Qs \<and> waiters a \<in> set Qs \<and>
     ready a \<noteq> zombies a \<and> ready a \<noteq> waiters a \<and> zombies a \<noteq> waiters a"

definition core_inv :: "ptr list \<Rightarrow> asched \<Rightarrow> bool" where
  "core_inv Qs a \<longleftrightarrow> heads_ok Qs a \<and> (\<forall>q \<in> set Qs. queue_ok a q) \<and>
     by_prio (tasks a) (queues a (ready a))"

definition sched_inv :: "ptr list \<Rightarrow> ptr \<Rightarrow> asched \<Rightarrow> bool" where
  "sched_inv Qs idle a \<longleftrightarrow>
     core_inv Qs a \<and> current a \<noteq> 0 \<and> current a \<notin> queued Qs (queues a) \<and>
     map_option state (tasks a (current a)) = Some RUNNING \<and>
     idle \<in> insert (current a) (set (queues a (ready a))) \<and>
     dom (tasks a) = a_members Qs a"

text \<open>\<open>n\<close> consecutive calls of \<^verbatim>\<open>schedule\<close>.\<close>

primrec schedule_times :: "nat \<Rightarrow> sched \<Rightarrow> sched option" where
  "schedule_times 0 s = Some s"
| "schedule_times (Suc n) s = do { s \<leftarrow> schedule s; schedule_times n s }"

section \<open>Runs of the scheduler\<close>

text \<open>
  The steps of the system as the scheduler sees them: the clock or a task calls \<^verbatim>\<open>schedule\<close>, the
  running task creates a task in newly allocated memory, sleeps, exits or waits, an interrupt
  handler takes a task out of a waiting queue and wakes it, and the running task changes the
  stack registers.  The idle task only runs and is preempted.
\<close>

inductive sched_step :: "ptr list \<Rightarrow> ptr \<Rightarrow> sched \<Rightarrow> sched \<Rightarrow> bool" for Qs idle where
  step_schedule: "schedule s = Some s' \<Longrightarrow> sched_step Qs idle s s'"
| step_run: "sched_step Qs idle s (s\<lparr>regs := r\<rparr>)"
| step_new: "tasks s x = None \<Longrightarrow> x \<noteq> 0 \<Longrightarrow> x \<notin> set Qs \<Longrightarrow>
    scheduler_queue_new (s\<lparr>tasks := (tasks s)(x \<mapsto> t)\<rparr>) x pr = Some (r, s') \<Longrightarrow> sched_step Qs idle s s'"
| step_sleep: "current s \<noteq> idle \<Longrightarrow> q \<in> set Qs \<Longrightarrow> q \<noteq> ready s \<Longrightarrow> q \<noteq> zombies s \<Longrightarrow>
    (q = waiters s \<longrightarrow> (\<exists>p. d = WPid p)) \<Longrightarrow> scheduler_sleep_on s q d = Some s' \<Longrightarrow> sched_step Qs idle s s'"
| step_wake: "q \<in> set Qs \<Longrightarrow> q \<noteq> ready s \<Longrightarrow> q \<noteq> zombies s \<Longrightarrow> is_list (heap s) q xs \<Longrightarrow> x \<in> set xs \<Longrightarrow>
    scheduler_wake_up (s\<lparr>heap := list_delete (heap s) x\<rparr>) x = Some s' \<Longrightarrow> sched_step Qs idle s s'"
| step_exit: "current s \<noteq> idle \<Longrightarrow> scheduler_exit s st = Some s' \<Longrightarrow> sched_step Qs idle s s'"
| step_wait: "current s \<noteq> idle \<Longrightarrow> scheduler_wait s p options = Some (r, s') \<Longrightarrow>
    (\<forall>d st fs. r \<noteq> WaitCollects d st fs) \<Longrightarrow> sched_step Qs idle s s'"

text \<open>The boot sequence of \<^verbatim>\<open>kernel/kernel.c\<close>: empty queues, \<^verbatim>\<open>scheduler_initialize\<close>, then the idle task.\<close>

inductive sched_reach :: "ptr list \<Rightarrow> ptr \<Rightarrow> sched \<Rightarrow> bool" for Qs idle where
  reach_boot: "rep_queues (heap s0) Qs (\<lambda>_. []) \<Longrightarrow> tasks s0 = (\<lambda>_. None) \<Longrightarrow>
    {ready s0, zombies s0, waiters s0} \<subseteq> set Qs \<Longrightarrow> distinct [ready s0, zombies s0, waiters s0] \<Longrightarrow>
    p \<notin> set Qs \<Longrightarrow> scheduler_initialize s0 p = Some s1 \<Longrightarrow>
    idle \<notin> set Qs \<Longrightarrow> idle \<noteq> 0 \<Longrightarrow> idle \<noteq> p \<Longrightarrow>
    scheduler_queue_new (s1\<lparr>tasks := (tasks s1)(idle \<mapsto> t)\<rparr>) idle pr = Some (r, s2) \<Longrightarrow>
    sched_reach Qs idle s2"
| reach_step: "sched_reach Qs idle s \<Longrightarrow> sched_step Qs idle s s' \<Longrightarrow> sched_reach Qs idle s'"

section \<open>Representation\<close>

lemma rep_sched_eqs:
  assumes "rep_sched Qs s a"
  shows "tasks s = tasks a" "current s = current a" "next_pid s = next_pid a" "regs s = regs a"
    "ready s = ready a" "zombies s = zombies a" "waiters s = waiters a"
  using assms by (simp_all add: rep_sched_def sched_base.truncate_def)

lemma rep_schedI:
  "rep_queues (heap s) Qs (queues a) \<Longrightarrow> tasks s = tasks a \<Longrightarrow> current s = current a \<Longrightarrow>
     next_pid s = next_pid a \<Longrightarrow> regs s = regs a \<Longrightarrow> ready s = ready a \<Longrightarrow> zombies s = zombies a \<Longrightarrow>
     waiters s = waiters a \<Longrightarrow> rep_sched Qs s a"
  by (simp add: rep_sched_def sched_base.truncate_def)

lemma rep_schedD: "rep_sched Qs s a \<Longrightarrow> rep_queues (heap s) Qs (queues a)"
  by (simp add: rep_sched_def)

lemma upd_task_Some:
  "tasks s p = Some t \<Longrightarrow> upd_task p g s = Some (s\<lparr>tasks := (tasks s)(p \<mapsto> g t)\<rparr>)"
  by (simp add: upd_task_def)

lemma a_set_fields [simp]:
  "current (a_set p g a) = current a" "next_pid (a_set p g a) = next_pid a"
  "regs (a_set p g a) = regs a" "ready (a_set p g a) = ready a" "zombies (a_set p g a) = zombies a"
  "waiters (a_set p g a) = waiters a" "queues (a_set p g a) = queues a"
  "tasks (a_set p g a) = (tasks a)(p := map_option g (tasks a p))"
  by (simp_all add: a_set_def)

lemma a_queue_fields [simp]:
  "current (a_queue q k a) = current a" "next_pid (a_queue q k a) = next_pid a"
  "regs (a_queue q k a) = regs a" "ready (a_queue q k a) = ready a"
  "zombies (a_queue q k a) = zombies a" "waiters (a_queue q k a) = waiters a"
  "tasks (a_queue q k a) = tasks a" "queues (a_queue q k a) = (queues a)(q := k (queues a q))"
  by (simp_all add: a_queue_def)

lemma rep_upd_task:
  assumes "rep_sched Qs s a" "tasks a p = Some t"
  shows "upd_task p g s = Some (s\<lparr>tasks := (tasks s)(p \<mapsto> g t)\<rparr>)"
    "rep_sched Qs (s\<lparr>tasks := (tasks s)(p \<mapsto> g t)\<rparr>) (a_set p g a)"
  using assms rep_sched_eqs [OF assms(1)]
  by (auto simp: upd_task_def rep_schedD intro!: rep_schedI)

lemma rep_heap:
  assumes "rep_sched Qs s a" "rep_queues h Qs ((queues a)(q := k (queues a q)))"
  shows "rep_sched Qs (s\<lparr>heap := h\<rparr>) (a_queue q k a)"
  using assms rep_sched_eqs [OF assms(1)] by (auto intro!: rep_schedI)

section \<open>Priority queues\<close>

lemma set_prio_insert [simp]: "set (prio_insert ts x xs) = insert x (set xs)"
  unfolding prio_insert_def by (simp, metis set_append takeWhile_dropWhile_id)

lemma prio_insert_sorted:
  assumes "by_prio ts xs" shows "by_prio ts (prio_insert ts x xs)"
proof -
  define P where "P y \<longleftrightarrow> prio_of ts y \<ge> prio_of ts x" for y
  obtain us vs where uv: "us = takeWhile P xs" "vs = dropWhile P xs" by blast
  have xs: "by_prio ts (us @ vs)" using assms uv by simp
  have hi: "\<forall>y \<in> set us. P y" unfolding uv by (auto dest: set_takeWhileD)
  have lo: "\<forall>y \<in> set vs. prio_of ts y \<le> prio_of ts x"
  proof (cases vs)
    case (Cons z zs)
    then have "\<not> P z" using uv(2) by (metis dropWhile_eq_Cons_conv)
    with xs Cons show ?thesis by (auto simp: by_prio_def sorted_wrt_append P_def)
  qed simp
  have "prio_insert ts x xs = us @ x # vs" unfolding prio_insert_def uv P_def by simp
  with xs hi lo show ?thesis unfolding by_prio_def by (auto simp: sorted_wrt_append P_def)
qed

lemma by_prio_cong:
  "(\<And>x. x \<in> set xs \<Longrightarrow> prio_of ts x = prio_of us x) \<Longrightarrow> by_prio ts xs \<longleftrightarrow> by_prio us xs"
  by (auto simp: by_prio_def sorted_wrt_iff_nth_less)

lemma by_prio_last:
  assumes "by_prio ts xs" "xs \<noteq> []" "prio_of ts (last xs) \<ge> prio_of ts x"
  shows "prio_insert ts x xs = xs @ [x]"
proof -
  have "prio_of ts y \<ge> prio_of ts (last xs)" if "y \<in> set xs" for y
    using assms(1,2) that unfolding by_prio_def
    by (cases xs rule: rev_cases) (auto simp: sorted_wrt_append)
  then have "\<forall>y \<in> set xs. prio_of ts y \<ge> prio_of ts x" using assms(3) by (meson order_trans)
  then show ?thesis unfolding prio_insert_def by (simp add: takeWhile_eq_all_conv [THEN iffD2])
qed

lemma find_prio_insert:
  assumes "find (\<lambda>y. prio_of ts y < prio_of ts x) xs = Some e"
  shows "\<exists>us vs. xs = us @ e # vs \<and> prio_insert ts x xs = us @ x # e # vs"
proof -
  have eq: "(\<lambda>y. \<not> prio_of ts y < prio_of ts x) = (\<lambda>y. prio_of ts y \<ge> prio_of ts x)" by auto
  let ?P = "\<lambda>y. prio_of ts y \<ge> prio_of ts x"
  have xs: "xs = takeWhile ?P xs @ e # tl (dropWhile ?P xs)"
    using find_split [OF assms] unfolding eq by simp
  then have "dropWhile ?P xs = e # tl (dropWhile ?P xs)"
    by (metis append_same_eq takeWhile_dropWhile_id same_append_eq)
  with xs show ?thesis unfolding prio_insert_def by metis
qed

lemma find_last_Some: "xs \<noteq> [] \<Longrightarrow> b (last xs) \<Longrightarrow> \<exists>e. find b xs = Some e"
  by (metis find_None_iff last_in_set not_None_eq)

text \<open>The queue insertion of the source implements \<open>prio_insert\<close> and never reaches its assertion.\<close>

lemma task_put_rep:
  assumes rep: "rep_sched Qs s a" and q: "q \<in> set Qs" and x: "x \<notin> queued Qs (queues a)" "x \<noteq> 0"
    and tx: "tasks a x = Some tx" and live: "\<forall>y \<in> set (queues a q). tasks a y \<noteq> None"
    and sorted: "by_prio (tasks a) (queues a q)"
  shows "\<exists>s'. task_put s q x = Some s' \<and> rep_sched Qs s' (a_queue q (prio_insert (tasks a) x) a)"
proof -
  note eqs = rep_sched_eqs [OF rep] and rq = rep_schedD [OF rep]
  note l = rep_queuesD [OF rq q]
  let ?xs = "queues a q"
  show ?thesis
  proof (cases "?xs = []")
    case True
    have "rep_sched Qs (s\<lparr>heap := list_add_before (heap s) q x\<rparr>) (a_queue q (prio_insert (tasks a) x) a)"
      by (rule rep_heap [OF rep]) (use rep_add_tail [OF rq q x] True in
        \<open>simp add: list_add_before_def prio_insert_def\<close>)
    then show ?thesis using True l by (simp add: task_put_def list_is_empty_iff)
  next
    case False
    let ?t = "last ?xs"
    have t: "list_peek_tail (heap s) q = ?t" "?t \<noteq> 0" "?t \<in> set ?xs"
      using l False last_in_set [OF False] by (simp_all add: list_peek_tail_is_list is_list_nonzero)
    then obtain lt where lt: "tasks a ?t = Some lt" using live by fastforce
    have ne: "\<not> list_is_empty (heap s) q" using False l by (simp add: list_is_empty_iff)
    have po: "prio_of (tasks a) x = prio tx" "prio_of (tasks a) ?t = prio lt"
      using tx lt by (auto simp: prio_of_def)
    show ?thesis
    proof (cases "prio lt \<ge> prio tx")
      case True
      have ins: "prio_insert (tasks a) x ?xs = butlast ?xs @ ?t # [x]"
        using by_prio_last [OF sorted False] True po False by simp
      have dec: "?xs = butlast ?xs @ ?t # []" using False by simp
      have "rep_sched Qs (s\<lparr>heap := list_add_after (heap s) ?t x\<rparr>) (a_queue q (prio_insert (tasks a) x) a)"
        by (rule rep_heap [OF rep]) (use rep_add_after [OF rq q dec x] ins in simp)
      then show ?thesis using True t lt tx eqs ne by (simp add: task_put_def)
    next
      case low: False
      let ?b = "\<lambda>y. prio_of (tasks a) y < prio_of (tasks a) x"
      obtain e where e: "find ?b ?xs = Some e" using find_last_Some [OF False, of ?b] low po by auto
      then obtain us vs where uv: "?xs = us @ e # vs" "prio_insert (tasks a) x ?xs = us @ x # e # vs"
        using find_prio_insert by blast
      have "list_find_entry (heap s) q (\<lambda>y. do { e \<leftarrow> tasks s y; Some (prio e < prio tx) }) = Some (find ?b ?xs)"
        using live eqs po by (intro list_find_entry_is_list [OF l]) (auto simp: prio_of_def)
      moreover have "rep_sched Qs (s\<lparr>heap := list_add_before (heap s) e x\<rparr>) (a_queue q (prio_insert (tasks a) x) a)"
        by (rule rep_heap [OF rep]) (use rep_add_before [OF rq q uv(1) x] uv(2) in simp)
      ultimately show ?thesis using e low t lt tx eqs ne by (simp add: task_put_def)
    qed
  qed
qed

section \<open>Refinement of the operations\<close>

definition ready_ok :: "ptr list \<Rightarrow> asched \<Rightarrow> bool" where
  "ready_ok Qs a \<longleftrightarrow> ready a \<in> set Qs \<and> (\<forall>y \<in> set (queues a (ready a)). tasks a y \<noteq> None) \<and>
     by_prio (tasks a) (queues a (ready a))"

lemma prio_of_upd: "(\<And>t. prio (g t) = prio t) \<Longrightarrow> prio_of (ts(p := map_option g (ts p))) = prio_of ts"
  by (auto simp: prio_of_def fun_eq_iff split: option.splits)

lemma by_prio_upd [simp]:
  "(\<And>t. prio (g t) = prio t) \<Longrightarrow> by_prio (ts(p := map_option g (ts p))) = by_prio ts"
  by (simp add: by_prio_def prio_of_upd fun_eq_iff)

lemma prio_insert_upd [simp]:
  "(\<And>t. prio (g t) = prio t) \<Longrightarrow> prio_insert (ts(p := map_option g (ts p))) = prio_insert ts"
  by (simp add: prio_insert_def prio_of_upd fun_eq_iff)

lemma a_put_rep:
  assumes "rep_sched Qs s a" "ready_ok Qs a" "x \<notin> queued Qs (queues a)" "x \<noteq> 0" "tasks a x = Some t"
  shows "\<exists>s'. task_put s (ready s) x = Some s' \<and> rep_sched Qs s' (a_put x a)"
  using task_put_rep [OF assms(1) _ assms(3-5), of "ready a"] assms(2) rep_sched_eqs [OF assms(1)]
  by (simp add: ready_ok_def a_put_def)

lemma a_wake_rep:
  assumes "rep_sched Qs s a" "ready_ok Qs a" "x \<notin> queued Qs (queues a)" "x \<noteq> 0" "tasks a x = Some t"
  shows "\<exists>s'. scheduler_wake_up s x = Some s' \<and> rep_sched Qs s' (a_wake x a)"
proof -
  let ?g = "\<lambda>t. t\<lparr>state := READY\<rparr>"
  note u = rep_upd_task [OF assms(1,5), of ?g]
  have "ready_ok Qs (a_set x ?g a)" using assms(2) by (simp add: ready_ok_def)
  then obtain s' where s': "task_put (s\<lparr>tasks := (tasks s)(x \<mapsto> ?g t)\<rparr>) (ready s) x = Some s'"
      "rep_sched Qs s' (a_wake x a)"
    using a_put_rep [OF u(2), of x] assms(3-5) by (auto simp: a_wake_def)
  have "scheduler_wake_up s x = Some s'"
    unfolding scheduler_wake_up_def u(1) using assms(4) s'(1) by simp
  with s'(2) show ?thesis by blast
qed

lemma queued_upd: "q \<in> set Qs \<Longrightarrow> queued Qs (f(q := xs)) \<subseteq> queued Qs f \<union> set xs"
  by (auto simp: queued_def split: if_splits)

lemma queued_mem: "q \<in> set Qs \<Longrightarrow> x \<in> set (f q) \<Longrightarrow> x \<in> queued Qs f"
  by (auto simp: queued_def)

lemma rep_distinct: "rep_queues h Qs f \<Longrightarrow> q \<in> set Qs \<Longrightarrow> distinct (q # f q) \<and> 0 \<notin> set (q # f q)"
  using rep_queuesD [of h Qs f q] by (simp add: is_list_def)

text \<open>The switch at the end of \<^verbatim>\<open>schedule\<close>: the new task is marked running, the contexts exchanged.\<close>

lemma a_run_rep:
  assumes rep: "rep_sched Qs s (a\<lparr>current := nx\<rparr>)" and n: "tasks a nx = Some n"
    and p: "tasks a prev = Some p"
  shows "\<exists>s'. do { s \<leftarrow> upd_task nx (\<lambda>t. t\<lparr>state := RUNNING\<rparr>) s; ctx_switch prev nx s } = Some s' \<and>
    rep_sched Qs s' (a_run prev nx a)"
proof -
  let ?g = "\<lambda>t :: task. t\<lparr>state := RUNNING\<rparr>" and ?k = "\<lambda>t :: task. t\<lparr>ctx := regs a\<rparr>"
  let ?s1 = "s\<lparr>tasks := (tasks s)(nx \<mapsto> ?g n)\<rparr>" and ?a1 = "a_set nx ?g (a\<lparr>current := nx\<rparr>)"
  note u1 = rep_upd_task [OF rep, of nx n ?g]
  obtain p' where p': "tasks ?a1 prev = Some p'" using n p by (cases "prev = nx") auto
  let ?s2 = "?s1\<lparr>tasks := (tasks ?s1)(prev \<mapsto> ?k p')\<rparr>"
  have r1: "rep_sched Qs ?s1 ?a1" using u1 n by simp
  note u2 = rep_upd_task [OF r1 p', of ?k]
  obtain n' where n': "tasks ?s2 nx = Some n'" by (cases "prev = nx") auto
  have rg: "regs s = regs a" using rep_sched_eqs [OF r1] by simp
  have "do { s \<leftarrow> upd_task nx ?g s; ctx_switch prev nx s } = Some (?s2\<lparr>regs := ctx n'\<rparr>)"
    using u1(1) n u2(1) n' by (simp add: ctx_switch_def rg)
  moreover have "rep_sched Qs (?s2\<lparr>regs := ctx n'\<rparr>) (a_run prev nx a)"
    using u2(2) rep_sched_eqs [OF u2(2)] n' rep_schedD [OF u2(2)]
    by (intro rep_schedI) (auto simp: a_run_def Let_def)
  ultimately show ?thesis by blast
qed

lemma requeue_rep:
  assumes "rep_sched Qs s b" "ready_ok Qs b" "tasks b prev = Some c" "prev \<noteq> 0"
    and "state c = RUNNING \<Longrightarrow> prev \<notin> queued Qs (queues b)"
  shows "\<exists>s2. (if state c = RUNNING then do { s \<leftarrow> upd_task prev (\<lambda>t. t\<lparr>state := READY\<rparr>) s; task_put s (ready s) prev }
      else Some s) = Some s2 \<and> rep_sched Qs s2 (if state c = RUNNING then a_wake prev b else b)"
proof (cases "state c = RUNNING")
  case True
  then show ?thesis
    using a_wake_rep [OF assms(1,2) assms(5) assms(4,3)] assms(4) by (simp add: scheduler_wake_up_def)
qed (use assms(1) in simp)

lemma schedule_rep:
  assumes rep: "rep_sched Qs s a" and ok: "ready_ok Qs a" and cur: "current a \<noteq> 0" "tasks a (current a) = Some c"
    and run: "state c = RUNNING \<Longrightarrow> current a \<notin> queued Qs (queues a)"
  shows "\<exists>s'. schedule s = Some s' \<and> rep_sched Qs s' (a_schedule a)"
proof -
  note eqs = rep_sched_eqs [OF rep] and rq = rep_schedD [OF rep]
  have r: "ready a \<in> set Qs" using ok by (simp add: ready_ok_def)
  note l = rep_queuesD [OF rq r]
  show ?thesis
  proof (cases "queues a (ready a)")
    case Nil
    then have "list_is_empty (heap s) (ready s)" using l eqs by (simp add: list_is_empty_iff)
    with Nil rep show ?thesis by (simp add: schedule_def a_schedule_def)
  next
    case (Cons nx rest)
    let ?b = "a_queue (ready a) (\<lambda>_. rest) a"
    obtain s0 where s0: "task_get s (ready s) = (nx, s0)" "rep_sched Qs s0 ?b"
      using rep_remove_head [OF rq r Cons] rep_heap [OF rep, of _ "ready a" "\<lambda>_. rest"] eqs
      by (cases "list_remove_head (heap s) (ready a)") (auto simp: task_get_def)
    let ?s1 = "s0\<lparr>current := nx\<rparr>" and ?b1 = "?b\<lparr>current := nx\<rparr>"
    have r1: "rep_sched Qs ?s1 ?b1"
      using rep_schedD [OF s0(2)] rep_sched_eqs [OF s0(2)] by (intro rep_schedI) simp_all
    have ok1: "ready_ok Qs ?b1" using ok Cons by (auto simp: ready_ok_def by_prio_def)
    have "current a \<notin> queued Qs (queues ?b1)" if "state c = RUNNING"
      using run [OF that] Cons by (auto simp: queued_def split: if_splits)
    then obtain s2 where s2: "(if state c = RUNNING then do { s \<leftarrow> upd_task (current a) (\<lambda>t. t\<lparr>state := READY\<rparr>) ?s1;
        task_put s (ready s) (current a) } else Some ?s1) = Some s2"
        "rep_sched Qs s2 (if state c = RUNNING then a_wake (current a) ?b1 else ?b1)"
      using requeue_rep [OF r1 ok1, of "current a" c] cur by auto
    define d where "d = (if state c = RUNNING then a_wake (current a) ?b else ?b)"
    have d1: "(if state c = RUNNING then a_wake (current a) ?b1 else ?b1) = d\<lparr>current := nx\<rparr>"
      by (simp add: d_def a_wake_def a_put_def a_set_def a_queue_def)
    have "tasks d nx \<noteq> None \<and> tasks d (current a) \<noteq> None"
      using ok Cons cur by (auto simp: d_def ready_ok_def a_wake_def a_put_def)
    then obtain n p where np: "tasks d nx = Some n" "tasks d (current a) = Some p" by blast
    obtain s3 where s3: "do { s \<leftarrow> upd_task nx (\<lambda>t. t\<lparr>state := RUNNING\<rparr>) s2; ctx_switch (current a) nx s } = Some s3"
        "rep_sched Qs s3 (a_run (current a) nx d)"
      using a_run_rep [OF s2(2) [unfolded d1] np] by blast
    have "schedule s = Some s3"
      using s0(1) s2(1) s3(1) cur eqs rep_sched_eqs [OF s0(2)] l Cons
      by (simp add: schedule_def list_is_empty_iff)
    moreover have "a_schedule a = a_run (current a) nx d"
      using Cons cur by (simp add: a_schedule_def Let_def d_def)
    ultimately show ?thesis using s3(2) by metis
  qed
qed

section \<open>The invariant of the queues\<close>

lemma entry_okE:
  assumes "entry_ok a q x"
  obtains t where "tasks a x = Some t" "state t = queue_state a q"
    "q = waiters a \<Longrightarrow> \<exists>p. wait_state t = WPid p"
  using assms unfolding entry_ok_def by blast

lemma core_entry: "core_inv Qs a \<Longrightarrow> q \<in> set Qs \<Longrightarrow> x \<in> set (queues a q) \<Longrightarrow> entry_ok a q x"
  by (simp add: core_inv_def queue_ok_def)

lemma core_heads: "core_inv Qs a \<Longrightarrow> ready a \<in> set Qs" "core_inv Qs a \<Longrightarrow> zombies a \<in> set Qs"
  "core_inv Qs a \<Longrightarrow> waiters a \<in> set Qs"
  by (simp_all add: core_inv_def heads_ok_def)

lemma core_ready_ok: "core_inv Qs a \<Longrightarrow> ready_ok Qs a"
  by (auto simp: core_inv_def heads_ok_def queue_ok_def entry_ok_def ready_ok_def)

lemma core_inv_cong:
  assumes "core_inv Qs a" "ready b = ready a" "zombies b = zombies a" "waiters b = waiters a"
    and "queues b = queues a"
    and "\<And>q x t. q \<in> set Qs \<Longrightarrow> x \<in> set (queues a q) \<Longrightarrow> tasks a x = Some t \<Longrightarrow>
      \<exists>u. tasks b x = Some u \<and> state u = state t \<and> wait_state u = wait_state t \<and> prio u = prio t"
  shows "core_inv Qs b"
proof -
  have same: "\<exists>t u. tasks a x = Some t \<and> tasks b x = Some u \<and> state u = state t \<and>
      wait_state u = wait_state t \<and> prio u = prio t" if "q \<in> set Qs" "x \<in> set (queues a q)" for q x
    using core_entry [OF assms(1) that] assms(6) [OF that] by (auto elim: entry_okE)
  have "entry_ok b q x" if "q \<in> set Qs" "x \<in> set (queues a q)" for q x
    using core_entry [OF assms(1) that] same [OF that] assms(2-4)
    by (auto simp: entry_ok_def queue_state_def)
  moreover have "by_prio (tasks b) (queues a (ready a)) = by_prio (tasks a) (queues a (ready a))"
    by (rule by_prio_cong) (use same [OF core_heads(1) [OF assms(1)]] in \<open>fastforce simp: prio_of_def\<close>)
  ultimately show ?thesis
    using assms(1-5) by (simp add: core_inv_def heads_ok_def queue_ok_def)
qed

lemma core_set:
  "core_inv Qs a \<Longrightarrow> x \<notin> queued Qs (queues a) \<Longrightarrow> core_inv Qs (a_set x g a)"
  by (rule core_inv_cong [of Qs a]) (auto dest: queued_mem)

lemma core_set_ctx: "core_inv Qs a \<Longrightarrow> core_inv Qs (a_set x (\<lambda>t. t\<lparr>ctx := c\<rparr>) a)"
  by (rule core_inv_cong [of Qs a]) auto

lemma core_fields [simp]:
  "core_inv Qs (a\<lparr>current := c\<rparr>) = core_inv Qs a" "core_inv Qs (a\<lparr>regs := r\<rparr>) = core_inv Qs a"
  "core_inv Qs (a\<lparr>next_pid := n\<rparr>) = core_inv Qs a"
  by (simp_all add: core_inv_def heads_ok_def queue_ok_def entry_ok_def queue_state_def)

lemma entry_ok_queue [simp]: "entry_ok (a_queue q k a) = entry_ok a"
  by (simp add: entry_ok_def queue_state_def fun_eq_iff)

lemma core_queue:
  assumes "core_inv Qs a" "by_prio (tasks a) (queues a (ready a)) \<Longrightarrow> q = ready a \<Longrightarrow> by_prio (tasks a) (k (queues a q))"
    and "\<And>x. x \<in> set (k (queues a q)) \<Longrightarrow> x \<notin> set (queues a q) \<Longrightarrow> entry_ok a q x"
  shows "core_inv Qs (a_queue q k a)"
  using assms unfolding core_inv_def queue_ok_def heads_ok_def by auto

lemma core_wake:
  assumes "core_inv Qs a" "x \<notin> queued Qs (queues a)" "tasks a x = Some t"
  shows "core_inv Qs (a_wake x a)"
  unfolding a_wake_def a_put_def
proof (rule core_queue)
  show "core_inv Qs (a_set x (\<lambda>t. t\<lparr>state := READY\<rparr>) a)" using assms by (intro core_set)
qed (use assms in \<open>auto simp: prio_insert_sorted entry_ok_def queue_state_def core_inv_def heads_ok_def\<close>)

lemma core_run:
  "core_inv Qs a \<Longrightarrow> nx \<notin> queued Qs (queues a) \<Longrightarrow> core_inv Qs (a_run prev nx a)"
  by (simp add: a_run_def Let_def core_set core_set_ctx)

section \<open>Operations on well-formed states\<close>

text \<open>
  \<open>well Qs idle s a\<close>: the pointer state \<open>s\<close> represents \<open>a\<close>, which satisfies the invariant.
\<close>

definition well :: "ptr list \<Rightarrow> ptr \<Rightarrow> sched \<Rightarrow> asched \<Rightarrow> bool" where
  "well Qs idle s a \<longleftrightarrow> rep_sched Qs s a \<and> sched_inv Qs idle a"

lemma wellD:
  assumes "well Qs idle s a"
  shows "rep_sched Qs s a" "core_inv Qs a" "ready_ok Qs a" "current a \<noteq> 0" "current a \<notin> queued Qs (queues a)"
    "\<exists>c. tasks a (current a) = Some c \<and> state c = RUNNING"
    "idle \<in> insert (current a) (set (queues a (ready a)))" "dom (tasks a) = a_members Qs a"
  using assms core_ready_ok [of Qs a] by (auto simp: well_def sched_inv_def)

lemma a_wake_fields [simp]:
  "current (a_wake x a) = current a" "next_pid (a_wake x a) = next_pid a" "regs (a_wake x a) = regs a"
  "ready (a_wake x a) = ready a" "zombies (a_wake x a) = zombies a" "waiters (a_wake x a) = waiters a"
  "tasks (a_wake x a) = (tasks a)(x := map_option (\<lambda>t. t\<lparr>state := READY\<rparr>) (tasks a x))"
  "queues (a_wake x a) = (queues a)(ready a := prio_insert (tasks a) x (queues a (ready a)))"
  by (simp_all add: a_wake_def a_put_def)

lemma a_run_fields [simp]:
  "current (a_run p n a) = n" "queues (a_run p n a) = queues a" "ready (a_run p n a) = ready a"
  "dom (tasks (a_run p n a)) = dom (tasks a)"
  by (auto simp: a_run_def Let_def dom_def)

lemma dom_upd_map [simp]: "dom (ts(x := map_option g (ts x))) = dom ts"
  by (auto simp: dom_def)

text \<open>Dispatching the head of the ready queue from a state in which it has been removed.\<close>

lemma run_inv:
  assumes "core_inv Qs b" "nx \<noteq> 0" "nx \<notin> queued Qs (queues b)" "tasks b nx = Some n"
    and "idle \<in> insert nx (set (queues b (ready b)))"
    and "dom (tasks b) = insert nx (\<Union>q \<in> set Qs. set (queues b q))"
  shows "sched_inv Qs idle (a_run prev nx b)"
proof -
  have "map_option state (tasks (a_run prev nx b) nx) = Some RUNNING"
    using assms(4) by (auto simp: a_run_def Let_def)
  then show ?thesis using assms core_run by (simp add: sched_inv_def a_members_def)
qed

lemma UN_pick: "r \<in> A \<Longrightarrow> (\<Union>q \<in> A. set (f q)) = set (f r) \<union> (\<Union>q \<in> A - {r}. set (f q))"
  by auto

lemma UN_fun_upd: "r \<in> A \<Longrightarrow> (\<Union>q \<in> A. set ((f(r := xs)) q)) = set xs \<union> (\<Union>q \<in> A - {r}. set (f q))"
  by (auto split: if_splits)

lemma popped:
  assumes rq: "rep_queues h Qs f" and r: "r \<in> set Qs" "f r = nx # rest"
  shows "nx \<noteq> 0" "nx \<notin> queued Qs (f(r := rest))"
    "insert nx (\<Union>q \<in> set Qs. set ((f(r := rest)) q)) = (\<Union>q \<in> set Qs. set (f q))"
proof -
  have d: "distinct (r # nx # rest)" "nx \<noteq> 0" using rep_distinct [OF rq r(1)] r(2) by auto
  then show "nx \<noteq> 0" by simp
  have "nx \<notin> set (q # (f(r := rest)) q)" if q: "q \<in> set Qs" for q
    using d(1) rep_queues_unique [OF rq q r(1), of nx] r(2) by (cases "q = r") auto
  then show "nx \<notin> queued Qs (f(r := rest))" by (auto simp: queued_def)
  show "insert nx (\<Union>q \<in> set Qs. set ((f(r := rest)) q)) = (\<Union>q \<in> set Qs. set (f q))"
    unfolding UN_fun_upd [OF r(1)] UN_pick [OF r(1), of f] r(2) by simp
qed

lemma core_pop: "core_inv Qs a \<Longrightarrow> queues a q = nx # rest \<Longrightarrow> core_inv Qs (a_queue q (\<lambda>_. rest) a)"
  by (rule core_queue) (auto simp: by_prio_def)

lemma schedule_parked_inv:
  assumes rep: "rep_sched Qs s a" and core: "core_inv Qs a"
    and parked: "map_option state (tasks a (current a)) \<noteq> Some RUNNING"
    and idle: "idle \<in> set (queues a (ready a))"
    and dom: "dom (tasks a) = (\<Union>q \<in> set Qs. set (queues a q))"
  shows "sched_inv Qs idle (a_schedule a)"
proof -
  obtain nx rest where q: "queues a (ready a) = nx # rest" using idle by (cases "queues a (ready a)") auto
  note p = popped [OF rep_schedD [OF rep] core_heads(1) [OF core] q]
  let ?b = "a_queue (ready a) (\<lambda>_. rest) a"
  obtain n where n: "tasks a nx = Some n"
    using core_ready_ok [OF core] q by (auto simp: ready_ok_def)
  have "sched_inv Qs idle (a_run (current a) nx ?b)"
    by (rule run_inv [OF core_pop [OF core q] p(1)]) (use p n idle q dom in auto)
  then show ?thesis using q parked by (simp only: a_schedule_def Let_def list.case if_False)
qed

lemma well_schedule:
  assumes w: "well Qs idle s a"
  shows "\<exists>s'. schedule s = Some s' \<and> well Qs idle s' (a_schedule a)"
proof -
  note d = wellD [OF w]
  obtain c where c: "tasks a (current a) = Some c" "state c = RUNNING" using d(6) by blast
  obtain s' where s': "schedule s = Some s'" "rep_sched Qs s' (a_schedule a)"
    using schedule_rep [OF d(1,3,4) c(1)] d(5) by blast
  have "sched_inv Qs idle (a_schedule a)"
  proof (cases "queues a (ready a)")
    case Nil
    then show ?thesis using w by (simp add: a_schedule_def well_def)
  next
    case (Cons nx rest)
    note r = core_heads(1) [OF d(2)]
    note p = popped [OF rep_schedD [OF d(1)] r Cons]
    let ?b = "a_queue (ready a) (\<lambda>_. rest) a" and ?b' = "a_wake (current a) (a_queue (ready a) (\<lambda>_. rest) a)"
    obtain n where n: "tasks a nx = Some n" using d(3) Cons by (auto simp: ready_ok_def)
    have cq: "current a \<notin> queued Qs (queues ?b)"
      using d(5) Cons by (auto simp: queued_def split: if_splits)
    have nc: "nx \<noteq> current a" using d(5) Cons queued_mem [OF r] by force
    have core: "core_inv Qs ?b'" using core_wake [OF core_pop [OF d(2) Cons], of "current a" c] cq c by simp
    have nq: "nx \<notin> queued Qs (queues ?b')"
      using p(2) nc by (auto simp: queued_def split: if_splits)
    have dom: "dom (tasks ?b') = insert nx (\<Union>q \<in> set Qs. set (queues ?b' q))"
      using d(8) Cons unfolding a_members_def a_wake_fields a_queue_fields UN_pick [OF r, of "queues a"]
        UN_fun_upd [OF r] by auto
    have "sched_inv Qs idle (a_run (current a) nx ?b')"
      by (rule run_inv [OF core p(1) nq _ _ dom]) (use n nc d(7) Cons in auto)
    then show ?thesis using Cons c by (simp add: a_schedule_def Let_def)
  qed
  with s' show ?thesis by (auto simp: well_def)
qed

text \<open>Parking the current task in a queue: the common step of \<^verbatim>\<open>scheduler_sleep_on\<close> and \<^verbatim>\<open>scheduler_exit\<close>.\<close>

definition park :: "(task \<Rightarrow> task) \<Rightarrow> ptr \<Rightarrow> asched \<Rightarrow> asched" where
  "park g q a = a_queue q (\<lambda>xs. xs @ [current a]) (a_set (current a) g a)"

lemma park_fields [simp]:
  "current (park g q a) = current a" "ready (park g q a) = ready a" "zombies (park g q a) = zombies a"
  "waiters (park g q a) = waiters a" "queues (park g q a) = (queues a)(q := queues a q @ [current a])"
  by (simp_all add: park_def)

lemma park_rep:
  assumes w: "well Qs idle s a" and q: "q \<in> set Qs" "q \<noteq> ready a" and ne: "current a \<noteq> idle"
    and g: "\<And>t. state (g t) = queue_state a q" "\<And>t. q = waiters a \<Longrightarrow> \<exists>p. wait_state (g t) = WPid p"
    and c: "tasks a (current a) = Some c"
  shows "rep_sched Qs (s\<lparr>tasks := (tasks s)(current a \<mapsto> g c), heap := list_add_before (heap s) q (current a)\<rparr>) (park g q a)"
    "core_inv Qs (park g q a)" "idle \<in> set (queues (park g q a) (ready a))"
    "dom (tasks (park g q a)) = (\<Union>r \<in> set Qs. set (queues (park g q a) r))"
    "tasks (park g q a) (current a) = Some (g c)"
proof -
  note d = wellD [OF w]
  note u = rep_upd_task [OF d(1) c, of g]
  show "rep_sched Qs (s\<lparr>tasks := (tasks s)(current a \<mapsto> g c), heap := list_add_before (heap s) q (current a)\<rparr>) (park g q a)"
    unfolding park_def
    using rep_heap [OF u(2), of "list_add_before (heap s) q (current a)" q "\<lambda>xs. xs @ [current a]"]
      rep_add_tail [OF rep_schedD [OF d(1)] q(1) d(5,4)]
    by (simp add: list_add_before_def)
  have "entry_ok (a_set (current a) g a) q (current a)"
    using g(1) [of c] g(2) [of c] c by (simp add: entry_ok_def queue_state_def)
  then show "core_inv Qs (park g q a)"
    unfolding park_def using d(2,5) q(2) by (intro core_queue core_set) auto
  show "idle \<in> set (queues (park g q a) (ready a))"
    using d(7) ne q(2) by (auto simp: park_def)
  show "dom (tasks (park g q a)) = (\<Union>r \<in> set Qs. set (queues (park g q a) r))"
    using d(8) unfolding park_def a_members_def a_queue_fields a_set_fields dom_upd_map UN_fun_upd [OF q(1)]
      UN_pick [OF q(1), of "queues a"] by auto
  show "tasks (park g q a) (current a) = Some (g c)" using c by (simp add: park_def)
qed

lemma well_sleep_on:
  assumes w: "well Qs idle s a" and q: "q \<in> set Qs" "q \<noteq> ready a" "q \<noteq> zombies a"
    and ne: "current a \<noteq> idle" and dw: "q = waiters a \<Longrightarrow> \<exists>p. dt = WPid p"
  shows "\<exists>s'. scheduler_sleep_on s q dt = Some s' \<and> well Qs idle s' (a_sleep_on q dt a)"
proof -
  note d = wellD [OF w]
  obtain c where c: "tasks a (current a) = Some c" "state c = RUNNING" using d(6) by blast
  let ?g = "\<lambda>t. t\<lparr>state := WAITING, wait_state := dt\<rparr>"
  let ?s = "s\<lparr>tasks := (tasks s)(current a \<mapsto> ?g c), heap := list_add_before (heap s) q (current a)\<rparr>"
  note p = park_rep [OF w q(1,2) ne _ _ c(1), of ?g]
  have pk: "rep_sched Qs ?s (park ?g q a)" "core_inv Qs (park ?g q a)"
      "idle \<in> set (queues (park ?g q a) (ready a))"
      "dom (tasks (park ?g q a)) = (\<Union>r \<in> set Qs. set (queues (park ?g q a) r))"
      "tasks (park ?g q a) (current a) = Some (?g c)"
    using p q dw by (simp_all add: queue_state_def)
  obtain s' where s': "schedule ?s = Some s'" "rep_sched Qs s' (a_schedule (park ?g q a))"
    using schedule_rep [OF pk(1) core_ready_ok [OF pk(2)], of "?g c"] d(4) pk(5) by (auto simp: park_def)
  have "sched_inv Qs idle (a_schedule (park ?g q a))"
    by (rule schedule_parked_inv [OF pk(1,2) _ _ pk(4)]) (use pk(3,5) in simp_all)
  moreover have "a_sleep_on q dt a = a_schedule (park ?g q a)" by (simp add: a_sleep_on_def park_def)
  moreover have "q \<noteq> 0" using rep_distinct [OF rep_schedD [OF d(1)] q(1)] by simp
  then have "scheduler_sleep_on s q dt = schedule ?s"
    using c rep_sched_eqs [OF d(1)] by (simp add: scheduler_sleep_on_def upd_task_def)
  ultimately show ?thesis using s' by (simp add: well_def)
qed

text \<open>Moving a task out of a waiting queue and into the ready queue keeps everything else.\<close>

lemma unlink:
  assumes rep: "rep_sched Qs s a" and core: "core_inv Qs a" and q: "q \<in> set Qs" and xs: "queues a q = us @ x # vs"
  shows "rep_sched Qs (s\<lparr>heap := list_delete (heap s) x\<rparr>) (a_queue q (remove1 x) a)"
    "x \<notin> queued Qs ((queues a)(q := remove1 x (queues a q)))" "x \<noteq> 0"
    "q \<noteq> ready a \<Longrightarrow> core_inv Qs (a_queue q (remove1 x) a)"
    "insert x (\<Union>r \<in> set Qs. set (((queues a)(q := remove1 x (queues a q))) r)) = (\<Union>r \<in> set Qs. set (queues a r))"
proof -
  note rq = rep_schedD [OF rep]
  have ds: "distinct (q # us @ x # vs)" "x \<noteq> 0" using rep_distinct [OF rq q] xs by auto
  then have rm: "remove1 x (queues a q) = us @ vs" using xs by (simp add: remove1_append)
  show "rep_sched Qs (s\<lparr>heap := list_delete (heap s) x\<rparr>) (a_queue q (remove1 x) a)"
    by (rule rep_heap [OF rep]) (use rep_delete [OF rq q xs] rm in simp)
  show "x \<noteq> 0" by (rule ds)
  have "x \<notin> set (r # ((queues a)(q := us @ vs)) r)" if "r \<in> set Qs" for r
    using ds rep_queues_unique [OF rq that q, of x] xs by (cases "r = q") auto
  then show "x \<notin> queued Qs ((queues a)(q := remove1 x (queues a q)))" unfolding rm by (auto simp: queued_def)
  show "core_inv Qs (a_queue q (remove1 x) a)" if "q \<noteq> ready a"
    using core that by (intro core_queue) (auto dest: notin_set_remove1)
  show "insert x (\<Union>r \<in> set Qs. set (((queues a)(q := remove1 x (queues a q))) r)) = (\<Union>r \<in> set Qs. set (queues a r))"
    unfolding rm UN_fun_upd [OF q] UN_pick [OF q, of "queues a"] xs by auto
qed

lemma move_to_ready:
  assumes rep: "rep_sched Qs s a" and core: "core_inv Qs a" and q: "q \<in> set Qs" "q \<noteq> ready a"
    and x: "x \<in> set (queues a q)"
  shows "\<exists>s'. scheduler_wake_up (s\<lparr>heap := list_delete (heap s) x\<rparr>) x = Some s' \<and>
      rep_sched Qs s' (a_wake x (a_queue q (remove1 x) a))"
    "core_inv Qs (a_wake x (a_queue q (remove1 x) a))"
    "(\<Union>r \<in> set Qs. set (queues (a_wake x (a_queue q (remove1 x) a)) r)) = (\<Union>r \<in> set Qs. set (queues a r))"
    "set (queues a (ready a)) \<subseteq> set (queues (a_wake x (a_queue q (remove1 x) a)) (ready a))"
proof -
  obtain us vs where xs: "queues a q = us @ x # vs" using x by (auto simp: in_set_conv_decomp)
  note u = unlink [OF rep core q(1) xs]
  obtain t where t: "tasks a x = Some t" using core_entry [OF core q(1) x] by (auto elim: entry_okE)
  let ?b = "a_queue q (remove1 x) a"
  show "\<exists>s'. scheduler_wake_up (s\<lparr>heap := list_delete (heap s) x\<rparr>) x = Some s' \<and> rep_sched Qs s' (a_wake x ?b)"
    using a_wake_rep [OF u(1) core_ready_ok [OF u(4) [OF q(2)]], of x t] u(2,3) t by simp
  show "core_inv Qs (a_wake x ?b)" using core_wake [OF u(4) [OF q(2)], of x t] u(2) t by simp
  have r: "ready a \<in> set Qs" by (rule core_heads(1) [OF core])
  have "(\<Union>r \<in> set Qs. set (queues (a_wake x ?b) r)) = insert x (\<Union>r \<in> set Qs. set (queues ?b r))"
    unfolding a_wake_fields a_queue_fields UN_fun_upd [OF r] UN_pick [OF r, of "(queues a)(q := remove1 x (queues a q))"]
    by auto
  then show "(\<Union>r \<in> set Qs. set (queues (a_wake x ?b) r)) = (\<Union>r \<in> set Qs. set (queues a r))" using u(5) by simp
  show "set (queues a (ready a)) \<subseteq> set (queues (a_wake x ?b) (ready a))" using q(2) by auto
qed

lemma well_wake_up:
  assumes w: "well Qs idle s a" and q: "q \<in> set Qs" "q \<noteq> ready a" and x: "x \<in> set (queues a q)"
  shows "\<exists>s'. scheduler_wake_up (s\<lparr>heap := list_delete (heap s) x\<rparr>) x = Some s' \<and>
    well Qs idle s' (a_wake x (a_queue q (remove1 x) a))"
proof -
  note d = wellD [OF w] and m = move_to_ready [OF wellD(1,2) [OF w] q x]
  let ?b = "a_wake x (a_queue q (remove1 x) a)"
  have nx: "current a \<noteq> x" using d(5) queued_mem [of q Qs x "queues a"] q(1) x by auto
  have "current a \<notin> queued Qs (queues ?b)"
    using d(5) nx by (auto simp: queued_def split: if_splits dest: notin_set_remove1)
  moreover have "dom (tasks ?b) = a_members Qs ?b"
    using d(8) m(3) by (simp only: a_members_def a_wake_fields a_queue_fields dom_upd_map)
  moreover have "idle \<in> insert (current ?b) (set (queues ?b (ready ?b)))"
    using d(7) m(4) by auto
  moreover have "map_option state (tasks ?b (current ?b)) = Some RUNNING" using d(6) nx by auto
  ultimately have "sched_inv Qs idle ?b" using m(2) d(4) by (simp only: sched_inv_def a_wake_fields a_queue_fields) auto
  with m(1) show ?thesis by (auto simp: well_def)
qed

text \<open>A fresh task, allocated but not yet known to the scheduler, enters the ready queue.\<close>

lemma well_queue_new:
  assumes w: "well Qs idle s a" and x: "x \<notin> dom (tasks a)" "x \<notin> queued Qs (queues a)" "x \<noteq> 0"
  shows "\<exists>s'. scheduler_queue_new (s\<lparr>tasks := (tasks s)(x \<mapsto> t)\<rparr>) x pr = Some (next_pid a, s') \<and>
    well Qs idle s' (a_new x pr (a\<lparr>tasks := (tasks a)(x \<mapsto> t)\<rparr>))"
proof -
  note d = wellD [OF w]
  obtain c where c: "tasks a (current a) = Some c" "state c = RUNNING" using d(6) by blast
  have xc: "x \<noteq> current a" using c x(1) by auto
  let ?u = "t\<lparr>pid := next_pid a, parent := pid c, prio := pr, state := READY\<rparr>"
  let ?a0 = "a\<lparr>next_pid := int16 (next_pid a + 1), tasks := (tasks a)(x \<mapsto> ?u)\<rparr>"
  let ?s0 = "s\<lparr>next_pid := int16 (next_pid s + 1), tasks := (tasks s)(x \<mapsto> ?u)\<rparr>"
  have rep: "rep_sched Qs ?s0 ?a0"
    using rep_schedD [OF d(1)] rep_sched_eqs [OF d(1)] by (intro rep_schedI) simp_all
  have old: "y \<noteq> x" if "q \<in> set Qs" "y \<in> set (queues a q)" for q y
    using x(2) that by (auto simp: queued_def)
  have core: "core_inv Qs ?a0"
    by (rule core_inv_cong [OF d(2)]) (use old in auto)
  obtain s' where s': "task_put ?s0 (ready ?s0) x = Some s'" "rep_sched Qs s' (a_put x ?a0)"
    using a_put_rep [OF rep core_ready_ok [OF core], of x ?u] x by auto
  have new: "a_new x pr (a\<lparr>tasks := (tasks a)(x \<mapsto> t)\<rparr>) = a_put x ?a0"
    using xc c by (simp add: a_new_def a_set_def)
  have "scheduler_queue_new (s\<lparr>tasks := (tasks s)(x \<mapsto> t)\<rparr>) x pr = Some (next_pid a, s')"
    using s' rep_sched_eqs [OF d(1)] rep_sched_eqs [OF s'(2)] c xc
    by (simp add: scheduler_queue_new_def upd_task_def a_put_def)
  moreover have "core_inv Qs (a_put x ?a0)"
    unfolding a_put_def by (rule core_queue [OF core])
      (use core in \<open>auto simp: prio_insert_sorted entry_ok_def queue_state_def core_inv_def heads_ok_def\<close>)
  then have "sched_inv Qs idle (a_put x ?a0)"
    using d(4-8) c xc UN_fun_upd [OF core_heads(1) [OF d(2)], of "queues a"]
      UN_pick [OF core_heads(1) [OF d(2)], of "queues a"]
    by (auto simp: sched_inv_def a_put_def a_members_def queued_def)
  ultimately show ?thesis using s'(2) new by (simp add: well_def)
qed

lemma exit_waiter:
  assumes "core_inv Qs a" "x \<in> set (queues a (waiters a))"
  shows "\<exists>w. tasks a x = Some w \<and> waits_for c w = Some (waits_for c w = Some True)"
  using core_entry [OF assms(1) core_heads(3) [OF assms(1)] assms(2)]
  by (auto elim!: entry_okE simp: waits_for_def)

text \<open>The step of \<^verbatim>\<open>scheduler_exit\<close> between parking the current task and \<^verbatim>\<open>schedule\<close>.\<close>

definition a_notify :: "ptr option \<Rightarrow> asched \<Rightarrow> asched" where
  "a_notify r b = (case r of Some x \<Rightarrow> a_wake x (a_queue (waiters b) (remove1 x) b) | None \<Rightarrow> b)"

lemma notify_rep:
  assumes rep: "rep_sched Qs s b" and core: "core_inv Qs b"
    and r: "\<And>x. r = Some x \<Longrightarrow> x \<in> set (queues b (waiters b)) \<and> x \<noteq> current b"
  shows "\<exists>s'. (case r of Some x \<Rightarrow> scheduler_wake_up (s\<lparr>heap := list_delete (heap s) x\<rparr>) x | None \<Rightarrow> Some s) = Some s' \<and>
      rep_sched Qs s' (a_notify r b)"
    "core_inv Qs (a_notify r b)" "set (queues b (ready b)) \<subseteq> set (queues (a_notify r b) (ready b))"
    "ready (a_notify r b) = ready b" "current (a_notify r b) = current b"
    "(\<Union>q \<in> set Qs. set (queues (a_notify r b) q)) = (\<Union>q \<in> set Qs. set (queues b q))"
    "dom (tasks (a_notify r b)) = dom (tasks b)" "tasks (a_notify r b) (current b) = tasks b (current b)"
proof -
  have w: "waiters b \<in> set Qs" "waiters b \<noteq> ready b" using core by (auto simp: core_inv_def heads_ok_def)
  note m = move_to_ready [OF rep core w]
  show "\<exists>s'. (case r of Some x \<Rightarrow> scheduler_wake_up (s\<lparr>heap := list_delete (heap s) x\<rparr>) x | None \<Rightarrow> Some s) = Some s' \<and>
      rep_sched Qs s' (a_notify r b)"
    using m(1) r rep by (cases r) (auto simp: a_notify_def)
  show "core_inv Qs (a_notify r b)" using m(2) r core by (cases r) (auto simp: a_notify_def)
  show "set (queues b (ready b)) \<subseteq> set (queues (a_notify r b) (ready b))"
    using m(4) r by (cases r) (auto simp: a_notify_def)
  show "(\<Union>q \<in> set Qs. set (queues (a_notify r b) q)) = (\<Union>q \<in> set Qs. set (queues b q))"
    using m(3) r by (cases r) (auto simp: a_notify_def)
  show "dom (tasks (a_notify r b)) = dom (tasks b)"
    by (cases r) (simp_all only: a_notify_def option.case a_wake_fields a_queue_fields dom_upd_map)
  show "tasks (a_notify r b) (current b) = tasks b (current b)"
    using r by (cases r) (auto simp: a_notify_def)
  show "ready (a_notify r b) = ready b" "current (a_notify r b) = current b"
    by (cases r; simp add: a_notify_def)+
qed

lemma well_exit:
  assumes w: "well Qs idle s a" and ne: "current a \<noteq> idle" and c: "tasks a (current a) = Some c" "pid c \<noteq> 0"
  shows "\<exists>s'. scheduler_exit s st = Some s' \<and> well Qs idle s' (a_exit st a)"
proof -
  note d = wellD [OF w] and eqs = rep_sched_eqs [OF wellD(1) [OF w]]
  let ?g = "\<lambda>t. t\<lparr>state := ZOMBIE, status := st\<rparr>"
  let ?s = "s\<lparr>tasks := (tasks s)(current a \<mapsto> ?g c), heap := list_add_before (heap s) (zombies a) (current a)\<rparr>"
  let ?P = "\<lambda>x. waits_for c (the (tasks a x)) = Some True" and ?ws = "queues a (waiters a)"
  have h: "zombies a \<in> set Qs" "zombies a \<noteq> ready a" "zombies a \<noteq> waiters a"
    using d(2) by (auto simp: core_inv_def heads_ok_def)
  define b where "b = park ?g (zombies a) a"
  have pk: "rep_sched Qs ?s b" "core_inv Qs b" "idle \<in> set (queues b (ready a))"
      "dom (tasks b) = (\<Union>r \<in> set Qs. set (queues b r))" "tasks b (current a) = Some (?g c)"
    unfolding b_def using park_rep [OF w h(1,2) ne _ _ c(1), of ?g] h(2,3) by (simp_all add: queue_state_def)
  have bf: "waiters b = waiters a" "ready b = ready a" "current b = current a" "queues b (waiters a) = ?ws"
    using h(3) by (simp_all add: b_def)
  have nc: "x \<noteq> current a" if "x \<in> set ?ws" for x
    using that d(5) core_heads(3) [OF d(2)] by (auto simp: queued_def)
  have found: "list_find_entry (heap ?s) (waiters a) (\<lambda>x. do { v \<leftarrow> tasks ?s x; waits_for c v }) = Some (find ?P ?ws)"
  proof (rule list_find_entry_is_list)
    show "is_list (heap ?s) (waiters a) ?ws"
      using rep_queuesD [OF rep_schedD [OF pk(1)] core_heads(3) [OF pk(2)]] bf by simp
    show "do { v \<leftarrow> tasks ?s x; waits_for c v } = Some (?P x)" if "x \<in> set ?ws" for x
      using exit_waiter [OF d(2) that, of c] nc [OF that] eqs(1) by auto
  qed
  have "x \<in> set (queues b (waiters b)) \<and> x \<noteq> current b" if "find ?P ?ws = Some x" for x
    using find_split [OF that] nc bf by (metis in_set_conv_decomp)
  note n = notify_rep [OF pk(1,2), of "find ?P ?ws", OF this]
  let ?e = "a_notify (find ?P ?ws) b"
  obtain s1 where s1: "(case find ?P ?ws of Some x \<Rightarrow> scheduler_wake_up (?s\<lparr>heap := list_delete (heap ?s) x\<rparr>) x
      | None \<Rightarrow> Some ?s) = Some s1" "rep_sched Qs s1 ?e" using n(1) by blast
  have "sched_inv Qs idle (a_schedule ?e)"
    by (rule schedule_parked_inv [OF s1(2) n(2)]) (use n(3-8) pk bf in auto)
  moreover obtain s2 where s2: "schedule s1 = Some s2" "rep_sched Qs s2 (a_schedule ?e)"
    using schedule_rep [OF s1(2) core_ready_ok [OF n(2)], of "?g c"] n(5,8) pk(5) bf d(4) by auto
  moreover have "a_exit st a = a_schedule ?e"
    using bf by (simp add: a_exit_def Let_def a_notify_def b_def park_def c cong: option.case_cong)
  moreover have "scheduler_exit s st = Some s2"
    using found s1(1) s2(1) c d(4) eqs
    by (simp add: scheduler_exit_def upd_task_def Let_def cong: option.case_cong)
  ultimately show ?thesis using s2(2) by (simp add: well_def)
qed

section \<open>Waiting for a task\<close>

definition a_zombie :: "int \<Rightarrow> asched \<Rightarrow> ptr option" where
  "a_zombie p a =
     find (\<lambda>x. if p = - 1 then parent (the (tasks a x)) = pid (the (tasks a (current a)))
               else pid (the (tasks a x)) = p) (queues a (zombies a))"

lemma well_zombie:
  assumes w: "well Qs idle s a"
  shows "(if p = - 1 then do { c \<leftarrow> tasks s (current s); task_find_child_of s (zombies s) (pid c) }
      else task_find s (zombies s) p) = Some (case a_zombie p a of Some x \<Rightarrow> x | None \<Rightarrow> 0)"
proof -
  note d = wellD [OF w] and eqs = rep_sched_eqs [OF wellD(1) [OF w]]
  note l = rep_queuesD [OF rep_schedD [OF d(1)] core_heads(2) [OF d(2)]]
  have live: "\<exists>t. tasks a x = Some t" if "x \<in> set (queues a (zombies a))" for x
    using core_entry [OF d(2) core_heads(2) [OF d(2)] that] by (auto elim: entry_okE)
  have "list_find_entry (heap s) (zombies a) (\<lambda>t. do { e \<leftarrow> tasks a t; Some (f e = v) })
      = Some (find (\<lambda>x. f (the (tasks a x)) = v) (queues a (zombies a)))" for f :: "task \<Rightarrow> int" and v
  proof (rule list_find_entry_is_list [OF l])
    fix x assume "x \<in> set (queues a (zombies a))"
    then obtain t where "tasks a x = Some t" using live by blast
    then show "do { e \<leftarrow> tasks a x; Some (f e = v) } = Some (f (the (tasks a x)) = v)" by simp
  qed
  note found = this
  obtain c where c: "tasks a (current a) = Some c" using d(6) by blast
  show ?thesis
  proof (cases "p = - 1")
    case True
    then show ?thesis using c found [of parent "pid c"] eqs
      by (simp add: task_find_child_of_def a_zombie_def)
  next
    case False
    show ?thesis unfolding task_find_def a_zombie_def eqs found [of pid p]
      by (simp only: False if_False bind.bind_lunit)
  qed
qed

lemma a_zombie_in: "a_zombie p a = Some x \<Longrightarrow> x \<in> set (queues a (zombies a))"
  by (auto simp: a_zombie_def find_Some_iff)

lemma well_wait_none:
  assumes w: "well Qs idle s a" and p: "- 1 \<le> p" and z: "a_zombie p a = None"
  shows "options AND WNOHANG \<noteq> 0 \<Longrightarrow> scheduler_wait s p options = Some (WaitReturns 0, s)"
    "options AND WNOHANG = 0 \<Longrightarrow> current a \<noteq> idle \<Longrightarrow> \<exists>s'. scheduler_wait s p options = Some (WaitSleeps, s') \<and>
      well Qs idle s' (a_sleep_on (waiters a) (WPid p) a)"
proof -
  note f = well_zombie [OF w, of p]
  have h: "waiters a \<in> set Qs" "waiters a \<noteq> ready a" "waiters a \<noteq> zombies a"
    using wellD(2) [OF w] by (auto simp: core_inv_def heads_ok_def)
  show "scheduler_wait s p options = Some (WaitReturns 0, s)" if "options AND WNOHANG \<noteq> 0"
    using p z that unfolding scheduler_wait_def scheduler_wait_pass_def f by simp
  assume o: "options AND WNOHANG = 0" and ne: "current a \<noteq> idle"
  from well_sleep_on [OF w h ne, of "WPid p"] obtain s' where
    "scheduler_sleep_on s (waiters a) (WPid p) = Some s'" "well Qs idle s' (a_sleep_on (waiters a) (WPid p) a)" by auto
  with p z o show "\<exists>s'. scheduler_wait s p options = Some (WaitSleeps, s') \<and>
      well Qs idle s' (a_sleep_on (waiters a) (WPid p) a)"
    unfolding scheduler_wait_def scheduler_wait_pass_def f using rep_sched_eqs [OF wellD(1) [OF w]] by auto
qed

lemma well_wait_some:
  assumes w: "well Qs idle s a" and p: "- 1 \<le> p" and z: "a_zombie p a = Some x"
  shows "\<exists>t. tasks a x = Some t \<and> scheduler_wait s p options =
    Some (WaitCollects (pid t) (wait_status (status t)) [stack t, x], s\<lparr>tasks := (tasks s)(x := None)\<rparr>)"
proof -
  note d = wellD [OF w] and f = well_zombie [OF w, of p]
  note i = a_zombie_in [OF z]
  obtain t where t: "tasks a x = Some t"
    using core_entry [OF d(2) core_heads(2) [OF d(2)] i] by (auto elim: entry_okE)
  have "x \<noteq> 0" using is_list_nonzero [OF rep_queuesD [OF rep_schedD [OF d(1)] core_heads(2) [OF d(2)]] i] .
  then show ?thesis using p z t rep_sched_eqs [OF d(1)]
    unfolding scheduler_wait_def scheduler_wait_pass_def f by auto
qed

lemma wait_status_roundtrip:
  "WIFEXITED (wait_status st) \<and> WEXITSTATUS (wait_status st) = st mod 256"
proof -
  define m where "m = st mod 256"
  have m: "0 \<le> m" "m < 256" by (simp_all add: m_def)
  have "(m * 256 + 32768) mod 65536 = (m - 128) * 256" if "128 \<le> m"
  proof -
    have "(m * 256 + 32768) mod 65536 = ((m - 128) * 256 + 65536) mod 65536" by (simp add: algebra_simps)
    also have "\<dots> = (m - 128) * 256" using that m by (simp only: mod_add_self2) simp
    finally show ?thesis .
  qed
  then have "wait_status st = (if m < 128 then m * 256 else (m - 256) * 256)"
    using m by (auto simp: wait_status_def and_byte_int push_bit_eq_mult m_def [symmetric] int16_eq algebra_simps)
  then show ?thesis
    using m unfolding m_def [symmetric]
    by (auto simp: WIFEXITED_def WEXITSTATUS_def and_byte_int drop_bit_eq_div)
qed

section \<open>Reachable states\<close>

lemma is_list_unique:
  assumes "is_list h l xs" "is_list h l ys" shows "xs = ys"
proof -
  have "lseg h p xs l \<Longrightarrow> lseg h p ys l \<Longrightarrow> l \<notin> set xs \<Longrightarrow> l \<notin> set ys \<Longrightarrow> xs = ys" for p
  proof (induction xs arbitrary: p ys)
    case Nil
    then show ?case by (cases ys) auto
  next
    case (Cons x xs)
    then show ?case by (cases ys) auto
  qed
  then show ?thesis using assms unfolding is_list_def by auto
qed

lemma well_fresh: "well Qs idle s a \<Longrightarrow> tasks s x = None \<Longrightarrow> x \<notin> set Qs \<Longrightarrow> x \<notin> queued Qs (queues a)"
  using wellD(8) [of Qs idle s a] rep_sched_eqs(1) [OF wellD(1)]
  by (auto simp: a_members_def queued_def)

lemma well_regs: "well Qs idle s a \<Longrightarrow> well Qs idle (s\<lparr>regs := r\<rparr>) (a\<lparr>regs := r\<rparr>)"
  by (simp add: well_def rep_sched_def sched_base.truncate_def sched_inv_def a_members_def)

lemma exit_well:
  assumes w: "well Qs idle s a" and "current s \<noteq> idle"
  shows "\<exists>s' a'. scheduler_exit s st = Some s' \<and> well Qs idle s' a'"
proof -
  note eqs = rep_sched_eqs [OF wellD(1) [OF w]]
  obtain c where c: "tasks a (current a) = Some c" using wellD(6) [OF w] by blast
  show ?thesis
  proof (cases "pid c = 0")
    case True
    then have "scheduler_exit s st = Some s" using c eqs wellD(4) [OF w] by (simp add: scheduler_exit_def)
    then show ?thesis using w by blast
  next
    case False
    then show ?thesis using well_exit [OF w _ c, of st] assms(2) eqs by auto
  qed
qed

lemma wait_well:
  assumes w: "well Qs idle s a" and ne: "current s \<noteq> idle"
  shows "\<exists>r s'. scheduler_wait s p options = Some (r, s') \<and>
    ((\<forall>d st fs. r \<noteq> WaitCollects d st fs) \<longrightarrow> (\<exists>a'. well Qs idle s' a'))"
proof -
  consider "p < - 1" | "- 1 \<le> p" "a_zombie p a = None" | x where "- 1 \<le> p" "a_zombie p a = Some x"
    by (cases "a_zombie p a") force+
  then show ?thesis
  proof cases
    case 1
    then show ?thesis using w by (auto simp: scheduler_wait_def)
  next
    case 2
    then show ?thesis
      using well_wait_none [OF w 2, of options] w ne rep_sched_eqs [OF wellD(1) [OF w]]
      by (cases "options AND WNOHANG = 0") auto
  next
    case 3
    then show ?thesis using well_wait_some [OF w 3, of options] by auto
  qed
qed

lemma sched_step_well:
  assumes "sched_step Qs idle s s'" "well Qs idle s a"
  shows "\<exists>a'. well Qs idle s' a'"
  using assms
proof (induction rule: sched_step.induct)
  case (step_schedule s s')
  then show ?case using well_schedule by fastforce
next
  case (step_run s r)
  then show ?case using well_regs by blast
next
  case (step_new s x t pr r s')
  then have "x \<notin> dom (tasks a)" using rep_sched_eqs(1) [OF wellD(1) [OF step_new.prems]] by (simp add: domIff)
  with step_new well_queue_new [of Qs idle s a x t pr] well_fresh [OF step_new.prems, of x] show ?case by auto
next
  case (step_sleep s q d s')
  with well_sleep_on [of Qs idle s a q d] rep_sched_eqs [OF wellD(1) [OF step_sleep.prems]] show ?case by auto
next
  case (step_wake q s xs x s')
  have "xs = queues a q"
    using step_wake.hyps(4) rep_queuesD [OF rep_schedD [OF wellD(1) [OF step_wake.prems]] step_wake.hyps(1)]
    by (rule is_list_unique)
  with step_wake well_wake_up [of Qs idle s a q x] rep_sched_eqs [OF wellD(1) [OF step_wake.prems]]
  show ?case by auto
next
  case (step_exit s st s')
  then show ?case using exit_well [of Qs idle s a st] by auto
next
  case (step_wait s p options r s')
  then show ?case using wait_well [of Qs idle s a p options] by auto
qed

lemma boot_well:
  assumes "rep_queues (heap s0) Qs (\<lambda>_. [])" "tasks s0 = (\<lambda>_. None)"
    and heads: "{ready s0, zombies s0, waiters s0} \<subseteq> set Qs" "distinct [ready s0, zombies s0, waiters s0]"
    and p: "p \<notin> set Qs" "scheduler_initialize s0 p = Some s1"
  shows "\<exists>a. well Qs p s1 a \<and> dom (tasks a) = {p} \<and> queues a = (\<lambda>_. []) \<and> current a = p \<and> prio_of (tasks a) p = 0"
proof -
  let ?t = "zero_task\<lparr>pid := next_pid s0, parent := - 1, state := RUNNING, prio := 0\<rparr>"
  let ?a = "\<lparr>tasks = [p \<mapsto> ?t], current = p, next_pid = int16 (next_pid s0 + 1), regs = regs s0,
    ready = ready s0, zombies = zombies s0, waiters = waiters s0, queues = (\<lambda>_. [])\<rparr>"
  have "p \<noteq> 0" using p(2) by (auto simp: scheduler_initialize_def)
  then have s1: "s1 = s0\<lparr>tasks := [p \<mapsto> ?t], current := p, next_pid := int16 (next_pid s0 + 1),
      heap := list_initialize (heap s0) p\<rparr>"
    using p(2) assms(2) by (auto simp: scheduler_initialize_def upd_task_def)
  have "is_list (list_initialize (heap s0) p) q []" if "q \<in> set Qs" for q
    using that p(1) assms(1) by (subst is_list_frame [of q "[]" _ "heap s0"])
      (auto simp: list_initialize_def rep_queues_def)
  then have "rep_queues (heap s1) Qs (queues ?a)" using assms(1) s1 by (auto simp: rep_queues_def)
  then have "rep_sched Qs s1 ?a" unfolding s1 by (intro rep_schedI) simp_all
  moreover have "sched_inv Qs p ?a"
    using heads p(1) \<open>p \<noteq> 0\<close>
    by (auto simp: sched_inv_def core_inv_def heads_ok_def queue_ok_def by_prio_def queued_def a_members_def)
  ultimately show ?thesis by (intro exI [of _ ?a]) (auto simp: well_def prio_of_def)
qed

lemma reach_well: "sched_reach Qs idle s \<Longrightarrow> \<exists>a. well Qs idle s a"
proof (induction rule: sched_reach.induct)
  case (reach_boot s0 p s1 t pr r s2)
  obtain a where a: "well Qs p s1 a" "dom (tasks a) = {p}" using boot_well reach_boot.hyps(1-6) by blast
  have i: "idle \<notin> dom (tasks a)" using a(2) reach_boot.hyps(9) by simp
  have "idle \<notin> queued Qs (queues a)"
    using well_fresh [OF a(1), of idle] i reach_boot.hyps(7) rep_sched_eqs(1) [OF wellD(1) [OF a(1)]]
    by (auto simp: domIff)
  then obtain s' where "scheduler_queue_new (s1\<lparr>tasks := (tasks s1)(idle \<mapsto> t)\<rparr>) idle pr = Some (next_pid a, s')"
      "well Qs p s' (a_new idle pr (a\<lparr>tasks := (tasks a)(idle \<mapsto> t)\<rparr>))"
    using well_queue_new [OF a(1) i _ reach_boot.hyps(8), of t pr] by blast
  moreover have "idle \<in> set (queues (a_new idle pr (a\<lparr>tasks := (tasks a)(idle \<mapsto> t)\<rparr>)) (ready a))"
    by (simp add: a_new_def a_put_def)
  moreover have "ready (a_new idle pr (a\<lparr>tasks := (tasks a)(idle \<mapsto> t)\<rparr>)) = ready a"
    by (simp add: a_new_def a_put_def)
  ultimately show ?case using reach_boot.hyps(10) by (auto simp: well_def sched_inv_def)
next
  case (reach_step s s')
  then show ?case using sched_step_well by blast
qed

section \<open>Round robin\<close>

lemma a_schedule_fields:
  assumes "sched_inv Qs idle a" "queues a (ready a) = nx # rest"
  shows "current (a_schedule a) = nx" "ready (a_schedule a) = ready a"
    "queues (a_schedule a) (ready a) = prio_insert (tasks a) (current a) rest"
    "prio_of (tasks (a_schedule a)) = prio_of (tasks a)"
    "nx \<noteq> current a \<Longrightarrow> regs (a_schedule a) = ctx (the (tasks a nx))"
    "nx \<noteq> current a \<Longrightarrow> map_option ctx (tasks (a_schedule a) (current a)) = Some (regs a)"
proof -
  have run: "map_option state (tasks a (current a)) = Some RUNNING" using assms(1) by (simp add: sched_inv_def)
  have sc: "a_schedule a = a_run (current a) nx (a_wake (current a) (a_queue (ready a) (\<lambda>_. rest) a))"
    unfolding a_schedule_def Let_def assms(2) list.case run if_P [OF refl] ..
  show "current (a_schedule a) = nx" "ready (a_schedule a) = ready a"
    "queues (a_schedule a) (ready a) = prio_insert (tasks a) (current a) rest" by (simp_all add: sc)
  show "prio_of (tasks (a_schedule a)) = prio_of (tasks a)"
    by (auto simp: sc a_run_def Let_def prio_of_def fun_eq_iff split: option.splits)
  show "nx \<noteq> current a \<Longrightarrow> regs (a_schedule a) = ctx (the (tasks a nx))"
    using core_ready_ok [of Qs a] assms by (auto simp: sc a_run_def Let_def sched_inv_def ready_ok_def)
  show "nx \<noteq> current a \<Longrightarrow> map_option ctx (tasks (a_schedule a) (current a)) = Some (regs a)"
    using run by (auto simp: sc a_run_def Let_def)
qed

lemma prio_insert_equal:
  "(\<And>y. y \<in> set xs \<Longrightarrow> prio_of ts y = prio_of ts x) \<Longrightarrow> prio_insert ts x xs = xs @ [x]"
  unfolding prio_insert_def by (induction xs) auto

lemma round_robin:
  assumes "well Qs idle s a" "\<And>x. x \<in> set (queues a (ready a)) \<Longrightarrow> prio_of (tasks a) x = prio_of (tasks a) (current a)"
  shows "\<exists>s' a'. schedule_times n s = Some s' \<and> well Qs idle s' a' \<and>
    current a' # queues a' (ready a') = rotate n (current a # queues a (ready a))"
  using assms
proof (induction n arbitrary: s a)
  case 0
  then show ?case by auto
next
  case (Suc n)
  obtain s' where s': "schedule s = Some s'" "well Qs idle s' (a_schedule a)" using well_schedule [OF Suc.prems(1)] by blast
  let ?b = "a_schedule a"
  have inv: "sched_inv Qs idle a" using Suc.prems(1) by (simp add: well_def)
  have rot: "current ?b # queues ?b (ready ?b) = rotate1 (current a # queues a (ready a)) \<and>
      (\<forall>x \<in> set (queues ?b (ready ?b)). prio_of (tasks ?b) x = prio_of (tasks ?b) (current ?b))"
  proof (cases "queues a (ready a)")
    case Nil
    then show ?thesis by (simp add: a_schedule_def)
  next
    case (Cons nx rest)
    note f = a_schedule_fields [OF inv Cons]
    have "prio_insert (tasks a) (current a) rest = rest @ [current a]"
      by (rule prio_insert_equal) (use Suc.prems(2) Cons in simp)
    then show ?thesis using f(1-4) Cons Suc.prems(2) by auto
  qed
  obtain s2 a2 where "schedule_times n s' = Some s2" "well Qs idle s2 a2"
      "current a2 # queues a2 (ready a2) = rotate n (current ?b # queues ?b (ready ?b))"
    using Suc.IH [OF s'(2)] rot by blast
  then show ?case using s'(1) rot by (simp only: schedule_times.simps bind.bind_lunit)
    (metis rotate1_rotate_swap rotate_Suc)
qed

section \<open>A concrete scheduler\<close>

text \<open>
  The state after boot for the witnesses: the heads \<^verbatim>\<open>ready\<close>, \<^verbatim>\<open>zombies\<close> and \<^verbatim>\<open>waiters\<close> at the
  addresses 1 to 3 and a driver's queue at 4, the kernel task at 16, the idle task at 32.
\<close>

definition boot_sched :: sched where
  "boot_sched = \<lparr>tasks = (\<lambda>_. None), current = 0, next_pid = 0, regs = \<lparr>ctx_sp = 0, ctx_ss = 0\<rparr>,
     ready = 1, zombies = 2, waiters = 3,
     heap = foldl list_initialize \<lparr>prv = (\<lambda>_. 0), nxt = (\<lambda>_. 0)\<rparr> [1, 2, 3, 4]\<rparr>"

definition kernel_sched :: sched where
  "kernel_sched = the (scheduler_initialize boot_sched 16)"

definition started_sched :: "ptr \<Rightarrow> int \<Rightarrow> sched" where
  "started_sched x pr = snd (the (scheduler_queue_new
     (kernel_sched\<lparr>tasks := (tasks kernel_sched)(x \<mapsto> zero_task)\<rparr>) x pr))"

definition idle_sched :: sched where "idle_sched = started_sched 32 (- 32767)"

lemma boot_rep: "rep_queues (heap boot_sched) [1, 2, 3, 4] (\<lambda>_. [])"
  by (simp add: boot_sched_def rep_queues_def is_list_def list_initialize_def)

lemma kernel_sched_init: "scheduler_initialize boot_sched 16 = Some kernel_sched"
  by (simp add: kernel_sched_def boot_sched_def scheduler_initialize_def upd_task_def)

lemma started_sched_ok:
  assumes x: "x \<notin> {0, 1, 2, 3, 4, 16}"
  shows "\<exists>r. scheduler_queue_new (kernel_sched\<lparr>tasks := (tasks kernel_sched)(x \<mapsto> zero_task)\<rparr>) x pr = Some (r, started_sched x pr)"
    "\<exists>a. well [1, 2, 3, 4] 16 (started_sched x pr) a \<and> queues a (ready a) = [x] \<and> current a = 16 \<and>
      prio_of (tasks a) x = pr \<and> prio_of (tasks a) 16 = 0 \<and> queues a (zombies a) = [] \<and> queues a (waiters a) = [] \<and>
      map_option pid (tasks a 16) = Some 0 \<and> map_option pid (tasks a x) = Some 1 \<and> map_option parent (tasks a x) = Some 0 \<and>
      ready a = 1 \<and> zombies a = 2 \<and> waiters a = 3 \<and> queues a 4 = []"
proof -
  obtain a where a: "well [1, 2, 3, 4] 16 kernel_sched a" "dom (tasks a) = {16}" "queues a = (\<lambda>_. [])"
      "current a = 16" "prio_of (tasks a) 16 = 0"
    using boot_well [OF boot_rep _ _ _ _ kernel_sched_init] by (auto simp: boot_sched_def)
  have k: "tasks kernel_sched 16 = Some (zero_task\<lparr>parent := - 1, state := RUNNING\<rparr>)" "next_pid kernel_sched = 1"
      "ready kernel_sched = 1" "zombies kernel_sched = 2" "waiters kernel_sched = 3"
    by (simp_all add: kernel_sched_def boot_sched_def scheduler_initialize_def upd_task_def zero_task_def in_int16_def)
  have k': "tasks a 16 = Some (zero_task\<lparr>parent := - 1, state := RUNNING\<rparr>)" "next_pid a = 1"
      "ready a = 1" "zombies a = 2" "waiters a = 3"
    using k rep_sched_eqs [OF wellD(1) [OF a(1)]] by simp_all
  have f: "x \<notin> dom (tasks a)" "x \<notin> queued [1, 2, 3, 4] (queues a)" "x \<noteq> 0"
    using x a(2,3) by (auto simp: queued_def)
  note q = well_queue_new [OF a(1) f, of zero_task pr]
  let ?a = "a_new x pr (a\<lparr>tasks := (tasks a)(x \<mapsto> zero_task)\<rparr>)"
  have st: "\<exists>s'. started_sched x pr = s' \<and> well [1, 2, 3, 4] 16 s' ?a"
    using q by (auto simp: started_sched_def)
  have h: "ready a \<noteq> zombies a" "ready a \<noteq> waiters a" using wellD(2) [OF a(1)] by (auto simp: core_inv_def heads_ok_def)
  have "queues ?a (ready ?a) = [x]" "current ?a = 16" "prio_of (tasks ?a) x = pr" "prio_of (tasks ?a) 16 = 0"
      "queues ?a (zombies ?a) = []" "queues ?a (waiters ?a) = []" "map_option pid (tasks ?a 16) = Some 0"
      "map_option pid (tasks ?a x) = Some 1" "map_option parent (tasks ?a x) = Some 0"
      "ready ?a = 1" "zombies ?a = 2" "waiters ?a = 3" "queues ?a 4 = []"
    using a x k' h by (auto simp: a_new_def a_put_def prio_insert_def prio_of_def zero_task_def)
  with st show "\<exists>a. well [1, 2, 3, 4] 16 (started_sched x pr) a \<and> queues a (ready a) = [x] \<and> current a = 16 \<and>
      prio_of (tasks a) x = pr \<and> prio_of (tasks a) 16 = 0 \<and> queues a (zombies a) = [] \<and> queues a (waiters a) = [] \<and>
      map_option pid (tasks a 16) = Some 0 \<and> map_option pid (tasks a x) = Some 1 \<and> map_option parent (tasks a x) = Some 0 \<and>
      ready a = 1 \<and> zombies a = 2 \<and> waiters a = 3 \<and> queues a 4 = []"
    by blast
  show "\<exists>r. scheduler_queue_new (kernel_sched\<lparr>tasks := (tasks kernel_sched)(x \<mapsto> zero_task)\<rparr>) x pr = Some (r, started_sched x pr)"
    using q by (auto simp: started_sched_def)
qed

lemma well_idle: "well Qs i s a \<Longrightarrow> j \<in> insert (current a) (set (queues a (ready a))) \<Longrightarrow> well Qs j s a"
  by (simp add: well_def sched_inv_def)

lemma idle_sched_ok:
  "\<exists>a. well [1, 2, 3, 4] 32 idle_sched a \<and> current a = 16 \<and> ready a = 1 \<and> zombies a = 2 \<and> waiters a = 3 \<and>
     queues a 1 = [32] \<and> queues a 4 = []"
proof -
  obtain a where "well [1, 2, 3, 4] 16 idle_sched a" "queues a (ready a) = [32]" "current a = 16"
      "ready a = 1" "zombies a = 2" "waiters a = 3" "queues a 4 = []"
    using started_sched_ok(2) [of 32 "- 32767"] by (auto simp: idle_sched_def)
  then show ?thesis using well_idle [of _ 16 idle_sched a 32] by (intro exI [of _ a]) auto
qed

lemma boot_reach: "sched_reach [1, 2, 3, 4] 32 idle_sched"
proof -
  obtain r where "scheduler_queue_new (kernel_sched\<lparr>tasks := (tasks kernel_sched)(32 \<mapsto> zero_task)\<rparr>) 32 (- 32767) = Some (r, idle_sched)"
    using started_sched_ok(1) [of 32 "- 32767"] by (auto simp: idle_sched_def)
  then show ?thesis
    using reach_boot [OF boot_rep, of 16 kernel_sched 32 zero_task] kernel_sched_init by (simp add: boot_sched_def)
qed

lemma queue_new_task:
  assumes "scheduler_queue_new (s\<lparr>tasks := (tasks s)(x \<mapsto> t)\<rparr>) x pr = Some (r, s')"
  shows "r = next_pid s \<and> (\<exists>pp. tasks s' = (tasks s)(x \<mapsto> t\<lparr>pid := r, parent := pp, prio := pr, state := READY\<rparr>))"
proof -
  have put: "tasks s2 = tasks s1" if "task_put s1 l y = Some s2" for s1 l y s2
    using that by (auto simp: task_put_def Let_def split: bind_splits if_splits option.splits)
  show ?thesis
    using assms unfolding scheduler_queue_new_def upd_task_def Let_def by (auto split: bind_splits dest!: put) blast
qed

lemma idle_sched_tasks:
  assumes "x \<noteq> 16" "x \<noteq> 32"
  shows "tasks idle_sched x = None"
proof -
  have "tasks kernel_sched x = None" using assms(1) by (simp add: kernel_sched_def boot_sched_def scheduler_initialize_def upd_task_def)
  moreover obtain r where "scheduler_queue_new (kernel_sched\<lparr>tasks := (tasks kernel_sched)(32 \<mapsto> zero_task)\<rparr>) 32 (- 32767) = Some (r, idle_sched)"
    using started_sched_ok(1) [of 32 "- 32767"] by (auto simp: idle_sched_def)
  ultimately show ?thesis using queue_new_task assms(2) by fastforce
qed

text \<open>The same after the created task was dispatched, and after it exited.\<close>

definition running_sched :: sched where "running_sched = the (schedule (started_sched 48 0))"

definition exited_sched :: sched where "exited_sched = the (scheduler_exit running_sched 3)"

lemma running_sched_ok:
  "\<exists>a c. well [1, 2, 3, 4] 16 running_sched a \<and> current a = 48 \<and> tasks a 48 = Some c \<and> pid c = 1 \<and> parent c = 0 \<and>
     map_option pid (tasks a 16) = Some 0 \<and> queues a (zombies a) = [] \<and> queues a (waiters a) = [] \<and>
     queues a (ready a) = [16]"
proof -
  obtain a where a: "well [1, 2, 3, 4] 16 (started_sched 48 0) a" "queues a (ready a) = [48]" "current a = 16"
      "queues a (zombies a) = []" "queues a (waiters a) = []"
      "map_option pid (tasks a 16) = Some 0" "map_option pid (tasks a 48) = Some 1" "map_option parent (tasks a 48) = Some 0"
    using started_sched_ok(2) [of 48 0] by auto
  have w: "well [1, 2, 3, 4] 16 running_sched (a_schedule a)"
    using well_schedule [OF a(1)] by (auto simp: running_sched_def)
  obtain c where c: "tasks a 48 = Some c" using a by auto
  have run: "map_option state (tasks a 16) = Some RUNNING" using wellD(6) [OF a(1)] a(3) by auto
  have h: "ready a \<noteq> zombies a" "ready a \<noteq> waiters a" using wellD(2) [OF a(1)] by (auto simp: core_inv_def heads_ok_def)
  have sc: "a_schedule a = a_run 16 48 (a_wake 16 (a_queue (ready a) (\<lambda>_. []) a))"
    unfolding a_schedule_def Let_def a(2,3) list.case run if_P [OF refl] ..
  have f: "zombies (a_schedule a) = zombies a" "waiters (a_schedule a) = waiters a" "ready (a_schedule a) = ready a"
    "current (a_schedule a) = 48" by (simp_all add: sc a_run_def Let_def)
  have t: "tasks (a_schedule a) 48 = Some (c\<lparr>state := RUNNING\<rparr>)" "map_option pid (tasks (a_schedule a) 16) = Some 0"
    using c a(6) by (auto simp: sc a_run_def Let_def)
  have q: "queues (a_schedule a) (zombies a) = []" "queues (a_schedule a) (waiters a) = []"
    "queues (a_schedule a) (ready a) = [16]" using a h by (simp_all add: sc prio_insert_def)
  show ?thesis
    by (rule exI [of _ "a_schedule a"], rule exI [of _ "c\<lparr>state := RUNNING\<rparr>"]) (use w f t q a(7,8) c in simp)
qed

section \<open>Properties\<close>





text \<open>
  C5. \<^verbatim>\<open>schedule\<close> implements the abstract dispatch: with an empty ready queue it changes nothing;
  otherwise the task that runs next is the head of the ready queue, which has the highest priority
  of the queue, with its saved stack registers loaded, and the preempted task is queued behind
  the tasks of at least its priority with its registers saved.
\<close>

theorem schedule_dispatches:
  assumes "rep_sched Qs s a" "sched_inv Qs idle a"
  shows "\<exists>s'. schedule s = Some s' \<and> rep_sched Qs s' (a_schedule a) \<and> sched_inv Qs idle (a_schedule a) \<and>
    (case queues a (ready a) of
       [] \<Rightarrow> a_schedule a = a
     | nx # rest \<Rightarrow> current s' = nx \<and> (\<forall>x \<in> set rest. prio_of (tasks a) x \<le> prio_of (tasks a) nx) \<and>
         queues (a_schedule a) (ready a) = prio_insert (tasks a) (current a) rest \<and>
         regs s' = ctx (the (tasks a nx)) \<and> map_option ctx (tasks s' (current a)) = Some (regs s))"
proof -
  have w: "well Qs idle s a" using assms by (simp add: well_def)
  obtain s' where s': "schedule s = Some s'" "well Qs idle s' (a_schedule a)" using well_schedule [OF w] by blast
  show ?thesis
  proof (cases "queues a (ready a)")
    case Nil
    then show ?thesis using s' by (auto simp: well_def a_schedule_def)
  next
    case (Cons nx rest)
    have "nx \<noteq> current a"
      using wellD(5) [OF w] core_heads(1) [OF wellD(2) [OF w]] Cons queued_mem [of "ready a" Qs nx "queues a"] by auto
    moreover have "\<forall>x \<in> set rest. prio_of (tasks a) x \<le> prio_of (tasks a) nx"
      using wellD(3) [OF w] Cons by (auto simp: ready_ok_def by_prio_def)
    ultimately show ?thesis
      using a_schedule_fields [OF assms(2) Cons] s' rep_sched_eqs [OF wellD(1) [OF s'(2)]]
        rep_sched_eqs [OF assms(1)] Cons by (auto simp: well_def)
  qed
qed

theorem schedule_dispatches_witness:
  "\<exists>a s'. rep_sched [1, 2, 3, 4] idle_sched a \<and> schedule idle_sched = Some s' \<and>
     rep_sched [1, 2, 3, 4] s' (a_schedule a)"
proof -
  obtain a where "well [1, 2, 3, 4] 32 idle_sched a" using reach_well [OF boot_reach] by blast
  then show ?thesis using schedule_dispatches [of "[1, 2, 3, 4]" idle_sched a 32] by (auto simp: well_def)
qed



text \<open>
  C32. \<^verbatim>\<open>scheduler_exit\<close> of a task other than the kernel's and the idle one returns, leaves the task
  in the zombie list with its status, makes the first task that waits for it (by its process id,
  or as its parent for any child) runnable, and runs another task.
\<close>

theorem scheduler_exit_spec:
  assumes "rep_sched Qs s a" "sched_inv Qs idle a" "current a \<noteq> idle"
    and "tasks a (current a) = Some c" "pid c \<noteq> 0"
  shows "\<exists>s' b. scheduler_exit s st = Some s' \<and> rep_sched Qs s' b \<and> sched_inv Qs idle b \<and> b = a_exit st a \<and>
    queues b (zombies a) = queues a (zombies a) @ [current a] \<and> map_option status (tasks s' (current a)) = Some st \<and>
    (\<forall>w. find (\<lambda>x. waits_for c (the (tasks a x)) = Some True) (queues a (waiters a)) = Some w \<longrightarrow>
       w = current s' \<or> w \<in> set (queues b (ready a)))"
proof -
  let ?r = "find (\<lambda>x. waits_for c (the (tasks a x)) = Some True) (queues a (waiters a))"
  let ?g = "\<lambda>t. t\<lparr>state := ZOMBIE, status := st\<rparr>"
  have w: "well Qs idle s a" using assms(1,2) by (simp add: well_def)
  have h: "ready a \<noteq> zombies a" "zombies a \<noteq> waiters a" "ready a \<noteq> waiters a" "waiters a \<in> set Qs"
    using wellD(2) [OF w] by (auto simp: core_inv_def heads_ok_def)
  obtain s' where s': "scheduler_exit s st = Some s'" "well Qs idle s' (a_exit st a)"
    using well_exit [OF w assms(3-5)] by blast
  have e: "a_exit st a = a_schedule (a_notify ?r (park ?g (zombies a) a))"
    using assms(4) by (simp add: a_exit_def Let_def a_notify_def park_def cong: option.case_cong)
  have ne: "x \<noteq> current a" if "?r = Some x" for x
    using that wellD(5) [OF w] h(4) queued_mem [of "waiters a" Qs x "queues a"] find_Some_set [OF that] by auto
  let ?e = "a_notify ?r (park ?g (zombies a) a)"
  have ef: "queues ?e (zombies a) = queues a (zombies a) @ [current a]" "ready ?e = ready a" "zombies ?e = zombies a"
      "current ?e = current a" "tasks ?e (current a) = Some (?g c)"
      "\<And>x. ?r = Some x \<Longrightarrow> x \<in> set (queues ?e (ready a))"
    using h ne assms(4) by (auto simp: a_notify_def park_def split: option.split)
  have sf: "queues (a_schedule ?e) (zombies a) = queues ?e (zombies a)"
    "map_option status (tasks (a_schedule ?e) (current a)) = Some st"
    "\<And>x. x \<in> set (queues ?e (ready a)) \<Longrightarrow> x = current (a_schedule ?e) \<or> x \<in> set (queues (a_schedule ?e) (ready a))"
    using ef h(1) by (auto simp: a_schedule_def a_run_def Let_def split: list.split)
  have "queues (a_exit st a) (zombies a) = queues a (zombies a) @ [current a]"
    "map_option status (tasks s' (current a)) = Some st"
    "\<forall>w. ?r = Some w \<longrightarrow> w = current s' \<or> w \<in> set (queues (a_exit st a) (ready a))"
    using sf ef(1,6) rep_sched_eqs(1,2) [OF wellD(1) [OF s'(2)]] unfolding e by metis+
  with s' show ?thesis by (auto simp: well_def)
qed

theorem scheduler_exit_spec_witness:
  "\<exists>(a :: asched) b s'. current a = 48 \<and> scheduler_exit running_sched 3 = Some s' \<and> rep_sched [1, 2, 3, 4] s' b \<and>
     queues b (zombies a) = [48] \<and> map_option status (tasks s' 48) = Some 3"
proof -
  obtain a c where "well [1, 2, 3, 4] 16 running_sched a" "current a = 48" "tasks a 48 = Some c" "pid c = 1"
    "queues a (zombies a) = []" using running_sched_ok by auto
  moreover from this have "\<exists>s' b. scheduler_exit running_sched 3 = Some s' \<and> rep_sched [1, 2, 3, 4] s' b \<and>
      queues b (zombies a) = [48] \<and> map_option status (tasks s' 48) = Some 3"
    using scheduler_exit_spec [of "[1, 2, 3, 4]" running_sched a 16 c 3] by (auto simp: well_def)
  ultimately show ?thesis by blast
qed

text \<open>
  C33. \<^verbatim>\<open>scheduler_wait\<close>: an unsupported process id is refused; when a zombie matches (the process
  id, or any child of the caller for \<open>- 1\<close>), the call returns its process id and stores a status
  from which \<^verbatim>\<open>WEXITSTATUS\<close> reads the low byte the task exited with, and frees its stack and
  structure; otherwise \<^verbatim>\<open>WNOHANG\<close> makes it return 0 with nothing changed, and without it the
  caller sleeps at the end of the waiters' queue.
\<close>

theorem scheduler_wait_spec:
  assumes "rep_sched Qs s a" "sched_inv Qs idle a" "current a \<noteq> idle"
  shows "scheduler_wait s p options =
    (if p < - 1 then Some (WaitReturns ERR_NOT_SUPP, s)
     else case a_zombie p a of
       Some x \<Rightarrow> let t = the (tasks a x) in
         Some (WaitCollects (pid t) (wait_status (status t)) [stack t, x], s\<lparr>tasks := (tasks s)(x := None)\<rparr>)
     | None \<Rightarrow> if options AND WNOHANG \<noteq> 0 then Some (WaitReturns 0, s)
               else map_option (Pair WaitSleeps) (scheduler_sleep_on s (waiters s) (WPid p))) \<and>
    WIFEXITED (wait_status st) \<and> WEXITSTATUS (wait_status st) = st mod 256 \<and>
    (- 1 \<le> p \<and> a_zombie p a = None \<longrightarrow>
       (\<exists>s'. scheduler_sleep_on s (waiters s) (WPid p) = Some s' \<and>
             rep_sched Qs s' (a_sleep_on (waiters a) (WPid p) a)))"
proof -
  have w: "well Qs idle s a" using assms by (simp add: well_def)
  have h: "waiters a \<in> set Qs" "waiters a \<noteq> ready a" "waiters a \<noteq> zombies a" "waiters s = waiters a"
    using wellD(2) [OF w] rep_sched_eqs [OF wellD(1) [OF w]] by (auto simp: core_inv_def heads_ok_def)
  obtain s' where s': "scheduler_sleep_on s (waiters s) (WPid p) = Some s'" "rep_sched Qs s' (a_sleep_on (waiters a) (WPid p) a)"
    using well_sleep_on [OF w h(1-3) assms(3), of "WPid p"] h(4) by (auto simp: well_def)
  note f = well_zombie [OF w, of p]
  consider "p < - 1" | "\<not> p < - 1" "a_zombie p a = None" | x where "\<not> p < - 1" "a_zombie p a = Some x"
    by (cases "a_zombie p a") auto
  then show ?thesis
  proof cases
    case 1
    then show ?thesis using wait_status_roundtrip by (simp add: scheduler_wait_def)
  next
    case 2
    then show ?thesis using s' wait_status_roundtrip
      unfolding scheduler_wait_def scheduler_wait_pass_def f by simp
  next
    case 3
    then show ?thesis using well_wait_some [OF w, of p x options] wait_status_roundtrip by (auto simp: Let_def)
  qed
qed

theorem scheduler_wait_spec_witness: "scheduler_wait running_sched (- 1) 1 = Some (WaitReturns 0, running_sched)"
proof -
  obtain a where "well [1, 2, 3, 4] 16 running_sched a" "current a = 48" "queues a (zombies a) = []"
    using running_sched_ok by auto
  then show ?thesis
    using scheduler_wait_spec [of "[1, 2, 3, 4]" running_sched a 16 "- 1" 1 0]
    by (simp add: well_def a_zombie_def WNOHANG_def)
qed

text \<open>
  C39. The structure freed by \<^verbatim>\<open>scheduler_wait\<close> stays linked in the zombie list: any later call
  that does not find its task among the zombies before it reads the freed memory.
\<close>

theorem scheduler_wait_dangling:
  assumes "rep_sched Qs s a" "sched_inv Qs idle a"
    and "scheduler_wait s p options = Some (WaitCollects d st fs, s')" "queues a (zombies a) = us @ x # vs"
    and "a_zombie p a = Some x" "- 1 \<le> p" "0 \<le> p'" "\<forall>u \<in> set us. pid (the (tasks a u)) \<noteq> p'"
  shows "tasks s' x = None \<and> is_list (heap s') (zombies s') (us @ x # vs) \<and> scheduler_wait s' p' options' = None"
proof -
  have w: "well Qs idle s a" using assms(1,2) by (simp add: well_def)
  note d = wellD [OF w] and eqs = rep_sched_eqs [OF assms(1)]
  note l = rep_queuesD [OF rep_schedD [OF d(1)] core_heads(2) [OF d(2)], unfolded assms(4)]
  have s': "s' = s\<lparr>tasks := (tasks s)(x := None)\<rparr>"
    using well_wait_some [OF w assms(6,5), of options] assms(3) by auto
  have "distinct (us @ x # vs)" using l by (simp add: is_list_def)
  then have us: "(do { e \<leftarrow> tasks s' u; Some (pid e = p') }) = Some False" if "u \<in> set us" for u
  proof -
    have "entry_ok a (zombies a) u"
      using core_entry [OF d(2) core_heads(2) [OF d(2)], of u] that assms(4) by simp
    then obtain t where "tasks a u = Some t" by (rule entry_okE)
    moreover have "u \<noteq> x" using that \<open>distinct (us @ x # vs)\<close> by auto
    ultimately show ?thesis using assms(8) that s' eqs by fastforce
  qed
  have li: "is_list (heap s') (zombies s') (us @ x # vs)" using l s' eqs by simp
  have "task_find s' (zombies s') p' = None"
    unfolding task_find_def using list_find_entry_faults [OF li, of "\<lambda>t. do { e \<leftarrow> tasks s' t; Some (pid e = p') }"] us s'
    by simp
  then show ?thesis using li s' assms(7) by (simp add: scheduler_wait_def scheduler_wait_pass_def)
qed


lemma exited_sched_ok:
  "\<exists>a. well [1, 2, 3, 4] 16 exited_sched a \<and> queues a (zombies a) = [48] \<and> a_zombie (- 1) a = Some 48"
proof -
  obtain a c where a: "well [1, 2, 3, 4] 16 running_sched a" "current a = 48" "tasks a 48 = Some c" "pid c = 1" "parent c = 0"
      "map_option pid (tasks a 16) = Some 0" "queues a (zombies a) = []" "queues a (waiters a) = []" "queues a (ready a) = [16]"
    using running_sched_ok by auto
  have w: "well [1, 2, 3, 4] 16 exited_sched (a_exit 3 a)"
    using well_exit [OF a(1), of c 3] a by (auto simp: exited_sched_def)
  have h: "ready a \<noteq> zombies a" using wellD(2) [OF a(1)] by (auto simp: core_inv_def heads_ok_def)
  have "queues (a_exit 3 a) (zombies (a_exit 3 a)) = [48]"
    "current (a_exit 3 a) = 16" "map_option pid (tasks (a_exit 3 a) 16) = Some 0"
    "map_option parent (tasks (a_exit 3 a) 48) = Some 0"
    using a h by (auto simp: a_exit_def Let_def a_schedule_def a_run_def)
  then show ?thesis using w by (intro exI [of _ "a_exit 3 a"]) (auto simp: a_zombie_def)
qed

theorem scheduler_wait_dangling_witness:
  "\<exists>d st fs s'. scheduler_wait exited_sched (- 1) 0 = Some (WaitCollects d st fs, s') \<and> scheduler_wait s' 1 0 = None"
proof -
  obtain a where a: "well [1, 2, 3, 4] 16 exited_sched a" "queues a (zombies a) = [48]" "a_zombie (- 1) a = Some 48"
    using exited_sched_ok by blast
  obtain d st fs s' where s': "scheduler_wait exited_sched (- 1) 0 = Some (WaitCollects d st fs, s')"
    using well_wait_some [OF a(1) _ a(3), of 0] by auto
  then have "scheduler_wait s' 1 0 = None"
    using scheduler_wait_dangling [of "[1, 2, 3, 4]" exited_sched a 16 "- 1" 0 d st fs s' "[]" 48 "[]" 1 0] a
    by (simp add: well_def)
  with s' show ?thesis by blast
qed

end
