(* ===== verification/Board.thy ===== *)
theory Board
  imports Prelude "HOL-Library.Monad_Syntax"
begin

text \<open>
  The board layer: port input/output, the 8259A interrupt controllers and the interrupt table
  (\<^verbatim>\<open>kernel/boards/interrupts.c\<close>, \<^verbatim>\<open>kernel/boards/drivers/p8259a.c\<close>), the 8254 timers
  (\<^verbatim>\<open>kernel/boards/timer.c\<close>, \<^verbatim>\<open>kernel/boards/drivers/p8254.c\<close>), the calibrated delay loop
  (\<^verbatim>\<open>kernel/boards/delay.c\<close>), the device tables (\<^verbatim>\<open>kernel/boards/devices.c\<close>) and the three boards.

  The hardware behind the ports is a parameter: a record of the \<^verbatim>\<open>inb\<close> and \<^verbatim>\<open>outb\<close> instructions on
  an arbitrary device state, and of what the devices do while the processor spins for a number of
  loop iterations (\<open>elapse\<close>).  What a theorem needs of a chip is a hypothesis of that theorem.
\<close>

section \<open>Ports\<close>

record 'd ports =
  inb :: "u16 \<Rightarrow> 'd \<Rightarrow> u8 \<times> 'd"
  outb :: "u16 \<Rightarrow> u8 \<Rightarrow> 'd \<Rightarrow> 'd"
  elapse :: "nat \<Rightarrow> 'd \<Rightarrow> 'd"

section \<open>Interrupt controllers\<close>

text \<open>
  \<^verbatim>\<open>struct pic\<close>.  Its four operations are those of the 8259A on every board, so the function
  pointers are not fields; where the code calls through one pointer with another controller as
  the argument, so does the model.
\<close>

datatype pic =
  Pic (pic_port: u16) (pic_irq: int) (irq_base: int) (irq_max: int) (idt_offset: u8) (slave: "pic option")

definition PIC_CMD :: "pic \<Rightarrow> u16" where "PIC_CMD p = pic_port p"
definition PIC_DATA :: "pic \<Rightarrow> u16" where "PIC_DATA p = pic_port p + 1"

definition ICW1_ICW4 :: u8 where "ICW1_ICW4 = 0x01"
definition ICW1_SINGLE :: u8 where "ICW1_SINGLE = 0x02"
definition ICW1_INTERVAL4 :: u8 where "ICW1_INTERVAL4 = 0x04"
definition ICW1_INIT :: u8 where "ICW1_INIT = 0x10"
definition ICW4_8086 :: u8 where "ICW4_8086 = 0x01"

text \<open>\<^verbatim>\<open>1 << irq\<close> stored in a \<^verbatim>\<open>uint8_t\<close>.\<close>

definition irq_bit :: "int \<Rightarrow> u8" where
  "irq_bit i = push_bit (nat i) 1"

definition p8259a_initialize :: "'d ports \<Rightarrow> pic \<Rightarrow> 'd \<Rightarrow> 'd" where
  "p8259a_initialize io p d =
     (let d = (case slave p of
                 Some _ \<Rightarrow> outb io (PIC_CMD p) (ICW1_INIT OR ICW1_INTERVAL4 OR ICW1_ICW4) d
               | None \<Rightarrow> outb io (PIC_CMD p) (ICW1_INIT OR ICW1_INTERVAL4 OR ICW1_SINGLE OR ICW1_ICW4) d);
          d = outb io (PIC_DATA p) (idt_offset p) d;
          d = (case slave p of Some q \<Rightarrow> outb io (PIC_DATA p) (irq_bit (pic_irq q)) d | None \<Rightarrow> d);
          d = outb io (PIC_DATA p) ICW4_8086 d
      in outb io (PIC_DATA p) 0xff d)"

definition p8259a_irq_enable :: "'d ports \<Rightarrow> pic \<Rightarrow> int \<Rightarrow> 'd \<Rightarrow> 'd" where
  "p8259a_irq_enable io p i d =
     (let (v, d) = inb io (PIC_DATA p) d
      in outb io (PIC_DATA p) (v AND NOT (irq_bit i)) d)"

definition p8259a_irq_disable :: "'d ports \<Rightarrow> pic \<Rightarrow> int \<Rightarrow> 'd \<Rightarrow> 'd" where
  "p8259a_irq_disable io p i d =
     (let (v, d) = inb io (PIC_DATA p) d
      in outb io (PIC_DATA p) (v OR irq_bit i) d)"

definition p8259a_irq_ack :: "'d ports \<Rightarrow> pic \<Rightarrow> 'd \<Rightarrow> 'd" where
  "p8259a_irq_ack io p d = outb io (PIC_CMD p) 0x20 d"

section \<open>Devices\<close>

datatype io_device_t = IO_DEV_PIC_MASTER | IO_DEV_PIC_SLAVE | IO_DEV_UART | IO_DEV_MAX

record io_device =
  io_port :: u16
  io_irq :: int
  uart_freq :: u32

record timer =
  t_port :: u16
  t_irq :: int
  t_index :: int
  t_freq :: u32

record memmap =
  kernel_cs :: u16
  kernel_ds :: u16
  kernel_ss :: u16
  kernel_stack :: u16
  rom_segment :: u16
  rom_count :: size_t
  ram_segment :: u16
  ram_count :: size_t

record cfi_flash =
  vendor_id :: u8
  chip_id :: u8
  base_addr :: u32
  sector_count :: u16
  sector_size :: u16
  sector_shift :: u16

record cf20_config =
  cf_port :: u16
  cf_irq :: int
  is_8bit :: bool

text \<open>The configuration a \<^verbatim>\<open>struct device\<close> points to, by the driver that interprets it.\<close>

datatype config = CPic pic | CTimer timer | CMemmap memmap | CCfi cfi_flash | CCf20 cf20_config

record device =
  dev_name :: string
  dev_driver :: string
  dev_config :: config

fun board_get_by_driver :: "device list \<Rightarrow> string \<Rightarrow> device option" where
  "board_get_by_driver [] n = None"
| "board_get_by_driver (d # ds) n = (if n = dev_driver d then Some d else board_get_by_driver ds n)"

fun board_get_by_name :: "device list \<Rightarrow> string \<Rightarrow> device option" where
  "board_get_by_name [] n = None"
| "board_get_by_name (d # ds) n = (if n = dev_name d then Some d else board_get_by_name ds n)"

definition board_register_io_dev ::
    "(io_device_t \<Rightarrow> io_device option) \<Rightarrow> io_device_t \<Rightarrow> io_device \<Rightarrow> int \<times> (io_device_t \<Rightarrow> io_device option)" where
  "board_register_io_dev devices type dev =
     (case devices type of Some _ \<Rightarrow> (- 1, devices) | None \<Rightarrow> (0, devices(type := Some dev)))"

definition board_get_io_dev :: "(io_device_t \<Rightarrow> io_device option) \<Rightarrow> io_device_t \<Rightarrow> io_device option" where
  "board_get_io_dev devices type = devices type"

section \<open>The interrupt table\<close>

definition IDT_ENTRIES :: int where "IDT_ENTRIES = 256"

text \<open>The descriptor table (far pointers as segment and offset) and the controller \<^verbatim>\<open>p\<close>.\<close>

record irq_state =
  idt :: "int \<Rightarrow> u16 \<times> u16"
  master :: "pic option"

definition interrupts_initialize :: "'d ports \<Rightarrow> device list \<Rightarrow> irq_state \<Rightarrow> 'd \<Rightarrow> irq_state \<times> 'd" where
  "interrupts_initialize io devs s d =
     (let s = s\<lparr>idt := (\<lambda>_. (0, 0))\<rparr>
      in case board_get_by_name devs ''pic'' of
           None \<Rightarrow> (s, d)
         | Some dev \<Rightarrow>
             (case dev_config dev of
                CPic p \<Rightarrow>
                  let s = s\<lparr>master := Some p\<rparr>;
                      d = p8259a_initialize io p d;
                      d = (case slave p of Some q \<Rightarrow> p8259a_initialize io q d | None \<Rightarrow> d)
                  in (s, d)
              | _ \<Rightarrow> (s, d)))"

definition interrupts_handle :: "irq_state \<Rightarrow> int \<Rightarrow> u16 \<Rightarrow> u16 \<Rightarrow> irq_state" where
  "interrupts_handle s index seg handler =
     (if index < 0 \<or> index \<ge> IDT_ENTRIES then s
      else s\<lparr>idt := (idt s)(index := (seg, handler))\<rparr>)"

text \<open>The functions below dereference \<^verbatim>\<open>p\<close>; without a controller they are undefined.\<close>

definition interrupts_from_irq :: "irq_state \<Rightarrow> int \<Rightarrow> int option" where
  "interrupts_from_irq s i =
     do { p \<leftarrow> master s;
          if i \<ge> irq_base p \<and> i < irq_max p then Some (uint (idt_offset p) + i)
          else case slave p of
                 Some q \<Rightarrow> if i \<ge> irq_base q \<and> i < irq_max q
                           then Some (uint (idt_offset q) + (i - irq_base q)) else Some (- 1)
               | None \<Rightarrow> Some (- 1) }"

definition irq_enable :: "'d ports \<Rightarrow> irq_state \<Rightarrow> int \<Rightarrow> 'd \<Rightarrow> 'd option" where
  "irq_enable io s i d =
     (if i < 0 then Some d
      else do { p \<leftarrow> master s;
                if i < irq_max p then Some (p8259a_irq_enable io p i d)
                else case slave p of
                       Some q \<Rightarrow> if i < irq_max q
                                 then Some (p8259a_irq_enable io p (i - irq_base q) d) else Some d
                     | None \<Rightarrow> Some d })"

definition irq_disable :: "'d ports \<Rightarrow> irq_state \<Rightarrow> int \<Rightarrow> 'd \<Rightarrow> 'd option" where
  "irq_disable io s i d =
     (if i < 0 then Some d
      else do { p \<leftarrow> master s;
                if i < irq_max p then Some (p8259a_irq_disable io p i d)
                else case slave p of
                       Some q \<Rightarrow> if i < irq_max q
                                 then Some (p8259a_irq_disable io p (i - irq_base q) d) else Some d
                     | None \<Rightarrow> Some d })"

definition irq_ack :: "'d ports \<Rightarrow> irq_state \<Rightarrow> int \<Rightarrow> 'd \<Rightarrow> 'd option" where
  "irq_ack io s i d =
     (if i < 0 then Some d
      else do { p \<leftarrow> master s;
                let d = (case slave p of
                           Some q \<Rightarrow> if i \<ge> irq_base q then p8259a_irq_ack io q d else d
                         | None \<Rightarrow> d);
                Some (p8259a_irq_ack io p d) })"

text \<open>Ports \<open>R\<close> of a device that are not those of an interrupt controller.\<close>

definition pics_apart :: "(u16 \<Rightarrow> bool) \<Rightarrow> irq_state \<Rightarrow> bool" where
  "pics_apart R irqs \<longleftrightarrow> (case master irqs of
     None \<Rightarrow> False
   | Some p \<Rightarrow> \<not> R (PIC_CMD p) \<and> \<not> R (PIC_DATA p) \<and>
       (case slave p of None \<Rightarrow> True | Some q \<Rightarrow> \<not> R (PIC_CMD q) \<and> \<not> R (PIC_DATA q)))"

lemma irq_ack_keeps:
  assumes "pics_apart R irqs" "P d" "\<And>q v d. P d \<Longrightarrow> \<not> R q \<Longrightarrow> P (outb io q v d)"
  shows "\<exists>d'. irq_ack io irqs i d = Some d' \<and> P d'"
  using assms
  by (auto simp: pics_apart_def irq_ack_def p8259a_irq_ack_def Let_def split: option.splits)

section \<open>Timers\<close>

definition MODE_16BITS :: u8 where "MODE_16BITS = 0"
definition MODE_RATE_GEN :: u8 where "MODE_RATE_GEN = 4"
definition MODE_SQUARE_WAVE :: u8 where "MODE_SQUARE_WAVE = 6"
definition MODE_LATCH :: u8 where "MODE_LATCH = 0"
definition MODE_BOTH_BYTES :: u8 where "MODE_BOTH_BYTES = 0x30"
definition MODE_COUNTER :: "int \<Rightarrow> u8" where "MODE_COUNTER t = push_bit 6 (word_of_int t)"

definition PIT_COUNTER :: "timer \<Rightarrow> u16" where
  "PIT_COUNTER t = t_port t OR ucast (word_of_int (t_index t) :: u8)"
definition PIT_MODE :: "timer \<Rightarrow> u16" where "PIT_MODE t = t_port t OR 3"

text \<open>The local \<^verbatim>\<open>port\<close> is a \<^verbatim>\<open>uint8_t\<close>.\<close>

definition p8254_configure_counter :: "'d ports \<Rightarrow> timer \<Rightarrow> u8 \<Rightarrow> u16 \<Rightarrow> 'd \<Rightarrow> 'd" where
  "p8254_configure_counter io t func value d =
     (let mode = MODE_COUNTER (t_index t) OR func OR MODE_BOTH_BYTES OR MODE_16BITS;
          port = ucast (ucast (PIT_COUNTER t) :: u8) :: u16;
          d = outb io (PIT_MODE t) mode d;
          d = outb io port (ucast (value AND 0xff)) d
      in outb io port (ucast (drop_bit 8 value)) d)"

definition p8254_set_alarm :: "'d ports \<Rightarrow> timer \<Rightarrow> u16 \<Rightarrow> 'd \<Rightarrow> 'd" where
  "p8254_set_alarm io t counter d = p8254_configure_counter io t MODE_RATE_GEN counter d"

text \<open>The division by a zero frequency is undefined.\<close>

definition p8254_set_freq :: "'d ports \<Rightarrow> timer \<Rightarrow> u32 \<Rightarrow> 'd \<Rightarrow> 'd option" where
  "p8254_set_freq io t freq d =
     (if freq = 0 then None
      else Some (p8254_configure_counter io t MODE_SQUARE_WAVE (ucast (t_freq t div freq)) d))"

definition p8254_read :: "'d ports \<Rightarrow> timer \<Rightarrow> 'd \<Rightarrow> u16 \<times> 'd" where
  "p8254_read io t d =
     (let mode = MODE_COUNTER (t_index t) OR MODE_LATCH;
          port = ucast (ucast (PIT_COUNTER t) :: u8) :: u16;
          d = outb io (PIT_MODE t) mode d;
          (low, d) = inb io port d;
          (high, d) = inb io port d
      in (push_bit 8 (ucast high) OR ucast low, d))"

definition p8254_ns_per_tick :: "timer \<Rightarrow> u32 option" where
  "p8254_ns_per_tick t = (if t_freq t = 0 then None else Some (1000000000 div t_freq t))"

text \<open>\<^verbatim>\<open>timer.c\<close> dispatches through the operations of the timer, which are those of the 8254.\<close>

definition timer_get :: "device list \<Rightarrow> string \<Rightarrow> timer option" where
  "timer_get devs n =
     (case board_get_by_name devs n of
        Some dev \<Rightarrow> (case dev_config dev of CTimer t \<Rightarrow> Some t | _ \<Rightarrow> None)
      | None \<Rightarrow> None)"

definition timer_ns_per_tick :: "timer \<Rightarrow> u32 option" where
  "timer_ns_per_tick t = p8254_ns_per_tick t"

definition timer_read :: "'d ports \<Rightarrow> timer \<Rightarrow> 'd \<Rightarrow> u16 \<times> 'd" where
  "timer_read io t d = p8254_read io t d"

definition timer_set_alarm :: "'d ports \<Rightarrow> timer \<Rightarrow> u16 \<Rightarrow> 'd \<Rightarrow> 'd" where
  "timer_set_alarm io t count d = p8254_set_alarm io t count d"

definition timer_set_freq :: "'d ports \<Rightarrow> timer \<Rightarrow> u32 \<Rightarrow> 'd \<Rightarrow> 'd option" where
  "timer_set_freq io t freq d = p8254_set_freq io t freq d"

section \<open>The delay loop\<close>

definition CLOCK_CAL_LOOPS :: u32 where "CLOCK_CAL_LOOPS = 20000"

text \<open>The number of iterations of the loop of \<^verbatim>\<open>__delay\<close>, \<^verbatim>\<open>0\<close> wrapping around.\<close>

function delay_loop :: "u32 \<Rightarrow> nat" where
  "delay_loop count = (if count - 1 > 0 then Suc (delay_loop (count - 1)) else 1)"
  by pat_completeness auto
termination
proof (relation "measure (\<lambda>count. unat (count - 1))")
  fix count :: u32 assume c: "count - 1 > 0"
  then have "unat (count - 1 - 1) = unat (count - 1) - 1" by (intro unat_minus_one) auto
  with c show "(count - 1, count) \<in> measure (\<lambda>count. unat (count - 1))" by (simp add: word_less_nat_alt)
qed simp

definition delay :: "'d ports \<Rightarrow> u32 \<Rightarrow> 'd \<Rightarrow> 'd" where
  "delay io loops d = elapse io (delay_loop loops) d"

text \<open>Calibration returns the value of \<^verbatim>\<open>ns_per_loop\<close>.\<close>

definition delay_calibrate :: "'d ports \<Rightarrow> timer \<Rightarrow> 'd \<Rightarrow> (u32 \<times> 'd) option" where
  "delay_calibrate io t d =
     do { let d = timer_set_alarm io t 65535 d;
          let d = delay io CLOCK_CAL_LOOPS d;
          let (val, d) = timer_read io t d;
          ns \<leftarrow> timer_ns_per_tick t;
          Some ((ucast (65535 - val) * ns) div CLOCK_CAL_LOOPS, d) }"

text \<open>The division by \<^verbatim>\<open>ns_per_loop\<close> is undefined where calibration measured zero.\<close>

definition udelay :: "'d ports \<Rightarrow> u32 \<Rightarrow> u32 \<Rightarrow> 'd \<Rightarrow> 'd option" where
  "udelay io ns_per_loop us d =
     (if ns_per_loop = 0 then None
      else let loops = (us * 1000) div ns_per_loop
           in if loops = 0 then Some (delay io 1 d) else Some (delay io loops d))"

primrec mdelay_loop :: "'d ports \<Rightarrow> nat \<Rightarrow> 'd \<Rightarrow> 'd" where
  "mdelay_loop io 0 d = d"
| "mdelay_loop io (Suc n) d = mdelay_loop io n (delay io 1000000 d)"

definition mdelay :: "'d ports \<Rightarrow> u32 \<Rightarrow> 'd \<Rightarrow> 'd" where
  "mdelay io ms d = mdelay_loop io (unat ms) d"

section \<open>The boards\<close>

record board =
  KERNEL_CS :: u16
  KERNEL_DS :: u16
  KERNEL_SS :: u16
  KERNEL_STACK_LOW :: u16
  CLOCK_INC_MS :: int
  uart :: io_device
  devices :: "device list"

definition IDT_IRQ_OFFSET :: u8 where "IDT_IRQ_OFFSET = 32"

definition p8254_timer :: "u32 \<Rightarrow> int \<Rightarrow> int \<Rightarrow> timer" where
  "p8254_timer freq index i = \<lparr>t_port = 0x40, t_irq = i, t_index = index, t_freq = freq\<rparr>"

definition DEVICE :: "string \<Rightarrow> string \<Rightarrow> config \<Rightarrow> device" where
  "DEVICE n d c = \<lparr>dev_name = n, dev_driver = d, dev_config = c\<rparr>"

definition timer_devices :: "u32 \<Rightarrow> device list" where
  "timer_devices freq =
     [DEVICE ''timer0'' ''p8254'' (CTimer (p8254_timer freq 0 0)),
      DEVICE ''timer1'' ''p8254'' (CTimer (p8254_timer freq 1 (- 1))),
      DEVICE ''timer2'' ''p8254'' (CTimer (p8254_timer freq 2 (- 1)))]"

definition board_8088_rev3 :: board where
  "board_8088_rev3 =
     \<lparr>KERNEL_CS = 0, KERNEL_DS = 0, KERNEL_SS = 0, KERNEL_STACK_LOW = 0xE000, CLOCK_INC_MS = 10,
      uart = \<lparr>io_port = 0x3f8, io_irq = 4, uart_freq = 4915200\<rparr>,
      devices =
        [DEVICE ''pic'' ''p8259a'' (CPic (Pic 0x20 (- 1) 0 8 IDT_IRQ_OFFSET None))] @
        timer_devices 2457600 @
        [DEVICE ''memmap'' ''memmap'' (CMemmap \<lparr>kernel_cs = 0, kernel_ds = 0, kernel_ss = 0,
           kernel_stack = 0xE000, rom_segment = 0xE000, rom_count = 2, ram_segment = 0x1000, ram_count = 13\<rparr>),
         DEVICE ''rom'' ''cfi'' (CCfi \<lparr>vendor_id = 0xbf, chip_id = 0xb5, base_addr = 0xE0000000,
           sector_count = 32, sector_size = 4096, sector_shift = 12\<rparr>),
         DEVICE ''compactflash'' ''cf20'' (CCf20 \<lparr>cf_port = 0x1f0, cf_irq = 5, is_8bit = True\<rparr>)]\<rparr>"

definition board_8088_rev2 :: board where
  "board_8088_rev2 =
     \<lparr>KERNEL_CS = 0, KERNEL_DS = 0, KERNEL_SS = 0, KERNEL_STACK_LOW = 0xF000, CLOCK_INC_MS = 20,
      uart = \<lparr>io_port = 0x3f8, io_irq = 4, uart_freq = 0\<rparr>,
      devices =
        [DEVICE ''pic'' ''p8259a'' (CPic (Pic 0x20 (- 1) 0 8 IDT_IRQ_OFFSET None))] @
        timer_devices 1250000 @
        [DEVICE ''memmap'' ''memmap'' (CMemmap \<lparr>kernel_cs = 0, kernel_ds = 0, kernel_ss = 0,
           kernel_stack = 0xF000, rom_segment = 0xF000, rom_count = 1, ram_segment = 0x1000, ram_count = 14\<rparr>)]\<rparr>"

definition vboard_slave :: pic where
  "vboard_slave = Pic 0xA0 2 8 16 (IDT_IRQ_OFFSET + 8) None"

definition board_vboard :: board where
  "board_vboard =
     \<lparr>KERNEL_CS = 0, KERNEL_DS = 0, KERNEL_SS = 0, KERNEL_STACK_LOW = 0xF000, CLOCK_INC_MS = 10,
      uart = \<lparr>io_port = 0x3f8, io_irq = 4, uart_freq = 4915200\<rparr>,
      devices =
        [DEVICE ''pic'' ''p8259a'' (CPic (Pic 0x20 (- 1) 0 8 IDT_IRQ_OFFSET (Some vboard_slave)))] @
        timer_devices 1193182 @
        [DEVICE ''memmap'' ''memmap'' (CMemmap \<lparr>kernel_cs = 0, kernel_ds = 0, kernel_ss = 0,
           kernel_stack = 0xF000, rom_segment = 0xE000, rom_count = 2, ram_segment = 0x1000, ram_count = 13\<rparr>)]\<rparr>"

text \<open>\<^verbatim>\<open>board_initialize\<close>: the UART, the delay calibration on \<^verbatim>\<open>timer0\<close>, then the interrupts.\<close>

definition board_initialize ::
    "'d ports \<Rightarrow> board \<Rightarrow> (io_device_t \<Rightarrow> io_device option) \<Rightarrow> irq_state \<Rightarrow> 'd \<Rightarrow>
     ((io_device_t \<Rightarrow> io_device option) \<times> u32 \<times> irq_state \<times> 'd) option" where
  "board_initialize io b devs s d =
     do { let (_, devs) = board_register_io_dev devs IO_DEV_UART (uart b);
          t \<leftarrow> timer_get (devices b) ''timer0'';
          (ns_per_loop, d) \<leftarrow> delay_calibrate io t d;
          let (s, d) = interrupts_initialize io (devices b) s d;
          Some (devs, ns_per_loop, s, d) }"


section \<open>Masking\<close>

text \<open>
  The interrupt mask register of a controller in operation, as its data port shows it.  The
  theorems below assume what the 8259A documents: the register reads back what was last written
  and reading does not change it.
\<close>

definition pic_mask :: "'d ports \<Rightarrow> pic \<Rightarrow> 'd \<Rightarrow> u8" where
  "pic_mask io p d = fst (inb io (PIC_DATA p) d)"

definition mask_readback :: "'d ports \<Rightarrow> pic \<Rightarrow> bool" where
  "mask_readback io p \<longleftrightarrow> (\<forall>d v. pic_mask io p (outb io (PIC_DATA p) v d) = v)"

lemma bit_irq_bit: "0 \<le> i \<Longrightarrow> bit (irq_bit i) j \<longleftrightarrow> j = nat i \<and> j < 8"
  by (auto simp: irq_bit_def bit_simps)

lemma p8259a_irq_enable_mask:
  "mask_readback io p \<Longrightarrow> pic_mask io p (p8259a_irq_enable io p i d) = pic_mask io p d AND NOT (irq_bit i)"
  by (simp add: mask_readback_def p8259a_irq_enable_def pic_mask_def split_def Let_def)

lemma p8259a_irq_disable_mask:
  "mask_readback io p \<Longrightarrow> pic_mask io p (p8259a_irq_disable io p i d) = pic_mask io p d OR irq_bit i"
  by (simp add: mask_readback_def p8259a_irq_disable_def pic_mask_def split_def Let_def)

text \<open>The state of the interrupt system after it was initialised on a board.\<close>

definition board_irqs :: "board \<Rightarrow> irq_state" where
  "board_irqs b = fst (interrupts_initialize \<lparr>inb = (\<lambda>_ d. (0, d)), outb = (\<lambda>_ _ d. d), elapse = (\<lambda>_ d. d)\<rparr>
     (devices b) \<lparr>idt = (\<lambda>_. (0, 0)), master = None\<rparr> ())"

lemma board_irqs_master [simp]:
  "master (board_irqs board_8088_rev3) = Some (Pic 0x20 (- 1) 0 8 32 None)"
  "master (board_irqs board_8088_rev2) = Some (Pic 0x20 (- 1) 0 8 32 None)"
  "master (board_irqs board_vboard) = Some (Pic 0x20 (- 1) 0 8 32 (Some vboard_slave))"
  by (simp_all add: board_irqs_def interrupts_initialize_def board_8088_rev3_def board_8088_rev2_def
      board_vboard_def DEVICE_def IDT_IRQ_OFFSET_def Let_def)

section \<open>Properties\<close>

text \<open>
  On every board the vector of a hardware interrupt is \<open>32 + irq\<close>, for the interrupts of
  the slave controller too, or \<open>- 1\<close> where no controller has the line; so vectors are distinct,
  inside the table and outside of the processor's exceptions, and a handler installed for one is
  the entry the table holds for it.
\<close>

theorem interrupt_vectors:
  assumes "b \<in> {board_8088_rev3, board_8088_rev2, board_vboard}"
  shows "(\<exists>v. interrupts_from_irq (board_irqs b) i = Some v \<and> (v = - 1 \<or> v = 32 + i \<and> 32 \<le> v \<and> v < 48) \<and>
      (0 \<le> i \<and> i < 8 \<longrightarrow> v = 32 + i) \<and>
      (v \<noteq> - 1 \<longrightarrow> idt (interrupts_handle (board_irqs b) v seg h) v = (seg, h) \<and>
         (\<forall>w. w \<noteq> v \<longrightarrow> idt (interrupts_handle (board_irqs b) v seg h) w = idt (board_irqs b) w)))"
proof -
  obtain v where v: "interrupts_from_irq (board_irqs b) i = Some v" "v = - 1 \<or> v = 32 + i \<and> 32 \<le> v \<and> v < 48"
      "0 \<le> i \<and> i < 8 \<longrightarrow> v = 32 + i"
    using assms by (cases "0 \<le> i \<and> i < 8"; cases "0 \<le> i \<and> i < 16")
      (auto simp: interrupts_from_irq_def vboard_slave_def IDT_IRQ_OFFSET_def)
  then have "v \<noteq> - 1 \<longrightarrow> idt (interrupts_handle (board_irqs b) v seg h) v = (seg, h) \<and>
      (\<forall>w. w \<noteq> v \<longrightarrow> idt (interrupts_handle (board_irqs b) v seg h) w = idt (board_irqs b) w)"
    by (auto simp: interrupts_handle_def IDT_ENTRIES_def)
  with v show ?thesis by blast
qed

theorem interrupt_vectors_witness:
  "\<exists>v. interrupts_from_irq (board_irqs board_vboard) 4 = Some v \<and> v = 36"
  using interrupt_vectors [of board_vboard 4 0 0] by auto

text \<open>
  On a controller whose mask register reads back, enabling a line of the master clears
  exactly its bit of the mask and disabling it sets exactly that bit; the other lines keep theirs.
\<close>

theorem irq_masking:
  assumes "master s = Some p" "0 \<le> i" "i < irq_max p" "i < 8" "mask_readback io p"
  shows "\<exists>d1 d2. irq_enable io s i d = Some d1 \<and> irq_disable io s i d = Some d2 \<and>
    (\<forall>j < 8. bit (pic_mask io p d1) j = (j \<noteq> nat i \<and> bit (pic_mask io p d) j)) \<and>
    (\<forall>j < 8. bit (pic_mask io p d2) j = (j = nat i \<or> bit (pic_mask io p d) j))"
  using assms
  by (auto simp: irq_enable_def irq_disable_def p8259a_irq_enable_mask p8259a_irq_disable_mask
      bit_simps bit_irq_bit)

text \<open>For the witness: ports that are one byte of memory each.\<close>

definition memory_ports :: "(u16 \<Rightarrow> u8) ports" where
  "memory_ports = \<lparr>inb = (\<lambda>p d. (d p, d)), outb = (\<lambda>p v d. d(p := v)), elapse = (\<lambda>_ d. d)\<rparr>"

theorem irq_masking_witness:
  "\<exists>d1. irq_enable memory_ports (board_irqs board_vboard) 4 (\<lambda>_. 0xff) = Some d1 \<and>
     \<not> bit (pic_mask memory_ports (Pic 0x20 (- 1) 0 8 32 (Some vboard_slave)) d1) 4 \<and>
     bit (pic_mask memory_ports (Pic 0x20 (- 1) 0 8 32 (Some vboard_slave)) d1) 5"
proof -
  let ?p = "Pic 0x20 (- 1) 0 8 32 (Some vboard_slave)"
  have "mask_readback memory_ports ?p" by (simp add: mask_readback_def pic_mask_def memory_ports_def)
  moreover have "bit (pic_mask memory_ports ?p (\<lambda>_. 0xff)) 5"
    by (simp add: pic_mask_def memory_ports_def)
  ultimately show ?thesis
    using irq_masking [of "board_irqs board_vboard" ?p 4 memory_ports "\<lambda>_. 0xff"] by fastforce
qed

text \<open>
  Enabling or disabling a line of the slave controller acts on the master: on the virtual
  board, the line \<open>8 + k\<close> has exactly the effect of line \<open>k\<close>.
\<close>

theorem irq_enable_slave_hits_master:
  assumes "0 \<le> k" "k < 8"
  shows "irq_enable io (board_irqs board_vboard) (8 + k) d = irq_enable io (board_irqs board_vboard) k d \<and>
    irq_disable io (board_irqs board_vboard) (8 + k) d = irq_disable io (board_irqs board_vboard) k d"
  using assms by (simp add: irq_enable_def irq_disable_def vboard_slave_def)

theorem irq_enable_slave_hits_master_witness:
  "irq_enable memory_ports (board_irqs board_vboard) 12 (\<lambda>_. 0xff) =
   irq_enable memory_ports (board_irqs board_vboard) 4 (\<lambda>_. 0xff)"
  using irq_enable_slave_hits_master [of 4 memory_ports "\<lambda>_. 0xff"] by simp

end
