(* ===== verification/Clk.thy ===== *)
theory Clk
  imports Scheduler Board
begin

text \<open>
  The kernel clock (\<^verbatim>\<open>kernel/clk.c\<close>): ticks and nanoseconds since boot, the interrupt handler that
  advances them, wakes the sleepers whose deadline has passed and preempts the running task every
  second tick, and the two system calls on top.  \<^verbatim>\<open>clk_int_handler\<close> is the assembly entry of the
  handler; its address is a parameter of the initialisation.
\<close>

record 'd clk =
  ck_sched :: sched
  blocked :: ptr
  ticks :: u64
  now_ns :: u64
  ck_timer :: "timer option"
  ck_irqs :: irq_state
  ck_hw :: 'd

definition S_TO_NS :: "int \<Rightarrow> int" where "S_TO_NS v = v * 1000000000"
definition MS_TO_NS :: "int \<Rightarrow> int" where "MS_TO_NS v = v * 1000000"

definition clk_initialize :: "'d ports \<Rightarrow> board \<Rightarrow> u16 \<Rightarrow> 'd clk \<Rightarrow> 'd clk option" where
  "clk_initialize io b clk_int_handler c =
     (case timer_get (devices b) ''timer0'' of
        None \<Rightarrow> Some (c\<lparr>ck_timer := None\<rparr>)
      | Some t \<Rightarrow>
          do { let c = c\<lparr>ck_timer := Some t, ticks := 0, now_ns := 0\<rparr>;
               v \<leftarrow> interrupts_from_irq (ck_irqs c) (t_irq t);
               let c = c\<lparr>ck_irqs := interrupts_handle (ck_irqs c) v (KERNEL_CS b) clk_int_handler\<rparr>;
               let c = c\<lparr>ck_hw := timer_set_alarm io t (ucast (t_freq t div 100)) (ck_hw c)\<rparr>;
               d \<leftarrow> irq_enable io (ck_irqs c) (t_irq t) (ck_hw c);
               Some (c\<lparr>ck_hw := d\<rparr>) })"

text \<open>Reading the deadline a sleeping task points to.\<close>

definition task_deadline :: "sched \<Rightarrow> ptr \<Rightarrow> u64 option" where
  "task_deadline s x =
     do { t \<leftarrow> tasks s x; case wait_state t of WDeadline d \<Rightarrow> Some d | _ \<Rightarrow> None }"

text \<open>A task is taken out of the list it waits in and made ready.\<close>

definition unblock :: "ptr \<Rightarrow> sched \<Rightarrow> sched option" where
  "unblock x s = scheduler_wake_up (s\<lparr>heap := list_delete (heap s) x\<rparr>) x"

text \<open>
  The loop of \<^verbatim>\<open>clk_wakeup\<close>, a \<^verbatim>\<open>list_for_every_entry_safe\<close>: \<open>tmp\<close> is the entry after \<open>entry\<close>, read
  before the body runs.
\<close>

partial_function (option) clk_wakeup_from :: "ptr \<Rightarrow> u64 \<Rightarrow> ptr \<Rightarrow> ptr \<Rightarrow> sched \<Rightarrow> sched option" where
  "clk_wakeup_from list now entry tmp s =
     (if entry = list then Some s
      else do { deadline \<leftarrow> task_deadline s entry;
                s \<leftarrow> (if deadline \<le> now then unblock entry s else Some s);
                clk_wakeup_from list now tmp (nxt (heap s) tmp) s })"

definition clk_wakeup :: "ptr \<Rightarrow> u64 \<Rightarrow> sched \<Rightarrow> sched option" where
  "clk_wakeup list now s =
     (if list_is_empty (heap s) list then Some s
      else clk_wakeup_from list now (nxt (heap s) list) (nxt (heap s) (nxt (heap s) list)) s)"

text \<open>\<^verbatim>\<open>clk_handler\<close> dereferences the timer.\<close>

definition clk_handler :: "'d ports \<Rightarrow> board \<Rightarrow> 'd clk \<Rightarrow> 'd clk option" where
  "clk_handler io b c =
     do { let c = c\<lparr>ticks := ticks c + 1, now_ns := now_ns c + word_of_int (MS_TO_NS (CLOCK_INC_MS b))\<rparr>;
          t \<leftarrow> ck_timer c;
          d \<leftarrow> irq_ack io (ck_irqs c) (t_irq t) (ck_hw c);
          let c = c\<lparr>ck_hw := d\<rparr>;
          s \<leftarrow> clk_wakeup (blocked c) (now_ns c) (ck_sched c);
          s \<leftarrow> (if ticks c AND 1 = 0 then schedule s else Some s);
          Some (c\<lparr>ck_sched := s\<rparr>) }"

datatype clockid = CLOCK_REALTIME | CLOCK_MONOTONIC | CLOCK_BOOTTIME | CLOCK_PROCESS_CPUTIME_ID

record timespec =
  tv_sec :: int
  tv_nsec :: int

definition TIMER_ABSTIME :: int where "TIMER_ABSTIME = 4"

text \<open>The result and, on success, the value stored to \<^verbatim>\<open>*tp\<close>; \<open>tp\<close> tells whether the pointer is set.\<close>

definition clk_gettime :: "u64 \<Rightarrow> clockid \<Rightarrow> bool \<Rightarrow> int \<times> timespec option" where
  "clk_gettime now clockid tp =
     (if clockid \<noteq> CLOCK_MONOTONIC \<or> \<not> tp then (ERR_INVAL, None)
      else (0, Some \<lparr>tv_sec = uint (now div word_of_int (S_TO_NS 1)),
                     tv_nsec = uint (now mod word_of_int (S_TO_NS 1))\<rparr>))"

text \<open>
  \<^verbatim>\<open>clk_nanosleep\<close> returns at once, or the caller sleeps until its deadline and then returns 0 with
  the remaining time set to zero.
\<close>

datatype nanosleep = NanoReturns int | NanoSleeps u64

definition clk_deadline :: "u64 \<Rightarrow> int \<Rightarrow> timespec \<Rightarrow> u64" where
  "clk_deadline now flags request =
     (if flags AND TIMER_ABSTIME \<noteq> 0
      then word_of_int (S_TO_NS (tv_sec request) + tv_nsec request)
      else now + word_of_int (S_TO_NS (tv_sec request)) + word_of_int (tv_nsec request))"

definition clk_nanosleep ::
    "ptr \<Rightarrow> u64 \<Rightarrow> clockid \<Rightarrow> int \<Rightarrow> timespec option \<Rightarrow> bool \<Rightarrow> sched \<Rightarrow> (nanosleep \<times> sched) option" where
  "clk_nanosleep list now clockid flags request remain s =
     (case request of
        None \<Rightarrow> Some (NanoReturns ERR_INVAL, s)
      | Some rq \<Rightarrow>
          if clockid \<noteq> CLOCK_MONOTONIC \<or> \<not> remain then Some (NanoReturns ERR_INVAL, s)
          else let deadline = clk_deadline now flags rq
               in if deadline \<le> now then Some (NanoReturns 0, s)
                  else do { s \<leftarrow> scheduler_sleep_on s list (WDeadline deadline);
                            Some (NanoSleeps deadline, s) })"

section \<open>The interface: waking sleepers\<close>

text \<open>
  What an interrupt handler relies on when it wakes a task: \<open>view s xs R\<close> is a state in which the
  tasks \<open>xs\<close> wait in the handler's queue and the tasks \<open>R\<close> are ready.
\<close>

locale wakeup_service =
  fixes view :: "'s \<Rightarrow> 'p list \<Rightarrow> 'p set \<Rightarrow> bool"
    and wake :: "'p \<Rightarrow> 's \<Rightarrow> 's option"
  assumes wake_view: "view s xs R \<Longrightarrow> x \<in> set xs \<Longrightarrow>
      \<exists>s'. wake x s = Some s' \<and> view s' (remove1 x xs) (insert x R)"
    and view_distinct: "view s xs R \<Longrightarrow> distinct xs"
begin

primrec wake_list :: "'p list \<Rightarrow> 's \<Rightarrow> 's option" where
  "wake_list [] s = Some s"
| "wake_list (x # xs) s = do { s \<leftarrow> wake x s; wake_list xs s }"

lemma wake_list_view:
  "view s xs R \<Longrightarrow> distinct ys \<Longrightarrow> set ys \<subseteq> set xs \<Longrightarrow>
     \<exists>s'. wake_list ys s = Some s' \<and> view s' (filter (\<lambda>x. x \<notin> set ys) xs) (R \<union> set ys)"
proof (induction ys arbitrary: s xs R)
  case Nil
  then show ?case by simp
next
  case (Cons y ys)
  obtain s1 where s1: "wake y s = Some s1" "view s1 (remove1 y xs) (insert y R)"
    using wake_view [of s xs R y] Cons.prems by auto
  have "set ys \<subseteq> set (remove1 y xs)"
    using Cons.prems view_distinct [OF Cons.prems(1)] by auto
  then obtain s2 where s2: "wake_list ys s1 = Some s2"
      "view s2 (filter (\<lambda>x. x \<notin> set ys) (remove1 y xs)) (insert y R \<union> set ys)"
    using Cons.IH [OF s1(2)] Cons.prems(2) by auto
  have "filter (\<lambda>x. x \<notin> set ys) (remove1 y xs) = filter (\<lambda>x. x \<notin> set (y # ys)) xs"
    using view_distinct [OF Cons.prems(1)]
    by (auto simp: distinct_remove1_removeAll removeAll_filter_not_eq intro!: filter_cong)
  then show ?case using s1(1) s2 by (intro exI [of _ s2]) (simp add: insert_commute)
qed

end


section \<open>The blocked queue\<close>

text \<open>The scheduler's guarantee for a queue of sleepers with the deadlines \<open>dl\<close>.\<close>

definition clk_queue :: "ptr list \<Rightarrow> ptr \<Rightarrow> asched \<Rightarrow> bool" where
  "clk_queue Qs q a \<longleftrightarrow> q \<in> set Qs \<and> q \<noteq> ready a \<and> q \<noteq> zombies a \<and> q \<noteq> waiters a"

definition clk_view :: "ptr list \<Rightarrow> ptr \<Rightarrow> ptr \<Rightarrow> (ptr \<Rightarrow> u64) \<Rightarrow> asched \<Rightarrow> sched \<Rightarrow> ptr list \<Rightarrow> ptr set \<Rightarrow> bool" where
  "clk_view Qs idle q dl a0 s xs R \<longleftrightarrow> (\<exists>a. well Qs idle s a \<and> clk_queue Qs q a \<and> queues a q = xs \<and>
     set (queues a (ready a)) = R \<and> (\<forall>x \<in> set xs. task_deadline s x = Some (dl x)) \<and>
     current a = current a0 \<and> ready a = ready a0 \<and>
     (\<forall>r. r \<noteq> q \<and> r \<noteq> ready a0 \<longrightarrow> queues a r = queues a0 r))"

lemma clk_view_wake:
  assumes v: "clk_view Qs idle q dl a0 s xs R" and x: "x \<in> set xs"
  shows "\<exists>s'. unblock x s = Some s' \<and> clk_view Qs idle q dl a0 s' (remove1 x xs) (insert x R)"
proof -
  obtain a where a: "well Qs idle s a" "clk_queue Qs q a" "queues a q = xs" "set (queues a (ready a)) = R"
      "\<forall>x \<in> set xs. task_deadline s x = Some (dl x)" "current a = current a0" "ready a = ready a0"
      "\<forall>r. r \<noteq> q \<and> r \<noteq> ready a0 \<longrightarrow> queues a r = queues a0 r"
    using v unfolding clk_view_def by blast
  have q: "q \<in> set Qs" "q \<noteq> ready a" using a(2) by (auto simp: clk_queue_def)
  let ?b = "a_wake x (a_queue q (remove1 x) a)"
  obtain s' where s': "unblock x s = Some s'" "well Qs idle s' ?b"
    using well_wake_up [OF a(1) q] x a(3) by (auto simp: unblock_def)
  have ts: "tasks s' = (tasks s)(x := map_option (\<lambda>t. t\<lparr>state := READY\<rparr>) (tasks s x))"
    using rep_sched_eqs(1) [OF wellD(1) [OF s'(2)]] rep_sched_eqs(1) [OF wellD(1) [OF a(1)]] by simp
  have dl: "task_deadline s' y = task_deadline s y" for y
    by (cases "tasks s x") (auto simp: task_deadline_def ts)
  have "clk_view Qs idle q dl a0 s' (remove1 x xs) (insert x R)"
    unfolding clk_view_def using s'(2) a q dl
    by (intro exI [of _ ?b]) (auto simp: clk_queue_def dest: notin_set_remove1)
  with s'(1) show ?thesis by blast
qed

lemma clk_view_distinct: "clk_view Qs idle q dl a0 s xs R \<Longrightarrow> distinct xs"
  using rep_distinct rep_schedD wellD(1) unfolding clk_view_def clk_queue_def by fastforce

interpretation clkq: wakeup_service "clk_view Qs idle q dl a0" unblock for Qs idle q dl a0
  by unfold_locales (auto intro: clk_view_wake clk_view_distinct)

lemma clk_view_nxt:
  assumes "clk_view Qs idle q dl a0 s (us @ z # ws) R"
  shows "nxt (heap s) z = hd (ws @ [q])" "z \<noteq> q" "task_deadline s z = Some (dl z)"
proof -
  obtain a where a: "well Qs idle s a" "clk_queue Qs q a" "queues a q = us @ z # ws"
      "\<forall>x \<in> set (us @ z # ws). task_deadline s x = Some (dl x)"
    using assms unfolding clk_view_def by blast
  have l: "is_list (heap s) q (us @ z # ws)"
    using rep_queuesD [OF rep_schedD [OF wellD(1) [OF a(1)]], of q] a(2,3) by (simp add: clk_queue_def)
  then show "nxt (heap s) z = hd (ws @ [q])" "z \<noteq> q"
    by (auto simp: is_list_def dest: lseg_first)
  show "task_deadline s z = Some (dl z)" using a(4) by simp
qed

text \<open>The loop that removes entries while it walks wakes exactly the expired sleepers, in order.\<close>

lemma clk_wakeup_from_eq:
  "clk_view Qs idle q dl a0 s (us @ ys) R \<Longrightarrow> entry = hd (ys @ [q]) \<Longrightarrow> (ys \<noteq> [] \<Longrightarrow> tmp = hd (tl ys @ [q])) \<Longrightarrow>
     clk_wakeup_from q now entry tmp s = clkq.wake_list (filter (\<lambda>x. dl x \<le> now) ys) s"
proof (induction ys arbitrary: s us R entry tmp)
  case Nil
  then show ?case by (simp add: clk_wakeup_from.simps)
next
  case (Cons y zs)
  note v = clk_view_nxt [OF Cons.prems(1)]
  have tmp: "tmp = hd (zs @ [q])" using Cons.prems(3) by simp
  have nx: "zs \<noteq> [] \<Longrightarrow> nxt (heap s') tmp = hd (tl zs @ [q])"
    if "clk_view Qs idle q dl a0 s' (vs @ zs) R'" for s' vs R'
    using clk_view_nxt(1) [of Qs idle q dl a0 s' vs "hd zs" "tl zs" R'] that tmp by (cases zs) auto
  show ?case
  proof (cases "dl y \<le> now")
    case True
    obtain s' where s': "unblock y s = Some s'" "clk_view Qs idle q dl a0 s' (remove1 y (us @ y # zs)) (insert y R)"
      using clkq.wake_view [OF Cons.prems(1), of y] by auto
    have "y \<notin> set us" using clkq.view_distinct [OF Cons.prems(1)] by auto
    then have v': "clk_view Qs idle q dl a0 s' (us @ zs) (insert y R)" using s'(2) by (simp add: remove1_append)
    have "clk_wakeup_from q now entry tmp s = clk_wakeup_from q now tmp (nxt (heap s') tmp) s'"
      using True s'(1) v Cons.prems(2) by (subst clk_wakeup_from.simps) simp
    then show ?thesis using Cons.IH [OF v' tmp nx [OF v']] True s'(1) by simp
  next
    case False
    have v': "clk_view Qs idle q dl a0 s ((us @ [y]) @ zs) R" using Cons.prems(1) by simp
    have "clk_wakeup_from q now entry tmp s = clk_wakeup_from q now tmp (nxt (heap s) tmp) s"
      using False v Cons.prems(2) by (subst clk_wakeup_from.simps) simp
    then show ?thesis using Cons.IH [OF v' tmp nx [OF v']] False by simp
  qed
qed

lemma clk_wakeup_view:
  assumes v: "clk_view Qs idle q dl a0 s xs R"
  shows "\<exists>s'. clk_wakeup q now s = Some s' \<and>
    clk_view Qs idle q dl a0 s' (filter (\<lambda>x. now < dl x) xs) (R \<union> {x \<in> set xs. dl x \<le> now})"
proof -
  obtain a where a: "well Qs idle s a" "clk_queue Qs q a" "queues a q = xs" using v unfolding clk_view_def by blast
  have l: "is_list (heap s) q xs"
    using rep_queuesD [OF rep_schedD [OF wellD(1) [OF a(1)]], of q] a(2,3) by (simp add: clk_queue_def)
  have nx: "nxt (heap s) q = hd (xs @ [q])" using l lseg_first by (fastforce simp: is_list_def)
  have nn: "nxt (heap s) (nxt (heap s) q) = hd (tl xs @ [q])" if "xs \<noteq> []"
    using clk_view_nxt(1) [of Qs idle q dl a0 s "[]" "hd xs" "tl xs" R] v that nx by (cases xs) auto
  have "clk_wakeup q now s = clkq.wake_list (filter (\<lambda>x. dl x \<le> now) xs) s"
    using clk_wakeup_from_eq [of Qs idle q dl a0 s "[]" xs R, OF _ nx nn, of now] v list_is_empty_iff [OF l]
    by (auto simp: clk_wakeup_def)
  moreover have "filter (\<lambda>x. x \<notin> set (filter (\<lambda>x. dl x \<le> now) xs)) xs = filter (\<lambda>x. now < dl x) xs"
    by (auto intro!: filter_cong)
  moreover have "distinct (filter (\<lambda>x. dl x \<le> now) xs)" using clkq.view_distinct [OF v] by simp
  ultimately show ?thesis
    using clkq.wake_list_view [OF v, of "filter (\<lambda>x. dl x \<le> now) xs"] by (auto simp: not_le)
qed


section \<open>Properties\<close>


text \<open>A sleeping kernel task for the witnesses.\<close>

definition sleeping_sched :: sched where
  "sleeping_sched = the (scheduler_sleep_on idle_sched 4 (WDeadline 500))"

lemma sleeping_sched_ok:
  "\<exists>a. well [1, 2, 3, 4] 32 sleeping_sched a \<and> clk_queue [1, 2, 3, 4] 4 a \<and> queues a 4 = [16] \<and>
     task_deadline sleeping_sched 16 = Some 500 \<and> ready a = 1 \<and> queues a 1 = []"
proof -
  obtain a where a: "well [1, 2, 3, 4] 32 idle_sched a" "current a = 16" "ready a = 1" "zombies a = 2" "waiters a = 3"
      "queues a 1 = [32]" "queues a 4 = []"
    using idle_sched_ok by blast
  let ?b = "a_sleep_on 4 (WDeadline 500) a"
  have w: "well [1, 2, 3, 4] 32 sleeping_sched ?b"
    using well_sleep_on [OF a(1), of 4 "WDeadline 500"] a by (auto simp: sleeping_sched_def)
  obtain t where t: "tasks a 16 = Some t" using wellD(6) [OF a(1)] a(2) by auto
  have b: "queues ?b 4 = [16]" "ready ?b = 1" "zombies ?b = 2" "waiters ?b = 3" "queues ?b 1 = []"
      "map_option wait_state (tasks ?b 16) = Some (WDeadline 500)"
    using a t by (auto simp: a_sleep_on_def a_schedule_def a_run_def Let_def)
  then have "task_deadline sleeping_sched 16 = Some 500"
    using rep_sched_eqs(1) [OF wellD(1) [OF w]] by (auto simp: task_deadline_def)
  then show ?thesis using w b by (intro exI [of _ ?b]) (simp add: clk_queue_def)
qed


text \<open>
  \<^verbatim>\<open>clk_nanosleep\<close> with a valid relative request that fits the clock puts the caller to sleep in
  the blocked queue with the deadline of now plus the request, and another task runs; a request
  of zero returns at once.
\<close>

theorem clk_nanosleep_spec:
  assumes "rep_sched Qs s a" "sched_inv Qs idle a" "clk_queue Qs q a" "current a \<noteq> idle"
    and "0 \<le> tv_sec rq" "0 \<le> tv_nsec rq"
    and "uint now + S_TO_NS (tv_sec rq) + tv_nsec rq < 2 ^ 64"
  shows "if S_TO_NS (tv_sec rq) + tv_nsec rq = 0
    then clk_nanosleep q now CLOCK_MONOTONIC 0 (Some rq) True s = Some (NanoReturns 0, s)
    else \<exists>d s' b. clk_nanosleep q now CLOCK_MONOTONIC 0 (Some rq) True s = Some (NanoSleeps d, s') \<and>
      uint d = uint now + S_TO_NS (tv_sec rq) + tv_nsec rq \<and>
      rep_sched Qs s' b \<and> sched_inv Qs idle b \<and> queues b q = queues a q @ [current a] \<and>
      task_deadline s' (current a) = Some d"
proof -
  let ?n = "S_TO_NS (tv_sec rq) + tv_nsec rq" and ?d = "clk_deadline now 0 rq"
  have n: "0 \<le> ?n" using assms(5,6) by (simp add: S_TO_NS_def)
  have "?d = word_of_int (uint now + ?n)" by (simp add: clk_deadline_def algebra_simps)
  moreover have "uint (word_of_int (uint now + ?n) :: u64) = uint now + ?n"
    unfolding uint_word_of_int using n assms(7) by (intro mod_pos_pos_trivial) simp_all
  ultimately have d: "uint ?d = uint now + ?n" by simp
  show ?thesis
  proof (cases "?n = 0")
    case True
    then have "?d \<le> now" using d by (simp add: word_le_def)
    with True show ?thesis by (simp add: clk_nanosleep_def)
  next
    case False
    then have nd: "\<not> ?d \<le> now" using d n by (simp add: word_le_def)
    have w: "well Qs idle s a" using assms(1,2) by (simp add: well_def)
    have q: "q \<in> set Qs" "q \<noteq> ready a" "q \<noteq> zombies a" "q \<noteq> waiters a" using assms(3) by (auto simp: clk_queue_def)
    let ?b = "a_sleep_on q (WDeadline ?d) a"
    obtain s' where s': "scheduler_sleep_on s q (WDeadline ?d) = Some s'" "well Qs idle s' ?b"
      using well_sleep_on [OF w q(1-3) assms(4), of "WDeadline ?d"] q(4) by auto
    have "queues ?b q = queues a q @ [current a]" "map_option wait_state (tasks ?b (current a)) = Some (WDeadline ?d)"
      using q(2) wellD(6) [OF w] by (auto simp: a_sleep_on_def a_schedule_def a_run_def Let_def split: list.split)
    then show ?thesis
      using False nd d s' rep_sched_eqs(1) [OF wellD(1) [OF s'(2)]]
      by (auto simp: clk_nanosleep_def well_def task_deadline_def)
  qed
qed

theorem clk_nanosleep_spec_witness:
  "\<exists>d s'. clk_nanosleep 4 0 CLOCK_MONOTONIC 0 (Some \<lparr>tv_sec = 1, tv_nsec = 5\<rparr>) True idle_sched = Some (NanoSleeps d, s') \<and>
     uint d = 1000000005"
proof -
  obtain a where "well [1, 2, 3, 4] 32 idle_sched a" "current a = 16" "ready a = 1" "zombies a = 2" "waiters a = 3"
    using idle_sched_ok by blast
  then show ?thesis
    using clk_nanosleep_spec [of "[1, 2, 3, 4]" idle_sched a 32 4 "\<lparr>tv_sec = 1, tv_nsec = 5\<rparr>" 0]
    by (auto simp: well_def clk_queue_def S_TO_NS_def)
qed

text \<open>
  The clock interrupt: with a timer and a controller present the handler returns, time has
  advanced by the board's increment, the scheduler's state is again well formed, no sleeper whose
  deadline has passed is still blocked, and a task is preempted on even ticks only.
\<close>

theorem clk_handler_spec:
  assumes "rep_sched Qs (ck_sched c) a" "sched_inv Qs idle a" "clk_queue Qs (blocked c) a"
    and "\<And>x. x \<in> set (queues a (blocked c)) \<Longrightarrow> task_deadline (ck_sched c) x = Some (dl x)"
    and "ck_timer c = Some t" "master (ck_irqs c) = Some p"
  shows "\<exists>c' a'. clk_handler io b c = Some c' \<and> ticks c' = ticks c + 1 \<and>
    now_ns c' = now_ns c + word_of_int (MS_TO_NS (CLOCK_INC_MS b)) \<and>
    rep_sched Qs (ck_sched c') a' \<and> sched_inv Qs idle a' \<and>
    (\<forall>x \<in> set (queues a' (blocked c)). now_ns c' < dl x) \<and>
    (ticks c' AND 1 \<noteq> 0 \<longrightarrow> current a' = current a)"
proof -
  let ?now = "now_ns c + word_of_int (MS_TO_NS (CLOCK_INC_MS b))"
  obtain s1 a1 where w1: "clk_wakeup (blocked c) ?now (ck_sched c) = Some s1" "rep_sched Qs s1 a1" "sched_inv Qs idle a1"
      "queues a1 (blocked c) = filter (\<lambda>x. ?now < dl x) (queues a (blocked c))" "current a1 = current a" "ready a1 = ready a"
    using clk_wakeup_view [of Qs idle "blocked c" dl a "ck_sched c" "queues a (blocked c)" "set (queues a (ready a))" ?now] assms(1-4)
    unfolding clk_view_def well_def by fastforce
  have "irq_ack io (ck_irqs c) (t_irq t) (ck_hw c) \<noteq> None"
    using assms(6) by (simp add: irq_ack_def Let_def)
  then obtain d where d: "irq_ack io (ck_irqs c) (t_irq t) (ck_hw c) = Some d" by blast
  show ?thesis
  proof (cases "(ticks c + 1) AND 1 = 0")
    case True
    obtain s2 where s2: "schedule s1 = Some s2" "well Qs idle s2 (a_schedule a1)"
      using well_schedule [of Qs idle s1 a1] w1(2,3) by (auto simp: well_def)
    have "queues (a_schedule a1) (blocked c) = queues a1 (blocked c)"
      using assms(3) w1(6) by (auto simp: clk_queue_def a_schedule_def Let_def split: list.split)
    then show ?thesis using True s2 w1 d assms(5)
      by (intro exI [of _ "c\<lparr>ticks := ticks c + 1, now_ns := ?now, ck_hw := d, ck_sched := s2\<rparr>"] exI [of _ "a_schedule a1"])
        (simp add: clk_handler_def well_def)
  next
    case False
    then show ?thesis using w1 d assms(5)
      by (intro exI [of _ "c\<lparr>ticks := ticks c + 1, now_ns := ?now, ck_hw := d, ck_sched := s1\<rparr>"] exI [of _ a1])
        (simp add: clk_handler_def)
  qed
qed


theorem clk_handler_spec_witness:
  "\<exists>c'. clk_handler memory_ports board_vboard \<lparr>ck_sched = sleeping_sched, blocked = 4, ticks = 0, now_ns = 0,
      ck_timer = timer_get (devices board_vboard) ''timer0'', ck_irqs = board_irqs board_vboard, ck_hw = (\<lambda>_. 0)\<rparr> = Some c' \<and>
     now_ns c' = 10000000"
proof -
  obtain a where "well [1, 2, 3, 4] 32 sleeping_sched a" "clk_queue [1, 2, 3, 4] 4 a" "queues a 4 = [16]"
      "task_deadline sleeping_sched 16 = Some 500"
    using sleeping_sched_ok by blast
  moreover have "timer_get (devices board_vboard) ''timer0'' = Some (p8254_timer 1193182 0 0)"
    by (simp add: timer_get_def board_vboard_def DEVICE_def timer_devices_def)
  moreover have "word_of_int (MS_TO_NS (CLOCK_INC_MS board_vboard)) = (10000000 :: u64)"
    by (simp add: MS_TO_NS_def board_vboard_def)
  ultimately show ?thesis
    using clk_handler_spec [of "[1, 2, 3, 4]" "\<lparr>ck_sched = sleeping_sched, blocked = 4, ticks = 0, now_ns = 0,
      ck_timer = timer_get (devices board_vboard) ''timer0'', ck_irqs = board_irqs board_vboard, ck_hw = (\<lambda>_. 0)\<rparr>" a 32
      "\<lambda>_. 500" "p8254_timer 1193182 0 0" "Pic 0x20 (- 1) 0 8 32 (Some vboard_slave)" memory_ports board_vboard]
    by (auto simp: well_def)
qed

text \<open>
  The time \<^verbatim>\<open>clk_gettime\<close> reports for the monotonic clock is the clock, split into seconds and
  a nanosecond part below one second.
\<close>

theorem clk_gettime_splits:
  "\<exists>ts. clk_gettime now CLOCK_MONOTONIC True = (0, Some ts) \<and>
     tv_sec ts * 1000000000 + tv_nsec ts = uint now \<and> 0 \<le> tv_nsec ts \<and> tv_nsec ts < 1000000000"
proof -
  have "uint (now div 1000000000) * 1000000000 + uint (now mod 1000000000) = uint now"
    by (simp add: uint_div uint_mod)
  moreover have "uint (now mod 1000000000) < 1000000000" by (simp add: uint_mod)
  ultimately show ?thesis by (simp add: clk_gettime_def S_TO_NS_def)
qed

text \<open>
  The alarm \<^verbatim>\<open>clk_initialize\<close> programs is \<^verbatim>\<open>freq / 100\<close> timer ticks.  \<open>tick_matches b\<close>: that is
  \<^verbatim>\<open>CLOCK_INC_MS\<close> milliseconds, to within one timer tick.
\<close>

definition tick_matches :: "board \<Rightarrow> bool" where
  "tick_matches b \<longleftrightarrow>
     (case timer_get (devices b) ''timer0'' of
        None \<Rightarrow> False
      | Some t \<Rightarrow> let count = uint (ucast (t_freq t div 100) :: u16);
                      diff = CLOCK_INC_MS b * uint (t_freq t) - 1000 * count
                  in 0 \<le> diff \<and> diff < 1000)"

text \<open>
  On the third revision of the board and on the virtual board the clock interrupt comes every
  \<^verbatim>\<open>CLOCK_INC_MS\<close> milliseconds; on the second revision it does not, because the alarm is always
  programmed for a hundredth of a second while the clock advances by twenty milliseconds.
\<close>

theorem clock_tick_periods:
  "tick_matches board_8088_rev3 \<and> tick_matches board_vboard \<and> \<not> tick_matches board_8088_rev2"
  by (simp add: tick_matches_def timer_get_def board_8088_rev3_def board_vboard_def board_8088_rev2_def
      DEVICE_def timer_devices_def p8254_timer_def uint_div)

end
