(* ===== verification/Blkdev.thy ===== *)
theory Blkdev
  imports Prelude "HOL-Library.Signed_Division" "HOL-Library.Monad_Syntax"
begin

text \<open>
  Block devices (\<^verbatim>\<open>kernel/core/blkdev.c\<close>).  A device carries the operations of its driver as
  functions on the state \<open>'s\<close> of the storage behind it.  A pointer into a buffer is the list of the
  bytes from there to the end of the object, a transfer returns the bytes afterwards, and \<^verbatim>\<open>NULL\<close> is
  \<open>None\<close>.  Results are \<^verbatim>\<open>int\<close>, 16 bits wide on this target.

  The reads and writes at byte granularity are built from block transfers in three phases, the
  partial first block, the whole blocks and the partial last block; each is a function on the
  local variables (\<open>xfer\<close>), \<open>Inl\<close> being a jump to the label \<^verbatim>\<open>err\<close>.
\<close>

section \<open>Devices\<close>

record 's blkdev =
  blk_name :: string
  block_size :: u16
  block_shift :: u16
  block_count :: u32
  read_block :: "(u8 list \<Rightarrow> u32 \<Rightarrow> u16 \<Rightarrow> 's \<Rightarrow> int \<times> u8 list \<times> 's) option"
  write_block :: "(u8 list \<Rightarrow> u32 \<Rightarrow> u16 \<Rightarrow> 's \<Rightarrow> int \<times> 's) option"
  dev_read :: "(u8 list \<Rightarrow> int \<Rightarrow> u16 \<Rightarrow> 's \<Rightarrow> int \<times> u8 list \<times> 's) option"
  dev_write :: "(u8 list \<Rightarrow> int \<Rightarrow> u16 \<Rightarrow> 's \<Rightarrow> (int \<times> 's) option) option"

section \<open>Block transfers\<close>

definition blk_block_trim_range :: "'s blkdev \<Rightarrow> u32 \<Rightarrow> u16 \<Rightarrow> u16" where
  "blk_block_trim_range dev block count =
     (if block \<ge> block_count dev then 0
      else if count = 0 then 0
      else if block + ucast count > block_count dev then ucast (block_count dev - block)
      else count)"

definition blk_read_block :: "'s blkdev option \<Rightarrow> u8 list option \<Rightarrow> u32 \<Rightarrow> u16 \<Rightarrow> 's \<Rightarrow> int \<times> u8 list option \<times> 's" where
  "blk_read_block d b block count s =
     (case d of
        None \<Rightarrow> (ERR_INVAL, b, s)
      | Some dev \<Rightarrow>
          (case (read_block dev, b) of
             (Some rd, Some buf) \<Rightarrow>
               let count = blk_block_trim_range dev block count
               in if count = 0 then (0, b, s)
                  else let (r, buf, s) = rd buf block count s in (r, Some buf, s)
           | _ \<Rightarrow> (ERR_INVAL, b, s)))"

definition blk_write_block :: "'s blkdev option \<Rightarrow> u8 list option \<Rightarrow> u32 \<Rightarrow> u16 \<Rightarrow> 's \<Rightarrow> int \<times> 's" where
  "blk_write_block d b block count s =
     (case d of
        None \<Rightarrow> (ERR_INVAL, s)
      | Some dev \<Rightarrow>
          (case (write_block dev, b) of
             (Some wr, Some buf) \<Rightarrow>
               let count = blk_block_trim_range dev block count
               in if count = 0 then (0, s) else wr buf block count s
           | _ \<Rightarrow> (ERR_INVAL, s)))"

section \<open>Byte transfers\<close>

text \<open>\<^verbatim>\<open>off_t\<close> is a signed 32-bit integer; the product below is unsigned before it is stored in one.\<close>

definition total_size :: "'s blkdev \<Rightarrow> int" where
  "total_size dev = int32 (uint (ucast (block_size dev) * block_count dev :: u32))"

definition blk_trim_range :: "'s blkdev \<Rightarrow> int \<Rightarrow> u16 \<Rightarrow> u16" where
  "blk_trim_range dev offset len =
     (if offset \<ge> total_size dev then 0
      else if len = 0 then 0
      else if int32 (offset + uint len) > total_size dev then word_of_int (total_size dev - offset)
      else len)"

definition blk_read :: "'s blkdev option \<Rightarrow> u8 list option \<Rightarrow> int \<Rightarrow> u16 \<Rightarrow> 's \<Rightarrow> int \<times> u8 list option \<times> 's" where
  "blk_read d b offset len s =
     (case d of
        None \<Rightarrow> (ERR_INVAL, b, s)
      | Some dev \<Rightarrow>
          (case (dev_read dev, b) of
             (Some rd, Some buf) \<Rightarrow>
               let len = blk_trim_range dev offset len
               in if len = 0 then (0, b, s)
                  else let (r, buf, s) = rd buf offset len s in (r, Some buf, s)
           | _ \<Rightarrow> (ERR_INVAL, b, s)))"

text \<open>The guard of \<^verbatim>\<open>blk_write\<close> tests \<^verbatim>\<open>dev->read\<close>; calling an unset \<^verbatim>\<open>dev->write\<close> is undefined.\<close>

definition blk_write :: "'s blkdev option \<Rightarrow> u8 list option \<Rightarrow> int \<Rightarrow> u16 \<Rightarrow> 's \<Rightarrow> (int \<times> 's) option" where
  "blk_write d b offset len s =
     (case d of
        None \<Rightarrow> Some (ERR_INVAL, s)
      | Some dev \<Rightarrow>
          (case (dev_read dev, b) of
             (Some _, Some buf) \<Rightarrow>
               let len = blk_trim_range dev offset len
               in if len = 0 then Some (0, s)
                  else do { wr \<leftarrow> dev_write dev; wr buf offset len s }
           | _ \<Rightarrow> Some (ERR_INVAL, s)))"

record 's xfer =
  x_buf :: "u8 list"
  x_pos :: nat
  x_len :: u16
  x_bytes :: int
  x_block :: u32
  x_temp :: "u8 list"
  x_st :: 's

text \<open>Reading one block into the temporary buffer.\<close>

definition blk_fetch_temp :: "'s blkdev \<Rightarrow> 's xfer \<Rightarrow> (int \<times> 's xfer) + 's xfer" where
  "blk_fetch_temp dev x =
     (let (err, temp, s) = blk_read_block (Some dev) (Some (x_temp x)) (x_block x) 1 (x_st x);
          x = x\<lparr>x_temp := the temp, x_st := s\<rparr>
      in if err < 0 then Inl (err, x)
         else if word_of_int err \<noteq> block_size dev then Inl (ERR_IO, x)
         else Inr x)"

definition blk_read_first :: "'s blkdev \<Rightarrow> int \<Rightarrow> 's xfer \<Rightarrow> (int \<times> 's xfer) + 's xfer" where
  "blk_read_first dev offset x =
     (if offset smod uint (block_size dev) \<noteq> 0
      then (case blk_fetch_temp dev x of
              Inl e \<Rightarrow> Inl e
            | Inr x \<Rightarrow>
                let block_offset = word_of_int (offset smod uint (block_size dev)) :: u16;
                    tocopy = min (block_size dev - block_offset) (x_len x)
                in Inr (x\<lparr>x_buf := mem_put (x_buf x) (x_pos x) (mem_get (x_temp x) (unat block_offset) (unat tocopy)),
                          x_pos := x_pos x + unat tocopy, x_len := x_len x - tocopy,
                          x_bytes := int16 (x_bytes x + uint tocopy), x_block := x_block x + 1\<rparr>))
      else Inr x)"

definition blk_read_middle :: "'s blkdev \<Rightarrow> 's xfer \<Rightarrow> (int \<times> 's xfer) + 's xfer" where
  "blk_read_middle dev x =
     (let num_blocks = ucast (drop_bit (unat (block_shift dev)) (x_len x)) :: u32;
          (err, b, s) = blk_read_block (Some dev) (Some (drop (x_pos x) (x_buf x))) (x_block x) (ucast num_blocks) (x_st x);
          x = x\<lparr>x_buf := take (x_pos x) (x_buf x) @ the b, x_st := s\<rparr>
      in if err < 0 then Inl (err, x)
         else if ucast (word_of_int err :: u16) \<noteq> ucast (block_size dev) * num_blocks then Inl (ERR_IO, x)
         else Inr (x\<lparr>x_pos := x_pos x + nat err, x_len := x_len x - word_of_int err,
                     x_bytes := int16 (x_bytes x + err), x_block := x_block x + num_blocks\<rparr>))"

definition blk_read_last :: "'s blkdev \<Rightarrow> 's xfer \<Rightarrow> (int \<times> 's xfer) + 's xfer" where
  "blk_read_last dev x =
     (if x_len x > 0
      then (case blk_fetch_temp dev x of
              Inl e \<Rightarrow> Inl e
            | Inr x \<Rightarrow> Inr (x\<lparr>x_buf := mem_put (x_buf x) (x_pos x) (mem_get (x_temp x) 0 (unat (x_len x))),
                              x_bytes := int16 (x_bytes x + uint (x_len x))\<rparr>))
      else Inr x)"

definition xfer_bind :: "(int \<times> 's xfer) + 's xfer \<Rightarrow> ('s xfer \<Rightarrow> (int \<times> 's xfer) + 's xfer) \<Rightarrow> (int \<times> 's xfer) + 's xfer" where
  "xfer_bind r f = (case r of Inl e \<Rightarrow> Inl e | Inr x \<Rightarrow> f x)"

text \<open>\<open>temp\<close> is the result of \<^verbatim>\<open>malloc(dev->block_size)\<close>, with whatever it contains.\<close>

definition blk_default_read ::
    "'s blkdev \<Rightarrow> u8 list option \<Rightarrow> u8 list \<Rightarrow> int \<Rightarrow> u16 \<Rightarrow> 's \<Rightarrow> int \<times> u8 list \<times> 's" where
  "blk_default_read dev temp buf offset len s =
     (case temp of
        None \<Rightarrow> (ERR_NO_MEM, buf, s)
      | Some tmp \<Rightarrow>
          let x = \<lparr>x_buf = buf, x_pos = 0, x_len = len, x_bytes = 0,
                   x_block = word_of_int (offset sdiv uint (block_size dev)), x_temp = tmp, x_st = s\<rparr>
          in case xfer_bind (xfer_bind (blk_read_first dev offset x) (blk_read_middle dev)) (blk_read_last dev) of
               Inl (err, x) \<Rightarrow> (err, x_buf x, x_st x)
             | Inr x \<Rightarrow> (x_bytes x, x_buf x, x_st x))"

text \<open>Writing the temporary buffer back to its block.\<close>

definition blk_store_temp :: "'s blkdev \<Rightarrow> 's xfer \<Rightarrow> (int \<times> 's xfer) + 's xfer" where
  "blk_store_temp dev x =
     (let (err, s) = blk_write_block (Some dev) (Some (x_temp x)) (x_block x) 1 (x_st x);
          x = x\<lparr>x_st := s\<rparr>
      in if err < 0 then Inl (err, x)
         else if word_of_int err \<noteq> block_size dev then Inl (ERR_IO, x)
         else Inr x)"

definition blk_write_first :: "'s blkdev \<Rightarrow> int \<Rightarrow> 's xfer \<Rightarrow> (int \<times> 's xfer) + 's xfer" where
  "blk_write_first dev offset x =
     (if offset smod uint (block_size dev) \<noteq> 0
      then let block_offset = word_of_int (offset smod uint (block_size dev)) :: u16;
               tocopy = min (block_size dev - block_offset) (x_len x)
           in xfer_bind (blk_fetch_temp dev x) (\<lambda>x.
              xfer_bind (blk_store_temp dev (x\<lparr>x_temp :=
                 mem_put (x_temp x) (unat block_offset) (mem_get (x_buf x) (x_pos x) (unat tocopy))\<rparr>)) (\<lambda>x.
              Inr (x\<lparr>x_pos := x_pos x + unat tocopy, x_len := x_len x - tocopy,
                     x_bytes := int16 (x_bytes x + uint tocopy), x_block := x_block x + 1\<rparr>)))
      else Inr x)"

definition blk_write_middle :: "'s blkdev \<Rightarrow> 's xfer \<Rightarrow> (int \<times> 's xfer) + 's xfer" where
  "blk_write_middle dev x =
     (let blocks = ucast (drop_bit (unat (block_shift dev)) (x_len x)) :: u32;
          (err, s) = blk_write_block (Some dev) (Some (drop (x_pos x) (x_buf x))) (x_block x) (ucast blocks) (x_st x);
          x = x\<lparr>x_st := s\<rparr>
      in if err < 0 then Inl (err, x)
         else if ucast (word_of_int err :: u16) \<noteq> ucast (block_size dev) * blocks then Inl (ERR_IO, x)
         else Inr (x\<lparr>x_pos := x_pos x + nat err, x_len := x_len x - word_of_int err,
                     x_bytes := int16 (x_bytes x + err), x_block := x_block x + blocks\<rparr>))"

definition blk_write_last :: "'s blkdev \<Rightarrow> 's xfer \<Rightarrow> (int \<times> 's xfer) + 's xfer" where
  "blk_write_last dev x =
     (if x_len x > 0
      then xfer_bind (blk_fetch_temp dev x) (\<lambda>x.
           xfer_bind (blk_store_temp dev (x\<lparr>x_temp :=
              mem_put (x_temp x) 0 (mem_get (x_buf x) (x_pos x) (unat (x_len x)))\<rparr>)) (\<lambda>x.
           Inr (x\<lparr>x_bytes := int16 (x_bytes x + uint (x_len x))\<rparr>)))
      else Inr x)"

definition blk_default_write :: "'s blkdev \<Rightarrow> u8 list option \<Rightarrow> u8 list \<Rightarrow> int \<Rightarrow> u16 \<Rightarrow> 's \<Rightarrow> int \<times> 's" where
  "blk_default_write dev temp buf offset len s =
     (case temp of
        None \<Rightarrow> (ERR_NO_MEM, s)
      | Some tmp \<Rightarrow>
          let x = \<lparr>x_buf = buf, x_pos = 0, x_len = len, x_bytes = 0,
                   x_block = word_of_int (offset sdiv uint (block_size dev)), x_temp = tmp, x_st = s\<rparr>
          in case xfer_bind (xfer_bind (blk_write_first dev offset x) (blk_write_middle dev)) (blk_write_last dev) of
               Inl (err, x) \<Rightarrow> (err, x_st x)
             | Inr x \<Rightarrow> (x_bytes x, x_st x))"


section \<open>The registry\<close>

text \<open>
  \<^verbatim>\<open>devices\<close> is the list of the registered devices, in order.  \<open>mal\<close> is the allocator the default
  transfers call.  The message \<^verbatim>\<open>blk_dev_add\<close> prints is not modelled.
\<close>

definition blk_dev_add ::
    "(u16 \<Rightarrow> u8 list option) \<Rightarrow> 's blkdev list \<Rightarrow> 's blkdev option \<Rightarrow> bool \<times> 's blkdev list" where
  "blk_dev_add mal devices d =
     (case d of
        None \<Rightarrow> (False, devices)
      | Some dev \<Rightarrow>
          let dev = (case dev_read dev of
                       None \<Rightarrow> dev\<lparr>dev_read := Some (blk_default_read dev (mal (block_size dev)))\<rparr>
                     | Some _ \<Rightarrow> dev);
              dev = (case dev_write dev of
                       None \<Rightarrow> dev\<lparr>dev_write := Some (\<lambda>buf offset len s.
                                  Some (blk_default_write dev (mal (block_size dev)) buf offset len s))\<rparr>
                     | Some _ \<Rightarrow> dev)
          in (True, devices @ [dev]))"

definition blk_register_subdevice ::
    "(u16 \<Rightarrow> u8 list option) \<Rightarrow> 's blkdev list \<Rightarrow> 's blkdev option \<Rightarrow> 's blkdev list" where
  "blk_register_subdevice mal devices d = snd (blk_dev_add mal devices d)"

fun blk_unregister_loop :: "'s blkdev list \<Rightarrow> string \<Rightarrow> 's blkdev option \<times> 's blkdev list" where
  "blk_unregister_loop [] n = (None, [])"
| "blk_unregister_loop (d # ds) n =
     (if blk_name d = n then (Some d, ds)
      else let (r, ds) = blk_unregister_loop ds n in (r, d # ds))"

definition blk_unregister :: "'s blkdev list \<Rightarrow> string option \<Rightarrow> 's blkdev option \<times> 's blkdev list" where
  "blk_unregister devices n =
     (case n of None \<Rightarrow> (None, devices) | Some m \<Rightarrow> blk_unregister_loop devices m)"

definition blk_open :: "'s blkdev list \<Rightarrow> string option \<Rightarrow> 's blkdev option" where
  "blk_open devices n =
     (case n of None \<Rightarrow> None | Some m \<Rightarrow> find (\<lambda>d. blk_name d = m) devices)"

section \<open>Division\<close>

lemma sdiv_pos: "0 \<le> k \<Longrightarrow> 0 < l \<Longrightarrow> k sdiv l = (k :: int) div l"
  by (cases "k = 0") (simp_all add: signed_divide_int_def)

lemma smod_pos: "0 \<le> k \<Longrightarrow> 0 < l \<Longrightarrow> k smod l = (k :: int) mod l"
  by (cases "k = 0") (simp_all add: signed_modulo_int_def)

section \<open>The interface: block storage\<close>

text \<open>
  What the block layer relies on: the driver transfers whole blocks of a storage whose bytes are
  \<open>content s\<close>, for requests inside the device that fit the 16-bit result.
\<close>

locale block_reader =
  fixes dev :: "'s blkdev" and inv :: "'s \<Rightarrow> bool" and content :: "'s \<Rightarrow> u8 list"
  assumes shift: "unat (block_size dev) = 2 ^ unat (block_shift dev)"
    and size: "unat (block_size dev) * unat (block_count dev) < 2 ^ 31"
    and content_length: "inv s \<Longrightarrow> length (content s) = unat (block_size dev) * unat (block_count dev)"
    and read_law: "\<exists>rd. read_block dev = Some rd \<and>
      (\<forall>s buf block count. inv s \<and> 0 < count \<and> unat block + unat count \<le> unat (block_count dev) \<and>
         unat count * unat (block_size dev) \<le> length buf \<and> unat count * unat (block_size dev) < 32768 \<longrightarrow>
         (\<exists>s'. rd buf block count s = (int (unat count * unat (block_size dev)),
             mem_put buf 0 (mem_get (content s) (unat block * unat (block_size dev)) (unat count * unat (block_size dev))), s') \<and>
           inv s' \<and> content s' = content s))"
begin

abbreviation bs :: nat where "bs \<equiv> unat (block_size dev)"
abbreviation nblocks :: nat where "nblocks \<equiv> unat (block_count dev)"

lemma bs_pos [simp]: "0 < bs"
  using shift by simp

lemma bs_pos_int [simp]: "0 < uint (block_size dev)"
  using bs_pos by (metis of_nat_0_less_iff uint_nat)

lemma nblocks_lt [simp]: "nblocks < 4294967296"
  by simp

lemma trim_inside:
  assumes "count = 0 \<or> unat block + unat count \<le> nblocks"
  shows "blk_block_trim_range dev block count = count"
proof (cases "count = 0")
  case True
  then show ?thesis by (simp add: blk_block_trim_range_def)
next
  case False
  then have c: "0 < unat count" by (simp add: unat_gt_0)
  with assms False have le: "unat block + unat count \<le> nblocks" by simp
  have "nblocks < 4294967296" by simp
  then have "unat block + unat count < 4294967296" using le by linarith
  then have "unat (block + ucast count) = unat block + unat count" by (simp add: unat_plus_u32)
  with le c show ?thesis
    by (auto simp: blk_block_trim_range_def word_le_nat_alt word_less_nat_alt)
qed

lemma trim_any:
  "unat (blk_block_trim_range dev block count) = (if unat block < nblocks then min (unat count) (nblocks - unat block) else 0)"
proof (cases "unat block < nblocks \<and> count \<noteq> 0 \<and> nblocks < unat block + unat count")
  case True
  have "1 * nblocks \<le> bs * nblocks" using bs_pos by (intro mult_le_mono1) linarith
  moreover have "bs * nblocks < 2147483648" using size by simp
  ultimately have n: "nblocks < 2147483648" by linarith
  have t: "unat block < nblocks" using True by blast
  have "unat block + unat (ucast count :: u32) < 4294967296"
    unfolding unat_ucast_u16_u32 using n t unat_u16_lt [of count] by linarith
  then have "unat (block + ucast count) = unat block + unat count" by (simp add: unat_plus_u32)
  moreover have d: "unat (block_count dev - block) = nblocks - unat block"
    using t by (intro unat_sub) (simp add: word_le_nat_alt)
  have "nblocks < unat block + unat count" using True by blast
  then have "nblocks - unat block < 65536" using unat_u16_lt [of count] by linarith
  then have "unat (ucast (block_count dev - block) :: u16) = nblocks - unat block"
    using d by (subst unat_ucast_u32_u16) simp_all
  ultimately show ?thesis using True
    by (simp add: blk_block_trim_range_def word_le_nat_alt word_less_nat_alt) linarith
next
  case False
  then show ?thesis using trim_inside [of count block]
    by (cases "count = 0"; cases "unat block < nblocks") (auto simp: blk_block_trim_range_def word_le_nat_alt)
qed

lemma read_block_inside:
  assumes "inv s" "count = 0 \<or> unat block + unat count \<le> nblocks"
    and "unat count * bs \<le> length buf" "unat count * bs < 32768"
  shows "\<exists>s'. blk_read_block (Some dev) (Some buf) block count s =
      (int (unat count * bs), Some (mem_put buf 0 (mem_get (content s) (unat block * bs) (unat count * bs))), s') \<and>
    inv s' \<and> content s' = content s"
proof -
  obtain rd where rd: "read_block dev = Some rd"
      "\<And>s buf block count. inv s \<Longrightarrow> 0 < count \<Longrightarrow> unat block + unat count \<le> nblocks \<Longrightarrow>
         unat count * bs \<le> length buf \<Longrightarrow> unat count * bs < 32768 \<Longrightarrow>
         \<exists>s'. rd buf block count s = (int (unat count * bs), mem_put buf 0 (mem_get (content s) (unat block * bs) (unat count * bs)), s') \<and>
           inv s' \<and> content s' = content s"
    using read_law by blast
  show ?thesis
  proof (cases "count = 0")
    case True
    then show ?thesis using assms rd(1) by (simp add: blk_read_block_def trim_inside)
  next
    case False
    then have "0 < count" by (simp add: word_neq_0_conv)
    then obtain s' where "rd buf block count s = (int (unat count * bs),
        mem_put buf 0 (mem_get (content s) (unat block * bs) (unat count * bs)), s')" "inv s'" "content s' = content s"
      using rd(2) [OF assms(1), of count block buf] assms False by blast
    then show ?thesis using assms(2) rd(1) False by (simp add: blk_read_block_def trim_inside Let_def)
  qed
qed

lemma fetch_temp:
  assumes "inv (x_st x)" "unat (x_block x) < nblocks" "length (x_temp x) = bs" "bs < 32768"
  shows "\<exists>s'. blk_fetch_temp dev x = Inr (x\<lparr>x_temp := mem_get (content (x_st x)) (unat (x_block x) * bs) bs, x_st := s'\<rparr>) \<and>
    inv s' \<and> content s' = content (x_st x)"
proof -
  obtain s' where s': "blk_read_block (Some dev) (Some (x_temp x)) (x_block x) 1 (x_st x) =
      (int bs, Some (mem_put (x_temp x) 0 (mem_get (content (x_st x)) (unat (x_block x) * bs) bs)), s')"
      "inv s'" "content s' = content (x_st x)"
    using read_block_inside [of "x_st x" 1 "x_block x" "x_temp x"] assms by auto
  have "unat (x_block x) * bs + bs \<le> bs * nblocks"
    using mult_le_mono1 [of "Suc (unat (x_block x))" nblocks bs] assms(2) by (simp add: mult.commute)
  then have "length (mem_get (content (x_st x)) (unat (x_block x) * bs) bs) = bs"
    using content_length [OF assms(1)] by simp
  then have "mem_put (x_temp x) 0 (mem_get (content (x_st x)) (unat (x_block x) * bs) bs) =
      mem_get (content (x_st x)) (unat (x_block x) * bs) bs"
    using assms(3) by (simp add: mem_put_def)
  then show ?thesis using s' by (auto simp: blk_fetch_temp_def)
qed

text \<open>The state of a read that has delivered \<open>k\<close> of the \<open>len\<close> bytes at \<open>off\<close>.\<close>

definition reading :: "u8 list \<Rightarrow> nat \<Rightarrow> nat \<Rightarrow> u8 list \<Rightarrow> nat \<Rightarrow> 's xfer \<Rightarrow> bool" where
  "reading c off len buf k x \<longleftrightarrow> k \<le> len \<and> x_pos x = k \<and> unat (x_len x) = len - k \<and> x_bytes x = int k \<and>
     x_buf x = mem_put buf 0 (mem_get c off k) \<and> inv (x_st x) \<and> content (x_st x) = c \<and>
     length (x_temp x) = bs \<and> (k < len \<longrightarrow> unat (x_block x) * bs = off + k)"

definition fits :: "u8 list \<Rightarrow> nat \<Rightarrow> nat \<Rightarrow> bool" where
  "fits c off len \<longleftrightarrow> length c = bs * nblocks \<and> off + len \<le> bs * nblocks \<and> len < 32768 \<and> bs < 32768"

lemma block_index:
  assumes "off < bs * nblocks"
  shows "unat (word_of_int (int off sdiv uint (block_size dev)) :: u32) = off div bs" "off div bs < nblocks"
proof -
  have "int off sdiv uint (block_size dev) = int (off div bs)"
    by (subst sdiv_pos) (simp_all add: zdiv_int)
  moreover have lt: "off div bs < nblocks" using assms by (simp add: div_less_iff_less_mult mult.commute)
  moreover have "off div bs < 4294967296" using lt nblocks_lt by linarith
  ultimately show "unat (word_of_int (int off sdiv uint (block_size dev)) :: u32) = off div bs"
    by (simp add: unat_of_nat_u32)
  show "off div bs < nblocks" by (rule lt)
qed

lemma offset_in_block:
  "int off smod uint (block_size dev) = int (off mod bs)"
  "unat (of_nat (off mod bs) :: u16) = off mod bs"
proof -
  show "int off smod uint (block_size dev) = int (off mod bs)"
    by (subst smod_pos) (simp_all add: zmod_int)
  have "off mod bs < 65536" using mod_less_divisor [OF bs_pos, of off] unat_u16_lt [of "block_size dev"] by linarith
  then show "unat (of_nat (off mod bs) :: u16) = off mod bs" by (rule unat_of_nat_u16)
qed

text \<open>The part of the transfer in the first block, and what is left after it.\<close>

definition first_part :: "nat \<Rightarrow> nat \<Rightarrow> nat" where
  "first_part off len = min (bs - off mod bs) len"

lemma first_part_word:
  assumes "unat n = len"
  shows "unat (min (block_size dev - of_nat (off mod bs)) n) = first_part off len"
proof -
  have "of_nat (off mod bs) \<le> block_size dev"
    using offset_in_block(2) [of off] mod_le_divisor [OF bs_pos] by (simp only: word_le_nat_alt)
  then show ?thesis
    using offset_in_block(2) [of off] assms by (simp only: unat_min_u16 unat_diff_u16 first_part_def)
qed

lemma first_part_bounds:
  "off mod bs + first_part off len \<le> bs" "first_part off len \<le> len"
  using mod_less_divisor [OF bs_pos, of off] unfolding first_part_def by linarith+

lemma first_part_next:
  assumes "first_part off len < len" shows "(off div bs + 1) * bs = off + first_part off len"
proof -
  have "first_part off len = bs - off mod bs" using assms by (simp add: first_part_def split: if_splits)
  moreover have "off mod bs < bs" by simp
  moreover have "(off div bs + 1) * bs = off div bs * bs + bs" by simp
  ultimately show ?thesis using div_mult_mod_eq [of off bs] by linarith
qed

lemma block_succ:
  assumes "unat (w :: u32) < nblocks" shows "unat (w + 1) = unat w + 1"
proof -
  have "unat w + unat (1 :: u32) < 4294967296" using assms nblocks_lt unat_1 [where 'a = 32] by linarith
  from unat_plus_u32 [OF this] show ?thesis by simp
qed

lemma uint_int_unat: "unat (w :: 'a::len word) = k \<Longrightarrow> uint w = int k"
  by (metis uint_nat)

lemma read_first:
  assumes f: "fits c off len" and len: "0 < len" and st: "inv s" "content s = c" and tmp: "length tmp = bs"
    and n: "unat n = len"
  shows "\<exists>x k. blk_read_first dev (int off) \<lparr>x_buf = buf, x_pos = 0, x_len = n, x_bytes = 0,
      x_block = word_of_int (int off sdiv uint (block_size dev)), x_temp = tmp, x_st = s\<rparr> = Inr x \<and>
    reading c off len buf k x"
proof -
  define w :: u32 where "w = word_of_int (int off sdiv uint (block_size dev))"
  let ?x = "\<lparr>x_buf = buf, x_pos = 0, x_len = n, x_bytes = 0, x_block = w, x_temp = tmp, x_st = s\<rparr>"
  have "off < bs * nblocks" using f len by (simp add: fits_def)
  note b = block_index [OF this, folded w_def]
  let ?r = "off mod bs" and ?b = "off div bs"
  have goal: "\<exists>x k. blk_read_first dev (int off) ?x = Inr x \<and> reading c off len buf k x"
  proof (cases "?r = 0")
    case True
    then have "reading c off len buf 0 ?x" using b(1) st tmp n by (auto simp: reading_def)
    then show ?thesis using True by (auto simp: blk_read_first_def offset_in_block)
  next
    case False
    have bsl: "bs < 32768" using f by (simp add: fits_def)
    obtain s' where s': "blk_fetch_temp dev ?x = Inr (?x\<lparr>x_temp := mem_get c (?b * bs) bs, x_st := s'\<rparr>)" "inv s'" "content s' = c"
      using fetch_temp [of ?x] st tmp b bsl by auto
    define t where "t = first_part off len"
    define T where "T = min (block_size dev - of_nat ?r) n"
    have T: "unat T = t" "unat (n - T) = len - t"
      using first_part_word [OF n, of off] n by (simp_all add: T_def t_def unat_diff_u16)
    have tl: "?r + t \<le> bs" "t \<le> len" using first_part_bounds by (simp_all add: t_def)
    have m: "mem_get (mem_get c (?b * bs) bs) ?r t = mem_get c off t"
      using tl(1) by (subst mem_get_mem_get) (simp_all add: div_mult_mod_eq)
    have "length (mem_get c (?b * bs) bs) = bs"
      using f b(2) mult_le_mono1 [of "Suc ?b" nblocks bs] by (intro length_mem_get) (simp add: fits_def mult.commute)
    then have "reading c off len buf t (?x\<lparr>x_buf := mem_put buf 0 (mem_get c off t), x_pos := t, x_len := n - T,
        x_bytes := int t, x_block := w + 1, x_temp := mem_get c (?b * bs) bs, x_st := s'\<rparr>)"
      using tl T s' first_part_next [of off len] block_succ [of w] b by (simp add: reading_def t_def [symmetric])
    moreover have "blk_read_first dev (int off) ?x = Inr (?x\<lparr>x_buf := mem_put buf 0 (mem_get c off t), x_pos := t, x_len := n - T,
        x_bytes := int t, x_block := w + 1, x_temp := mem_get c (?b * bs) bs, x_st := s'\<rparr>)"
      using False s'(1) T m uint_int_unat [OF T(1)] tl bsl
      by (simp add: blk_read_first_def offset_in_block Let_def T_def [symmetric] in_int16_def del: of_nat_mod)
    ultimately show ?thesis by blast
  qed
  then show ?thesis unfolding w_def .
qed

lemma whole_blocks:
  assumes "unat (n :: u16) < 32768"
  defines "m \<equiv> (ucast (drop_bit (unat (block_shift dev)) n) :: u32)"
  shows "unat m = unat n div bs" "unat (ucast m :: u16) = unat n div bs" "unat n div bs * bs < 32768"
    "ucast (word_of_int (int (unat n div bs * bs)) :: u16) = ucast (block_size dev) * m"
proof -
  show m: "unat m = unat n div bs" unfolding m_def unat_ucast_u16_u32 unat_drop_bit_u16 shift ..
  have le: "unat n div bs \<le> unat n" by (rule div_le_dividend)
  have "unat m < 65536" using m le assms(1) by linarith
  from unat_ucast_u32_u16 [OF this] show "unat (ucast m :: u16) = unat n div bs" using m by simp
  show k: "unat n div bs * bs < 32768" using assms(1) div_times_less_eq_dividend [of "unat n" bs] by linarith
  have p: "unat (of_nat (unat n div bs * bs) :: u16) = unat n div bs * bs" using k by (intro unat_of_nat_u16) linarith
  have q: "unat (ucast (block_size dev) * m) = bs * unat m"
    using k m by (subst unat_mult_u32) (simp_all only: unat_ucast_u16_u32 mult.commute [of bs])
  have "unat (ucast (of_nat (unat n div bs * bs) :: u16) :: u32) = unat (ucast (block_size dev) * m)"
    unfolding unat_ucast_u16_u32 p q m by (rule mult.commute)
  then show "ucast (word_of_int (int (unat n div bs * bs)) :: u16) = ucast (block_size dev) * m"
    by (simp only: of_int_of_nat_eq) (simp only: word_unat_eq_iff)
qed

text \<open>The bookkeeping after the whole blocks of a transfer.\<close>

lemma middle_step:
  assumes m: "unat (m :: u32) = nb" and lt: "nb * bs < 32768" and n: "unat (n :: u16) = len - k" and nbl: "nb * bs \<le> len - k"
  shows "unat (n - of_nat (nb * bs)) = len - (k + nb * bs)"
    "(k < len \<longrightarrow> unat b * bs = off + k) \<Longrightarrow> off + len \<le> bs * nblocks \<Longrightarrow> k + nb * bs < len \<Longrightarrow>
       unat (b + m) * bs = off + (k + nb * bs)"
proof -
  have "unat (of_nat (nb * bs) :: u16) = nb * bs" using lt by (intro unat_of_nat_u16) linarith
  then show "unat (n - of_nat (nb * bs)) = len - (k + nb * bs)"
    using nbl n by (subst unat_diff_u16) (simp_all only: word_le_nat_alt)
  assume a: "k < len \<longrightarrow> unat b * bs = off + k" "off + len \<le> bs * nblocks" "k + nb * bs < len"
  then have b: "unat b * bs = off + k" by simp
  have "(unat b + nb) * bs \<le> bs * nblocks" using a b by (simp add: add_mult_distrib)
  then have "unat b + nb \<le> nblocks" by (simp add: mult.commute)
  then have "unat b + unat m < 4294967296" using m nblocks_lt by linarith
  from unat_plus_u32 [OF this] show "unat (b + m) * bs = off + (k + nb * bs)" using b m by (simp add: add_mult_distrib)
qed

lemma read_middle:
  assumes f: "fits c off len" and buf: "len \<le> length buf" and x: "reading c off len buf k x"
  shows "\<exists>y j. blk_read_middle dev x = Inr y \<and> reading c off len buf j y \<and> len - j < bs"
proof -
  define nb where "nb = (len - k) div bs"
  have r: "k \<le> len" "unat (x_len x) = len - k" "x_pos x = k" "x_buf x = mem_put buf 0 (mem_get c off k)"
      "inv (x_st x)" "content (x_st x) = c" "x_bytes x = int k" "length (x_temp x) = bs"
    using x by (auto simp: reading_def)
  have fl: "len < 32768" "length c = bs * nblocks" "off + len \<le> bs * nblocks" using f by (auto simp: fits_def)
  have xl: "unat (x_len x) < 32768" using r(2) fl(1) by linarith
  note w = whole_blocks [OF xl, unfolded r(2), folded nb_def]
  define m where "m = (ucast (drop_bit (unat (block_shift dev)) (x_len x)) :: u32)"
  note w = w [folded m_def]
  have nbl: "nb * bs \<le> len - k" unfolding nb_def by (rule div_times_less_eq_dividend)
  have lget: "length (mem_get c off k) = k" using fl r(1) by (intro length_mem_get) linarith
  have lbuf: "length (x_buf x) = length buf" using r lget buf by (simp add: r(4))
  have blk: "nb = 0 \<or> unat (x_block x) * bs = off + k \<and> unat (x_block x) + nb \<le> nblocks"
  proof (cases "nb = 0")
    case False
    then have "bs \<le> nb * bs" by simp
    then have "k < len" using nbl bs_pos by linarith
    then have b: "unat (x_block x) * bs = off + k" using x by (simp add: reading_def)
    have "(unat (x_block x) + nb) * bs \<le> nblocks * bs"
      using b nbl fl(3) r(1) by (simp add: add_mult_distrib mult.commute [of bs])
    then show ?thesis using b by simp
  qed simp
  have "ucast m = (0 :: u16) \<or> unat (x_block x) + unat (ucast m :: u16) \<le> nblocks"
    using blk w(2) by (auto simp: word_unat_eq_iff)
  moreover have "unat (ucast m :: u16) * bs \<le> length (drop k (x_buf x))"
    unfolding w(2) length_drop lbuf using nbl buf r(1) by linarith
  moreover have "unat (ucast m :: u16) * bs < 32768" unfolding w(2) by (rule w(3))
  ultimately obtain s' where s': "blk_read_block (Some dev) (Some (drop k (x_buf x))) (x_block x) (ucast m) (x_st x) =
      (int (nb * bs), Some (mem_put (drop k (x_buf x)) 0 (mem_get c (unat (x_block x) * bs) (nb * bs))), s')"
      "inv s'" "content s' = c"
    using read_block_inside [OF r(5), of "ucast m" "x_block x" "drop k (x_buf x)"] unfolding w(2) r(6) by blast
  have get: "mem_get c (unat (x_block x) * bs) (nb * bs) = mem_get c (off + k) (nb * bs)" using blk by auto
  have "take k (x_buf x) @ mem_put (drop k (x_buf x)) 0 (mem_get c (off + k) (nb * bs)) =
      mem_put (x_buf x) k (mem_get c (off + k) (nb * bs))"
    using lbuf buf r(1) by (intro mem_put_drop) linarith
  also have "\<dots> = mem_put buf 0 (mem_get c off (k + nb * bs))"
    using mem_put_append [of 0 "mem_get c off k" "mem_get c (off + k) (nb * bs)" buf] r(1,4) lget nbl buf fl
    by (simp add: mem_get_append)
  finally have b': "take k (x_buf x) @ mem_put (drop k (x_buf x)) 0 (mem_get c (off + k) (nb * bs)) =
      mem_put buf 0 (mem_get c off (k + nb * bs))" .
  let ?y = "x\<lparr>x_buf := mem_put buf 0 (mem_get c off (k + nb * bs)), x_st := s', x_pos := k + nb * bs,
    x_len := x_len x - of_nat (nb * bs), x_bytes := int (k + nb * bs), x_block := x_block x + m\<rparr>"
  have "blk_read_middle dev x = Inr ?y"
    using s'(1) w(4) r get b' nbl fl(1)
    by (simp add: blk_read_middle_def Let_def m_def [symmetric] in_int16_def del: of_nat_mult)
  moreover have "len - (k + nb * bs) < bs"
    using mod_less_divisor [OF bs_pos, of "len - k"] minus_div_mult_eq_mod [of "len - k" bs] by (simp add: nb_def)
  moreover have "reading c off len buf (k + nb * bs) ?y"
    using middle_step [OF w(1,3) r(2) nbl] r s' nbl fl x by (simp add: reading_def)
  ultimately show ?thesis by blast
qed

lemma tail_block:
  assumes f: "fits c off len" and k: "k < len" "len - k < bs" and b: "b * bs = off + k"
  shows "b < nblocks" "length (mem_get c (b * bs) bs) = bs"
    "mem_get (mem_get c (b * bs) bs) 0 (len - k) = mem_get c (off + k) (len - k)"
proof -
  have "b * bs < nblocks * bs" using f k(1) b by (simp add: fits_def mult.commute)
  then show bn: "b < nblocks" by simp
  have "Suc b * bs \<le> nblocks * bs" using bn by (intro mult_le_mono1) simp
  then show "length (mem_get c (b * bs) bs) = bs" using f by (intro length_mem_get) (simp add: fits_def mult.commute)
  show "mem_get (mem_get c (b * bs) bs) 0 (len - k) = mem_get c (off + k) (len - k)"
    using k(2) b by (subst mem_get_mem_get) simp_all
qed

lemma read_last:
  assumes f: "fits c off len" and buf: "len \<le> length buf" and x: "reading c off len buf k x" and k: "len - k < bs"
  shows "\<exists>y. blk_read_last dev x = Inr y \<and> x_bytes y = int len \<and> x_buf y = mem_put buf 0 (mem_get c off len) \<and>
    inv (x_st y) \<and> content (x_st y) = c"
proof (cases "k = len")
  case True
  then have "x_len x = 0" using x by (simp add: reading_def unat_eq_0)
  then show ?thesis using x True by (simp add: blk_read_last_def reading_def)
next
  case False
  then have kl: "k < len" and r: "unat (x_len x) = len - k" "x_pos x = k" "x_buf x = mem_put buf 0 (mem_get c off k)"
      "inv (x_st x)" "content (x_st x) = c" "x_bytes x = int k" "length (x_temp x) = bs" "unat (x_block x) * bs = off + k"
    using x by (auto simp: reading_def)
  note t = tail_block [OF f kl k r(8)]
  have fl: "len < 32768" "bs < 32768" "length c = bs * nblocks" "off + len \<le> bs * nblocks" using f by (auto simp: fits_def)
  obtain s' where s': "blk_fetch_temp dev x = Inr (x\<lparr>x_temp := mem_get c (unat (x_block x) * bs) bs, x_st := s'\<rparr>)"
      "inv s'" "content s' = c"
    using fetch_temp [OF r(4) t(1) r(7) fl(2)] r(5) by auto
  have lget: "length (mem_get c off k) = k" "length (mem_get c (off + k) (len - k)) = len - k"
    using fl kl by (simp_all add: length_mem_get)
  have "mem_put (x_buf x) k (mem_get c (off + k) (len - k)) = mem_put buf 0 (mem_get c off k @ mem_get c (off + k) (len - k))"
    using mem_put_append [of 0 "mem_get c off k" "mem_get c (off + k) (len - k)" buf] lget buf kl r(3) by simp
  also have "mem_get c off k @ mem_get c (off + k) (len - k) = mem_get c off len"
    using kl by (simp add: mem_get_append)
  finally have "mem_put (x_buf x) k (mem_get c (off + k) (len - k)) = mem_put buf 0 (mem_get c off len)" .
  moreover have "x_len x > 0" using r(1) kl by (simp add: word_less_nat_alt)
  ultimately show ?thesis
    using s' r t(3) kl fl(1) uint_int_unat [OF r(1)] by (simp add: blk_read_last_def in_int16_def of_nat_diff)
qed

lemma default_read:
  assumes "inv s" "off + len \<le> bs * nblocks" "0 < len" "len < 32768" "bs < 32768" "len \<le> length buf"
    and "length tmp = bs" "unat n = len"
  shows "\<exists>s'. blk_default_read dev (Some tmp) buf (int off) n s =
      (int len, mem_put buf 0 (mem_get (content s) off len), s') \<and> inv s' \<and> content s' = content s"
proof -
  let ?c = "content s"
  have f: "fits ?c off len" using assms content_length by (simp add: fits_def)
  obtain x k where x: "blk_read_first dev (int off) \<lparr>x_buf = buf, x_pos = 0, x_len = n, x_bytes = 0,
      x_block = word_of_int (int off sdiv uint (block_size dev)), x_temp = tmp, x_st = s\<rparr> = Inr x"
      "reading ?c off len buf k x"
    using read_first [OF f assms(3,1) refl assms(7,8)] by blast
  obtain y j where y: "blk_read_middle dev x = Inr y" "reading ?c off len buf j y" "len - j < bs"
    using read_middle [OF f assms(6) x(2)] by blast
  obtain z where "blk_read_last dev y = Inr z" "x_bytes z = int len" "x_buf z = mem_put buf 0 (mem_get ?c off len)"
      "inv (x_st z)" "content (x_st z) = ?c"
    using read_last [OF f assms(6) y(2,3)] by blast
  with x(1) y(1) show ?thesis by (simp add: blk_default_read_def xfer_bind_def)
qed

text \<open>The number of bytes a transfer of \<open>len\<close> bytes at \<open>off\<close> moves.\<close>

definition clip :: "nat \<Rightarrow> nat \<Rightarrow> nat" where
  "clip off len = min len (bs * nblocks - off)"

lemma total_size: "total_size dev = int (bs * nblocks)"
proof -
  have "unat (ucast (block_size dev) * block_count dev :: u32) = bs * nblocks"
    using size by (subst unat_mult_u32) simp_all
  then have "uint (ucast (block_size dev) * block_count dev :: u32) = int (bs * nblocks)" by (rule uint_int_unat)
  moreover have "in_int32 (int (bs * nblocks))"
    using size by (intro in_int32_nat) simp
  ultimately show ?thesis by (simp only: total_size_def int32_id)
qed

lemma trim_bytes:
  assumes "unat n = len" "off + len < 2 ^ 31"
  shows "unat (blk_trim_range dev (int off) n) = clip off len"
proof -
  have n: "uint n = int len" using assms(1) by (rule uint_int_unat)
  have i: "int32 (int off + int len) = int (off + len)"
    using assms(2) by (simp add: in_int32_def)
  consider "bs * nblocks \<le> off" | "off < bs * nblocks" "len = 0" | "off < bs * nblocks" "0 < len" "off + len > bs * nblocks"
    | "0 < len" "off + len \<le> bs * nblocks" by linarith
  then show ?thesis
  proof cases
    case 3
    have "unat (of_nat (bs * nblocks - off) :: u16) = bs * nblocks - off"
      using 3 assms(1) unat_u16_lt [of n] by (intro unat_of_nat_u16) linarith
    moreover have "int (bs * nblocks) - int off = int (bs * nblocks - off)" using 3(1) by (simp only: of_nat_diff)
    ultimately have "unat (word_of_int (int (bs * nblocks) - int off) :: u16) = bs * nblocks - off"
      by (simp only: of_int_of_nat_eq)
    moreover have "blk_trim_range dev (int off) n = word_of_int (int (bs * nblocks) - int off)"
      using 3 assms(1) unfolding blk_trim_range_def total_size n i
      by (simp only: of_nat_le_iff of_nat_less_iff) (auto simp: unat_eq_0)
    ultimately show ?thesis using 3 by (simp add: clip_def)
  next
    case 4
    then have "blk_trim_range dev (int off) n = n"
      using assms(1) unfolding blk_trim_range_def total_size n i
      by (simp only: of_nat_le_iff of_nat_less_iff) (auto simp: unat_eq_0)
    then show ?thesis using 4 assms(1) by (simp add: clip_def)
  qed (use assms(1) in \<open>unfold blk_trim_range_def total_size n i, simp only: of_nat_le_iff, auto simp: clip_def\<close>)
qed

lemma read_bytes:
  assumes rd: "dev_read dev = Some (blk_default_read dev (Some tmp))" and tmp: "length tmp = bs" "bs < 32768"
    and s: "inv s" and len: "unat n = len" "len < 32768" "off + len < 2 ^ 31" "len \<le> length buf"
  shows "\<exists>s'. blk_read (Some dev) (Some buf) (int off) n s =
      (int (clip off len), Some (mem_put buf 0 (mem_get (content s) off (clip off len))), s') \<and>
    inv s' \<and> content s' = content s"
proof -
  note t = trim_bytes [OF len(1,3)]
  show ?thesis
  proof (cases "clip off len = 0")
    case True
    then have "blk_trim_range dev (int off) n = 0" using t by (simp add: unat_eq_0)
    then show ?thesis using rd s True by (simp add: blk_read_def)
  next
    case False
    have c: "off + clip off len \<le> bs * nblocks" "0 < clip off len" "clip off len < 32768" "clip off len \<le> length buf"
      using False len by (auto simp: clip_def)
    obtain s' where "blk_default_read dev (Some tmp) buf (int off) (blk_trim_range dev (int off) n) s =
        (int (clip off len), mem_put buf 0 (mem_get (content s) off (clip off len)), s')" "inv s'" "content s' = content s"
      using default_read [OF s c(1-3) tmp(2) c(4) tmp(1) t] by blast
    moreover have "blk_trim_range dev (int off) n \<noteq> 0" using t False by auto
    ultimately show ?thesis using rd by (simp add: blk_read_def Let_def)
  qed
qed

end

locale block_store = block_reader dev inv content
  for dev :: "'s blkdev" and inv :: "'s \<Rightarrow> bool" and content :: "'s \<Rightarrow> u8 list" +
  assumes write_law: "\<exists>wr. write_block dev = Some wr \<and>
      (\<forall>s buf block count. inv s \<and> 0 < count \<and> unat block + unat count \<le> unat (block_count dev) \<and>
         unat count * unat (block_size dev) \<le> length buf \<and> unat count * unat (block_size dev) < 32768 \<longrightarrow>
         (\<exists>s'. wr buf block count s = (int (unat count * unat (block_size dev)), s') \<and> inv s' \<and>
           content s' = mem_put (content s) (unat block * unat (block_size dev))
             (mem_get buf 0 (unat count * unat (block_size dev)))))"
begin

lemma write_block_inside:
  assumes "inv s" "count = 0 \<or> unat block + unat count \<le> nblocks"
    and "unat count * bs \<le> length buf" "unat count * bs < 32768"
  shows "\<exists>s'. blk_write_block (Some dev) (Some buf) block count s = (int (unat count * bs), s') \<and> inv s' \<and>
    content s' = mem_put (content s) (unat block * bs) (mem_get buf 0 (unat count * bs))"
proof -
  obtain wr where wr: "write_block dev = Some wr"
      "\<And>s buf block count. inv s \<Longrightarrow> 0 < count \<Longrightarrow> unat block + unat count \<le> nblocks \<Longrightarrow>
         unat count * bs \<le> length buf \<Longrightarrow> unat count * bs < 32768 \<Longrightarrow>
         \<exists>s'. wr buf block count s = (int (unat count * bs), s') \<and> inv s' \<and>
           content s' = mem_put (content s) (unat block * bs) (mem_get buf 0 (unat count * bs))"
    using write_law by blast
  show ?thesis
  proof (cases "count = 0")
    case True
    then show ?thesis using assms wr(1) by (simp add: blk_write_block_def trim_inside)
  next
    case False
    then have "0 < count" by (simp add: word_neq_0_conv)
    then obtain s' where "wr buf block count s = (int (unat count * bs), s')" "inv s'"
        "content s' = mem_put (content s) (unat block * bs) (mem_get buf 0 (unat count * bs))"
      using wr(2) [OF assms(1), of count block buf] assms False by blast
    then show ?thesis using assms(2) wr(1) False by (simp add: blk_write_block_def trim_inside Let_def)
  qed
qed

text \<open>Read a block, change part of it, write it back.\<close>

lemma patch_block:
  assumes x: "inv (x_st x)" "unat (x_block x) < nblocks" "length (x_temp x) = bs" "bs < 32768"
    and d: "r + length (d x) \<le> bs" "\<And>t s. d (x\<lparr>x_temp := t, x_st := s\<rparr>) = d x"
  shows "\<exists>tmp s'. xfer_bind (blk_fetch_temp dev x) (\<lambda>x. xfer_bind (blk_store_temp dev (x\<lparr>x_temp := mem_put (x_temp x) r (d x)\<rparr>)) g) =
      g (x\<lparr>x_temp := tmp, x_st := s'\<rparr>) \<and> length tmp = bs \<and> inv s' \<and>
    content s' = mem_put (content (x_st x)) (unat (x_block x) * bs + r) (d x)"
proof -
  let ?c = "content (x_st x)" and ?b = "unat (x_block x)"
  obtain s1 where s1: "blk_fetch_temp dev x = Inr (x\<lparr>x_temp := mem_get ?c (?b * bs) bs, x_st := s1\<rparr>)" "inv s1" "content s1 = ?c"
    using fetch_temp [OF x] by blast
  let ?t = "mem_put (mem_get ?c (?b * bs) bs) r (d x)"
  have "Suc ?b * bs \<le> nblocks * bs" using x(2) by (intro mult_le_mono1) simp
  then have cl: "?b * bs + bs \<le> length ?c" using content_length [OF x(1)] by (simp add: mult.commute)
  then have lt: "length ?t = bs" using d(1) by simp
  then obtain s2 where s2: "blk_write_block (Some dev) (Some ?t) (x_block x) 1 s1 = (int bs, s2)" "inv s2"
      "content s2 = mem_put ?c (?b * bs) (mem_get ?t 0 bs)"
    using write_block_inside [OF s1(2), of 1 "x_block x" ?t] x(2,4) s1(3) by auto
  have "mem_get ?t 0 bs = ?t" using lt by (simp add: mem_get_def)
  then have "content s2 = mem_put ?c (?b * bs + r) (d x)" using s2(3) mem_put_get_block [OF cl d(1)] by simp
  moreover have "blk_store_temp dev (x\<lparr>x_st := s1, x_temp := ?t\<rparr>) = Inr (x\<lparr>x_temp := ?t, x_st := s2\<rparr>)"
    using s2(1) by (simp add: blk_store_temp_def)
  ultimately show ?thesis using s1(1) s2(2) lt d(2)
    by (intro exI [of _ ?t] exI [of _ s2]) (simp add: xfer_bind_def)
qed

definition writing :: "u8 list \<Rightarrow> nat \<Rightarrow> nat \<Rightarrow> u8 list \<Rightarrow> nat \<Rightarrow> 's xfer \<Rightarrow> bool" where
  "writing c off len buf k x \<longleftrightarrow> k \<le> len \<and> x_pos x = k \<and> unat (x_len x) = len - k \<and> x_bytes x = int k \<and>
     x_buf x = buf \<and> inv (x_st x) \<and> content (x_st x) = mem_put c off (mem_get buf 0 k) \<and>
     length (x_temp x) = bs \<and> (k < len \<longrightarrow> unat (x_block x) * bs = off + k)"

lemma put_more:
  assumes "k + m \<le> length buf" "off + k + m \<le> length c"
  shows "mem_put (mem_put c off (mem_get buf 0 k)) (off + k) (mem_get buf k m) = mem_put c off (mem_get buf 0 (k + m))"
  using mem_put_append [of off "mem_get buf 0 k" "mem_get buf k m" c] mem_get_append [of buf 0 k m] assms by simp

lemma write_first:
  assumes f: "fits c off len" and len: "0 < len" "len \<le> length buf" and st: "inv s" "content s = c" and tmp: "length tmp = bs"
    and n: "unat n = len"
  shows "\<exists>x k. blk_write_first dev (int off) \<lparr>x_buf = buf, x_pos = 0, x_len = n, x_bytes = 0,
      x_block = word_of_int (int off sdiv uint (block_size dev)), x_temp = tmp, x_st = s\<rparr> = Inr x \<and>
    writing c off len buf k x"
proof -
  define w :: u32 where "w = word_of_int (int off sdiv uint (block_size dev))"
  let ?x = "\<lparr>x_buf = buf, x_pos = 0, x_len = n, x_bytes = 0, x_block = w, x_temp = tmp, x_st = s\<rparr>"
  have "off < bs * nblocks" using f len by (simp add: fits_def)
  note b = block_index [OF this, folded w_def]
  let ?r = "off mod bs"
  have goal: "\<exists>x k. blk_write_first dev (int off) ?x = Inr x \<and> writing c off len buf k x"
  proof (cases "?r = 0")
    case True
    then have "writing c off len buf 0 ?x" using b(1) st tmp n by (auto simp: writing_def)
    then show ?thesis using True by (auto simp: blk_write_first_def offset_in_block)
  next
    case False
    have bsl: "bs < 32768" "length c = bs * nblocks" "off + len \<le> bs * nblocks" using f by (auto simp: fits_def)
    define t where "t = first_part off len"
    define T where "T = min (block_size dev - of_nat ?r) n"
    have T: "unat T = t" "unat (n - T) = len - t"
      using first_part_word [OF n, of off] n by (simp_all add: T_def t_def unat_diff_u16)
    have tl: "?r + t \<le> bs" "t \<le> len" using first_part_bounds by (simp_all add: t_def)
    have "?r + length (mem_get (x_buf ?x) (x_pos ?x) t) \<le> bs" using tl len(2) by simp
    then obtain tmp' s' where p: "blk_write_first dev (int off) ?x = Inr (?x\<lparr>x_temp := tmp', x_st := s', x_pos := t,
        x_len := n - T, x_bytes := int t, x_block := w + 1\<rparr>)" "length tmp' = bs" "inv s'"
        "content s' = mem_put c (off div bs * bs + ?r) (mem_get buf 0 t)"
      using patch_block [of ?x ?r "\<lambda>x. mem_get (x_buf x) (x_pos x) t" "\<lambda>x. Inr (x\<lparr>x_pos := x_pos x + t, x_len := x_len x - T,
          x_bytes := int16 (x_bytes x + int t), x_block := x_block x + 1\<rparr>)"]
        False st tmp b bsl T uint_int_unat [OF T(1)] tl
      by (auto simp: blk_write_first_def offset_in_block Let_def T_def [symmetric] in_int16_def)
    have "writing c off len buf t (?x\<lparr>x_temp := tmp', x_st := s', x_pos := t,
        x_len := n - T, x_bytes := int t, x_block := w + 1\<rparr>)"
      using tl T p first_part_next [of off len] block_succ [of w] b by (simp add: writing_def t_def [symmetric])
    with p(1) show ?thesis by blast
  qed
  then show ?thesis unfolding w_def .
qed

lemma write_middle:
  assumes f: "fits c off len" and buf: "len \<le> length buf" and x: "writing c off len buf k x"
  shows "\<exists>y j. blk_write_middle dev x = Inr y \<and> writing c off len buf j y \<and> len - j < bs"
proof -
  define nb where "nb = (len - k) div bs"
  have r: "k \<le> len" "unat (x_len x) = len - k" "x_pos x = k" "x_buf x = buf"
      "inv (x_st x)" "content (x_st x) = mem_put c off (mem_get buf 0 k)" "x_bytes x = int k" "length (x_temp x) = bs"
    using x by (auto simp: writing_def)
  have fl: "len < 32768" "length c = bs * nblocks" "off + len \<le> bs * nblocks" using f by (auto simp: fits_def)
  have xl: "unat (x_len x) < 32768" using r(2) fl(1) by linarith
  define m where "m = (ucast (drop_bit (unat (block_shift dev)) (x_len x)) :: u32)"
  note w = whole_blocks [OF xl, unfolded r(2), folded nb_def m_def]
  have nbl: "nb * bs \<le> len - k" unfolding nb_def by (rule div_times_less_eq_dividend)
  have blk: "nb = 0 \<or> unat (x_block x) * bs = off + k \<and> unat (x_block x) + nb \<le> nblocks"
  proof (cases "nb = 0")
    case False
    then have "bs \<le> nb * bs" by simp
    then have "k < len" using nbl bs_pos by linarith
    then have b: "unat (x_block x) * bs = off + k" using x by (simp add: writing_def)
    have "(unat (x_block x) + nb) * bs \<le> nblocks * bs"
      using b nbl fl(3) r(1) by (simp add: add_mult_distrib mult.commute [of bs])
    then show ?thesis using b by simp
  qed simp
  have "ucast m = (0 :: u16) \<or> unat (x_block x) + unat (ucast m :: u16) \<le> nblocks"
    using blk w(2) by (auto simp: word_unat_eq_iff)
  moreover have "unat (ucast m :: u16) * bs \<le> length (drop k buf)"
    unfolding w(2) length_drop using nbl buf r(1) by linarith
  moreover have "unat (ucast m :: u16) * bs < 32768" unfolding w(2) by (rule w(3))
  ultimately obtain s' where s': "blk_write_block (Some dev) (Some (drop k buf)) (x_block x) (ucast m) (x_st x) = (int (nb * bs), s')"
      "inv s'" "content s' = mem_put (mem_put c off (mem_get buf 0 k)) (unat (x_block x) * bs) (mem_get (drop k buf) 0 (nb * bs))"
    using write_block_inside [OF r(5), of "ucast m" "x_block x" "drop k buf"] unfolding w(2) r(6) by blast
  have "mem_get (drop k buf) 0 (nb * bs) = mem_get buf k (nb * bs)" by (simp add: mem_get_def)
  then have cs: "content s' = mem_put c off (mem_get buf 0 (k + nb * bs))"
    using s'(3) blk put_more [of k "nb * bs" buf off c] nbl buf r(1) fl by auto
  let ?y = "x\<lparr>x_st := s', x_pos := k + nb * bs,
    x_len := x_len x - of_nat (nb * bs), x_bytes := int (k + nb * bs), x_block := x_block x + m\<rparr>"
  have "blk_write_middle dev x = Inr ?y"
    using s'(1) w(4) r nbl fl(1)
    by (simp add: blk_write_middle_def Let_def m_def [symmetric] in_int16_def del: of_nat_mult)
  moreover have "len - (k + nb * bs) < bs"
    using mod_less_divisor [OF bs_pos, of "len - k"] minus_div_mult_eq_mod [of "len - k" bs] by (simp add: nb_def)
  moreover have "writing c off len buf (k + nb * bs) ?y"
    using middle_step [OF w(1,3) r(2) nbl] r s' cs nbl fl x by (simp add: writing_def)
  ultimately show ?thesis by blast
qed

lemma write_last:
  assumes f: "fits c off len" and buf: "len \<le> length buf" and x: "writing c off len buf k x" and k: "len - k < bs"
  shows "\<exists>y. blk_write_last dev x = Inr y \<and> x_bytes y = int len \<and> inv (x_st y) \<and>
    content (x_st y) = mem_put c off (mem_get buf 0 len)"
proof (cases "k = len")
  case True
  then have "x_len x = 0" using x by (simp add: writing_def unat_eq_0)
  then show ?thesis using x True by (simp add: blk_write_last_def writing_def)
next
  case False
  then have kl: "k < len" and r: "unat (x_len x) = len - k" "x_pos x = k" "x_buf x = buf"
      "inv (x_st x)" "content (x_st x) = mem_put c off (mem_get buf 0 k)" "x_bytes x = int k" "length (x_temp x) = bs"
      "unat (x_block x) * bs = off + k"
    using x by (auto simp: writing_def)
  note t = tail_block [OF f kl k r(8)]
  have fl: "len < 32768" "bs < 32768" "length c = bs * nblocks" "off + len \<le> bs * nblocks" using f by (auto simp: fits_def)
  have "0 + length (mem_get (x_buf x) (x_pos x) (unat (x_len x))) \<le> bs" using r(1-3) k kl buf by simp
  from patch_block [OF r(4) t(1) r(7) fl(2), of 0 "\<lambda>x. mem_get (x_buf x) (x_pos x) (unat (x_len x))"
      "\<lambda>x. Inr (x\<lparr>x_bytes := int16 (x_bytes x + uint (x_len x))\<rparr>)", OF this]
  obtain tmp s' where p: "xfer_bind (blk_fetch_temp dev x) (\<lambda>x. xfer_bind (blk_store_temp dev (x\<lparr>x_temp :=
        mem_put (x_temp x) 0 (mem_get (x_buf x) (x_pos x) (unat (x_len x)))\<rparr>))
        (\<lambda>x. Inr (x\<lparr>x_bytes := int16 (x_bytes x + uint (x_len x))\<rparr>))) =
      Inr (x\<lparr>x_temp := tmp, x_st := s', x_bytes := int16 (x_bytes x + uint (x_len x))\<rparr>)" "inv s'"
      "content s' = mem_put (content (x_st x)) (unat (x_block x) * bs + 0) (mem_get (x_buf x) (x_pos x) (unat (x_len x)))"
    by auto
  have "content s' = mem_put c off (mem_get buf 0 len)"
    using p(3) r put_more [of k "len - k" buf off c] kl buf fl by simp
  moreover have "x_len x > 0" using r(1) kl by (simp add: word_less_nat_alt)
  ultimately show ?thesis
    using p(1,2) r uint_int_unat [OF r(1)] kl fl(1) by (simp add: blk_write_last_def in_int16_def of_nat_diff)
qed

lemma default_write:
  assumes "inv s" "off + len \<le> bs * nblocks" "0 < len" "len < 32768" "bs < 32768" "len \<le> length buf"
    and "length tmp = bs" "unat n = len"
  shows "\<exists>s'. blk_default_write dev (Some tmp) buf (int off) n s = (int len, s') \<and> inv s' \<and>
    content s' = mem_put (content s) off (mem_get buf 0 len)"
proof -
  let ?c = "content s"
  have f: "fits ?c off len" using assms content_length by (simp add: fits_def)
  obtain x k where x: "blk_write_first dev (int off) \<lparr>x_buf = buf, x_pos = 0, x_len = n, x_bytes = 0,
      x_block = word_of_int (int off sdiv uint (block_size dev)), x_temp = tmp, x_st = s\<rparr> = Inr x"
      "writing ?c off len buf k x"
    using write_first [OF f assms(3,6,1) refl assms(7,8)] by blast
  obtain y j where y: "blk_write_middle dev x = Inr y" "writing ?c off len buf j y" "len - j < bs"
    using write_middle [OF f assms(6) x(2)] by blast
  obtain z where "blk_write_last dev y = Inr z" "x_bytes z = int len"
      "inv (x_st z)" "content (x_st z) = mem_put ?c off (mem_get buf 0 len)"
    using write_last [OF f assms(6) y(2,3)] by blast
  with x(1) y(1) show ?thesis by (simp add: blk_default_write_def xfer_bind_def)
qed

lemma write_bytes:
  assumes rd: "dev_read dev \<noteq> None"
    and wr: "dev_write dev = Some (\<lambda>buf offset len s. Some (blk_default_write dev (Some tmp) buf offset len s))"
    and tmp: "length tmp = bs" "bs < 32768"
    and s: "inv s" and len: "unat n = len" "len < 32768" "off + len < 2 ^ 31" "len \<le> length buf"
  shows "\<exists>s'. blk_write (Some dev) (Some buf) (int off) n s = Some (int (clip off len), s') \<and> inv s' \<and>
    content s' = mem_put (content s) off (mem_get buf 0 (clip off len))"
proof -
  note t = trim_bytes [OF len(1,3)]
  show ?thesis
  proof (cases "clip off len = 0")
    case True
    then have "blk_trim_range dev (int off) n = 0" using t by (simp add: unat_eq_0)
    then show ?thesis using rd s True by (auto simp: blk_write_def)
  next
    case False
    have c: "off + clip off len \<le> bs * nblocks" "0 < clip off len" "clip off len < 32768" "clip off len \<le> length buf"
      using False len by (auto simp: clip_def)
    obtain s' where "blk_default_write dev (Some tmp) buf (int off) (blk_trim_range dev (int off) n) s =
        (int (clip off len), s')" "inv s'" "content s' = mem_put (content s) off (mem_get buf 0 (clip off len))"
      using default_write [OF s c(1-3) tmp(2) c(4) tmp(1) t] by blast
    moreover have "blk_trim_range dev (int off) n \<noteq> 0" using t False by auto
    ultimately show ?thesis using rd wr by (auto simp: blk_write_def Let_def)
  qed
qed

end

end
