(* ===== verification/Subdev.thy ===== *)
theory Subdev
  imports Blkdev
begin

text \<open>
  Partitions as block devices (\<^verbatim>\<open>kernel/core/subdev.c\<close>): the master boot record is read from a newly
  registered device and each valid entry of its partition table becomes a device whose transfers
  are those of the parent, shifted by the start of the partition.  \<^verbatim>\<open>blk_register\<close> is here because it
  probes the partitions.

  The theory also holds the memory device of the unit tests (\<^verbatim>\<open>kernel/core/tests/fake_dev.cc\<close>), on
  which the interface of block storage is interpreted.
\<close>

section \<open>The partition table\<close>

definition MBR_SIZE :: u16 where "MBR_SIZE = 512"

record mbr_entry =
  status :: u8
  chs_start :: "u8 list"
  type :: u8
  chs_end :: "u8 list"
  lba_start :: u32
  lba_len :: u32

definition le32 :: "u8 list \<Rightarrow> nat \<Rightarrow> u32" where
  "le32 b i = ucast (b ! i) OR push_bit 8 (ucast (b ! (i + 1))) OR push_bit 16 (ucast (b ! (i + 2))) OR
     push_bit 24 (ucast (b ! (i + 3)))"

text \<open>The entry at an offset of the sector, in the layout of \<^verbatim>\<open>struct mbr_entry\<close>.\<close>

definition mbr_entry_at :: "u8 list \<Rightarrow> nat \<Rightarrow> mbr_entry" where
  "mbr_entry_at b o' =
     \<lparr>status = b ! o', chs_start = take 3 (drop (o' + 1) b), type = b ! (o' + 4),
      chs_end = take 3 (drop (o' + 5) b), lba_start = le32 b (o' + 8), lba_len = le32 b (o' + 12)\<rparr>"

definition mbr_is_valid_entry :: "'s blkdev \<Rightarrow> mbr_entry \<Rightarrow> int" where
  "mbr_is_valid_entry dev entry =
     (if type entry = 0 then ERR_NO_DEV
      else if status entry \<noteq> 0x80 \<and> status entry \<noteq> 0x00 then ERR_NO_DEV
      else if lba_len entry = 0 then ERR_NO_DEV
      else if lba_start entry \<ge> block_count dev then ERR_INVAL
      else if lba_start entry + lba_len entry > block_count dev then ERR_INVAL
      else 0)"

section \<open>Sub-devices\<close>

definition subdev_read_block ::
    "'s blkdev \<Rightarrow> u32 \<Rightarrow> u8 list \<Rightarrow> u32 \<Rightarrow> u16 \<Rightarrow> 's \<Rightarrow> int \<times> u8 list \<times> 's" where
  "subdev_read_block parent offset buf block count s =
     (let (r, b, s) = blk_read_block (Some parent) (Some buf) (block + offset) count s in (r, the b, s))"

definition subdev_write_block :: "'s blkdev \<Rightarrow> u32 \<Rightarrow> u8 list \<Rightarrow> u32 \<Rightarrow> u16 \<Rightarrow> 's \<Rightarrow> int \<times> 's" where
  "subdev_write_block parent offset buf block count s =
     blk_write_block (Some parent) (Some buf) (block + offset) count s"

text \<open>\<^verbatim>\<open>offset + sdev->offset * dev->block_size\<close> is computed in 32-bit unsigned arithmetic.\<close>

definition subdev_offset :: "u32 \<Rightarrow> u16 \<Rightarrow> int \<Rightarrow> int" where
  "subdev_offset start sz offset = int32 (uint (word_of_int offset + start * ucast sz :: u32))"

definition subdev_read :: "'s blkdev \<Rightarrow> u32 \<Rightarrow> u16 \<Rightarrow> u8 list \<Rightarrow> int \<Rightarrow> u16 \<Rightarrow> 's \<Rightarrow> int \<times> u8 list \<times> 's" where
  "subdev_read parent start sz buf offset len s =
     (let (r, b, s) = blk_read (Some parent) (Some buf) (subdev_offset start sz offset) len s in (r, the b, s))"

definition subdev_write :: "'s blkdev \<Rightarrow> u32 \<Rightarrow> u16 \<Rightarrow> u8 list \<Rightarrow> int \<Rightarrow> u16 \<Rightarrow> 's \<Rightarrow> (int \<times> 's) option" where
  "subdev_write parent start sz buf offset len s =
     blk_write (Some parent) (Some buf) (subdev_offset start sz offset) len s"

text \<open>\<^verbatim>\<open>snprintf(name, 12, "%s%d", dev->name, index + 1)\<close> for the indices 0 to 3.\<close>

definition subdev_name :: "string \<Rightarrow> nat \<Rightarrow> string" where
  "subdev_name n index = take 11 (n @ [char_of (48 + (index + 1))])"

definition mbr_subdev :: "'s blkdev \<Rightarrow> mbr_entry \<Rightarrow> nat \<Rightarrow> 's blkdev" where
  "mbr_subdev dev entry index =
     \<lparr>blk_name = subdev_name (blk_name dev) index, block_size = block_size dev, block_shift = block_shift dev,
      block_count = lba_len entry,
      read_block = Some (subdev_read_block dev (lba_start entry)),
      write_block = Some (subdev_write_block dev (lba_start entry)),
      dev_read = Some (subdev_read dev (lba_start entry) (block_size dev)),
      dev_write = Some (subdev_write dev (lba_start entry) (block_size dev))\<rparr>"

text \<open>\<open>name_ok\<close> and \<open>sub_ok\<close>: whether the two allocations succeed.\<close>

definition mbr_publish_device ::
    "(u16 \<Rightarrow> u8 list option) \<Rightarrow> bool \<Rightarrow> bool \<Rightarrow> 's blkdev list \<Rightarrow> 's blkdev \<Rightarrow> mbr_entry \<Rightarrow> nat \<Rightarrow>
     int \<times> 's blkdev list" where
  "mbr_publish_device mal name_ok sub_ok devices dev entry index =
     (if mbr_is_valid_entry dev entry < 0 then (ERR_NO_DEV, devices)
      else if \<not> name_ok then (ERR_NO_MEM, devices)
      else if \<not> sub_ok then (ERR_NO_MEM, devices)
      else (0, blk_register_subdevice mal devices (Some (mbr_subdev dev entry index))))"

text \<open>
  \<open>buf\<close> is the sector buffer \<^verbatim>\<open>malloc\<close> returned.  When that fails the function returns 0, the initial
  value of \<^verbatim>\<open>err\<close>.
\<close>

definition mbr_probe ::
    "(u16 \<Rightarrow> u8 list option) \<Rightarrow> (nat \<Rightarrow> bool \<times> bool) \<Rightarrow> u8 list option \<Rightarrow> 's blkdev list \<Rightarrow> 's blkdev \<Rightarrow> 's \<Rightarrow>
     int \<times> 's blkdev list \<times> 's" where
  "mbr_probe mal oks b devices dev s =
     (case b of
        None \<Rightarrow> (0, devices, s)
      | Some buf \<Rightarrow>
          let (len, b, s) = blk_read (Some dev) (Some buf) 0 MBR_SIZE s; buf = the b
          in if len \<noteq> uint MBR_SIZE then (if len < 0 then len else ERR_IO, devices, s)
             else if buf ! 510 \<noteq> 0x55 \<or> buf ! 511 \<noteq> 0xaa then (ERR_IO, devices, s)
             else (0, foldl (\<lambda>devices i. snd (mbr_publish_device mal (fst (oks i)) (snd (oks i)) devices dev
                               (mbr_entry_at buf (446 + 16 * i)) i)) devices [0, 1, 2, 3], s))"

definition subdev_probe ::
    "(u16 \<Rightarrow> u8 list option) \<Rightarrow> (nat \<Rightarrow> bool \<times> bool) \<Rightarrow> u8 list option \<Rightarrow> 's blkdev list \<Rightarrow> 's blkdev \<Rightarrow> 's \<Rightarrow>
     's blkdev list \<times> 's" where
  "subdev_probe mal oks b devices dev s = snd (mbr_probe mal oks b devices dev s)"

definition blk_register ::
    "(u16 \<Rightarrow> u8 list option) \<Rightarrow> (nat \<Rightarrow> bool \<times> bool) \<Rightarrow> u8 list option \<Rightarrow> 's blkdev list \<Rightarrow> 's blkdev option \<Rightarrow> 's \<Rightarrow>
     's blkdev list \<times> 's" where
  "blk_register mal oks b devices d s =
     (let (added, devices) = blk_dev_add mal devices d
      in if \<not> added then (devices, s) else subdev_probe mal oks b devices (last devices) s)"

section \<open>The memory device of the unit tests\<close>

definition FakeDev_BlockRead :: "u8 list \<Rightarrow> u32 \<Rightarrow> u16 \<Rightarrow> u8 list \<Rightarrow> int \<times> u8 list \<times> u8 list" where
  "FakeDev_BlockRead buf block count st =
     (int16 (uint count * 16), mem_put buf 0 (mem_get st (unat block * 16) (unat count * 16)), st)"

definition FakeDev_BlockWrite :: "u8 list \<Rightarrow> u32 \<Rightarrow> u16 \<Rightarrow> u8 list \<Rightarrow> int \<times> u8 list" where
  "FakeDev_BlockWrite buf block count st =
     (int16 (uint count * 16), mem_put st (unat block * 16) (mem_get buf 0 (unat count * 16)))"

definition fake_dev :: "u8 list blkdev" where
  "fake_dev = \<lparr>blk_name = ''dev0'', block_size = 16, block_shift = 4, block_count = 4,
     read_block = Some FakeDev_BlockRead, write_block = Some FakeDev_BlockWrite, dev_read = None, dev_write = None\<rparr>"

definition fake_content :: "u8 list" where
  "fake_content = map of_nat [0..<64]"

section \<open>Registered devices\<close>

text \<open>The default transfers depend on the geometry and the block operations of a device only.\<close>

lemma default_read_cong:
  assumes g: "block_size d = block_size dev" "block_shift d = block_shift dev" "block_count d = block_count dev"
    and r: "read_block d = read_block dev"
  shows "blk_default_read d = blk_default_read dev"
proof -
  have t: "blk_block_trim_range d = blk_block_trim_range dev" by (simp add: blk_block_trim_range_def g fun_eq_iff)
  have b: "blk_read_block (Some d) = blk_read_block (Some dev)"
    unfolding fun_eq_iff blk_read_block_def option.case t r by simp
  have f: "blk_fetch_temp d = blk_fetch_temp dev" unfolding fun_eq_iff blk_fetch_temp_def b g by simp
  have "blk_read_first d = blk_read_first dev" "blk_read_middle d = blk_read_middle dev" "blk_read_last d = blk_read_last dev"
    unfolding blk_read_first_def blk_read_middle_def blk_read_last_def b f g by (rule refl)+
  note phases = this
  show ?thesis unfolding blk_default_read_def g phases by (rule refl)
qed

lemma default_write_cong:
  assumes g: "block_size d = block_size dev" "block_shift d = block_shift dev" "block_count d = block_count dev"
    and r: "read_block d = read_block dev" "write_block d = write_block dev"
  shows "blk_default_write d = blk_default_write dev"
proof -
  have t: "blk_block_trim_range d = blk_block_trim_range dev" by (simp add: blk_block_trim_range_def g fun_eq_iff)
  have b: "blk_read_block (Some d) = blk_read_block (Some dev)" "blk_write_block (Some d) = blk_write_block (Some dev)"
    unfolding fun_eq_iff blk_read_block_def blk_write_block_def option.case t r by simp_all
  have f: "blk_fetch_temp d = blk_fetch_temp dev" "blk_store_temp d = blk_store_temp dev"
    unfolding fun_eq_iff blk_fetch_temp_def blk_store_temp_def b g by simp_all
  have "blk_write_first d = blk_write_first dev" "blk_write_middle d = blk_write_middle dev" "blk_write_last d = blk_write_last dev"
    unfolding blk_write_first_def blk_write_middle_def blk_write_last_def b f g by (rule refl)+
  note phases = this
  show ?thesis unfolding blk_default_write_def g phases by (rule refl)
qed

text \<open>A device with default transfers, as \<^verbatim>\<open>blk_dev_add\<close> leaves it.\<close>

definition registered :: "(u16 \<Rightarrow> u8 list option) \<Rightarrow> 's blkdev \<Rightarrow> 's blkdev" where
  "registered mal dev = last (snd (blk_dev_add mal [] (Some dev)))"

lemma registered_fields [simp]:
  "block_size (registered mal dev) = block_size dev" "block_shift (registered mal dev) = block_shift dev"
  "block_count (registered mal dev) = block_count dev" "read_block (registered mal dev) = read_block dev"
  "write_block (registered mal dev) = write_block dev" "blk_name (registered mal dev) = blk_name dev"
  by (auto simp: registered_def blk_dev_add_def Let_def split: option.split)

lemma registered_default:
  assumes "dev_read dev = None" "dev_write dev = None"
  shows "dev_read (registered mal dev) = Some (blk_default_read (registered mal dev) (mal (block_size dev)))"
    "dev_write (registered mal dev) = Some (\<lambda>buf offset len s.
       Some (blk_default_write (registered mal dev) (mal (block_size dev)) buf offset len s))"
proof -
  have d: "blk_default_read (registered mal dev) = blk_default_read dev"
    "blk_default_write (registered mal dev) = blk_default_write dev"
    "blk_default_write (dev\<lparr>dev_read := r\<rparr>) = blk_default_write dev" for r
    by (rule default_read_cong default_write_cong; simp)+
  show "dev_read (registered mal dev) = Some (blk_default_read (registered mal dev) (mal (block_size dev)))"
    "dev_write (registered mal dev) = Some (\<lambda>buf offset len s.
       Some (blk_default_write (registered mal dev) (mal (block_size dev)) buf offset len s))"
    unfolding d using assms d(3) by (simp_all add: registered_def blk_dev_add_def Let_def)
qed

lemma registered_store: "block_store dev I c \<Longrightarrow> block_store (registered mal dev) I c"
  unfolding block_store_def block_reader_def block_store_axioms_def registered_fields .

section \<open>Partitions are block storage\<close>

text \<open>A partition whose end does not wrap around the 32-bit block numbers.\<close>

definition in_range :: "'s blkdev \<Rightarrow> mbr_entry \<Rightarrow> bool" where
  "in_range dev entry \<longleftrightarrow> unat (lba_start entry) + unat (lba_len entry) \<le> unat (block_count dev)"

context block_store
begin

lemma partition_bounds:
  assumes e: "in_range dev entry" and s: "inv s" and b: "unat block + unat (count :: u16) \<le> unat (lba_len entry)"
  shows "unat (block + lba_start entry) = unat block + unat (lba_start entry)"
    "unat (block + lba_start entry) + unat count \<le> nblocks"
    "unat (lba_start entry) * bs + unat (lba_len entry) * bs \<le> length (content s)"
    "unat block * bs + unat count * bs \<le> unat (lba_len entry) * bs"
proof -
  have ol: "unat (lba_start entry) + unat (lba_len entry) \<le> nblocks" using e by (simp add: in_range_def)
  show u: "unat (block + lba_start entry) = unat block + unat (lba_start entry)"
    using b ol nblocks_lt by (intro unat_plus_u32) linarith
  show "unat (block + lba_start entry) + unat count \<le> nblocks" unfolding u using b ol by linarith
  have "(unat (lba_start entry) + unat (lba_len entry)) * bs \<le> nblocks * bs" using ol by (rule mult_le_mono1)
  then show "unat (lba_start entry) * bs + unat (lba_len entry) * bs \<le> length (content s)"
    unfolding content_length [OF s] by (simp only: add_mult_distrib mult.commute [of bs nblocks])
  have "(unat block + unat count) * bs \<le> unat (lba_len entry) * bs" using b by (rule mult_le_mono1)
  then show "unat block * bs + unat count * bs \<le> unat (lba_len entry) * bs" by (simp add: add_mult_distrib)
qed

lemma subdev_read_block_law:
  assumes e: "in_range dev entry" and s: "inv s" and b: "unat block + unat count \<le> unat (lba_len entry)"
    and l: "unat count * bs \<le> length buf" "unat count * bs < 32768"
  shows "\<exists>s'. subdev_read_block dev (lba_start entry) buf block count s = (int (unat count * bs),
      mem_put buf 0 (mem_get (mem_get (content s) (unat (lba_start entry) * bs) (unat (lba_len entry) * bs))
        (unat block * bs) (unat count * bs)), s') \<and> inv s' \<and> content s' = content s"
proof -
  note p = partition_bounds [OF e s b]
  obtain s' where "blk_read_block (Some dev) (Some buf) (block + lba_start entry) count s =
      (int (unat count * bs), Some (mem_put buf 0 (mem_get (content s) (unat (block + lba_start entry) * bs) (unat count * bs))), s')"
      "inv s'" "content s' = content s"
    using read_block_inside [OF s _ l] p(2) by blast
  moreover have "mem_get (mem_get (content s) (unat (lba_start entry) * bs) (unat (lba_len entry) * bs)) (unat block * bs) (unat count * bs)
      = mem_get (content s) (unat (block + lba_start entry) * bs) (unat count * bs)"
    using p by (subst mem_get_mem_get) (simp_all add: add_mult_distrib add.commute)
  ultimately show ?thesis by (simp add: subdev_read_block_def)
qed

lemma subdev_write_block_law:
  assumes e: "in_range dev entry" and s: "inv s" and b: "unat block + unat count \<le> unat (lba_len entry)"
    and l: "unat count * bs \<le> length buf" "unat count * bs < 32768"
  shows "\<exists>s'. subdev_write_block dev (lba_start entry) buf block count s = (int (unat count * bs), s') \<and> inv s' \<and>
    mem_get (content s') (unat (lba_start entry) * bs) (unat (lba_len entry) * bs) =
      mem_put (mem_get (content s) (unat (lba_start entry) * bs) (unat (lba_len entry) * bs)) (unat block * bs)
        (mem_get buf 0 (unat count * bs)) \<and>
    content s' = mem_put (content s) (unat (lba_start entry) * bs + unat block * bs) (mem_get buf 0 (unat count * bs))"
proof -
  note p = partition_bounds [OF e s b]
  obtain s' where s': "blk_write_block (Some dev) (Some buf) (block + lba_start entry) count s = (int (unat count * bs), s')"
      "inv s'" "content s' = mem_put (content s) (unat (block + lba_start entry) * bs) (mem_get buf 0 (unat count * bs))"
    using write_block_inside [OF s _ l] p(2) by blast
  have o: "unat (block + lba_start entry) * bs = unat (lba_start entry) * bs + unat block * bs"
    unfolding p(1) by (simp add: add_mult_distrib)
  have "mem_get (content s') (unat (lba_start entry) * bs) (unat (lba_len entry) * bs) =
      mem_put (mem_get (content s) (unat (lba_start entry) * bs) (unat (lba_len entry) * bs)) (unat block * bs)
        (mem_get buf 0 (unat count * bs))"
    unfolding s'(3) o using p(3,4) l by (intro mem_get_put_inside) simp_all
  then show ?thesis using s' o by (simp add: subdev_write_block_def)
qed

lemma partition_store:
  assumes e: "in_range dev entry"
  shows "block_store (mbr_subdev dev entry index) inv
    (\<lambda>s. mem_get (content s) (unat (lba_start entry) * bs) (unat (lba_len entry) * bs))"
proof -
  let ?d = "mbr_subdev dev entry index" and ?o = "unat (lba_start entry)" and ?l = "unat (lba_len entry)"
  have g: "block_size ?d = block_size dev" "block_shift ?d = block_shift dev" "block_count ?d = lba_len entry"
    "read_block ?d = Some (subdev_read_block dev (lba_start entry))"
    "write_block ?d = Some (subdev_write_block dev (lba_start entry))"
    by (simp_all add: mbr_subdev_def)
  have "bs * ?l \<le> bs * nblocks" using e by (simp add: in_range_def)
  then have "bs * ?l < 2 ^ 31" using size by linarith
  moreover have "length (mem_get (content s) (?o * bs) (?l * bs)) = bs * ?l" if "inv s" for s
    using partition_bounds(3) [OF e that, of 0 0] by (simp add: mult.commute)
  ultimately show ?thesis
    unfolding block_store_def block_reader_def block_store_axioms_def g option.inject ex_simps
    by (intro conjI allI impI) (use shift subdev_read_block_law [OF e] subdev_write_block_law [OF e] in metis)+
qed

text \<open>Block transfers on a partition with any block number and count.\<close>

lemma partition_transfer:
  assumes e: "in_range dev entry" and s: "inv s"
    and len: "unat count * bs \<le> length buf" "unat count * bs < 32768"
  shows "\<exists>k s1 s2. k \<le> unat count \<and>
    blk_write_block (Some (mbr_subdev dev entry i)) (Some buf) block count s = (int (k * bs), s1) \<and> inv s1 \<and>
    (\<forall>j < length (content s). j < unat (lba_start entry) * bs \<or> (unat (lba_start entry) + unat (lba_len entry)) * bs \<le> j \<longrightarrow>
       content s1 ! j = content s ! j) \<and>
    blk_read_block (Some (mbr_subdev dev entry i)) (Some buf) block count s = (int (k * bs),
      Some (mem_put buf 0 (mem_get (content s) ((unat (lba_start entry) + unat block) * bs) (k * bs))), s2)"
proof -
  let ?d = "mbr_subdev dev entry i" and ?o = "unat (lba_start entry)" and ?l = "unat (lba_len entry)"
  define n where "n = blk_block_trim_range ?d block count"
  have g: "block_count ?d = lba_len entry" "read_block ?d = Some (subdev_read_block dev (lba_start entry))"
    "write_block ?d = Some (subdev_write_block dev (lba_start entry))" by (simp_all add: mbr_subdev_def)
  have "block_reader ?d inv (\<lambda>s. mem_get (content s) (?o * bs) (?l * bs))"
    using partition_store [OF e, of i] by (simp add: block_store_def)
  from block_reader.trim_any [OF this, of block count]
  have n: "unat n = (if unat block < ?l then min (unat count) (?l - unat block) else 0)" by (simp add: n_def g)
  then have nc: "unat n \<le> unat count" "unat n * bs \<le> unat count * bs" by (auto intro: mult_le_mono1)
  show ?thesis
  proof (cases "n = 0")
    case True
    then show ?thesis using s g by (intro exI [of _ 0]) (simp add: blk_write_block_def blk_read_block_def n_def)
  next
    case False
    then have b: "unat block + unat n \<le> ?l" using n by (auto simp: unat_eq_0 split: if_splits)
    note pb = partition_bounds [OF e s b]
    have l: "unat n * bs \<le> length buf" "unat n * bs < 32768" using nc(2) len by linarith+
    obtain s1 where s1: "subdev_write_block dev (lba_start entry) buf block n s = (int (unat n * bs), s1)" "inv s1"
        "content s1 = mem_put (content s) (?o * bs + unat block * bs) (mem_get buf 0 (unat n * bs))"
      using subdev_write_block_law [OF e s b l] by blast
    obtain s2 where s2: "subdev_read_block dev (lba_start entry) buf block n s = (int (unat n * bs),
        mem_put buf 0 (mem_get (mem_get (content s) (?o * bs) (?l * bs)) (unat block * bs) (unat n * bs)), s2)"
      using subdev_read_block_law [OF e s b l] by blast
    have "mem_get (mem_get (content s) (?o * bs) (?l * bs)) (unat block * bs) (unat n * bs) =
        mem_get (content s) ((?o + unat block) * bs) (unat n * bs)"
      using pb(4) by (subst mem_get_mem_get) (simp_all add: add_mult_distrib)
    moreover have "content s1 ! j = content s ! j"
      if "j < length (content s)" "j < ?o * bs \<or> (?o + ?l) * bs \<le> j" for j
      unfolding s1(3) using pb(3,4) l that by (subst nth_mem_put) (auto simp: add_mult_distrib)
    moreover have "blk_write_block (Some ?d) (Some buf) block count s = (int (unat n * bs), s1)"
      "blk_read_block (Some ?d) (Some buf) block count s = (int (unat n * bs),
        Some (mem_put buf 0 (mem_get (mem_get (content s) (?o * bs) (?l * bs)) (unat block * bs) (unat n * bs))), s2)"
      using g False s1(1) s2 unfolding blk_write_block_def blk_read_block_def option.case g n_def [symmetric] by simp_all
    ultimately show ?thesis using nc(1) s1(2) by metis
  qed
qed

end

section \<open>The device of the unit tests is block storage\<close>

lemma fake_result: "unat (count :: u16) * 16 < 32768 \<Longrightarrow> int16 (uint count * 16) = int (unat count * 16)"
  using int16_id [OF in_int16_nat, of "unat count * 16"] by (simp only: uint_nat of_nat_mult of_nat_numeral)

interpretation fake: block_store fake_dev "\<lambda>s. length s = 64" "\<lambda>s. s"
proof
  show "\<exists>rd. read_block fake_dev = Some rd \<and> (\<forall>s buf block count. length s = 64 \<and> 0 < count \<and>
      unat block + unat count \<le> unat (block_count fake_dev) \<and>
      unat count * unat (block_size fake_dev) \<le> length buf \<and> unat count * unat (block_size fake_dev) < 32768 \<longrightarrow>
      (\<exists>s'. rd buf block count s = (int (unat count * unat (block_size fake_dev)), mem_put buf 0
         (mem_get s (unat block * unat (block_size fake_dev)) (unat count * unat (block_size fake_dev))), s') \<and>
       length s' = 64 \<and> s' = s))"
    by (simp add: fake_dev_def FakeDev_BlockRead_def fake_result)
  show "\<exists>wr. write_block fake_dev = Some wr \<and> (\<forall>s buf block count. length s = 64 \<and> 0 < count \<and>
      unat block + unat count \<le> unat (block_count fake_dev) \<and>
      unat count * unat (block_size fake_dev) \<le> length buf \<and> unat count * unat (block_size fake_dev) < 32768 \<longrightarrow>
      (\<exists>s'. wr buf block count s = (int (unat count * unat (block_size fake_dev)), s') \<and> length s' = 64 \<and>
       s' = mem_put s (unat block * unat (block_size fake_dev)) (mem_get buf 0 (unat count * unat (block_size fake_dev)))))"
    by (auto simp: fake_dev_def FakeDev_BlockWrite_def fake_result)
qed (simp_all add: fake_dev_def)

definition fake_alloc :: "u16 \<Rightarrow> u8 list option" where
  "fake_alloc n = Some (replicate (unat n) 0)"

text \<open>Reading bytes through the default transfers of a registered device.\<close>

lemma registered_read_bytes:
  assumes st: "block_store dev I c" "dev_read dev = None" "dev_write dev = None"
    and tmp: "mal (block_size dev) = Some tmp" "length tmp = unat (block_size dev)" "unat (block_size dev) < 32768"
    and s: "I s" and len: "unat n < 32768" "off + unat n < 2 ^ 31" "unat n \<le> length buf"
  shows "\<exists>s' k. k = min (unat n) (length (c s) - off) \<and>
    blk_read (Some (registered mal dev)) (Some buf) (int off) n s =
      (int k, Some (mem_put buf 0 (mem_get (c s) off k)), s') \<and> I s' \<and> c s' = c s"
proof -
  let ?d = "registered mal dev"
  have b: "block_store ?d I c" using st(1) by (rule registered_store)
  then have br: "block_reader ?d I c" by (simp add: block_store_def)
  note rd = registered_default(1) [OF st(2,3), of mal, unfolded tmp(1)]
  have "\<exists>s'. blk_read (Some ?d) (Some buf) (int off) n s =
      (int (block_reader.clip ?d off (unat n)), Some (mem_put buf 0 (mem_get (c s) off (block_reader.clip ?d off (unat n)))), s') \<and>
      I s' \<and> c s' = c s"
    by (rule block_reader.read_bytes [OF br rd _ _ s refl len]) (use tmp in simp_all)
  moreover have "block_reader.clip ?d off (unat n) = min (unat n) (length (c s) - off)"
    by (simp only: block_reader.clip_def [OF br] block_reader.content_length [OF br s])
  ultimately show ?thesis by metis
qed

section \<open>Properties\<close>

text \<open>
  C9. Reading at byte granularity from a registered device over any block storage: for every
  position and length, aligned to blocks or not, \<^verbatim>\<open>blk_read\<close> returns the number of bytes of the range
  that lie on the device, the buffer holds exactly those bytes of the storage, the rest of the
  buffer and the storage are unchanged.
\<close>

theorem blk_read_correct:
  assumes st: "block_store dev I c" "dev_read dev = None" "dev_write dev = None"
    and tmp: "mal (block_size dev) = Some tmp" "length tmp = unat (block_size dev)" "unat (block_size dev) < 32768"
    and s: "I s" and len: "unat n < 32768" "off + unat n < 2 ^ 31" "unat n \<le> length buf"
  shows "\<exists>s' k. k = min (unat n) (length (c s) - off) \<and>
    blk_read (Some (registered mal dev)) (Some buf) (int off) n s =
      (int k, Some (mem_put buf 0 (mem_get (c s) off k)), s') \<and> I s' \<and> c s' = c s"
  using assms by (rule registered_read_bytes)

theorem blk_read_correct_witness:
  "\<exists>s'. blk_read (Some (registered fake_alloc fake_dev)) (Some (replicate 30 0)) 10 30 fake_content =
     (30, Some (mem_put (replicate 30 0) 0 (mem_get fake_content 10 30)), s') \<and> s' = fake_content"
  using blk_read_correct [OF fake.block_store_axioms, of fake_alloc "replicate 16 0" fake_content 30 10 "replicate 30 0"]
  by (simp add: fake_dev_def fake_alloc_def fake_content_def)

text \<open>
  C10. Writing at byte granularity: \<^verbatim>\<open>blk_write\<close> replaces exactly the bytes of the range that lie on
  the device, and reading the range back returns the bytes that were written.
\<close>

theorem blk_write_roundtrip:
  assumes st: "block_store dev I c" "dev_read dev = None" "dev_write dev = None"
    and tmp: "mal (block_size dev) = Some tmp" "length tmp = unat (block_size dev)" "unat (block_size dev) < 32768"
    and s: "I s" and len: "unat n < 32768" "off + unat n < 2 ^ 31" "unat n \<le> length buf" "unat n \<le> length buf'"
  shows "\<exists>s' k. k = min (unat n) (length (c s) - off) \<and>
    blk_write (Some (registered mal dev)) (Some buf) (int off) n s = Some (int k, s') \<and> I s' \<and>
    c s' = mem_put (c s) off (mem_get buf 0 k) \<and>
    (\<exists>s''. blk_read (Some (registered mal dev)) (Some buf') (int off) n s' =
       (int k, Some (mem_put buf' 0 (mem_get buf 0 k)), s'') \<and> I s'' \<and> c s'' = c s')"
proof -
  let ?d = "registered mal dev" and ?k = "min (unat n) (length (c s) - off)"
  have b: "block_store ?d I c" using st(1) by (rule registered_store)
  then have br: "block_reader ?d I c" by (simp add: block_store_def)
  note rd = registered_default [OF st(2,3), of mal, unfolded tmp(1)]
  have clip: "block_reader.clip ?d off (unat n) = ?k"
    by (simp only: block_reader.clip_def [OF br] block_reader.content_length [OF br s])
  have "\<exists>s'. blk_write (Some ?d) (Some buf) (int off) n s = Some (int ?k, s') \<and> I s' \<and> c s' = mem_put (c s) off (mem_get buf 0 ?k)"
    unfolding clip [symmetric]
    by (rule block_store.write_bytes [OF b _ rd(2) _ _ s refl len(1-3)]) (use rd(1) tmp in simp_all)
  then obtain s' where s': "blk_write (Some ?d) (Some buf) (int off) n s = Some (int ?k, s')" "I s'"
      "c s' = mem_put (c s) off (mem_get buf 0 ?k)" by blast
  have "\<exists>s''. blk_read (Some ?d) (Some buf') (int off) n s' = (int ?k, Some (mem_put buf' 0 (mem_get (c s') off ?k)), s'') \<and>
      I s'' \<and> c s'' = c s'"
    unfolding clip [symmetric]
    by (rule block_reader.read_bytes [OF br rd(1) _ _ s'(2) refl len(1,2,4)]) (use tmp in simp_all)
  moreover have "mem_get (c s') off ?k = mem_get buf 0 ?k"
  proof (cases "?k = 0")
    case False
    then have "off + ?k \<le> length (c s)" by auto
    then show ?thesis unfolding s'(3) using mem_get_put_same [of off "mem_get buf 0 ?k" "c s"] len(3) by simp
  qed simp
  ultimately show ?thesis using s' by auto
qed

theorem blk_write_roundtrip_witness:
  "\<exists>s'. blk_write (Some (registered fake_alloc fake_dev)) (Some (replicate 23 7)) 12 23 fake_content = Some (23, s') \<and>
     s' = mem_put fake_content 12 (replicate 23 7)"
  using blk_write_roundtrip [OF fake.block_store_axioms, of fake_alloc "replicate 16 0" fake_content 23 12 "replicate 23 7" "replicate 23 0"]
  by (simp add: fake_dev_def fake_alloc_def fake_content_def mem_get_def)



text \<open>A partition of the second and third block of the test device.\<close>

definition fake_entry :: mbr_entry where
  "fake_entry = \<lparr>status = 0x80, chs_start = [0, 0, 0], type = 0x83, chs_end = [0, 0, 0], lba_start = 1, lba_len = 2\<rparr>"


text \<open>
  \<^verbatim>\<open>mbr_is_valid_entry\<close> accepts a partition that reaches past the end of the device when the sum
  of its start and length wraps around 32 bits.
\<close>

theorem mbr_entry_wraps:
  "mbr_is_valid_entry fake_dev (fake_entry\<lparr>lba_len := 0xFFFFFFFF\<rparr>) = 0 \<and>
   \<not> in_range fake_dev (fake_entry\<lparr>lba_len := 0xFFFFFFFF\<rparr>)"
  by (simp add: mbr_is_valid_entry_def in_range_def fake_entry_def fake_dev_def word_le_nat_alt word_less_nat_alt)

text \<open>
  The registry: a device registered under a new name is what \<^verbatim>\<open>blk_open\<close> returns for it, with its
  missing transfer functions set; opening any other name is unaffected; unregistering it returns
  it and restores the registry.
\<close>

theorem blk_registry:
  assumes "blk_open devices (Some (blk_name dev)) = None"
  shows "let ds = blk_register_subdevice mal devices (Some dev) in
    blk_open ds (Some (blk_name dev)) = Some (registered mal dev) \<and>
    dev_read (registered mal dev) \<noteq> None \<and> dev_write (registered mal dev) \<noteq> None \<and>
    (\<forall>n. n \<noteq> blk_name dev \<longrightarrow> blk_open ds (Some n) = blk_open devices (Some n)) \<and>
    blk_unregister ds (Some (blk_name dev)) = (Some (registered mal dev), devices)"
proof -
  have ds: "blk_register_subdevice mal devices (Some dev) = devices @ [registered mal dev]"
    by (simp add: blk_register_subdevice_def blk_dev_add_def registered_def Let_def)
  have no: "\<forall>d \<in> set devices. blk_name d \<noteq> blk_name dev" using assms(1) by (simp add: blk_open_def find_None_iff)
  have app: "find P (xs @ ys) = (case find P xs of Some x \<Rightarrow> Some x | None \<Rightarrow> find P ys)" for P and xs ys :: "'a blkdev list"
    by (induction xs) auto
  have "find (\<lambda>d. blk_name d = blk_name dev) devices = None" using no by (simp add: find_None_iff)
  moreover have "blk_unregister_loop (devices @ [registered mal dev]) (blk_name dev) = (Some (registered mal dev), devices)"
    using no by (induction devices) auto
  moreover have "dev_read (registered mal dev) \<noteq> None \<and> dev_write (registered mal dev) \<noteq> None"
    by (auto simp: registered_def blk_dev_add_def Let_def split: option.split)
  ultimately show ?thesis by (auto simp: ds blk_open_def blk_unregister_def app split: option.split)
qed

theorem blk_registry_witness:
  "blk_open (blk_register_subdevice fake_alloc [] (Some fake_dev)) (Some ''dev0'') = Some (registered fake_alloc fake_dev)"
proof -
  have "blk_name fake_dev = ''dev0''" "blk_open [] (Some (blk_name fake_dev)) = None"
    by (simp_all add: fake_dev_def blk_open_def)
  then show ?thesis using blk_registry [of "[]" fake_dev fake_alloc] unfolding Let_def by metis
qed

end
