(* ===== verification/Malloc.thy ===== *)
theory Malloc
  imports Prelude "HOL-Library.Monad_Syntax"
begin

text \<open>
  Dynamic memory: the break of the kernel heap (\<^verbatim>\<open>kernel/heap.c\<close>), the C library's \<^verbatim>\<open>brk\<close> and
  \<^verbatim>\<open>sbrk\<close> on top of it (\<^verbatim>\<open>libc/brk.c\<close>; the system call \<^verbatim>\<open>int 0x80\<close> with number 12 ends in
  \<^verbatim>\<open>heap_brk\<close>), and the buddy allocator (\<^verbatim>\<open>libc/malloc.c\<close>).

  Addresses are 16-bit and the memory is the byte at each address.  The allocator reads and writes
  16-bit words in little-endian order at the start of blocks: the link of a free block or the size
  of an allocated one.  A function returns \<open>None\<close> where the code would loop forever.  The two objects
  named \<^verbatim>\<open>heap\<close> of \<^verbatim>\<open>kernel/heap.c\<close> and \<^verbatim>\<open>libc/malloc.c\<close> are separate fields, \<open>cur_brk\<close> and \<open>heap\<close>.

  The refinement lemmas relate the pointer structures to a set of blocks, given by offset from
  the heap's start and order; the buddy of a block, splitting and merging are then arithmetic.
\<close>

section \<open>The break\<close>

record brk_state =
  heap_base :: u16
  heap_max :: u16
  cur_brk :: u16
  lib_brk :: u16

definition heap_initialize :: "brk_state \<Rightarrow> u16 \<Rightarrow> u16 \<Rightarrow> brk_state" where
  "heap_initialize b start end' = b\<lparr>heap_base := start, heap_max := end', cur_brk := start\<rparr>"

definition heap_brk :: "brk_state \<Rightarrow> u16 \<Rightarrow> u16 \<times> brk_state" where
  "heap_brk b addr =
     (if addr = 0 then (cur_brk b, b)
      else if addr < heap_base b \<or> addr > heap_max b then (- 1, b)
      else (addr, b\<lparr>cur_brk := addr\<rparr>))"

definition brk :: "brk_state \<Rightarrow> u16 \<Rightarrow> int \<times> brk_state" where
  "brk b addr =
     (let (new_brk, b) = heap_brk b addr
      in if new_brk \<noteq> addr then (- 1, b) else (0, b\<lparr>lib_brk := new_brk\<rparr>))"

definition sbrk :: "brk_state \<Rightarrow> u16 \<Rightarrow> u16 \<times> brk_state" where
  "sbrk b increment =
     (let b = (if lib_brk b = 0 then let (r, b) = heap_brk b 0 in b\<lparr>lib_brk := r\<rparr> else b);
          start = lib_brk b;
          end' = start + increment;
          (new_brk, b) = heap_brk b end'
      in if new_brk = - 1 then (- 1, b)
         else if new_brk < end' then (- 1, b)
         else (start, b\<lparr>lib_brk := new_brk\<rparr>))"

section \<open>The allocator\<close>

text \<open>The 16-bit word at an address.\<close>

definition load :: "(u16 \<Rightarrow> u8) \<Rightarrow> u16 \<Rightarrow> u16" where
  "load m a = ucast (m a) OR push_bit 8 (ucast (m (a + 1)))"

definition store16 :: "(u16 \<Rightarrow> u8) \<Rightarrow> u16 \<Rightarrow> u16 \<Rightarrow> (u16 \<Rightarrow> u8)" where
  "store16 m a v = m(a := ucast v, a + 1 := ucast (drop_bit 8 v))"

record alloc =
  heap :: u16
  heap_size :: int
  fb_table :: "nat \<Rightarrow> u16"
  mem :: "u16 \<Rightarrow> u8"
  brks :: brk_state

definition MAX_INDEX :: nat where "MAX_INDEX = 12"
definition PAGE_SIZE :: u16 where "PAGE_SIZE = push_bit MAX_INDEX 1"
definition MIN_SIZE :: u16 where "MIN_SIZE = 8"
definition sizeof_header :: u16 where "sizeof_header = 2"

text \<open>
  The loop of \<^verbatim>\<open>getindex\<close>, used for the constant \<^verbatim>\<open>min_index\<close> (from 1 to \<^verbatim>\<open>MIN_SIZE\<close>) and for the
  size.  Its 16-bit \<^verbatim>\<open>block_size\<close> becomes 0 past \<^verbatim>\<open>0x8000\<close>.
\<close>

partial_function (option) getindex_loop :: "u16 \<Rightarrow> u16 \<Rightarrow> nat \<Rightarrow> nat option" where
  "getindex_loop sz block_size index =
     (if block_size < sz then getindex_loop sz (push_bit 1 block_size) (index + 1) else Some index)"

definition getindex :: "u16 \<Rightarrow> nat option" where
  "getindex sz =
     do { min_index \<leftarrow> getindex_loop MIN_SIZE 1 0;
          getindex_loop sz MIN_SIZE min_index }"

definition getbuddy :: "alloc \<Rightarrow> nat \<Rightarrow> u16 \<Rightarrow> u16" where
  "getbuddy s index addr = heap s + (push_bit index 1 XOR (addr - heap s))"

definition fb_add :: "alloc \<Rightarrow> nat \<Rightarrow> u16 \<Rightarrow> alloc" where
  "fb_add s index address =
     (let s = s\<lparr>mem := store16 (mem s) address (fb_table s index)\<rparr>
      in s\<lparr>fb_table := (fb_table s)(index := address)\<rparr>)"

definition fb_pop :: "alloc \<Rightarrow> nat \<Rightarrow> u16 \<times> alloc" where
  "fb_pop s index =
     (let block = fb_table s index
      in (block, if block \<noteq> 0 then s\<lparr>fb_table := (fb_table s)(index := load (mem s) block)\<rparr> else s))"

text \<open>\<^verbatim>\<open>fb_remove\<close> walks from the table entry; the loop stops at the cell whose link is the address.\<close>

datatype cell = Entry nat | Block u16

definition next_of :: "alloc \<Rightarrow> cell \<Rightarrow> u16" where
  "next_of s c = (case c of Entry i \<Rightarrow> fb_table s i | Block a \<Rightarrow> load (mem s) a)"

definition set_next :: "alloc \<Rightarrow> cell \<Rightarrow> u16 \<Rightarrow> alloc" where
  "set_next s c v =
     (case c of Entry i \<Rightarrow> s\<lparr>fb_table := (fb_table s)(i := v)\<rparr> | Block a \<Rightarrow> s\<lparr>mem := store16 (mem s) a v\<rparr>)"

partial_function (option) fb_walk :: "alloc \<Rightarrow> cell \<Rightarrow> u16 \<Rightarrow> cell option" where
  "fb_walk s c address =
     (if next_of s c \<noteq> 0 \<and> next_of s c \<noteq> address then fb_walk s (Block (next_of s c)) address else Some c)"

definition fb_remove :: "alloc \<Rightarrow> nat \<Rightarrow> u16 \<Rightarrow> (bool \<times> alloc) option" where
  "fb_remove s index address =
     do { c \<leftarrow> fb_walk s (Entry index) address;
          if next_of s c = address then Some (True, set_next s c (load (mem s) (next_of s c)))
          else Some (False, s) }"

text \<open>The search for a free block from order \<open>i\<close>, with \<open>n\<close> larger orders to try.\<close>

fun malloc_pop :: "alloc \<Rightarrow> nat \<Rightarrow> nat \<Rightarrow> u16 \<times> nat \<times> alloc" where
  "malloc_pop s i 0 = (let (zone, s) = fb_pop s i in (zone, i, s))"
| "malloc_pop s i (Suc n) =
     (let (zone, s) = fb_pop s i in if zone = 0 then malloc_pop s (Suc i) n else (zone, i, s))"

text \<open>\<^verbatim>\<open>while (i-- > index) fb_add(i, getbuddy(i, zone))\<close>, for \<open>n = i - index\<close> iterations.\<close>

fun malloc_split :: "alloc \<Rightarrow> u16 \<Rightarrow> nat \<Rightarrow> nat \<Rightarrow> alloc" where
  "malloc_split s zone index 0 = s"
| "malloc_split s zone index (Suc n) =
     malloc_split (fb_add s (index + n) (getbuddy s (index + n) zone)) zone index n"

definition malloc :: "alloc \<Rightarrow> u16 \<Rightarrow> (u16 \<times> alloc) option" where
  "malloc s sz =
     (if sz = 0 then Some (0, s)
      else do {
        let s = (if heap s = 0 then let (r, b) = sbrk (brks s) 0 in s\<lparr>heap := r, brks := b\<rparr> else s);
        let full_size = sz + sizeof_header;
        index \<leftarrow> getindex full_size;
        if index > MAX_INDEX then Some (0, s)
        else
          let (zone, i, s) = malloc_pop s index (MAX_INDEX - index);
              (ok, zone, i, s) =
                (if zone = 0
                 then let (r, b) = sbrk (brks s) PAGE_SIZE; s = s\<lparr>brks := b\<rparr>
                      in if r = - 1 then (False, 0, i, s)
                         else (True, heap s + word_of_int (heap_size s), MAX_INDEX,
                               s\<lparr>heap_size := int16 (heap_size s + uint PAGE_SIZE)\<rparr>)
                 else (True, zone, i, s))
          in if \<not> ok then Some (0, s)
             else let s = malloc_split s zone index (i - index)
                  in Some (zone + sizeof_header, s\<lparr>mem := store16 (mem s) zone full_size\<rparr>) })"

definition memset0 :: "(u16 \<Rightarrow> u8) \<Rightarrow> u16 \<Rightarrow> u16 \<Rightarrow> (u16 \<Rightarrow> u8)" where
  "memset0 m p n = (\<lambda>a. if unat (a - p) < unat n then 0 else m a)"

definition calloc :: "alloc \<Rightarrow> u16 \<Rightarrow> u16 \<Rightarrow> (u16 \<times> alloc) option" where
  "calloc s nmemb sz =
     (let total = nmemb * sz
      in if total = 0 then Some (0, s)
         else do { (ptr, s) \<leftarrow> malloc s total;
                   if ptr = 0 then Some (0, s)
                   else Some (ptr, s\<lparr>mem := memset0 (mem s) ptr total\<rparr>) })"

text \<open>The merging loop of \<^verbatim>\<open>free\<close> at order \<open>i\<close>, with \<open>n = MAX_INDEX - i\<close> orders left.\<close>

fun free_merge :: "alloc \<Rightarrow> u16 \<Rightarrow> nat \<Rightarrow> nat \<Rightarrow> (u16 \<times> nat \<times> alloc) option" where
  "free_merge s zone i 0 = Some (zone, i, s)"
| "free_merge s zone i (Suc n) =
     do { let buddy = getbuddy s i zone;
          (removed, s) \<leftarrow> fb_remove s i buddy;
          if removed then free_merge s (if zone \<le> buddy then zone else buddy) (Suc i) n
          else Some (zone, i, s) }"

definition free :: "alloc \<Rightarrow> u16 \<Rightarrow> alloc option" where
  "free s ptr =
     (if ptr = 0 then Some s
      else do {
        let zone = ptr - sizeof_header;
        i \<leftarrow> getindex (load (mem s) zone);
        (zone, i, s) \<leftarrow> free_merge s zone i (MAX_INDEX - i);
        Some (fb_add s i zone) })"


section \<open>Blocks\<close>

text \<open>
  A block is its offset from the heap's start and its order.  The abstract state is the list of
  the offsets of the free blocks of each order, the set of the blocks handed out, and the size of
  the heap.
\<close>

type_synonym block = "nat \<times> nat"

definition span :: "block \<Rightarrow> nat set" where
  "span b = {fst b ..< fst b + 2 ^ snd b}"

definition frees :: "(nat \<Rightarrow> nat list) \<Rightarrow> block set" where
  "frees F = {(o', i). o' \<in> set (F i)}"

definition block_ok :: "nat \<Rightarrow> block \<Rightarrow> bool" where
  "block_ok n b \<longleftrightarrow> 3 \<le> snd b \<and> snd b \<le> MAX_INDEX \<and> 2 ^ snd b dvd fst b \<and> fst b + 2 ^ snd b \<le> n"

definition disjoint_blocks :: "block set \<Rightarrow> bool" where
  "disjoint_blocks B \<longleftrightarrow> (\<forall>b \<in> B. \<forall>c \<in> B. b \<noteq> c \<longrightarrow> span b \<inter> span c = {})"

text \<open>
  The invariant: blocks are aligned and inside the heap, pairwise disjoint, free or handed out but
  not both, and they cover the heap (nothing is lost).
\<close>

definition heap_inv :: "(nat \<Rightarrow> nat list) \<Rightarrow> block set \<Rightarrow> nat \<Rightarrow> bool" where
  "heap_inv F A n \<longleftrightarrow> (\<forall>b \<in> A \<union> frees F. block_ok n b) \<and> disjoint_blocks (A \<union> frees F) \<and>
     A \<inter> frees F = {} \<and> (\<forall>i. distinct (F i)) \<and> (\<Union>b \<in> A \<union> frees F. span b) = {..<n}"

definition buddy :: "nat \<Rightarrow> nat \<Rightarrow> nat" where
  "buddy i o' = (2 ^ i) XOR o'"

lemma disjoint_blocksD: "disjoint_blocks B \<Longrightarrow> b \<in> B \<Longrightarrow> c \<in> B \<Longrightarrow> b \<noteq> c \<Longrightarrow> span b \<inter> span c = {}"
  unfolding disjoint_blocks_def by metis

lemma disjoint_blocksI: "(\<And>b c. b \<in> B \<Longrightarrow> c \<in> B \<Longrightarrow> b \<noteq> c \<Longrightarrow> span b \<inter> span c = {}) \<Longrightarrow> disjoint_blocks B"
  unfolding disjoint_blocks_def by metis

lemma heap_invD:
  assumes "heap_inv F A n"
  shows "b \<in> A \<union> frees F \<Longrightarrow> block_ok n b" "disjoint_blocks (A \<union> frees F)" "A \<inter> frees F = {}"
    "distinct (F i)" "(\<Union>b \<in> A \<union> frees F. span b) = {..<n}"
  using assms unfolding heap_inv_def by blast+

lemma heap_invI:
  assumes "\<And>b. b \<in> A \<union> frees F \<Longrightarrow> block_ok n b" "disjoint_blocks (A \<union> frees F)" "A \<inter> frees F = {}"
    "\<And>i. distinct (F i)" "(\<Union>b \<in> A \<union> frees F. span b) = {..<n}"
  shows "heap_inv F A n"
  unfolding heap_inv_def using assms by metis

text \<open>A replacement of some blocks by others that occupy the same space.\<close>

lemma disjoint_replace:
  assumes d: "disjoint_blocks (B \<union> C)" "B \<inter> C = {}" "disjoint_blocks D" "(\<Union>d \<in> D. span d) = (\<Union>c \<in> C. span c)"
  shows "disjoint_blocks (B \<union> D)"
proof -
  have bd: "span b \<inter> span d = {}" if b: "b \<in> B" and dd: "d \<in> D" for b d
  proof -
    have "span b \<inter> span c = {}" if "c \<in> C" for c
      by (rule disjoint_blocksD [OF d(1)]) (use b that d(2) in auto)
    then have "span b \<inter> (\<Union>c \<in> C. span c) = {}" by blast
    moreover have "span d \<subseteq> (\<Union>c \<in> C. span c)" using d(4) dd by blast
    ultimately show ?thesis by blast
  qed
  show ?thesis
  proof (rule disjoint_blocksI)
    fix b c assume "b \<in> B \<union> D" "c \<in> B \<union> D" "b \<noteq> c"
    then consider "b \<in> B" "c \<in> B" | "b \<in> B" "c \<in> D" | "b \<in> D" "c \<in> B" | "b \<in> D" "c \<in> D" by blast
    then show "span b \<inter> span c = {}"
      using bd [of b c] bd [of c b] disjoint_blocksD [OF d(1), of b c] disjoint_blocksD [OF d(3), of b c] \<open>b \<noteq> c\<close>
      by cases auto
  qed
qed

lemma span_nonempty: "fst b \<in> span b"
  by (simp add: span_def)

lemma span_halves: "span (o', Suc i) = span (o', i) \<union> span (o' + 2 ^ i, i)"
  by (auto simp: span_def)

lemma halves_disjoint: "span (o', i) \<inter> span (o' + 2 ^ i, i) = {}"
  by (auto simp: span_def)

text \<open>The start of a block is in no other block.\<close>

lemma other_offset:
  assumes "disjoint_blocks B" "b \<in> B" "c \<in> B" "b \<noteq> c" shows "fst c \<notin> span b"
  using disjoint_blocksD [OF assms] span_nonempty [of c] by blast

lemma frees_push: "frees (F(i := o' # F i)) = insert (o', i) (frees F)"
  by (auto simp: frees_def split: if_splits)

lemma frees_remove: "distinct (F i) \<Longrightarrow> frees (F(i := remove1 o' (F i))) = frees F - {(o', i)}"
  by (auto simp: frees_def split: if_splits)

lemma in_frees: "(o', i) \<in> frees F \<longleftrightarrow> o' \<in> set (F i)"
  by (simp add: frees_def)

section \<open>Steps on the abstract heap\<close>

text \<open>The set of all blocks determines the invariant, up to which of them are free.\<close>

lemma heap_inv_swap:
  assumes inv: "heap_inv F A n" and eq: "B \<union> frees G = A \<union> frees F" and "B \<inter> frees G = {}" "\<And>i. distinct (G i)"
  shows "heap_inv G B n"
  by (rule heap_invI) (use assms(3,4) heap_invD [OF inv] in \<open>simp_all only: eq\<close>)

lemma claim_inv:
  assumes inv: "heap_inv F A n" and o': "o' \<in> set (F i)"
  shows "heap_inv (F(i := remove1 o' (F i))) (insert (o', i) A) n" "(o', i) \<notin> A"
proof -
  have f: "frees (F(i := remove1 o' (F i))) = frees F - {(o', i)}"
    by (rule frees_remove [OF heap_invD(4) [OF inv]])
  have inf: "(o', i) \<in> frees F" using o' by (simp add: in_frees)
  show na: "(o', i) \<notin> A" using heap_invD(3) [OF inv] inf by blast
  show "heap_inv (F(i := remove1 o' (F i))) (insert (o', i) A) n"
  proof (rule heap_inv_swap [OF inv])
    show "insert (o', i) A \<union> frees (F(i := remove1 o' (F i))) = A \<union> frees F" unfolding f using inf by blast
    show "insert (o', i) A \<inter> frees (F(i := remove1 o' (F i))) = {}" unfolding f using heap_invD(3) [OF inv] by blast
    show "distinct ((F(i := remove1 o' (F i))) j)" for j using heap_invD(4) [OF inv] by simp
  qed
qed

lemma release_inv:
  assumes inv: "heap_inv F (insert (o', i) A) n" and na: "(o', i) \<notin> A"
  shows "heap_inv (F(i := o' # F i)) A n"
proof (rule heap_inv_swap [OF inv])
  have nf: "(o', i) \<notin> frees F" using heap_invD(3) [OF inv] by blast
  show "A \<union> frees (F(i := o' # F i)) = insert (o', i) A \<union> frees F" unfolding frees_push by blast
  show "A \<inter> frees (F(i := o' # F i)) = {}" unfolding frees_push using heap_invD(3) [OF inv] na by blast
  show "distinct ((F(i := o' # F i)) j)" for j using heap_invD(4) [OF inv] nf by (simp add: in_frees)
qed

text \<open>Replacing the two halves by the whole, or the whole by the two halves.\<close>

lemma halves_d2: "disjoint_blocks {(o', i), (o' + 2 ^ i, i)}"
  by (rule disjoint_blocksI) (use halves_disjoint [of o' i] in auto)

lemma halves_union: "(\<Union>d \<in> {(o', i), (o' + 2 ^ i, i)}. span d) = (\<Union>c \<in> {(o', Suc i)}. span c)"
  using span_halves [of o' i] by simp

lemma new_block:
  assumes d: "disjoint_blocks (R \<union> C)" and s: "span b \<subseteq> (\<Union>c \<in> C. span c)" and r: "R \<inter> C = {}"
  shows "b \<notin> R"
proof
  assume b: "b \<in> R"
  have "span b \<inter> span c = {}" if "c \<in> C" for c
    by (rule disjoint_blocksD [OF d]) (use b that r in auto)
  then show False using s span_nonempty [of b] by blast
qed

lemma split_inv:
  assumes inv: "heap_inv F (insert (o', Suc i) A) n" and na: "(o', Suc i) \<notin> A" and i: "3 \<le> i"
  shows "heap_inv (F(i := (o' + 2 ^ i) # F i)) (insert (o', i) A) n" "(o', i) \<notin> A"
proof -
  let ?z = "(o', Suc i)" and ?l = "(o', i)" and ?h = "(o' + 2 ^ i, i)" and ?R = "A \<union> frees F"
  have all: "insert ?z A \<union> frees F = ?R \<union> {?z}" by auto
  have nz: "?R \<inter> {?z} = {}" using heap_invD(3) [OF inv] na by blast
  have disj: "disjoint_blocks (?R \<union> {?z})" using heap_invD(2) [OF inv] all by simp
  have new: "?l \<notin> ?R" "?h \<notin> ?R"
    by (rule new_block [OF disj _ nz], simp add: span_halves)+
  then show "(o', i) \<notin> A" by simp
  have eq: "insert ?l A \<union> insert ?h (frees F) = ?R \<union> {?l, ?h}" by auto
  show "heap_inv (F(i := (o' + 2 ^ i) # F i)) (insert ?l A) n"
  proof (rule heap_invI; (unfold frees_push eq)?)
    show "disjoint_blocks (?R \<union> {?l, ?h})" by (rule disjoint_replace [OF disj nz halves_d2 halves_union])
    have z: "block_ok n ?z" using heap_invD(1) [OF inv, of ?z] by simp
    have "block_ok n ?l \<and> block_ok n ?h"
      using z i by (auto simp: block_ok_def intro!: dvd_add dest: dvd_mult_right dvd_mult_left)
    then show "block_ok n b" if "b \<in> ?R \<union> {?l, ?h}" for b
      using that heap_invD(1) [OF inv, of b] by blast
    show "insert ?l A \<inter> insert ?h (frees F) = {}" using heap_invD(3) [OF inv] new by auto
    show "distinct ((F(i := (o' + 2 ^ i) # F i)) j)" for j
      using heap_invD(4) [OF inv] new by (simp add: in_frees)
    have "(\<Union>b \<in> ?R \<union> {?z}. span b) = {..<n}" using heap_invD(5) [OF inv] all by simp
    then show "(\<Union>b \<in> ?R \<union> {?l, ?h}. span b) = {..<n}"
      using halves_union [of o' i] unfolding UN_Un by simp
  qed
qed

lemma merge_inv:
  assumes inv: "heap_inv F (insert (o', i) (insert (o' + 2 ^ i, i) A)) n"
    and na: "(o', i) \<notin> A" "(o' + 2 ^ i, i) \<notin> A" and i: "i < MAX_INDEX" and al: "2 ^ Suc i dvd o'"
  shows "heap_inv F (insert (o', Suc i) A) n" "(o', Suc i) \<notin> A"
proof -
  let ?z = "(o', Suc i)" and ?l = "(o', i)" and ?h = "(o' + 2 ^ i, i)" and ?R = "A \<union> frees F"
  have all: "insert ?l (insert ?h A) \<union> frees F = ?R \<union> {?l, ?h}" by auto
  have nz: "?R \<inter> {?l, ?h} = {}" using heap_invD(3) [OF inv] na by blast
  have disj: "disjoint_blocks (?R \<union> {?l, ?h})" using heap_invD(2) [OF inv] all by simp
  have new: "?z \<notin> ?R" by (rule new_block [OF disj _ nz]) (simp add: span_halves)
  then show "(o', Suc i) \<notin> A" by simp
  have eq: "insert ?z A \<union> frees F = ?R \<union> {?z}" by auto
  show "heap_inv F (insert ?z A) n"
  proof (rule heap_invI; (unfold eq)?)
    have d1: "disjoint_blocks {?z}" by (rule disjoint_blocksI) simp
    show "disjoint_blocks (?R \<union> {?z})" by (rule disjoint_replace [OF disj nz d1 halves_union [symmetric]])
    have "block_ok n ?l" "block_ok n ?h" using heap_invD(1) [OF inv] by simp_all
    then have "block_ok n ?z" using i al by (simp add: block_ok_def)
    then show "block_ok n b" if "b \<in> ?R \<union> {?z}" for b
      using that heap_invD(1) [OF inv, of b] by blast
    show "insert ?z A \<inter> frees F = {}" using heap_invD(3) [OF inv] new by auto
    show "distinct (F j)" for j by (rule heap_invD(4) [OF inv])
    have "(\<Union>b \<in> ?R \<union> {?l, ?h}. span b) = {..<n}" using heap_invD(5) [OF inv] all by simp
    then show "(\<Union>b \<in> ?R \<union> {?z}. span b) = {..<n}"
      using halves_union [of o' i] unfolding UN_Un by simp
  qed
qed

lemma grow_inv:
  assumes inv: "heap_inv F A n" and n: "2 ^ MAX_INDEX dvd n"
  shows "heap_inv F (insert (n, MAX_INDEX) A) (n + 2 ^ MAX_INDEX)" "(n, MAX_INDEX) \<notin> A"
proof -
  let ?p = "(n, MAX_INDEX)" and ?R = "A \<union> frees F"
  have below: "span b \<subseteq> {..<n}" if "b \<in> ?R" for b using heap_invD(5) [OF inv] that by blast
  have np: "?p \<notin> ?R" using below [of ?p] span_nonempty [of ?p] by auto
  then show "?p \<notin> A" by simp
  have sp: "span ?p = {n ..< n + 2 ^ MAX_INDEX}" by (simp add: span_def)
  have apart: "span b \<inter> span ?p = {}" if "b \<in> ?R" for b using below [OF that] sp by auto
  have eq: "insert ?p A \<union> frees F = insert ?p ?R" by simp
  show "heap_inv F (insert ?p A) (n + 2 ^ MAX_INDEX)"
  proof (rule heap_invI; (unfold eq)?)
    show "disjoint_blocks (insert ?p ?R)"
    proof (rule disjoint_blocksI)
      fix b c assume bc: "b \<in> insert ?p ?R" "c \<in> insert ?p ?R" "b \<noteq> c"
      then consider "b = ?p" "c \<in> ?R" | "c = ?p" "b \<in> ?R" | "b \<in> ?R" "c \<in> ?R" by blast
      then show "span b \<inter> span c = {}"
        by cases (use apart [of b] apart [of c] disjoint_blocksD [OF heap_invD(2) [OF inv], of b c] bc(3) in auto)
    qed
    have "block_ok (n + 2 ^ MAX_INDEX) ?p" using n by (simp add: block_ok_def MAX_INDEX_def)
    moreover have "block_ok (n + 2 ^ MAX_INDEX) b" if "b \<in> ?R" for b
      using heap_invD(1) [OF inv that] by (simp add: block_ok_def)
    ultimately show "block_ok (n + 2 ^ MAX_INDEX) b" if "b \<in> insert ?p ?R" for b using that by blast
    show "insert ?p A \<inter> frees F = {}" using heap_invD(3) [OF inv] np by auto
    show "distinct (F j)" for j by (rule heap_invD(4) [OF inv])
    have "(\<Union>b \<in> insert ?p ?R. span b) = span ?p \<union> {..<n}" using heap_invD(5) [OF inv] by simp
    then show "(\<Union>b \<in> insert ?p ?R. span b) = {..<n + 2 ^ MAX_INDEX}" unfolding sp by auto
  qed
qed

section \<open>The buddy of a block\<close>

lemma buddy_cases:
  assumes "2 ^ i dvd o'"
  shows "2 ^ Suc i dvd o' \<Longrightarrow> buddy i o' = o' + 2 ^ i"
    and "\<not> 2 ^ Suc i dvd o' \<Longrightarrow> 2 ^ i \<le> o' \<and> buddy i o' = o' - 2 ^ i \<and> 2 ^ Suc i dvd o' - 2 ^ i"
proof -
  obtain k where k: "o' = 2 ^ i * k" using assms by blast
  have x: "buddy i o' = 2 ^ i * (1 XOR k)"
    using push_bit_xor [of i 1 k] by (simp add: buddy_def k push_bit_eq_mult mult.commute)
  have d: "2 ^ Suc i dvd o' \<longleftrightarrow> even k" by (simp add: k)
  show "buddy i o' = o' + 2 ^ i" if "2 ^ Suc i dvd o'"
    using that x by (simp add: d k Suc_0_xor_eq algebra_simps)
  assume "\<not> 2 ^ Suc i dvd o'"
  then have odd: "odd k" using d by simp
  then obtain m where m: "k = 2 * m + 1" by (rule oddE)
  show "2 ^ i \<le> o' \<and> buddy i o' = o' - 2 ^ i \<and> 2 ^ Suc i dvd o' - 2 ^ i"
    unfolding x by (simp add: k m Suc_0_xor_eq algebra_simps)
qed

abbreviation addr :: "alloc \<Rightarrow> nat \<Rightarrow> u16" where
  "addr s o' \<equiv> heap s + of_nat o'"

lemma getbuddy_addr: "getbuddy s i (addr s o') = addr s (buddy i o')"
proof -
  have "push_bit i 1 XOR (of_nat o' :: u16) = of_nat (2 ^ i XOR o')"
    by (simp add: of_nat_xor_eq push_bit_eq_mult)
  then show ?thesis by (simp add: getbuddy_def buddy_def)
qed

lemma heap_fb_add [simp]: "heap (fb_add s i a) = heap s"
  by (simp add: fb_add_def Let_def)

lemma unat_addr:
  assumes "o' < n" "unat (heap s) + n \<le> 2 ^ 16"
  shows "unat (addr s o') = unat (heap s) + o'"
  using assms by (simp add: unat_word_ariths unat_of_nat)

lemma addr_inj:
  assumes "unat (heap s) + n \<le> 2 ^ 16" "x < n" "y < n"
  shows "addr s x = addr s y \<longleftrightarrow> x = y"
  using unat_addr [OF assms(2,1)] unat_addr [OF assms(3,1)] by (metis add_left_cancel)

section \<open>The index of a size\<close>

lemma unat_u16_pow: "i < 16 \<Longrightarrow> unat (2 ^ i :: u16) = 2 ^ i"
proof -
  assume "i < 16"
  then have "(2::nat) ^ i < 2 ^ 16" by (simp only: power_strict_increasing_iff)
  then show ?thesis using unat_of_nat_u16 [of "2 ^ i"] by simp
qed

lemma getindex_loop_ok:
  assumes "i + k = N" "unat sz \<le> 2 ^ N" "N < 16" "i = 3 \<or> 2 ^ (i - 1) < unat sz" "3 \<le> i"
  shows "\<exists>j. getindex_loop sz (push_bit i 1) i = Some j \<and> i \<le> j \<and> j \<le> N \<and> unat sz \<le> 2 ^ j \<and>
    (j = 3 \<or> 2 ^ (j - 1) < unat sz)"
  using assms
proof (induction k arbitrary: i)
  case 0
  then have "\<not> push_bit i 1 < sz" by (simp add: word_less_nat_alt not_less push_bit_eq_mult unat_u16_pow)
  then show ?case using 0 by (subst getindex_loop.simps) auto
next
  case (Suc k)
  have i: "i < 16" using Suc.prems by simp
  note u = unat_u16_pow [OF i]
  show ?case
  proof (cases "push_bit i 1 < sz")
    case True
    then have lt: "2 ^ i < unat sz" by (simp add: word_less_nat_alt push_bit_eq_mult u)
    have "\<exists>j. getindex_loop sz (push_bit (Suc i) 1) (Suc i) = Some j \<and> Suc i \<le> j \<and> j \<le> N \<and> unat sz \<le> 2 ^ j \<and>
        (j = 3 \<or> 2 ^ (j - 1) < unat sz)"
      by (rule Suc.IH) (use Suc.prems lt in auto)
    moreover have "push_bit 1 (push_bit i (1::u16)) = push_bit (Suc i) 1" by simp
    moreover have "getindex_loop sz (push_bit i 1) i = getindex_loop sz (push_bit 1 (push_bit i 1)) (Suc i)"
      using True by (subst getindex_loop.simps) simp
    ultimately show ?thesis by (metis Suc_leD)
  next
    case False
    then have "unat sz \<le> 2 ^ i" by (simp add: word_less_nat_alt push_bit_eq_mult u not_less)
    then show ?thesis using False Suc.prems by (subst getindex_loop.simps) auto
  qed
qed

lemma min_index: "getindex_loop MIN_SIZE 1 0 = Some 3"
  by (simp add: MIN_SIZE_def getindex_loop.simps)

lemma getindex_upto:
  assumes "unat sz \<le> 2 ^ N" "3 \<le> N" "N < 16"
  obtains j where "getindex sz = Some j" "3 \<le> j" "j \<le> N" "unat sz \<le> 2 ^ j" "j = 3 \<or> 2 ^ (j - 1) < unat sz"
proof -
  have "MIN_SIZE = push_bit 3 1" by (simp add: MIN_SIZE_def)
  then have "\<exists>j. getindex sz = Some j \<and> 3 \<le> j \<and> j \<le> N \<and> unat sz \<le> 2 ^ j \<and> (j = 3 \<or> 2 ^ (j - 1) < unat sz)"
    using getindex_loop_ok [of 3 "N - 3" N sz] assms by (simp add: getindex_def min_index)
  then show ?thesis using that by blast
qed

lemma getindex_ok:
  assumes "unat sz \<le> 2 ^ 12"
  obtains j where "getindex sz = Some j" "3 \<le> j" "j \<le> 12" "unat sz \<le> 2 ^ j" "j = 3 \<or> 2 ^ (j - 1) < unat sz"
  using getindex_upto [OF assms] by auto

section \<open>The lists of free blocks\<close>

text \<open>Two words of the memory that share no byte.\<close>

definition apart :: "u16 \<Rightarrow> u16 \<Rightarrow> bool" where
  "apart a b \<longleftrightarrow> a \<noteq> b \<and> a + 1 \<noteq> b \<and> a \<noteq> b + 1"

lemma load_store16 [simp]: "load (store16 m a v) a = v"
  by (rule bit_word_eqI) (auto simp: load_def store16_def bit_simps)

lemma load_apart: "apart a b \<Longrightarrow> load (store16 m a v) b = load m b"
  by (auto simp: load_def store16_def apart_def)

fun fl :: "(u16 \<Rightarrow> u8) \<Rightarrow> u16 \<Rightarrow> u16 list \<Rightarrow> bool" where
  "fl m p [] \<longleftrightarrow> p = 0"
| "fl m p (x # xs) \<longleftrightarrow> p = x \<and> x \<noteq> 0 \<and> fl m (load m x) xs"

lemma fl_cong: "(\<And>y. y \<in> set xs \<Longrightarrow> load m' y = load m y) \<Longrightarrow> fl m' p xs = fl m p xs"
  by (induction xs arbitrary: p) auto

lemma fl_frame: "(\<And>y. y \<in> set xs \<Longrightarrow> apart x y) \<Longrightarrow> fl (store16 m x v) p xs = fl m p xs"
  by (rule fl_cong) (simp add: load_apart)

lemma fl_unlink:
  "fl m p (ys @ a # zs) \<Longrightarrow> distinct (ys @ a # zs) \<Longrightarrow> ys \<noteq> [] \<Longrightarrow>
   (\<And>y z. y \<in> set (ys @ a # zs) \<Longrightarrow> z \<in> set (ys @ a # zs) \<Longrightarrow> y \<noteq> z \<Longrightarrow> apart y z) \<Longrightarrow>
   fl (store16 m (last ys) (load m a)) p (ys @ zs)"
proof (induction ys arbitrary: p)
  case (Cons y ys)
  show ?case
  proof (cases "ys = []")
    case True
    have "fl (store16 m y (load m a)) (load m a) zs = fl m (load m a) zs"
      by (rule fl_frame) (use Cons.prems True in auto)
    then show ?thesis using Cons.prems True by simp
  next
    case False
    then have "last ys \<in> set ys" by simp
    then have "apart (last ys) y" using Cons.prems by auto
    then have "load (store16 m (last ys) (load m a)) y = load m y" by (rule load_apart)
    moreover have "fl (store16 m (last ys) (load m a)) (load m y) (ys @ zs)"
      by (rule Cons.IH) (use Cons.prems False in auto)
    ultimately show ?thesis using Cons.prems False by simp
  qed
qed simp

lemma fb_walk_absent:
  "fl (mem s) (next_of s c) xs \<Longrightarrow> a \<notin> set xs \<Longrightarrow> \<exists>c'. fb_walk s c a = Some c' \<and> next_of s c' = 0"
proof (induction xs arbitrary: c)
  case Nil
  then show ?case by (subst fb_walk.simps) simp
next
  case (Cons x xs)
  then have "fl (mem s) (next_of s (Block x)) xs" by (simp add: next_of_def)
  then show ?case using Cons by (subst fb_walk.simps) auto
qed

lemma fb_walk_present:
  "fl (mem s) (next_of s c) (ys @ a # zs) \<Longrightarrow> a \<notin> set ys \<Longrightarrow>
   fb_walk s c a = Some (if ys = [] then c else Block (last ys)) \<and>
   next_of s (if ys = [] then c else Block (last ys)) = a"
proof (induction ys arbitrary: c)
  case Nil
  then show ?case by (subst fb_walk.simps) simp
next
  case (Cons y ys)
  then have "fl (mem s) (next_of s (Block y)) (ys @ a # zs)" by (simp add: next_of_def)
  then have "fb_walk s (Block y) a = Some (if ys = [] then Block y else Block (last ys)) \<and>
      next_of s (if ys = [] then Block y else Block (last ys)) = a"
    using Cons by simp
  then show ?case using Cons.prems by (subst fb_walk.simps) auto
qed

section \<open>The refinement of the pointer structures\<close>

definition lists :: "alloc \<Rightarrow> (nat \<Rightarrow> nat list) \<Rightarrow> bool" where
  "lists s F \<longleftrightarrow> (\<forall>i \<le> MAX_INDEX. fl (mem s) (fb_table s i) (map (addr s) (F i)))"

definition headers :: "alloc \<Rightarrow> block set \<Rightarrow> bool" where
  "headers s A \<longleftrightarrow> (\<forall>b \<in> A. getindex (load (mem s) (addr s (fst b))) = Some (snd b))"

text \<open>
  The limits of the heap: it starts above address 0, ends at or below \<^verbatim>\<open>0xF000\<close> as on every board, and
  no page of it ends at the top of the address space.  Growing it keeps to these limits.
\<close>

definition heap_limits :: "brk_state \<Rightarrow> bool" where
  "heap_limits b \<longleftrightarrow> 0 < heap_base b \<and> heap_base b \<le> heap_max b \<and> heap_max b \<le> 0xF000 \<and>
     (4096 dvd unat (heap_base b) \<longrightarrow> heap_max b < 0xF000)"

definition arena :: "alloc \<Rightarrow> nat \<Rightarrow> bool" where
  "arena s n \<longleftrightarrow> heap_limits (brks s) \<and> heap s = heap_base (brks s) \<and> lib_brk (brks s) = addr s n \<and>
     word_of_int (heap_size s) = (of_nat n :: u16) \<and> 2 ^ MAX_INDEX dvd n \<and>
     unat (heap s) + n \<le> unat (heap_max (brks s))"

text \<open>No two buddies are both free.\<close>

definition coalesced :: "(nat \<Rightarrow> nat list) \<Rightarrow> bool" where
  "coalesced F \<longleftrightarrow> (\<forall>i < MAX_INDEX. \<forall>x \<in> set (F i). buddy i x \<notin> set (F i))"

definition rep :: "alloc \<Rightarrow> (nat \<Rightarrow> nat list) \<Rightarrow> block set \<Rightarrow> nat \<Rightarrow> bool" where
  "rep s F A n \<longleftrightarrow> arena s n \<and> heap_inv F A n \<and> lists s F \<and> headers s A \<and> coalesced F"

text \<open>The bytes of the blocks handed out are left alone.\<close>

definition keeps :: "alloc \<Rightarrow> alloc \<Rightarrow> block set \<Rightarrow> bool" where
  "keeps s s' A \<longleftrightarrow> heap s' = heap s \<and> (\<forall>b \<in> A. \<forall>x \<in> span b. mem s' (addr s x) = mem s (addr s x))"

lemma keeps_refl: "keeps s s A"
  by (simp add: keeps_def)

lemma keeps_trans: "keeps s t A \<Longrightarrow> keeps t u A \<Longrightarrow> keeps s u A"
  by (simp add: keeps_def)

lemma arena_bound: "arena s n \<Longrightarrow> unat (heap s) + n \<le> 2 ^ 16"
proof -
  assume "arena s n"
  then have "unat (heap s) + n \<le> unat (heap_max (brks s))" unfolding arena_def by blast
  also have "\<dots> \<le> 2 ^ 16" using less_imp_le [OF unat_u16_lt [of "heap_max (brks s)"]] by (simp del: unat_u16_lt)
  finally show ?thesis .
qed

lemma arena_pos: "arena s n \<Longrightarrow> 0 < unat (heap s)"
  by (auto simp: arena_def heap_limits_def word_less_nat_alt)

lemma arena_cong:
  "arena s n \<Longrightarrow> heap s' = heap s \<Longrightarrow> brks s' = brks s \<Longrightarrow> heap_size s' = heap_size s \<Longrightarrow> arena s' n"
  unfolding arena_def by metis

lemma addr_nonzero: "arena s n \<Longrightarrow> x < n \<Longrightarrow> addr s x \<noteq> 0"
  using unat_addr [OF _ arena_bound, of x n s] arena_pos [of s n] by fastforce

text \<open>A block of the heap starts inside it.\<close>

lemma block_start: "block_ok n b \<Longrightarrow> fst b < n"
  using zero_less_power [of "2::nat" "snd b"] unfolding block_ok_def by linarith

lemma free_start: "heap_inv F A n \<Longrightarrow> x \<in> set (F i) \<Longrightarrow> x < n"
  using heap_invD(1) [of F A n "(x, i)"] block_start [of n "(x, i)"] by (simp add: in_frees)

lemma span_inside: "heap_inv F A n \<Longrightarrow> b \<in> A \<Longrightarrow> x \<in> span b \<Longrightarrow> x < n"
  using heap_invD(5) [of F A n] by blast

lemma held_not_free:
  assumes inv: "heap_inv F (insert (x, i) A) n" shows "x \<notin> set (F j)"
proof
  assume "x \<in> set (F j)"
  then have f: "(x, j) \<in> frees F" by (simp add: in_frees)
  then have "(x, j) \<noteq> (x, i)" using heap_invD(3) [OF inv] by blast
  then have "fst (x, i) \<notin> span (x, j)" using other_offset [OF heap_invD(2) [OF inv], of "(x, j)" "(x, i)"] f by blast
  then show False by (simp add: span_def)
qed

text \<open>The header of a block lies inside it: headers of two blocks share no byte.\<close>

lemma header_span: "block_ok n b \<Longrightarrow> fst b + 1 \<in> span b"
  using power_increasing [of 3 "snd b" "2::nat"] by (simp add: block_ok_def span_def)

lemma addr_Suc: "addr s x + 1 = addr s (x + 1)"
  by (simp add: ac_simps)

lemma span_all:
  assumes "heap_inv F A n" "b \<in> A \<union> frees F" "x \<in> span b" shows "x < n"
  using heap_invD(5) [OF assms(1)] assms(2,3) by blast

lemma byte_outside:
  assumes ar: "arena s n" and inv: "heap_inv F A n" and b: "b \<in> A \<union> frees F" "c \<in> A \<union> frees F" "b \<noteq> c"
    and y: "y \<in> span c"
  shows "addr s y \<noteq> addr s (fst b)" "addr s y \<noteq> addr s (fst b) + 1"
    "store16 m (addr s (fst b)) v (addr s y) = m (addr s y)"
proof -
  note inj = addr_inj [OF arena_bound [OF ar]] and lt = span_all [OF inv]
  have h: "fst b \<in> span b" "fst b + 1 \<in> span b"
    using span_nonempty header_span [OF heap_invD(1) [OF inv b(1)]] by blast+
  have ne: "y \<noteq> fst b" "y \<noteq> fst b + 1" using disjoint_blocksD [OF heap_invD(2) [OF inv] b] h y by blast+
  show 1: "addr s y \<noteq> addr s (fst b)" using inj [OF lt [OF b(2) y] lt [OF b(1) h(1)]] ne(1) by blast
  show 2: "addr s y \<noteq> addr s (fst b) + 1"
    unfolding addr_Suc using inj [OF lt [OF b(2) y] lt [OF b(1) h(2)]] ne(2) by blast
  show "store16 m (addr s (fst b)) v (addr s y) = m (addr s y)"
    unfolding store16_def using 1 2 by (metis fun_upd_other)
qed

lemma starts_apart:
  assumes ar: "arena s n" and inv: "heap_inv F A n" and b: "b \<in> A \<union> frees F" "c \<in> A \<union> frees F" "b \<noteq> c"
  shows "apart (addr s (fst b)) (addr s (fst c))"
proof -
  have c: "fst c \<in> span c" "fst c + 1 \<in> span c"
    using span_nonempty header_span [OF heap_invD(1) [OF inv b(2)]] by blast+
  show ?thesis
    unfolding apart_def using byte_outside(1,2) [OF ar inv b c(1)] byte_outside(1) [OF ar inv b c(2)]
    by (metis addr_Suc)
qed

lemma held_ok: "heap_inv F (insert c A) n \<Longrightarrow> b \<in> A \<Longrightarrow> block_ok n b"
  by (rule heap_invD(1)) auto

lemma keeps_headers:
  assumes ok: "\<And>b. b \<in> A \<Longrightarrow> block_ok n b" and k: "keeps s s' A" and h: "headers s A" shows "headers s' A"
  unfolding headers_def
proof
  fix b assume b: "b \<in> A"
  have "fst b \<in> span b" "fst b + 1 \<in> span b"
    using span_nonempty header_span [OF ok [OF b]] by blast+
  then have "load (mem s') (addr s' (fst b)) = load (mem s) (addr s (fst b))"
    using k b unfolding keeps_def load_def addr_Suc by metis
  then show "getindex (load (mem s') (addr s' (fst b))) = Some (snd b)" using h b by (simp add: headers_def)
qed

lemma keeps_subset: "keeps s s' B \<Longrightarrow> A \<subseteq> B \<Longrightarrow> keeps s s' A"
  unfolding keeps_def by blast

text \<open>Linking a claimed block into a list.\<close>

lemma fb_add_step:
  assumes ar: "arena s n" and l: "lists s F" and inv: "heap_inv F (insert (x, j) A) n" and na: "(x, j) \<notin> A"
    and i: "i \<le> MAX_INDEX"
  shows "lists (fb_add s i (addr s x)) (F(i := x # F i))" "keeps s (fb_add s i (addr s x)) A"
    "arena (fb_add s i (addr s x)) n"
proof -
  let ?s = "fb_add s i (addr s x)" and ?B = "insert (x, j) A \<union> frees F"
  have x: "x < n" using block_start [OF heap_invD(1) [OF inv, of "(x, j)"]] by simp
  have s: "heap ?s = heap s" "mem ?s = store16 (mem s) (addr s x) (fb_table s i)"
      "fb_table ?s = (fb_table s)(i := addr s x)"
    by (simp_all add: fb_add_def Let_def)
  have fr: "fl (store16 (mem s) (addr s x) v) p (map (addr s) (F k)) = fl (mem s) p (map (addr s) (F k))" for k p v
  proof (rule fl_frame)
    fix a assume "a \<in> set (map (addr s) (F k))"
    then obtain y where y: "a = addr s y" "y \<in> set (F k)" by auto
    then have "(y, k) \<in> ?B" "(x, j) \<noteq> (y, k)" using held_not_free [OF inv, of k] by (auto simp: in_frees)
    then show "apart (addr s x) a" using starts_apart [OF ar inv, of "(x, j)" "(y, k)"] y(1) by simp
  qed
  show "lists ?s (F(i := x # F i))"
    unfolding lists_def s
  proof (intro allI impI)
    fix k assume "k \<le> MAX_INDEX"
    then have "fl (mem s) (fb_table s k) (map (addr s) (F k))" using l by (simp add: lists_def)
    then show "fl (store16 (mem s) (addr s x) (fb_table s i)) (((fb_table s)(i := addr s x)) k)
        (map (addr s) ((F(i := x # F i)) k))"
      using fr addr_nonzero [OF ar x] by (cases "k = i") simp_all
  qed
  show "keeps s ?s A"
    unfolding keeps_def s
  proof (intro conjI ballI)
    fix b y assume b: "b \<in> A" "y \<in> span b"
    then have "(x, j) \<noteq> b" using na by auto
    then show "store16 (mem s) (addr s x) (fb_table s i) (addr s y) = mem s (addr s y)"
      using byte_outside(3) [OF ar inv, of "(x, j)" b y] b by simp
  qed simp
  show "arena ?s n" by (rule arena_cong [OF ar]) (simp_all add: fb_add_def Let_def)
qed

text \<open>Taking the first block of a list.\<close>

lemma fb_pop_empty: "lists s F \<Longrightarrow> i \<le> MAX_INDEX \<Longrightarrow> F i = [] \<Longrightarrow> fb_pop s i = (0, s)"
  by (auto simp: lists_def fb_pop_def dest: spec [of _ i])

lemma fb_pop_first:
  assumes l: "lists s F" and i: "i \<le> MAX_INDEX" and F: "F i = x # xs"
  shows "fb_pop s i = (addr s x, s\<lparr>fb_table := (fb_table s)(i := load (mem s) (addr s x))\<rparr>)"
    "lists (s\<lparr>fb_table := (fb_table s)(i := load (mem s) (addr s x))\<rparr>) (F(i := xs))"
proof -
  have f: "fl (mem s) (fb_table s i) (map (addr s) (F i))" using l i by (simp add: lists_def)
  then have t: "fb_table s i = addr s x" "addr s x \<noteq> 0" "fl (mem s) (load (mem s) (addr s x)) (map (addr s) xs)"
    using F by simp_all
  show "fb_pop s i = (addr s x, s\<lparr>fb_table := (fb_table s)(i := load (mem s) (addr s x))\<rparr>)"
    using t(1,2) by (simp add: fb_pop_def Let_def)
  show "lists (s\<lparr>fb_table := (fb_table s)(i := load (mem s) (addr s x))\<rparr>) (F(i := xs))"
    using l t(3) by (simp add: lists_def)
qed

text \<open>The search takes a block of the smallest order that has one, or finds every list empty.\<close>

lemma malloc_pop_ok:
  assumes "lists s F" "i + k = MAX_INDEX"
  shows "(\<exists>j x xs. i \<le> j \<and> j \<le> MAX_INDEX \<and> F j = x # xs \<and> (\<forall>m. i \<le> m \<longrightarrow> m < j \<longrightarrow> F m = []) \<and>
      malloc_pop s i k = (addr s x, j, s\<lparr>fb_table := (fb_table s)(j := load (mem s) (addr s x))\<rparr>)) \<or>
    (\<forall>m. i \<le> m \<longrightarrow> m \<le> MAX_INDEX \<longrightarrow> F m = []) \<and> malloc_pop s i k = (0, MAX_INDEX, s)"
  using assms
proof (induction k arbitrary: i)
  case 0
  then have i: "i = MAX_INDEX" by simp
  show ?case
  proof (cases "F i")
    case Nil
    then show ?thesis using fb_pop_empty [of s F i] 0 i by auto
  next
    case (Cons x xs)
    then show ?thesis using fb_pop_first [of s F i x xs] 0 i by - (rule disjI1, rule exI [of _ i], rule exI [of _ x], rule exI [of _ xs], auto simp: fun_upd_def)
  qed
next
  case (Suc k)
  show ?case
  proof (cases "F i")
    case Nil
    then have pop: "malloc_pop s i (Suc k) = malloc_pop s (Suc i) k" using fb_pop_empty [of s F i] Suc.prems by simp
    have skip: "(\<forall>m. i \<le> m \<longrightarrow> P m) \<longleftrightarrow> P i \<and> (\<forall>m. Suc i \<le> m \<longrightarrow> P m)" for P
      using le_eq_less_or_eq Suc_le_eq by auto
    have "Suc i + k = MAX_INDEX" using Suc.prems by simp
    note ih = Suc.IH [OF Suc.prems(1) this]
    consider (some) j x xs where "Suc i \<le> j" "j \<le> MAX_INDEX" "F j = x # xs" "\<forall>m. Suc i \<le> m \<longrightarrow> m < j \<longrightarrow> F m = []"
        "malloc_pop s (Suc i) k = (addr s x, j, s\<lparr>fb_table := (fb_table s)(j := load (mem s) (addr s x))\<rparr>)"
      | (none) "\<forall>m. Suc i \<le> m \<longrightarrow> m \<le> MAX_INDEX \<longrightarrow> F m = []" "malloc_pop s (Suc i) k = (0, MAX_INDEX, s)"
      using ih by blast
    then show ?thesis
    proof cases
      case some
      then show ?thesis using Nil unfolding pop skip [of "\<lambda>m. m < _ \<longrightarrow> F m = []"] by - (rule disjI1, rule exI [of _ j], rule exI [of _ x], rule exI [of _ xs], auto simp: fun_upd_def)
    next
      case none
      then show ?thesis using Nil unfolding pop skip [of "\<lambda>m. m \<le> _ \<longrightarrow> F m = []"] by blast
    qed
  next
    case (Cons x xs)
    then have pop: "fb_pop s i = (addr s x, s\<lparr>fb_table := (fb_table s)(i := load (mem s) (addr s x))\<rparr>)" and nz: "addr s x \<noteq> 0"
      using fb_pop_first [of s F i x xs] Suc.prems by (auto simp: lists_def dest: spec [of _ i])
    have "malloc_pop s i (Suc k) = (addr s x, i, s\<lparr>fb_table := (fb_table s)(i := load (mem s) (addr s x))\<rparr>)"
      using nz by (simp add: pop)
    then show ?thesis using Cons Suc.prems(2) by - (rule disjI1, rule exI [of _ i], rule exI [of _ x], rule exI [of _ xs], auto simp: fun_upd_def)
  qed
qed

text \<open>Splitting a block down to the order asked for.\<close>

lemma malloc_split_ok:
  assumes "arena s n" "lists s F" "heap_inv F (insert (x, index + k) A) n" "(x, index + k) \<notin> A"
    "3 \<le> index" "index + k \<le> MAX_INDEX"
  shows "\<exists>F'. let s' = malloc_split s (addr s x) index k in arena s' n \<and> lists s' F' \<and>
    heap_inv F' (insert (x, index) A) n \<and> (x, index) \<notin> A \<and> keeps s s' A \<and>
    (\<forall>j. set (F' j) \<subseteq> set (F j) \<union> (if j < index + k then {x + 2 ^ j} else {}))"
  using assms
proof (induction k arbitrary: s F)
  case 0
  then show ?case by (auto simp: keeps_refl)
next
  case (Suc k)
  let ?i = "index + k"
  have inv: "heap_inv F (insert (x, Suc ?i) A) n" and na: "(x, Suc ?i) \<notin> A" using Suc.prems by simp_all
  have ok: "2 ^ Suc ?i dvd x" using heap_invD(1) [OF inv, of "(x, Suc ?i)"] by (simp add: block_ok_def)
  then have b: "buddy ?i x = x + 2 ^ ?i" using buddy_cases(1) [of ?i x] by (simp add: dvd_mult_right)
  have split: "heap_inv (F(?i := (x + 2 ^ ?i) # F ?i)) (insert (x, ?i) A) n" "(x, ?i) \<notin> A"
    using split_inv [OF inv na] Suc.prems(5) by simp_all
  have claim: "heap_inv F (insert (x + 2 ^ ?i, ?i) (insert (x, ?i) A)) n \<and> (x + 2 ^ ?i, ?i) \<notin> insert (x, ?i) A"
    using claim_inv [OF split(1), of "x + 2 ^ ?i" ?i] by simp
  let ?s = "fb_add s ?i (addr s (x + 2 ^ ?i))"
  have step: "lists ?s (F(?i := (x + 2 ^ ?i) # F ?i))" "keeps s ?s (insert (x, ?i) A)" "arena ?s n"
    by (rule fb_add_step [OF Suc.prems(1,2) conjunct1 [OF claim] conjunct2 [OF claim]], use Suc.prems(6) in simp)+
  have k: "keeps s ?s A" using step(2) by (simp add: keeps_def)
  have "malloc_split s (addr s x) index (Suc k) = malloc_split ?s (addr ?s x) index k"
    by (simp add: getbuddy_addr b)
  moreover obtain F' where "let s' = malloc_split ?s (addr ?s x) index k in arena s' n \<and> lists s' F' \<and>
      heap_inv F' (insert (x, index) A) n \<and> (x, index) \<notin> A \<and> keeps ?s s' A"
      and sub: "\<And>j. set (F' j) \<subseteq> set ((F(?i := (x + 2 ^ ?i) # F ?i)) j) \<union> (if j < ?i then {x + 2 ^ j} else {})"
    using Suc.IH [OF step(3,1) split] Suc.prems(5,6) unfolding Let_def by auto
  moreover have "set (F' j) \<subseteq> set (F j) \<union> (if j < index + Suc k then {x + 2 ^ j} else {})" for j
    using sub [of j] by (auto split: if_splits)
  ultimately show ?case using keeps_trans [OF k] unfolding Let_def by metis
qed

lemma buddy_buddy: "2 ^ i dvd x \<Longrightarrow> buddy i (buddy i x) = x"
  by (simp add: buddy_def flip: xor.assoc)

lemma coalesced_subset: "coalesced F \<Longrightarrow> (\<And>i. set (G i) \<subseteq> set (F i)) \<Longrightarrow> coalesced G"
  unfolding coalesced_def by blast

lemma coalesced_split:
  assumes c: "coalesced F" and inv: "heap_inv F (insert (x, m) A) n" and inv': "heap_inv F' (insert (x, i) A) n"
    and sub: "\<And>j. set (F' j) \<subseteq> set (F j) \<union> (if j < m then {x + 2 ^ j} else {})"
  shows "coalesced F'"
  unfolding coalesced_def
proof (intro allI impI ballI notI)
  fix j y assume j: "j < MAX_INDEX" and y: "y \<in> set (F' j)" and b: "buddy j y \<in> set (F' j)"
  have al: "2 ^ j dvd y" using heap_invD(1) [OF inv', of "(y, j)"] y by (simp add: in_frees block_ok_def)
  have m: "2 ^ m dvd x" using heap_invD(1) [OF inv, of "(x, m)"] by (simp add: block_ok_def)
  have bx: "buddy j (x + 2 ^ j) = x" if "j < m"
  proof -
    have "2 ^ Suc j dvd x" using m that by (meson Suc_leI dvd_trans le_imp_power_dvd)
    then show ?thesis using buddy_cases(1) [of j x] buddy_buddy [of j x] by (simp add: dvd_mult_right)
  qed
  have nx: "x \<notin> set (F' j)" by (rule held_not_free [OF inv'])
  show False
  proof (cases "j < m \<and> (y = x + 2 ^ j \<or> buddy j y = x + 2 ^ j)")
    case True
    then have "buddy j y = x \<or> y = x" using bx buddy_buddy [OF al] by metis
    then show False using nx y b by auto
  next
    case False
    then have "y \<in> set (F j)" "buddy j y \<in> set (F j)" using sub [of j] y b by (auto split: if_splits)
    then show False using c j by (simp add: coalesced_def)
  qed
qed

text \<open>Taking a given block out of a list.\<close>

lemma fb_remove_absent:
  assumes "lists s F" "i \<le> MAX_INDEX" "a \<notin> set (map (addr s) (F i))" "a \<noteq> 0"
  shows "fb_remove s i a = Some (False, s)"
proof -
  have "fl (mem s) (next_of s (Entry i)) (map (addr s) (F i))"
    using assms(1,2) by (simp add: lists_def next_of_def)
  then obtain c where "fb_walk s (Entry i) a = Some c" "next_of s c = 0"
    using fb_walk_absent assms(3) by blast
  then show ?thesis using assms(4) by (simp add: fb_remove_def)
qed

lemma fb_remove_present:
  assumes ar: "arena s n" and l: "lists s F" and inv: "heap_inv F A n" and i: "i \<le> MAX_INDEX" and x: "x \<in> set (F i)"
  shows "\<exists>s'. fb_remove s i (addr s x) = Some (True, s') \<and> lists s' (F(i := remove1 x (F i))) \<and> keeps s s' A \<and>
    arena s' n"
proof -
  obtain ys zs where F: "F i = ys @ x # zs" and ny: "x \<notin> set ys" using split_list_first [OF x] by blast
  note inj = addr_inj [OF arena_bound [OF ar]] and lt = free_start [OF inv]
  let ?ys = "map (addr s) ys" and ?zs = "map (addr s) zs"
  let ?c = "if ?ys = [] then Entry i else Block (last ?ys)"
  have l': "fl (mem s) (next_of s (Entry i)) (?ys @ addr s x # ?zs)"
    using l i F by (auto simp: lists_def next_of_def dest: spec [of _ i])
  have nx: "addr s x \<notin> set ?ys" using ny inj lt [of _ i] x F by fastforce
  have walk: "fb_walk s (Entry i) (addr s x) = Some ?c" "next_of s ?c = addr s x"
    using fb_walk_present [OF l' nx] by simp_all
  define s' where "s' = set_next s ?c (load (mem s) (addr s x))"
  have rem: "fb_remove s i (addr s x) = Some (True, s')" using walk by (simp add: fb_remove_def s'_def)
  have d: "distinct (map (addr s) (F i))"
    using heap_invD(4) [OF inv, of i] inj lt [of _ i] by (auto simp: distinct_map inj_on_def)
  have r: "remove1 x (F i) = ys @ zs" using F ny by (simp add: remove1_append)
  show ?thesis
  proof (cases "ys = []")
    case True
    then have s': "s' = s\<lparr>fb_table := (fb_table s)(i := load (mem s) (addr s x))\<rparr>" by (simp add: s'_def set_next_def)
    have "F i = x # zs" using F True by simp
    then have "lists s' (F(i := remove1 x (F i)))"
      using fb_pop_first(2) [OF l i, of x zs] by (simp add: s' fun_upd_def)
    moreover have "keeps s s' A" by (simp add: s' keeps_def)
    moreover have "arena s' n" by (rule arena_cong [OF ar]) (simp_all add: s')
    ultimately show ?thesis using rem by blast
  next
    case False
    then have s': "s' = s\<lparr>mem := store16 (mem s) (addr s (last ys)) (load (mem s) (addr s x))\<rparr>"
      by (simp add: s'_def set_next_def last_map)
    have y: "last ys \<in> set (F i)" using False F by simp
    then have yf: "(last ys, i) \<in> A \<union> frees F" by (simp add: in_frees)
    have ap: "apart (addr s u) (addr s w)" if "(u, k) \<noteq> (w, l)" "u \<in> set (F k)" "w \<in> set (F l)" for u w k l
      using starts_apart [OF ar inv, of "(u, k)" "(w, l)"] that by (simp add: in_frees)
    have one: "fl (store16 (mem s) (last ?ys) (load (mem s) (addr s x))) (fb_table s i) (?ys @ ?zs)"
    proof (rule fl_unlink)
      show "fl (mem s) (fb_table s i) (?ys @ addr s x # ?zs)" using l' by (simp add: next_of_def)
      show "distinct (?ys @ addr s x # ?zs)" using d F by simp
      show "?ys \<noteq> []" using False by simp
      have eq: "set (?ys @ addr s x # ?zs) = addr s ` set (F i)" using F by auto
      fix u w assume "u \<in> set (?ys @ addr s x # ?zs)" "w \<in> set (?ys @ addr s x # ?zs)" "u \<noteq> w"
      then obtain u' w' where "u = addr s u'" "w = addr s w'" "u' \<in> set (F i)" "w' \<in> set (F i)" "u' \<noteq> w'"
        unfolding eq by blast
      then show "apart u w" using ap [of u' i w' i] by simp
    qed
    have other: "fl (store16 (mem s) (addr s (last ys)) v) p (map (addr s) (F k)) = fl (mem s) p (map (addr s) (F k))"
      if "k \<noteq> i" for k v p
      by (rule fl_frame) (use ap [OF _ y, of _ k] that in auto)
    have "lists s' (F(i := remove1 x (F i)))"
      unfolding lists_def s' r
    proof (intro allI impI)
      fix k assume "k \<le> MAX_INDEX"
      then show "fl (mem (s\<lparr>mem := store16 (mem s) (addr s (last ys)) (load (mem s) (addr s x))\<rparr>))
          (fb_table (s\<lparr>mem := store16 (mem s) (addr s (last ys)) (load (mem s) (addr s x))\<rparr>) k)
          (map (addr (s\<lparr>mem := store16 (mem s) (addr s (last ys)) (load (mem s) (addr s x))\<rparr>)) ((F(i := ys @ zs)) k))"
        using one l False other [of k] by (cases "k = i") (simp_all add: lists_def last_map)
    qed
    moreover have "keeps s s' A"
      unfolding keeps_def s'
    proof (intro conjI ballI)
      fix b w assume b: "b \<in> A" "w \<in> span b"
      have "(last ys, i) \<noteq> b" using heap_invD(3) [OF inv] y b(1) by (auto simp: in_frees)
      then have "store16 (mem s) (addr s (last ys)) v (addr s w) = mem s (addr s w)" for v
        using byte_outside(3) [OF ar inv yf, of b w] b by simp
      then show "mem (s\<lparr>mem := store16 (mem s) (addr s (last ys)) (load (mem s) (addr s x))\<rparr>) (addr s w) = mem s (addr s w)"
        by simp
    qed simp
    moreover have "arena s' n" by (rule arena_cong [OF ar]) (simp_all add: s')
    ultimately show ?thesis using rem by blast
  qed
qed

text \<open>The buddy of a block lies in the same page, so inside the heap.\<close>

lemma dvd_below:
  assumes "d dvd a" "d dvd n" "a < n" shows "a + d \<le> (n::nat)"
proof -
  obtain k m where "a = d * k" "n = d * m" using assms(1,2) by (auto elim!: dvdE)
  then have "k < m" using assms(3) by auto
  then have "d * Suc k \<le> d * m" by (intro mult_le_mono2) simp
  then show ?thesis using \<open>a = d * k\<close> \<open>n = d * m\<close> by simp
qed

lemma buddy_inside:
  assumes "block_ok n (x, i)" "2 ^ MAX_INDEX dvd n" "i < MAX_INDEX"
  shows "buddy i x < n"
proof (cases "2 ^ Suc i dvd x")
  case True
  have "2 ^ Suc i dvd n" using assms(2,3) by (meson Suc_leI dvd_trans le_imp_power_dvd)
  then have "x + 2 ^ Suc i \<le> n" using dvd_below [OF True] block_start [OF assms(1)] by simp
  moreover have "(0::nat) < 2 ^ i" by simp
  ultimately show ?thesis using buddy_cases(1) [of i x] True assms(1) unfolding block_ok_def power_Suc fst_conv snd_conv by linarith
next
  case False
  then show ?thesis using buddy_cases(2) [of i x] block_start [OF assms(1)] assms(1) by (simp add: block_ok_def)
qed

text \<open>The merging step: a held block and its free buddy become one held block.\<close>

lemma merge_step:
  assumes ar: "arena s n" and l: "lists s F" and inv: "heap_inv F (insert (x, i) A) n" and na: "(x, i) \<notin> A"
    and i: "i < MAX_INDEX" and b: "buddy i x \<in> set (F i)"
  defines "z \<equiv> min x (buddy i x)"
  shows "\<exists>s'. fb_remove s i (addr s (buddy i x)) = Some (True, s') \<and> arena s' n \<and>
      lists s' (F(i := remove1 (buddy i x) (F i))) \<and> keeps s s' A"
    "heap_inv (F(i := remove1 (buddy i x) (F i))) (insert (z, Suc i) A) n" "(z, Suc i) \<notin> A"
    "(if addr s x \<le> addr s (buddy i x) then addr s x else addr s (buddy i x)) = addr s z"
proof -
  have ok: "block_ok n (x, i)" using heap_invD(1) [OF inv] by simp
  have al: "2 ^ i dvd x" using ok by (simp add: block_ok_def)
  obtain s' where "fb_remove s i (addr s (buddy i x)) = Some (True, s')" "lists s' (F(i := remove1 (buddy i x) (F i)))"
      "keeps s s' (insert (x, i) A)" "arena s' n"
    using fb_remove_present [OF ar l inv _ b] i by auto
  moreover from this(3) have "keeps s s' A" by (simp add: keeps_def)
  ultimately show "\<exists>s'. fb_remove s i (addr s (buddy i x)) = Some (True, s') \<and> arena s' n \<and>
      lists s' (F(i := remove1 (buddy i x) (F i))) \<and> keeps s s' A" by blast
  have z: "2 ^ Suc i dvd z \<and> {(x, i), (buddy i x, i)} = {(z, i), (z + 2 ^ i, i)}"
    using buddy_cases [OF al] by (cases "2 ^ Suc i dvd x") (auto simp: z_def)
  have c: "heap_inv (F(i := remove1 (buddy i x) (F i))) (insert (buddy i x, i) (insert (x, i) A)) n"
      "(buddy i x, i) \<notin> insert (x, i) A"
    by (rule claim_inv [OF inv b])+
  have two: "insert (buddy i x, i) (insert (x, i) A) = insert (z, i) (insert (z + 2 ^ i, i) A)"
    using conjunct2 [OF z] by blast
  have nz: "(z, i) \<notin> A" "(z + 2 ^ i, i) \<notin> A" using conjunct2 [OF z] c(2) na by (auto simp: doubleton_eq_iff)
  show "heap_inv (F(i := remove1 (buddy i x) (F i))) (insert (z, Suc i) A) n" "(z, Suc i) \<notin> A"
    using merge_inv [OF c(1) [unfolded two] nz i conjunct1 [OF z]] by simp_all
  have "x < n" "buddy i x < n" using block_start [OF ok] buddy_inside [OF ok _ i] ar by (simp_all add: arena_def)
  then have "unat (addr s x) = unat (heap s) + x" "unat (addr s (buddy i x)) = unat (heap s) + buddy i x"
    using unat_addr arena_bound [OF ar] by blast+
  then show "(if addr s x \<le> addr s (buddy i x) then addr s x else addr s (buddy i x)) = addr s z"
    unfolding z_def word_le_nat_alt by (simp only: add_le_cancel_left min_def) simp
qed

lemma free_merge_ok:
  assumes "arena s n" "lists s F" "heap_inv F (insert (x, i) A) n" "(x, i) \<notin> A" "i + k = MAX_INDEX"
  shows "\<exists>z j s' F'. free_merge s (addr s x) i k = Some (addr s z, j, s') \<and> arena s' n \<and> lists s' F' \<and>
    heap_inv F' (insert (z, j) A) n \<and> (z, j) \<notin> A \<and> j \<le> MAX_INDEX \<and> keeps s s' A \<and>
    (j = MAX_INDEX \<or> buddy j z \<notin> set (F' j)) \<and> (\<forall>m. set (F' m) \<subseteq> set (F m)) \<and> i \<le> j"
  using assms
proof (induction k arbitrary: s F x i)
  case 0
  then show ?case using keeps_refl [of s A] by auto
next
  case (Suc k)
  have i: "i < MAX_INDEX" using Suc.prems(5) by simp
  have ok: "block_ok n (x, i)" using heap_invD(1) [OF Suc.prems(3)] by simp
  have bn: "buddy i x < n" using buddy_inside [OF ok _ i] Suc.prems(1) by (simp add: arena_def)
  show ?case
  proof (cases "buddy i x \<in> set (F i)")
    case False
    have "addr s (buddy i x) \<notin> set (map (addr s) (F i))"
      using False addr_inj [OF arena_bound [OF Suc.prems(1)] bn free_start [OF Suc.prems(3), of _ i]] by auto
    then have "fb_remove s i (addr s (buddy i x)) = Some (False, s)"
      using fb_remove_absent [OF Suc.prems(2)] i addr_nonzero [OF Suc.prems(1) bn] by simp
    then have "free_merge s (addr s x) i (Suc k) = Some (addr s x, i, s)" by (simp add: getbuddy_addr)
    then show ?thesis using Suc.prems False keeps_refl [of s A] i by (metis less_imp_le order_refl)
  next
    case True
    let ?z = "min x (buddy i x)"
    obtain t where t: "fb_remove s i (addr s (buddy i x)) = Some (True, t)" "arena t n"
        "lists t (F(i := remove1 (buddy i x) (F i)))" "keeps s t A"
      using merge_step(1) [OF Suc.prems(1-4) i True] by blast
    have h: "heap t = heap s" using t(4) by (simp add: keeps_def)
    have "free_merge s (addr s x) i (Suc k) = free_merge t (addr t ?z) (Suc i) k"
      using t(1) by (simp add: getbuddy_addr h merge_step(4) [OF Suc.prems(1-4) i True] del: add_left_cancel)
    moreover obtain z j s' F' where "free_merge t (addr t ?z) (Suc i) k = Some (addr t z, j, s')" "arena s' n"
        "lists s' F'" "heap_inv F' (insert (z, j) A) n" "(z, j) \<notin> A" "j \<le> MAX_INDEX" "keeps t s' A"
        "j = MAX_INDEX \<or> buddy j z \<notin> set (F' j)"
        "Suc i \<le> j" and sub: "\<forall>m. set (F' m) \<subseteq> set ((F(i := remove1 (buddy i x) (F i))) m)"
      using Suc.IH [OF t(2,3) merge_step(2,3) [OF Suc.prems(1-4) i True]] Suc.prems(5) by auto
    moreover have "\<forall>m. set (F' m) \<subseteq> set (F m)"
    proof
      fix m show "set (F' m) \<subseteq> set (F m)"
        using spec [OF sub, of m] set_remove1_subset [of "buddy i x" "F i"] by (cases "m = i") auto
    qed
    ultimately show ?thesis using keeps_trans [OF t(4)] h by (metis Suc_leD)
  qed
qed

section \<open>Growing the heap\<close>

lemma not_minus1: "unat (x :: u16) \<le> 61440 \<Longrightarrow> x \<noteq> - 1"
proof
  assume "unat x \<le> 61440" "x = - 1"
  moreover have "(- 1 :: u16) = 65535" by simp
  ultimately have "unat (65535 :: u16) \<le> 61440" by (simp only:)
  then show False by simp
qed

lemma sbrk_eq:
  "lib_brk b \<noteq> 0 \<Longrightarrow> lib_brk b + increment = e \<Longrightarrow> sbrk b increment =
     (case heap_brk b e of (new_brk, b') \<Rightarrow>
        if new_brk = - 1 \<or> new_brk < e then (- 1, b') else (lib_brk b, b'\<lparr>lib_brk := new_brk\<rparr>))"
  by (auto simp: sbrk_def Let_def split: prod.split)

lemma sbrk_grow:
  assumes ar: "arena s n"
  obtains (full) b where "sbrk (brks s) PAGE_SIZE = (- 1, b)" "arena (s\<lparr>brks := b\<rparr>) n"
      "unat (heap_max (brks s)) < unat (heap s) + n + 4096"
    | (grown) b r where "sbrk (brks s) PAGE_SIZE = (r, b)" "r \<noteq> - 1"
      "arena (s\<lparr>brks := b, heap_size := int16 (heap_size s + uint PAGE_SIZE)\<rparr>) (n + 2 ^ MAX_INDEX)"
proof -
  let ?b = "brks s" and ?e = "addr s (n + 4096)"
  have hl: "heap_limits ?b" and hb: "heap s = heap_base ?b" and d: "2 ^ MAX_INDEX dvd n"
      and le: "unat (heap s) + n \<le> unat (heap_max ?b)" and lib: "lib_brk ?b = addr s n"
      and sz: "word_of_int (heap_size s) = (of_nat n :: u16)"
    using ar unfolding arena_def by blast+
  have hl': "heap_max ?b \<le> 61440" "4096 dvd unat (heap_base ?b) \<longrightarrow> heap_max ?b < 61440"
    using hl unfolding heap_limits_def by blast+
  have "unat (heap_max ?b) \<le> 61440" using hl'(1) by (simp add: word_le_nat_alt)
  moreover have "4096 dvd unat (heap s) \<longrightarrow> unat (heap_max ?b) < 61440"
    using hl'(2) unfolding hb by (simp add: word_less_nat_alt)
  moreover have "4096 dvd n" using d by (simp add: MAX_INDEX_def)
  ultimately have lim: "0 < unat (heap s)" "unat (heap s) + n \<le> unat (heap_max ?b)" "unat (heap_max ?b) \<le> 61440"
      "4096 dvd unat (heap s) \<longrightarrow> unat (heap_max ?b) < 61440" "4096 dvd n"
      "heap_base ?b = heap s" "lib_brk ?b = addr s n" "word_of_int (heap_size s) = (of_nat n :: u16)"
    using arena_pos [OF ar] hb [symmetric] le lib sz by - assumption+
  have "unat (heap s) + n \<noteq> 61440"
  proof
    assume "unat (heap s) + n = 61440"
    moreover from this have "4096 dvd unat (heap s)"
      using dvd_add_left_iff [OF lim(5), of "unat (heap s)"] by simp
    ultimately show False using lim by linarith
  qed
  then have e: "unat ?e = unat (heap s) + n + 4096" "unat (addr s n) = unat (heap s) + n"
    using unat_addr [of "n + 4096" "n + 4097" s] unat_addr [of n "n + 1" s] lim by auto
  have nz: "addr s n \<noteq> 0" "?e \<noteq> 0" using e lim(1) by (metis add_is_0 less_numeral_extra(3) unat_0)+
  have P: "PAGE_SIZE = 4096" by (simp add: PAGE_SIZE_def MAX_INDEX_def)
  have ge: "\<not> ?e < heap s" using e(1) by (simp add: word_less_nat_alt del: of_nat_add)
  have gt: "?e > heap_max ?b \<longleftrightarrow> unat (heap_max ?b) < unat (heap s) + n + 4096"
    using e(1) by (simp add: word_less_nat_alt del: of_nat_add)
  have hb: "heap_brk ?b ?e = (if ?e > heap_max ?b then (- 1, ?b) else (?e, ?b\<lparr>cur_brk := ?e\<rparr>))"
    using nz(2) ge lim(6) by (simp add: heap_brk_def del: of_nat_add)
  have end': "lib_brk ?b + PAGE_SIZE = ?e" using lim(7) P by simp
  show ?thesis
  proof (cases "?e > heap_max ?b")
    case True
    then have "sbrk ?b PAGE_SIZE = (- 1, ?b)"
      using sbrk_eq [OF _ end'] hb nz(1) lim(7) by (simp del: of_nat_add)
    moreover have "arena (s\<lparr>brks := ?b\<rparr>) n" by (rule arena_cong [OF ar]) simp_all
    ultimately show ?thesis using full True gt by blast
  next
    case False
    have "unat ?e \<le> 61440" using False gt e(1) lim(3) by linarith
    then have m1: "?e \<noteq> - 1" using not_minus1 by blast
    have m2: "addr s n \<noteq> - 1" by (rule not_minus1) (use e(2) lim(2,3) in linarith)
    have sb: "sbrk ?b PAGE_SIZE = (addr s n, ?b\<lparr>cur_brk := ?e, lib_brk := ?e\<rparr>)"
      using sbrk_eq [OF _ end'] hb nz(1) lim(7) False m1 by (simp del: of_nat_add)
    have "word_of_int (int16 (heap_size s + 4096)) = (of_nat (n + 4096) :: u16)"
      using lim(8) by (simp add: word_of_int_int16)
    then have "arena (s\<lparr>brks := ?b\<lparr>cur_brk := ?e, lib_brk := ?e\<rparr>, heap_size := int16 (heap_size s + uint PAGE_SIZE)\<rparr>)
        (n + 2 ^ MAX_INDEX)"
      using ar False gt lim(5) by (simp add: arena_def heap_limits_def MAX_INDEX_def P)
    then show ?thesis using grown [OF sb m2] by blast
  qed
qed

section \<open>Allocation and release\<close>

text \<open>Once a block is held, splitting it and writing its header hands it out.\<close>

lemma malloc_finish:
  assumes ar: "arena s n" and l: "lists s F" and inv: "heap_inv F (insert (x, index + k) A) n" "(x, index + k) \<notin> A"
    and h: "headers s A" and c: "coalesced F" and i: "3 \<le> index" "index + k \<le> MAX_INDEX" and g: "getindex full_size = Some index"
  shows "\<exists>F' s'. malloc_split s (addr s x) index k = s' \<and> (x, index) \<notin> A \<and>
    rep (s'\<lparr>mem := store16 (mem s') (addr s x) full_size\<rparr>) F' (insert (x, index) A) n \<and>
    keeps s (s'\<lparr>mem := store16 (mem s') (addr s x) full_size\<rparr>) A"
proof -
  define s' where "s' = malloc_split s (addr s x) index k"
  obtain F' where sp: "arena s' n" "lists s' F'" "heap_inv F' (insert (x, index) A) n" "(x, index) \<notin> A" "keeps s s' A"
      and sub: "\<And>j. set (F' j) \<subseteq> set (F j) \<union> (if j < index + k then {x + 2 ^ j} else {})"
    using malloc_split_ok [OF ar l inv i] unfolding s'_def Let_def by blast
  have c': "coalesced F'" by (rule coalesced_split [OF c inv(1) sp(3) sub])
  let ?t = "s'\<lparr>mem := store16 (mem s') (addr s x) full_size\<rparr>"
  have hp: "heap s' = heap s" using sp(5) by (simp add: keeps_def)
  have fr: "fl (store16 (mem s') (addr s x) v) p (map (addr s) (F' k)) = fl (mem s') p (map (addr s) (F' k))" for k p v
  proof (rule fl_frame)
    fix a assume "a \<in> set (map (addr s) (F' k))"
    then obtain y where y: "a = addr s y" "y \<in> set (F' k)" by auto
    then have "(x, index) \<noteq> (y, k)" using held_not_free [OF sp(3), of k] by auto
    then show "apart (addr s x) a"
      using starts_apart [OF sp(1,3), of "(x, index)" "(y, k)"] y hp by (simp add: in_frees)
  qed
  have "lists ?t F'" using sp(2) by (simp add: lists_def hp fr)
  moreover have k: "keeps s' ?t A"
    unfolding keeps_def
  proof (intro conjI ballI)
    fix b y assume b: "b \<in> A" "y \<in> span b"
    then have "(x, index) \<noteq> b" using sp(4) by auto
    then show "mem ?t (addr s' y) = mem s' (addr s' y)"
      using byte_outside(3) [OF sp(1,3), of "(x, index)" b y] b hp by simp
  qed simp
  moreover have "headers ?t (insert (x, index) A)"
  proof -
    have "headers s' A" by (rule keeps_headers [OF held_ok [OF inv(1)] sp(5) h])
    then have "headers ?t A" using keeps_headers [OF held_ok [OF sp(3)] k] by blast
    then show ?thesis using g by (simp add: headers_def hp)
  qed
  moreover have "arena ?t n" by (rule arena_cong [OF sp(1)]) simp_all
  ultimately show ?thesis using sp(3,4) c' keeps_trans [OF sp(5) k] by (auto simp: rep_def s'_def)
qed

definition no_room :: "alloc \<Rightarrow> (nat \<Rightarrow> nat list) \<Rightarrow> nat \<Rightarrow> u16 \<Rightarrow> bool" where
  "no_room s F n sz \<longleftrightarrow>
     (\<forall>i \<le> MAX_INDEX. unat sz + 2 \<le> 2 ^ i \<longrightarrow> F i = []) \<and> unat (heap_max (brks s)) < unat (heap s) + n + 4096"

lemma malloc_rep:
  assumes r: "rep s F A n" and sz: "sz \<noteq> 0" "unat sz \<le> 4094"
  shows "(\<exists>s'. malloc s sz = Some (0, s') \<and> rep s' F A n \<and> keeps s s' A \<and> no_room s F n sz) \<or>
    (\<exists>x i s' F' m. malloc s sz = Some (addr s x + 2, s') \<and> (x, i) \<notin> A \<and> rep s' F' (insert (x, i) A) m \<and>
      unat sz + 2 \<le> 2 ^ i \<and> getindex (sz + 2) = Some i \<and> keeps s s' A)"
proof -
  have ar: "arena s n" and inv: "heap_inv F A n" and l: "lists s F" and h: "headers s A"
      and c: "coalesced F"
    using r unfolding rep_def by blast+
  have fs: "unat (sz + 2) = unat sz + 2" using sz(2) by (simp add: unat_plus_u16)
  obtain i where i: "getindex (sz + 2) = Some i" "3 \<le> i" "i \<le> 12" "unat sz + 2 \<le> 2 ^ i" "i = 3 \<or> 2 ^ (i - 1) < unat sz + 2"
    using getindex_ok [of "sz + 2"] sz(2) fs by auto
  have hs: "heap s \<noteq> 0" using arena_pos [OF ar] by auto
  have im: "i + (MAX_INDEX - i) = MAX_INDEX" "i \<le> MAX_INDEX" using i(3) by (simp_all add: MAX_INDEX_def)
  consider (free) j x xs where "i \<le> j" "j \<le> MAX_INDEX" "F j = x # xs"
      "malloc_pop s i (MAX_INDEX - i) = (addr s x, j, s\<lparr>fb_table := (fb_table s)(j := load (mem s) (addr s x))\<rparr>)"
    | (none) "\<forall>m. i \<le> m \<longrightarrow> m \<le> MAX_INDEX \<longrightarrow> F m = []" "malloc_pop s i (MAX_INDEX - i) = (0, MAX_INDEX, s)"
    using malloc_pop_ok [OF l im(1)] by blast
  then show ?thesis
  proof cases
    case free
    let ?t = "s\<lparr>fb_table := (fb_table s)(j := load (mem s) (addr s x))\<rparr>"
    have xin: "x \<in> set (F j)" using free(3) by simp
    have ht: "headers ?t A" using h by (simp add: headers_def)
    have lt: "lists ?t (F(j := xs))" using fb_pop_first(2) [OF l free(2,3)] .
    have cl: "heap_inv (F(j := xs)) (insert (x, i + (j - i)) A) n" "(x, i + (j - i)) \<notin> A"
      using claim_inv [OF inv xin] free(1,3) by simp_all
    have ct: "coalesced (F(j := xs))" by (rule coalesced_subset [OF c]) (use free(3) in auto)
    have at: "arena ?t n" by (rule arena_cong [OF ar]) simp_all
    obtain F' s' where f: "malloc_split ?t (addr s x) i (j - i) = s'" "(x, i) \<notin> A"
        "rep (s'\<lparr>mem := store16 (mem s') (addr s x) (sz + 2)\<rparr>) F' (insert (x, i) A) n"
        "keeps ?t (s'\<lparr>mem := store16 (mem s') (addr s x) (sz + 2)\<rparr>) A"
      using malloc_finish [OF at lt cl ht ct i(2) _ i(1)] free(1,2) by auto
    have nz: "addr s x \<noteq> 0" by (rule addr_nonzero [OF ar free_start [OF inv xin]])
    have "malloc s sz = Some (addr s x + 2, s'\<lparr>mem := store16 (mem s') (addr s x) (sz + 2)\<rparr>)"
      using sz(1) hs i(1) im(2) nz free(4) f(1) by (simp add: malloc_def sizeof_header_def)
    moreover have "keeps s (s'\<lparr>mem := store16 (mem s') (addr s x) (sz + 2)\<rparr>) A" using f(4) by (simp add: keeps_def)
    ultimately show ?thesis using f(2,3) i(1,4) by blast
  next
    case none
    show ?thesis
    proof (rule sbrk_grow [OF ar])
      fix b assume b: "sbrk (brks s) PAGE_SIZE = (- 1, b)" "arena (s\<lparr>brks := b\<rparr>) n"
        "unat (heap_max (brks s)) < unat (heap s) + n + 4096"
      have m: "malloc s sz = Some (0, s\<lparr>brks := b\<rparr>)"
        using sz(1) hs i(1) im(2) none(2) b(1) by (simp add: malloc_def sizeof_header_def Let_def)
      have "F k = []" if "k \<le> MAX_INDEX" "unat sz + 2 \<le> 2 ^ k" for k
      proof (cases "i \<le> k")
        case False
        then have "3 \<le> k \<or> F k = []" using heap_invD(1) [OF inv, of "(hd (F k), k)"]
          by (cases "F k") (auto simp: in_frees block_ok_def)
        moreover have "(2::nat) ^ k \<le> 2 ^ (i - 1)" using False by (intro power_increasing) auto
        then have "\<not> 2 ^ (i - 1) < unat sz + 2" using that(2) by linarith
        ultimately show ?thesis using i(5) False by auto
      qed (use none(1) that in blast)
      then have "no_room s F n sz" using b(3) by (simp add: no_room_def)
      moreover have "rep (s\<lparr>brks := b\<rparr>) F A n" using b(2) inv l h c by (simp add: rep_def lists_def headers_def)
      moreover have "keeps s (s\<lparr>brks := b\<rparr>) A" by (simp add: keeps_def)
      ultimately show ?thesis using m by blast
    next
      fix b r assume b: "sbrk (brks s) PAGE_SIZE = (r, b)" "r \<noteq> - 1"
        "arena (s\<lparr>brks := b, heap_size := int16 (heap_size s + uint PAGE_SIZE)\<rparr>) (n + 2 ^ MAX_INDEX)"
      let ?t = "s\<lparr>brks := b, heap_size := int16 (heap_size s + uint PAGE_SIZE)\<rparr>"
      have z: "heap s + word_of_int (heap_size s) = addr s n" "2 ^ MAX_INDEX dvd n"
        using ar by (simp_all add: arena_def)
      have g: "heap_inv F (insert (n, i + (MAX_INDEX - i)) A) (n + 2 ^ MAX_INDEX)" "(n, i + (MAX_INDEX - i)) \<notin> A"
        using grow_inv [OF inv z(2)] im(1) by simp_all
      have lt: "lists ?t F" "headers ?t A" using l h by (simp_all add: lists_def headers_def)
      obtain F' s' where f: "malloc_split ?t (addr s n) i (MAX_INDEX - i) = s'" "(n, i) \<notin> A"
          "rep (s'\<lparr>mem := store16 (mem s') (addr s n) (sz + 2)\<rparr>) F' (insert (n, i) A) (n + 2 ^ MAX_INDEX)"
          "keeps ?t (s'\<lparr>mem := store16 (mem s') (addr s n) (sz + 2)\<rparr>) A"
        using malloc_finish [OF b(3) lt(1) g lt(2) c i(2) _ i(1)] im by auto
      have "malloc s sz = Some (addr s n + 2, s'\<lparr>mem := store16 (mem s') (addr s n) (sz + 2)\<rparr>)"
        using sz(1) hs i(1) im(2) none(2) b(1,2) f(1) z(1) by (simp add: malloc_def sizeof_header_def Let_def)
      moreover have "keeps s (s'\<lparr>mem := store16 (mem s') (addr s n) (sz + 2)\<rparr>) A" using f(4) by (simp add: keeps_def)
      ultimately show ?thesis using f(2,3) i(1,4) by blast
    qed
  qed
qed

lemma coalesced_push:
  assumes c: "coalesced F" and z: "2 ^ j dvd z" "z \<notin> set (F j)" and b: "j = MAX_INDEX \<or> buddy j z \<notin> set (F j)"
    and al: "\<And>y. y \<in> set (F j) \<Longrightarrow> 2 ^ j dvd y"
  shows "coalesced (F(j := z # F j))"
  unfolding coalesced_def
proof (intro allI impI ballI notI)
  fix i y assume i: "i < MAX_INDEX" and y: "y \<in> set ((F(j := z # F j)) i)" and by': "buddy i y \<in> set ((F(j := z # F j)) i)"
  have self: "buddy i w \<noteq> w" for w
    by (metis buddy_def power_not_zero xor_self_eq xor.assoc xor.right_neutral xor.left_neutral zero_neq_numeral)
  show False
  proof (cases "i = j")
    case True
    then show False
      using i y by' b c self [of z] buddy_buddy [OF al, of y] unfolding coalesced_def by auto
  next
    case False
    then show False using i y by' c by (auto simp: coalesced_def)
  qed
qed

lemma ptr_nonzero:
  assumes ar: "arena s n" and ok: "block_ok n (x, i)" shows "addr s x + 2 \<noteq> 0"
proof -
  have "(8::nat) \<le> 2 ^ i" using ok power_increasing [of 3 i "2::nat"] by (simp add: block_ok_def)
  then have "x + 2 < n" using ok by (simp add: block_ok_def)
  then show ?thesis using addr_nonzero [OF ar, of "x + 2"] by (simp add: ac_simps)
qed

lemma free_rep:
  assumes r: "rep s F A n" and b: "(x, i) \<in> A"
  shows "\<exists>s' F'. free s (addr s x + 2) = Some s' \<and> rep s' F' (A - {(x, i)}) n \<and> keeps s s' (A - {(x, i)}) \<and>
    (\<exists>j. i \<le> j \<and> j \<le> MAX_INDEX \<and> F' j \<noteq> [])"
proof -
  let ?A = "A - {(x, i)}"
  have ar: "arena s n" and l: "lists s F" and h: "headers s A" and c: "coalesced F"
      and inv: "heap_inv F (insert (x, i) ?A) n" and na: "(x, i) \<notin> ?A"
    using r b unfolding rep_def by (auto simp: insert_absorb)
  have ok: "block_ok n (x, i)" using heap_invD(1) [OF inv] by simp
  note nz = ptr_nonzero [OF ar ok]
  have g: "getindex (load (mem s) (addr s x)) = Some i" using h b unfolding headers_def by fastforce
  have im: "i + (MAX_INDEX - i) = MAX_INDEX" using ok by (simp add: block_ok_def)
  obtain z j t F' where m: "free_merge s (addr s x) i (MAX_INDEX - i) = Some (addr s z, j, t)" "arena t n" "lists t F'"
      "heap_inv F' (insert (z, j) ?A) n" "(z, j) \<notin> ?A" "j \<le> MAX_INDEX" "keeps s t ?A"
      "j = MAX_INDEX \<or> buddy j z \<notin> set (F' j)" "\<forall>m. set (F' m) \<subseteq> set (F m)" "i \<le> j"
    using free_merge_ok [OF ar l inv na im] by blast
  have hp: "heap t = heap s" using m(7) by (simp add: keeps_def)
  let ?s = "fb_add t j (addr t z)"
  have st: "lists ?s (F'(j := z # F' j))" "keeps t ?s ?A" "arena ?s n"
    by (rule fb_add_step [OF m(2,3,4,5,6)])+
  have "coalesced F'" using coalesced_subset [OF c] m(9) by blast
  then have "coalesced (F'(j := z # F' j))"
  proof (rule coalesced_push)
    show "2 ^ j dvd z" using heap_invD(1) [OF m(4), of "(z, j)"] by (simp add: block_ok_def)
    show "z \<notin> set (F' j)" by (rule held_not_free [OF m(4)])
    show "2 ^ j dvd y" if "y \<in> set (F' j)" for y
      using heap_invD(1) [OF m(4), of "(y, j)"] that by (simp add: block_ok_def in_frees)
  qed (rule m(8))
  moreover have k: "keeps s ?s ?A" by (rule keeps_trans [OF m(7) st(2)])
  moreover have "headers s ?A" using h by (simp add: headers_def)
  then have "headers ?s ?A" using keeps_headers [OF held_ok [OF inv] k] by blast
  moreover have "free s (addr s x + 2) = Some ?s"
    using nz g m(1) hp by (simp add: free_def sizeof_header_def)
  moreover have "(F'(j := z # F' j)) j \<noteq> []" by simp
  ultimately show ?thesis using st release_inv [OF m(4,5)] m(6,10) unfolding rep_def by blast
qed

section \<open>Runs of the allocator\<close>

text \<open>
  The state after \<^verbatim>\<open>heap_initialize\<close> with the library's variables zeroed, and what the program may do:
  allocate between 1 and 4094 bytes, free a block it holds, write into the bytes it was given.
\<close>

definition heap_boot :: "u16 \<Rightarrow> u16 \<Rightarrow> (u16 \<Rightarrow> u8) \<Rightarrow> alloc" where
  "heap_boot start end' m =
     \<lparr>heap = 0, heap_size = 0, fb_table = (\<lambda>_. 0), mem = m,
      brks = heap_initialize \<lparr>heap_base = 0, heap_max = 0, cur_brk = 0, lib_brk = 0\<rparr> start end'\<rparr>"

inductive heap_run :: "alloc \<Rightarrow> block set \<Rightarrow> bool" where
  boot: "heap_limits (brks (heap_boot start end' m)) \<Longrightarrow> heap_run (heap_boot start end' m) {}"
| alloc: "\<lbrakk>heap_run s A; sz \<noteq> 0; unat sz \<le> 4094; malloc s sz = Some (p, s'); p \<noteq> 0; getindex (sz + 2) = Some i\<rbrakk> \<Longrightarrow>
    heap_run s' (insert (unat (p - 2 - heap s'), i) A)"
| refuse: "\<lbrakk>heap_run s A; sz \<noteq> 0; unat sz \<le> 4094; malloc s sz = Some (0, s')\<rbrakk> \<Longrightarrow> heap_run s' A"
| release: "\<lbrakk>heap_run s A; (x, i) \<in> A; free s (addr s x + 2) = Some s'\<rbrakk> \<Longrightarrow> heap_run s' (A - {(x, i)})"
| store: "\<lbrakk>heap_run s A; (x, i) \<in> A; x + 2 \<le> y; y < x + 2 ^ i\<rbrakk> \<Longrightarrow> heap_run (s\<lparr>mem := (mem s)(addr s y := v)\<rparr>) A"

definition fresh :: "alloc \<Rightarrow> bool" where
  "fresh s \<longleftrightarrow> heap s = 0 \<and> heap_size s = 0 \<and> fb_table s = (\<lambda>_. 0) \<and> heap_limits (brks s) \<and>
     cur_brk (brks s) = heap_base (brks s) \<and> lib_brk (brks s) = 0"

definition started :: "alloc \<Rightarrow> alloc" where
  "started s = s\<lparr>heap := heap_base (brks s), brks := (brks s)\<lparr>lib_brk := heap_base (brks s)\<rparr>\<rparr>"

lemma started_rep: "fresh s \<Longrightarrow> rep (started s) (\<lambda>_. []) {} 0"
  by (auto simp: fresh_def started_def rep_def arena_def lists_def headers_def heap_inv_def disjoint_blocks_def
      frees_def coalesced_def heap_limits_def word_le_nat_alt)

lemma malloc_started: "fresh s \<Longrightarrow> malloc s sz = (if sz = 0 then Some (0, s) else malloc (started s) sz)"
proof -
  assume f: "fresh s"
  let ?b = "brks s"
  have nz: "heap_base ?b \<noteq> 0" "\<not> heap_max ?b < heap_base ?b" using f by (auto simp: fresh_def heap_limits_def)
  have m1: "heap_base ?b \<noteq> - 1"
    by (rule not_minus1) (use f in \<open>auto simp: fresh_def heap_limits_def word_le_nat_alt\<close>)
  have "?b\<lparr>cur_brk := heap_base ?b, lib_brk := v\<rparr> = ?b\<lparr>lib_brk := v\<rparr>" for v
    using f by (cases ?b) (auto simp: fresh_def)
  then have "sbrk ?b 0 = (heap_base ?b, ?b\<lparr>lib_brk := heap_base ?b\<rparr>)"
    using f nz m1 by (simp add: sbrk_def heap_brk_def fresh_def Let_def)
  then show ?thesis using f nz by (simp add: malloc_def fresh_def started_def Let_def)
qed

text \<open>In a run the allocator is fresh, or its structures represent the blocks handed out.\<close>

definition run_inv :: "alloc \<Rightarrow> block set \<Rightarrow> bool" where
  "run_inv s A \<longleftrightarrow> fresh s \<and> A = {} \<or> (\<exists>F n. rep s F A n)"

lemma keeps_empty: "heap s' = heap s \<Longrightarrow> keeps s s' {}"
  by (simp add: keeps_def)

lemma malloc_run:
  assumes r: "run_inv s A" and sz: "sz \<noteq> 0" "unat sz \<le> 4094"
  obtains (refused) s' where "malloc s sz = Some (0, s')" "run_inv s' A" "A \<noteq> {} \<Longrightarrow> keeps s s' A"
    | (given) x i s' where "malloc s sz = Some (addr s' x + 2, s')" "(x, i) \<notin> A" "run_inv s' (insert (x, i) A)"
      "unat sz + 2 \<le> 2 ^ i" "getindex (sz + 2) = Some i" "A \<noteq> {} \<Longrightarrow> keeps s s' A"
proof -
  obtain t F n where t: "rep t F A n" "malloc s sz = malloc t sz" "A \<noteq> {} \<Longrightarrow> t = s"
  proof (cases "fresh s \<and> A = {}")
    case True
    then show ?thesis using that [of "started s"] started_rep malloc_started sz(1) by auto
  next
    case False
    then show ?thesis using that r unfolding run_inv_def by blast
  qed
  have "run_inv u B" if "rep u G B m" for u G B m using that unfolding run_inv_def by blast
  moreover have "heap u = heap t" if "keeps t u A" for u using that by (simp add: keeps_def)
  ultimately show ?thesis
    using malloc_rep [OF t(1) sz] t(2,3) refused given by metis
qed

lemma getindex_le: "unat sz \<le> 2 ^ 12 \<Longrightarrow> getindex sz = Some i \<Longrightarrow> i \<le> 12"
  by (metis getindex_ok option.inject)

lemma block_unique:
  assumes r: "run_inv s (insert (x, i) A)" shows "unat (addr s x + 2 - 2 - heap s) = x"
proof -
  obtain F n where rep: "rep s F (insert (x, i) A) n" using r unfolding run_inv_def by auto
  then have "x < n" using block_start [OF heap_invD(1), of F "insert (x, i) A" n "(x, i)"] unfolding rep_def by simp
  moreover have "unat (heap s) + n \<le> 2 ^ 16" using rep arena_bound unfolding rep_def by blast
  ultimately show ?thesis by (simp add: unat_of_nat)
qed

lemma run_ptr: "run_inv s (insert (x, i) A) \<Longrightarrow> addr s x + 2 \<noteq> 0"
  using ptr_nonzero heap_invD(1) unfolding run_inv_def rep_def by blast

lemma rep_store:
  assumes r: "rep s F A n" and b: "(x, i) \<in> A" and y: "x + 2 \<le> y" "y < x + 2 ^ i"
  shows "rep (s\<lparr>mem := (mem s)(addr s y := v)\<rparr>) F A n"
proof -
  let ?t = "s\<lparr>mem := (mem s)(addr s y := v)\<rparr>"
  have ar: "arena s n" and inv: "heap_inv F A n" and l: "lists s F" and h: "headers s A" and c: "coalesced F"
    using r unfolding rep_def by blast+
  have ys: "y \<in> span (x, i)" using y by (simp add: span_def)
  then have yn: "y < n" by (rule span_inside [OF inv b])
  note inj = addr_inj [OF arena_bound [OF ar]]
  have same: "load ((mem s)(addr s y := v)) (addr s (fst d)) = load (mem s) (addr s (fst d))" if d: "d \<in> A \<union> frees F" for d
  proof -
    have h: "fst d \<in> span d" "fst d + 1 \<in> span d"
      using span_nonempty header_span [OF heap_invD(1) [OF inv d]] by blast+
    have "y \<noteq> fst d \<and> y \<noteq> fst d + 1"
    proof (cases "d = (x, i)")
      case False
      then show ?thesis using disjoint_blocksD [OF heap_invD(2) [OF inv], of "(x, i)" d] b d ys h by blast
    qed (use y in auto)
    then have "addr s (fst d) \<noteq> addr s y" "addr s (fst d) + 1 \<noteq> addr s y"
      unfolding addr_Suc using inj [OF span_all [OF inv d h(1)] yn] inj [OF span_all [OF inv d h(2)] yn] by metis+
    then show ?thesis unfolding load_def by (metis fun_upd_other)
  qed
  have "fl ((mem s)(addr s y := v)) p (map (addr s) (F k)) = fl (mem s) p (map (addr s) (F k))" for p k
    by (rule fl_cong) (use same [of "(_, k)"] in \<open>auto simp: in_frees\<close>)
  then have "lists ?t F" using l by (simp add: lists_def)
  moreover have "headers ?t A" using h same by (simp add: headers_def)
  moreover have "arena ?t n" by (rule arena_cong [OF ar]) simp_all
  ultimately show ?thesis using inv c by (simp add: rep_def)
qed

lemma heap_run_inv: "heap_run s A \<Longrightarrow> run_inv s A"
proof (induction rule: heap_run.induct)
  case (boot start end' m)
  then show ?case by (auto simp: run_inv_def fresh_def heap_boot_def heap_initialize_def)
next
  case (alloc s A sz p s' i)
  show ?case
  proof (rule malloc_run [OF alloc.IH alloc.hyps(2,3)])
    fix x j t assume t: "malloc s sz = Some (addr t x + 2, t)" "run_inv t (insert (x, j) A)" "getindex (sz + 2) = Some j"
    then have "p = addr s' x + 2" "t = s'" "j = i" using alloc.hyps by simp_all
    then show ?thesis using t(2) block_unique [of s' x i A] by simp
  qed (use alloc.hyps in simp)
next
  case (refuse s A sz s')
  show ?case
  proof (rule malloc_run [OF refuse.IH refuse.hyps(2,3)])
    fix x j t assume t: "malloc s sz = Some (addr t x + 2, t)" "run_inv t (insert (x, j) A)"
    then show ?thesis using run_ptr refuse.hyps by simp
  qed (use refuse.hyps in simp)
next
  case (release s A x i s')
  then obtain F n where "rep s F A n" unfolding run_inv_def by auto
  then show ?case using free_rep [OF _ release.hyps(2)] release.hyps(3) unfolding run_inv_def by fastforce
next
  case (store s A x i y v)
  then obtain F n where "rep s F A n" unfolding run_inv_def by auto
  then show ?case using rep_store [OF _ store.hyps(2-4)] unfolding run_inv_def by blast
qed

section \<open>Properties\<close>




text \<open>A sample run: a heap from \<^verbatim>\<open>0x4000\<close> to \<^verbatim>\<open>0xE000\<close> and an allocation of 4094 bytes, a whole page.\<close>

definition sample_heap :: alloc where
  "sample_heap = heap_boot 0x4000 0xE000 (\<lambda>_. 0)"

definition sample_heap1 :: alloc where
  "sample_heap1 =
     \<lparr>heap = 0x4000, heap_size = 4096, fb_table = (\<lambda>_. 0), mem = store16 (\<lambda>_. 0) 0x4000 0x1000,
      brks = \<lparr>heap_base = 0x4000, heap_max = 0xE000, cur_brk = 0x5000, lib_brk = 0x5000\<rparr>\<rparr>"

lemma sample_run0: "heap_run sample_heap {}"
  unfolding sample_heap_def
  by (rule heap_run.boot) (simp add: heap_limits_def heap_boot_def heap_initialize_def)

lemma sample_getindex: "getindex 4096 = Some 12"
  by (simp add: getindex_def min_index MIN_SIZE_def getindex_loop.simps)

lemma sample_malloc: "malloc sample_heap 4094 = Some (0x4002, sample_heap1)"
  by (simp add: malloc_def sample_heap_def sample_heap1_def heap_boot_def heap_initialize_def sbrk_def heap_brk_def
      sizeof_header_def sample_getindex MAX_INDEX_def fb_pop_def PAGE_SIZE_def int16_id in_int16_def)

lemma sample_run1: "heap_run sample_heap1 {(0, 12)}"
proof -
  have "heap_run sample_heap1 (insert (unat (0x4002 - 2 - heap sample_heap1), 12) {})"
    by (rule heap_run.alloc [OF sample_run0 _ _ sample_malloc]) (simp_all add: sample_getindex)
  then show ?thesis by (simp add: sample_heap1_def)
qed




section \<open>Sizes out of range\<close>

lemma getindex_loop_halts: "getindex_loop sz bs i = Some r \<Longrightarrow> \<exists>k. \<not> push_bit k bs < sz"
proof (rule getindex_loop.raw_induct [where P = "\<lambda>sz bs i r. \<exists>k. \<not> push_bit k bs < sz"])
  fix loop :: "u16 \<Rightarrow> u16 \<Rightarrow> nat \<Rightarrow> nat option" and sz bs :: u16 and i r
  assume IH: "\<And>sz bs i r. loop sz bs i = Some r \<Longrightarrow> \<exists>k. \<not> push_bit k bs < sz"
    and r: "(if bs < sz then loop sz (push_bit 1 bs) (i + 1) else Some i) = Some r"
  show "\<exists>k. \<not> push_bit k bs < sz"
  proof (cases "bs < sz")
    case True
    then have "loop sz (push_bit 1 bs) (i + 1) = Some r" using r by (simp only: if_True)
    then obtain k where "\<not> push_bit k (push_bit 1 bs) < sz" using IH by blast
    then show ?thesis by (intro exI [of _ "k + 1"]) (simp add: push_bit_push_bit del: One_nat_def)
  next
    case False
    then show ?thesis by (intro exI [of _ 0]) simp
  qed
qed

lemma push_bit_u16: "unat (push_bit k MIN_SIZE) \<le> 32768"
proof (cases "k < 13")
  case True
  then have p: "unat (2 ^ k :: u16) \<le> 2 ^ 12" using power_increasing [of k 12 "2::nat"] by (simp add: unat_u16_pow)
  have "unat (push_bit k MIN_SIZE) \<le> unat (2 ^ k :: u16) * unat MIN_SIZE"
    by (simp add: push_bit_eq_mult unat_word_ariths mult.commute)
  also have "\<dots> \<le> 2 ^ 12 * 8" by (rule mult_le_mono [OF p]) (simp add: MIN_SIZE_def)
  finally show ?thesis by simp
next
  case False
  have "push_bit k MIN_SIZE = push_bit (k + 3) (1 :: u16)"
    by (simp add: MIN_SIZE_def push_bit_eq_mult power_add)
  also have "\<dots> = 0" using False by (intro bit_eqI) (simp add: bit_simps)
  finally show ?thesis by simp
qed

lemma getindex_stuck: "32768 < unat sz \<Longrightarrow> getindex sz = None"
  using getindex_loop_halts [of sz MIN_SIZE 3] push_bit_u16
  by (cases "getindex_loop sz MIN_SIZE 3") (auto simp: getindex_def min_index word_less_nat_alt dest: le_less_trans)

text \<open>
  The limits of \<^verbatim>\<open>malloc\<close>'s 16-bit sizes.  NULL is returned for a request of 0 bytes and for those
  from 4095 to 32766 bytes.  From 32767 to 65533 bytes the loop of \<^verbatim>\<open>getindex\<close>, whose power of two wraps to
  0, never ends.  For 65534 and 65535 bytes the size with its header wraps to 0 and 1: the request is
  treated as one for a block of 8 bytes.
\<close>

theorem malloc_size_limits:
  assumes "heap s \<noteq> 0"
  shows "malloc s 0 = Some (0, s) \<and>
    (4095 \<le> unat sz \<and> unat sz \<le> 32766 \<longrightarrow> malloc s sz = Some (0, s)) \<and>
    (32767 \<le> unat sz \<and> unat sz \<le> 65533 \<longrightarrow> malloc s sz = None) \<and>
    (65534 \<le> unat sz \<longrightarrow> getindex (sz + sizeof_header) = Some 3)"
proof (intro conjI impI)
  show "malloc s 0 = Some (0, s)" by (simp add: malloc_def)
  have add: "unat (sz + sizeof_header) = unat sz + 2" if "unat sz \<le> 65533"
    using that by (simp add: unat_plus_u16 sizeof_header_def)
  have nz: "sz \<noteq> 0" if "4095 \<le> unat sz" using that by auto
  show "malloc s sz = Some (0, s)" if sz: "4095 \<le> unat sz \<and> unat sz \<le> 32766"
  proof -
    obtain j where j: "getindex (sz + sizeof_header) = Some j" "unat sz + 2 \<le> 2 ^ j"
      using getindex_upto [of "sz + sizeof_header" 15] sz add by auto
    have "\<not> j \<le> 12" using power_increasing [of j 12 "2::nat"] j(2) sz by auto
    then show ?thesis using j(1) nz sz assms by (simp add: malloc_def MAX_INDEX_def)
  qed
  show "malloc s sz = None" if "32767 \<le> unat sz \<and> unat sz \<le> 65533"
    using that nz assms getindex_stuck [of "sz + sizeof_header"] add by (simp add: malloc_def)
  show "getindex (sz + sizeof_header) = Some 3" if "65534 \<le> unat sz"
  proof -
    have "unat (sz + sizeof_header) = (unat sz + 2) mod 65536" by (simp add: unat_plus_u16 sizeof_header_def)
    also have "\<dots> = (unat sz + 2 - 65536) mod 65536" by (rule le_mod_geq) (use that in linarith)
    also have "\<dots> = unat sz - 65534" by (subst mod_less) (use that unat_u16_lt [of sz] in linarith)+
    finally have "unat (sz + sizeof_header) \<le> 8" using unat_u16_lt [of sz] by linarith
    then have "unat (sz + sizeof_header) \<le> 2 ^ 3" by simp
    then show ?thesis using getindex_upto [of "sz + sizeof_header" 3] by auto
  qed
qed

theorem malloc_size_limits_witness: "malloc sample_heap1 40000 = None \<and> malloc sample_heap1 5000 = Some (0, sample_heap1)"
  using malloc_size_limits [of sample_heap1 40000] malloc_size_limits [of sample_heap1 5000]
  by (simp add: sample_heap1_def)

text \<open>
  The size of a \<^verbatim>\<open>calloc\<close> is the product of its arguments modulo \<open>2 ^ 16\<close>, with no check: 4097
  objects of 16 bytes get the 16 bytes of one.
\<close>

theorem calloc_wraps: "calloc s 4097 16 = calloc s 1 16"
proof -
  have "(4097 * 16 :: u16) = 1 * 16" by simp
  then show ?thesis unfolding calloc_def by (simp only:)
qed

end
