(* ===== verification/Cfi.thy ===== *)
theory Cfi
  imports Subdev Board
begin

text \<open>
  The flash driver (\<^verbatim>\<open>kernel/drivers/block/cfi/cfi.c\<close>): block reads by far copies, block writes as the
  erasure of a sector followed by the programming of its bytes, each with the polling of the toggle
  bit, and the probe of the chip the board declares.

  The chip is not part of the program: the driver works on a \<open>bus\<close>, reads and writes of bytes at far
  addresses (segment in the upper and offset in the lower half) on a state \<open>'h\<close>.  What the driver
  relies on of the chip is the locale \<open>flash_chip\<close>, with the commands of the SST39SF data sheet; it is
  interpreted on a small state machine, \<open>sst39\<close>.  As the polling may not end, the state behind the
  block device is an option, \<open>None\<close> being a machine the driver never gives back.
\<close>

record 'h bus =
  bus_rd :: "u32 \<Rightarrow> 'h \<Rightarrow> u8 \<times> 'h"
  bus_wr :: "u32 \<Rightarrow> u8 \<Rightarrow> 'h \<Rightarrow> 'h"

section \<open>Far addresses\<close>

text \<open>Incrementing a far pointer changes its offset only, as the string instructions of \<^verbatim>\<open>fmemcpy\<close> do.\<close>

definition far_inc :: "u32 \<Rightarrow> u32" where
  "far_inc a = (a AND 0xFFFF0000) OR ((a + 1) AND 0xFFFF)"

fun fmem_read :: "'h bus \<Rightarrow> u32 \<Rightarrow> nat \<Rightarrow> 'h \<Rightarrow> u8 list \<times> 'h" where
  "fmem_read bus a 0 h = ([], h)"
| "fmem_read bus a (Suc n) h =
     (let (b, h) = bus_rd bus a h; (bs, h) = fmem_read bus (far_inc a) n h in (b # bs, h))"

section \<open>Identification\<close>

definition CFI_VENDOR_SST :: u8 where "CFI_VENDOR_SST = 0xBF"
definition CFI_DEVICE_SST39SF010A :: u8 where "CFI_DEVICE_SST39SF010A = 0xB5"
definition CFI_DEVICE_SST39SF020A :: u8 where "CFI_DEVICE_SST39SF020A = 0xB6"
definition CFI_DEVICE_SST39SF040 :: u8 where "CFI_DEVICE_SST39SF040 = 0xB7"
definition CFI_ADDR0 :: u32 where "CFI_ADDR0 = 0x5555"
definition CFI_ADDR1 :: u32 where "CFI_ADDR1 = 0x2AAA"
definition CFI_BYTE0 :: u8 where "CFI_BYTE0 = 0xAA"
definition CFI_BYTE1 :: u8 where "CFI_BYTE1 = 0x55"
definition CFI_CMD_BYTE_PROGRAM :: u8 where "CFI_CMD_BYTE_PROGRAM = 0xA0"
definition CFI_CMD_ERASE :: u8 where "CFI_CMD_ERASE = 0x80"
definition CFI_CMD_ERASE_SECTOR :: u8 where "CFI_CMD_ERASE_SECTOR = 0x30"
definition CFI_CMD_SOFT_ID_ENTRY :: u8 where "CFI_CMD_SOFT_ID_ENTRY = 0x90"
definition CFI_CMD_SOFT_ID_EXIT :: u8 where "CFI_CMD_SOFT_ID_EXIT = 0xF0"
definition CFI_TOGGLE_BIT :: u8 where "CFI_TOGGLE_BIT = push_bit 6 1"

lemmas cfi_codes = CFI_ADDR0_def CFI_ADDR1_def CFI_BYTE0_def CFI_BYTE1_def CFI_CMD_BYTE_PROGRAM_def CFI_CMD_ERASE_def
  CFI_CMD_ERASE_SECTOR_def CFI_CMD_SOFT_ID_ENTRY_def CFI_CMD_SOFT_ID_EXIT_def

definition cfi_sst_device :: "u8 \<Rightarrow> string" where
  "cfi_sst_device i =
     (if i = CFI_DEVICE_SST39SF010A then ''SST39SF010A''
      else if i = CFI_DEVICE_SST39SF020A then ''SST39SF020A''
      else if i = CFI_DEVICE_SST39SF040 then ''SST39SF040''
      else ''unknown'')"

definition cfi_device :: "u8 \<Rightarrow> u8 \<Rightarrow> string" where
  "cfi_device vendor dev = (if vendor = CFI_VENDOR_SST then cfi_sst_device dev else ''unknown'')"

section \<open>Commands\<close>

record cfi_private =
  p_base :: u32
  p_reg0 :: u32
  p_reg1 :: u32
  p_addr0 :: u32
  p_addr1 :: u32

definition cfi_get_block_addr :: "cfi_private \<Rightarrow> u16 \<Rightarrow> u32 \<Rightarrow> u32" where
  "cfi_get_block_addr pdev bsize block =
     (let offset = block * ucast bsize;
          off_high = push_bit 12 (offset AND 0xffff0000);
          off_low = offset AND 0xffff
      in p_base pdev + off_high + off_low)"

partial_function (option) cfi_toggle_wait :: "'h bus \<Rightarrow> u32 \<Rightarrow> 'h \<Rightarrow> 'h option" where
  "cfi_toggle_wait bus a h =
     (let (byte0, h) = bus_rd bus a h; (byte1, h) = bus_rd bus a h
      in if byte0 AND CFI_TOGGLE_BIT \<noteq> byte1 AND CFI_TOGGLE_BIT then cfi_toggle_wait bus a h else Some h)"

definition cfi_erase_cmd :: "'h bus \<Rightarrow> cfi_private \<Rightarrow> u32 \<Rightarrow> 'h \<Rightarrow> 'h" where
  "cfi_erase_cmd bus pdev a h =
     foldl (\<lambda>h (r, b). bus_wr bus r b h) h
       [(p_reg0 pdev, CFI_BYTE0), (p_reg1 pdev, CFI_BYTE1), (p_reg0 pdev, CFI_CMD_ERASE),
        (p_reg0 pdev, CFI_BYTE0), (p_reg1 pdev, CFI_BYTE1), (a, CFI_CMD_ERASE_SECTOR)]"

definition cfi_erase_block :: "'h bus \<Rightarrow> cfi_private \<Rightarrow> u32 \<Rightarrow> 'h \<Rightarrow> 'h option" where
  "cfi_erase_block bus pdev a h = cfi_toggle_wait bus a (cfi_erase_cmd bus pdev a h)"

definition cfi_program_cmd :: "'h bus \<Rightarrow> cfi_private \<Rightarrow> u32 \<Rightarrow> u8 \<Rightarrow> 'h \<Rightarrow> 'h" where
  "cfi_program_cmd bus pdev a byte h =
     foldl (\<lambda>h (r, b). bus_wr bus r b h) h
       [(p_reg0 pdev, CFI_BYTE0), (p_reg1 pdev, CFI_BYTE1), (p_reg0 pdev, CFI_CMD_BYTE_PROGRAM), (a, byte)]"

definition cfi_write_byte :: "'h bus \<Rightarrow> cfi_private \<Rightarrow> u32 \<Rightarrow> u8 \<Rightarrow> 'h \<Rightarrow> 'h option" where
  "cfi_write_byte bus pdev a byte h = cfi_toggle_wait bus a (cfi_program_cmd bus pdev a byte h)"

section \<open>Block transfers\<close>

fun cfi_read_loop ::
    "'h bus \<Rightarrow> cfi_private \<Rightarrow> u16 \<Rightarrow> u32 \<Rightarrow> nat \<Rightarrow> u8 list \<Rightarrow> nat \<Rightarrow> int \<Rightarrow> 'h \<Rightarrow> int \<times> u8 list \<times> 'h" where
  "cfi_read_loop bus pdev bsize block 0 buf pos bytes h = (bytes, buf, h)"
| "cfi_read_loop bus pdev bsize block (Suc n) buf pos bytes h =
     (let (bs, h) = fmem_read bus (cfi_get_block_addr pdev bsize block) (unat bsize) h
      in cfi_read_loop bus pdev bsize (block + 1) n (mem_put buf pos bs) (pos + unat bsize)
           (int16 (bytes + uint bsize)) h)"

definition cfi_read_block ::
    "'h bus \<Rightarrow> cfi_private option \<Rightarrow> u16 \<Rightarrow> u8 list \<Rightarrow> u32 \<Rightarrow> u16 \<Rightarrow> 'h \<Rightarrow> int \<times> u8 list \<times> 'h" where
  "cfi_read_block bus p bsize buf block count h =
     (case p of
        None \<Rightarrow> (ERR_INVAL, buf, h)
      | Some pdev \<Rightarrow> cfi_read_loop bus pdev bsize block (unat count) buf 0 0 h)"

text \<open>Programming the bytes of a block from a far address on.\<close>

fun cfi_program :: "'h bus \<Rightarrow> cfi_private \<Rightarrow> u32 \<Rightarrow> u8 list \<Rightarrow> 'h \<Rightarrow> 'h option" where
  "cfi_program bus pdev a [] h = Some h"
| "cfi_program bus pdev a (b # bs) h =
     do { h \<leftarrow> cfi_write_byte bus pdev a b h; cfi_program bus pdev (far_inc a) bs h }"

fun cfi_write_loop ::
    "'h bus \<Rightarrow> cfi_private \<Rightarrow> u16 \<Rightarrow> u32 \<Rightarrow> nat \<Rightarrow> u8 list \<Rightarrow> int \<Rightarrow> 'h \<Rightarrow> (int \<times> 'h) option" where
  "cfi_write_loop bus pdev bsize block 0 buf bytes h = Some (bytes, h)"
| "cfi_write_loop bus pdev bsize block (Suc n) buf bytes h =
     do { let a = cfi_get_block_addr pdev bsize block;
          h \<leftarrow> cfi_erase_block bus pdev a h;
          h \<leftarrow> cfi_program bus pdev a (take (unat bsize) buf) h;
          cfi_write_loop bus pdev bsize (block + 1) n (drop (unat bsize) buf) (int16 (bytes + uint bsize)) h }"

definition cfi_write_block ::
    "'h bus \<Rightarrow> cfi_private option \<Rightarrow> u16 \<Rightarrow> u8 list \<Rightarrow> u32 \<Rightarrow> u16 \<Rightarrow> 'h \<Rightarrow> (int \<times> 'h) option" where
  "cfi_write_block bus p bsize buf block count h =
     (case p of
        None \<Rightarrow> Some (ERR_INVAL, h)
      | Some pdev \<Rightarrow> cfi_write_loop bus pdev bsize block (unat count) buf 0 h)"

section \<open>Probing\<close>

definition cfi_identity :: "'h bus \<Rightarrow> cfi_private \<Rightarrow> 'h \<Rightarrow> u8 \<times> u8 \<times> 'h" where
  "cfi_identity bus pdev h =
     (let wr = foldl (\<lambda>h (r, b). bus_wr bus r b h);
          h = wr h [(p_reg0 pdev, CFI_BYTE0), (p_reg1 pdev, CFI_BYTE1), (p_reg0 pdev, CFI_CMD_SOFT_ID_ENTRY)];
          (vendor, h) = bus_rd bus (p_addr0 pdev) h;
          (dev, h) = bus_rd bus (p_addr1 pdev) h
      in (vendor, dev, wr h [(p_reg0 pdev, CFI_BYTE0), (p_reg1 pdev, CFI_BYTE1), (p_reg0 pdev, CFI_CMD_SOFT_ID_EXIT)]))"

definition cfi_pdev :: "cfi_flash \<Rightarrow> cfi_private" where
  "cfi_pdev cfg = \<lparr>p_base = base_addr cfg, p_reg0 = base_addr cfg + CFI_ADDR0, p_reg1 = base_addr cfg + CFI_ADDR1,
     p_addr0 = base_addr cfg, p_addr1 = base_addr cfg + 1\<rparr>"

text \<open>The block device of the chip, on a machine that may have been lost in a polling loop.\<close>

definition cfi_blkdev :: "'h bus \<Rightarrow> cfi_private option \<Rightarrow> cfi_flash \<Rightarrow> 'h option blkdev" where
  "cfi_blkdev bus p cfg =
     \<lparr>blk_name = ''mtd0'', block_size = sector_size cfg, block_shift = sector_shift cfg,
      block_count = ucast (sector_count cfg),
      read_block = Some (\<lambda>buf block count s.
        case s of None \<Rightarrow> (0, buf, None)
        | Some h \<Rightarrow> let (r, buf, h) = cfi_read_block bus p (sector_size cfg) buf block count h in (r, buf, Some h)),
      write_block = Some (\<lambda>buf block count s.
        case s of None \<Rightarrow> (0, None)
        | Some h \<Rightarrow> (case cfi_write_block bus p (sector_size cfg) buf block count h of
                       None \<Rightarrow> (0, None) | Some (r, h) \<Rightarrow> (r, Some h))),
      dev_read = None, dev_write = None\<rparr>"

text \<open>\<open>pdev_ok\<close> and \<open>bdev_ok\<close>: whether the two allocations succeed; the other parameters are those of \<^verbatim>\<open>blk_register\<close>.\<close>

definition cfi_probe ::
    "'h bus \<Rightarrow> device list \<Rightarrow> bool \<Rightarrow> bool \<Rightarrow> (u16 \<Rightarrow> u8 list option) \<Rightarrow> (nat \<Rightarrow> bool \<times> bool) \<Rightarrow> u8 list option \<Rightarrow>
     'h option blkdev list \<Rightarrow> 'h \<Rightarrow> bool \<times> 'h option blkdev list \<times> 'h option" where
  "cfi_probe bus board pdev_ok bdev_ok mal oks b disks h =
     (case board_get_by_driver board ''cfi'' of
        None \<Rightarrow> (False, disks, Some h)
      | Some dev \<Rightarrow>
          (case dev_config dev of
             CCfi cfg \<Rightarrow>
               if \<not> pdev_ok then (False, disks, Some h)
               else
                 let (vendor, chip, h) = cfi_identity bus (cfi_pdev cfg) h
                 in if vendor_id cfg \<noteq> vendor \<or> chip_id cfg \<noteq> chip then (False, disks, Some h)
                    else if \<not> bdev_ok then (False, disks, Some h)
                    else let (disks, s) = blk_register mal oks b disks (Some (cfi_blkdev bus (Some (cfi_pdev cfg)) cfg)) (Some h)
                         in (True, disks, s)
           | _ \<Rightarrow> (False, disks, Some h)))"

section \<open>Physical addresses\<close>

definition phys :: "u32 \<Rightarrow> nat" where
  "phys a = (unat a div 65536 * 16 + unat a mod 65536) mod 1048576"

lemma bit_toggle: "(b AND CFI_TOGGLE_BIT = b' AND CFI_TOGGLE_BIT) \<longleftrightarrow> (bit b 6 \<longleftrightarrow> bit b' 6)"
proof -
  have t: "bit CFI_TOGGLE_BIT n \<longleftrightarrow> n = 6" for n
    by (simp only: CFI_TOGGLE_BIT_def push_bit_of_1 bit_exp_iff) auto
  show ?thesis by (subst bit_eq_iff) (auto simp: bit_and_iff t dest: spec [of _ 6])
qed

lemma far_inc_plus:
  assumes "unat a mod 65536 < 65535"
  shows "far_inc a = a + 1" "unat (a + 1) = unat a + 1"
proof -
  have lt: "unat a + 1 < 4294967296"
  proof (rule ccontr)
    assume "\<not> ?thesis"
    then have "unat a = 4294967295" using unat_u32_lt [of a] by linarith
    then show False using assms by simp
  qed
  then show u: "unat (a + 1) = unat a + 1" by (simp add: unat_word_ariths)
  have "unat (a + 1) div 65536 = unat a div 65536" unfolding u using assms by (simp add: div_Suc mod_Suc split: if_splits)
  then have d: "drop_bit 16 (a + 1) = drop_bit 16 a" by (simp add: word_unat_eq_iff drop_bit_eq_div unat_div_distrib)
  have hi: "bit (a + 1) n = bit a n" if "16 \<le> n" for n
    using that arg_cong [OF d, of "\<lambda>w. bit w (n - 16)"] by (simp add: bit_drop_bit_eq)
  have m: "(0xFFFF0000 :: u32) = NOT (mask 16)" "(0xFFFF :: u32) = mask 16" by (simp_all add: mask_eq_exp_minus_1)
  show "far_inc a = a + 1"
    unfolding far_inc_def m by (rule bit_word_eqI) (use hi in \<open>auto simp: bit_simps\<close>)
qed

lemma phys_plus:
  assumes "unat a mod 65536 < 65535" "phys a + 1 < 1048576"
  shows "phys (a + 1) = phys a + 1"
proof -
  let ?x = "unat a div 65536 * 16 + unat a mod 65536"
  have "unat (a + 1) div 65536 * 16 + unat (a + 1) mod 65536 = Suc ?x"
    unfolding far_inc_plus(2) [OF assms(1)] using assms(1) by (simp add: div_Suc mod_Suc split: if_splits)
  then have "phys (a + 1) = Suc ?x mod 1048576" by (simp only: phys_def)
  then show ?thesis using assms(2) by (simp add: phys_def mod_Suc split: if_splits)
qed

section \<open>The interface: a flash chip\<close>

text \<open>
  The chip occupies \<open>csize\<close> bytes of the physical address space from \<open>lo\<close> on.  A ready chip reads as
  its cells; the command sequences program a byte, which can only clear bits, and erase a sector of
  4096 bytes.  After a command the chip is \<open>working\<close>: bit 6 of what is read alternates for a number
  of reads, then the chip is ready again.
\<close>

locale flash_chip =
  fixes bus :: "'h bus" and lo csize :: nat and ready :: "'h \<Rightarrow> bool" and cells :: "'h \<Rightarrow> u8 list"
    and working :: "nat \<Rightarrow> 'h \<Rightarrow> 'h \<Rightarrow> bool" and toggle :: "'h \<Rightarrow> bool"
  assumes place: "lo + csize \<le> 1048576" "0x5555 < csize"
    and cells_length: "ready h \<Longrightarrow> length (cells h) = csize"
    and read_law: "ready h \<Longrightarrow> phys a = lo + i \<Longrightarrow> i < csize \<Longrightarrow> bus_rd bus a h = (cells h ! i, h)"
    and program_law: "ready h \<Longrightarrow> phys r0 = lo + 0x5555 \<Longrightarrow> phys r1 = lo + 0x2AAA \<Longrightarrow> phys a = lo + i \<Longrightarrow> i < csize \<Longrightarrow>
      \<exists>k h'. working k (bus_wr bus a b (bus_wr bus r0 0xA0 (bus_wr bus r1 0x55 (bus_wr bus r0 0xAA h)))) h' \<and>
        ready h' \<and> cells h' = (cells h)[i := cells h ! i AND b]"
    and erase_law: "ready h \<Longrightarrow> phys r0 = lo + 0x5555 \<Longrightarrow> phys r1 = lo + 0x2AAA \<Longrightarrow> phys a = lo + 4096 * i \<Longrightarrow> 4096 * i + 4096 \<le> csize \<Longrightarrow>
      \<exists>k h'. working k (bus_wr bus a 0x30 (bus_wr bus r1 0x55 (bus_wr bus r0 0xAA
          (bus_wr bus r0 0x80 (bus_wr bus r1 0x55 (bus_wr bus r0 0xAA h)))))) h' \<and>
        ready h' \<and> cells h' = mem_put (cells h) (4096 * i) (replicate 4096 0xFF)"
    and working_0: "working 0 h h' \<Longrightarrow> h = h'"
    and working_Suc: "working (Suc k) h h' \<Longrightarrow> phys a = lo + i \<Longrightarrow> i < csize \<Longrightarrow>
      \<exists>b h1. bus_rd bus a h = (b, h1) \<and> working k h1 h' \<and> bit b 6 = toggle h \<and> toggle h1 = (\<not> toggle h)"
begin

text \<open>The polling loop ends when the chip is ready.\<close>

lemma toggle_wait_ready:
  assumes "ready h" "phys a = lo + i" "i < csize"
  shows "cfi_toggle_wait bus a h = Some h"
  by (subst cfi_toggle_wait.simps) (simp add: read_law [OF assms])

lemma toggle_wait_ends:
  assumes "working k h h'" "ready h'" "phys a = lo + i" "i < csize"
  shows "cfi_toggle_wait bus a h = Some h'"
  using assms(1)
proof (induction k arbitrary: h rule: less_induct)
  case (less k)
  show ?case
  proof (cases k)
    case 0
    then show ?thesis using working_0 less.prems toggle_wait_ready [OF assms(2-4)] by blast
  next
    case (Suc m)
    obtain b h1 where r1: "bus_rd bus a h = (b, h1)" "working m h1 h'" "bit b 6 = toggle h" "toggle h1 = (\<not> toggle h)"
      using working_Suc [OF _ assms(3,4)] less.prems Suc by blast
    show ?thesis
    proof (cases m)
      case 0
      then have "h1 = h'" using r1(2) working_0 by blast
      then show ?thesis using r1(1) read_law [OF assms(2-4)] toggle_wait_ready [OF assms(2-4)]
        by (subst cfi_toggle_wait.simps) simp
    next
      case (Suc m')
      obtain b' h2 where r2: "bus_rd bus a h1 = (b', h2)" "working m' h2 h'" "bit b' 6 = toggle h1"
        using working_Suc [OF _ assms(3,4)] r1(2) Suc by blast
      have "cfi_toggle_wait bus a h2 = Some h'" using less.IH [of m' h2] r2(2) Suc \<open>k = Suc m\<close> by simp
      then show ?thesis using r1 r2 by (subst cfi_toggle_wait.simps) (simp add: bit_toggle)
    qed
  qed
qed

text \<open>Addresses that run inside the chip and inside a segment.\<close>

definition runs :: "u32 \<Rightarrow> nat \<Rightarrow> nat \<Rightarrow> bool" where
  "runs a i n \<longleftrightarrow> phys a = lo + i \<and> i + n \<le> csize \<and> unat a mod 65536 + n \<le> 65536"

lemma runs_step:
  assumes "runs a i (Suc n)" "0 < n"
  shows "runs (far_inc a) (Suc i) n"
proof -
  have off: "unat a mod 65536 < 65535" and p: "phys a + 1 < 1048576"
    using assms place by (auto simp: runs_def)
  have "unat (a + 1) mod 65536 = unat a mod 65536 + 1"
    unfolding far_inc_plus(2) [OF off] using off by (simp add: mod_Suc)
  then show ?thesis
    using assms far_inc_plus(1) [OF off] phys_plus [OF off p] by (simp add: runs_def)
qed

lemma fmem_read_ok: "ready h \<Longrightarrow> runs a i n \<Longrightarrow> fmem_read bus a n h = (mem_get (cells h) i n, h)"
proof (induction n arbitrary: a i)
  case 0
  then show ?case by (simp add: mem_get_def)
next
  case (Suc n)
  have i: "i < csize" "phys a = lo + i" using Suc.prems by (auto simp: runs_def)
  have "fmem_read bus (far_inc a) n h = (mem_get (cells h) (Suc i) n, h)"
    using Suc.IH [OF Suc.prems(1)] runs_step [OF Suc.prems(2)] by (cases "n = 0") (auto simp: mem_get_def)
  moreover have "mem_get (cells h) i (Suc n) = cells h ! i # mem_get (cells h) (Suc i) n"
    using i(1) cells_length [OF Suc.prems(1)] by (simp add: mem_get_def Cons_nth_drop_Suc [symmetric])
  ultimately show ?case using read_law [OF Suc.prems(1) i(2,1)] by simp
qed

definition regs_ok :: "cfi_private \<Rightarrow> bool" where
  "regs_ok pdev \<longleftrightarrow> phys (p_reg0 pdev) = lo + 0x5555 \<and> phys (p_reg1 pdev) = lo + 0x2AAA"

lemma cfi_erase_block_ok:
  assumes "ready h" "regs_ok pdev" "phys a = lo + 4096 * i" "4096 * i + 4096 \<le> csize"
  shows "\<exists>h'. cfi_erase_block bus pdev a h = Some h' \<and> ready h' \<and> cells h' = mem_put (cells h) (4096 * i) (replicate 4096 0xFF)"
proof -
  obtain k h' where h': "working k (cfi_erase_cmd bus pdev a h) h'" "ready h'"
      "cells h' = mem_put (cells h) (4096 * i) (replicate 4096 0xFF)"
    using erase_law [OF assms(1) _ _ assms(3,4), of "p_reg0 pdev" "p_reg1 pdev"] assms(2)
    by (auto simp: cfi_erase_cmd_def cfi_codes regs_ok_def)
  then show ?thesis
    using toggle_wait_ends [OF h'(1,2) assms(3)] assms(4) by (simp add: cfi_erase_block_def)
qed

lemma cfi_write_byte_ok:
  assumes "ready h" "regs_ok pdev" "phys a = lo + i" "i < csize"
  shows "\<exists>h'. cfi_write_byte bus pdev a b h = Some h' \<and> ready h' \<and> cells h' = (cells h)[i := cells h ! i AND b]"
proof -
  obtain k h' where h': "working k (cfi_program_cmd bus pdev a b h) h'" "ready h'"
      "cells h' = (cells h)[i := cells h ! i AND b]"
    using program_law [OF assms(1) _ _ assms(3,4), of "p_reg0 pdev" "p_reg1 pdev" b] assms(2)
    by (auto simp: cfi_program_cmd_def cfi_codes regs_ok_def)
  then show ?thesis
    using toggle_wait_ends [OF h'(1,2) assms(3,4)] by (simp add: cfi_write_byte_def)
qed

text \<open>Programming erased cells stores the bytes.\<close>

lemma cfi_program_ok:
  assumes "ready h" "regs_ok pdev" "runs a i (length bs)" "\<forall>j<length bs. cells h ! (i + j) = 0xFF"
  shows "\<exists>h'. cfi_program bus pdev a bs h = Some h' \<and> ready h' \<and> cells h' = mem_put (cells h) i bs"
  using assms
proof (induction bs arbitrary: a i h)
  case Nil
  then show ?case by (simp add: mem_put_def)
next
  case (Cons b bs)
  have i: "phys a = lo + i" "i < csize" using Cons.prems(3) by (auto simp: runs_def)
  have "cells h ! i = 0xFF" using Cons.prems(4) by (metis add.right_neutral length_greater_0_conv list.distinct(1))
  moreover have "(0xFF :: u8) = - 1" by simp
  then have "(0xFF :: u8) AND b = b" by (metis and.left_neutral)
  ultimately obtain h1 where h1: "cfi_write_byte bus pdev a b h = Some h1" "ready h1" "cells h1 = (cells h)[i := b]"
    using cfi_write_byte_ok [OF Cons.prems(1,2) i, of b] by auto
  have len: "i < length (cells h)" using i(2) cells_length [OF Cons.prems(1)] by simp
  show ?case
  proof (cases "bs = []")
    case True
    then show ?thesis using h1 len by (simp add: mem_put_def upd_conv_take_nth_drop)
  next
    case False
    have "runs (far_inc a) (Suc i) (length bs)" using runs_step Cons.prems(3) False by simp
    moreover have "\<forall>j<length bs. cells h1 ! (Suc i + j) = 0xFF"
      using Cons.prems(4) h1(3) by (auto simp: nth_list_update)
    ultimately obtain h2 where h2: "cfi_program bus pdev (far_inc a) bs h1 = Some h2" "ready h2"
        "cells h2 = mem_put (cells h1) (Suc i) bs"
      using Cons.IH [OF h1(2) Cons.prems(2)] by blast
    have "mem_put ((cells h)[i := b]) (Suc i) bs = mem_put (cells h) i (b # bs)"
      using len by (simp add: mem_put_def upd_conv_take_nth_drop add.commute)
    then show ?thesis using h1 h2 by simp
  qed
qed

text \<open>The configuration places the chip: the base is the start of a segment, sectors have 4096 bytes.\<close>

definition placed :: "cfi_flash \<Rightarrow> bool" where
  "placed cfg \<longleftrightarrow> unat (base_addr cfg) mod 65536 = 0 \<and> unat (base_addr cfg) div 65536 * 16 = lo \<and>
     sector_size cfg = 4096 \<and> sector_shift cfg = 12 \<and> unat (sector_count cfg) * 4096 = csize"

lemma split_offset:
  fixes x :: u32
  assumes "unat x < 1048576"
  shows "unat (push_bit 12 (x AND 0xffff0000)) = unat x div 65536 * 268435456" "unat (x AND 0xffff) = unat x mod 65536"
proof -
  have m: "(0xffff0000 :: u32) = NOT (mask 16)" "(0xffff :: u32) = mask 16" by (simp_all add: mask_eq_exp_minus_1)
  have "push_bit 12 (x AND 0xffff0000) = drop_bit 16 x * 268435456"
    unfolding m and_not_mask push_bit_push_bit by (simp add: push_bit_eq_mult)
  moreover have "unat (drop_bit 16 x) = unat x div 65536" by (simp add: drop_bit_eq_div unat_div_distrib)
  moreover have "unat x div 65536 < 16" using assms by (simp add: div_less_iff_less_mult)
  ultimately show "unat (push_bit 12 (x AND 0xffff0000)) = unat x div 65536 * 268435456"
    by (simp add: unat_mult_u32)
  show "unat (x AND 0xffff) = unat x mod 65536" unfolding m unat_and_mask by simp
qed

lemma sector_address:
  assumes "placed cfg" "unat block < unat (sector_count cfg)"
  shows "runs (cfi_get_block_addr (cfi_pdev cfg) (sector_size cfg) block) (unat block * 4096) 4096"
proof -
  define v where "v = unat block * 4096"
  define seg where "seg = unat (base_addr cfg) div 65536"
  have sz: "sector_size cfg = 4096" "unat (sector_count cfg) * 4096 = csize" "unat (base_addr cfg) = seg * 65536" "seg * 16 = lo"
    using assms(1) by (auto simp: placed_def seg_def)
  have inside: "v + 4096 \<le> csize" using assms(2) sz(2) mult_le_mono1 [of "Suc (unat block)" "unat (sector_count cfg)" 4096]
    by (simp add: v_def)
  have o: "unat (block * 4096) = v"
    unfolding v_def using inside place(1) by (subst unat_mult_u32) (simp_all add: v_def)
  note parts = split_offset [of "block * 4096", unfolded o]
  have small: "v < 1048576" using inside place(1) by linarith
  have split: "v = v div 65536 * 65536 + v mod 65536" "v mod 65536 < 65536" by simp_all
  then have fit: "seg + v div 65536 * 4096 < 65536" using inside place(1) sz(4) by linarith
  let ?a = "cfi_get_block_addr (cfi_pdev cfg) (sector_size cfg) block"
  have a: "?a = base_addr cfg + push_bit 12 (block * 4096 AND 0xffff0000) + (block * 4096 AND 0xffff)"
    by (simp add: cfi_get_block_addr_def cfi_pdev_def sz(1) Let_def)
  have "unat ?a = (seg + v div 65536 * 4096) * 65536 + v mod 65536"
  proof -
    have b: "seg * 65536 + v div 65536 * 268435456 + v mod 65536 < 4294967296" using fit split(2) by linarith
    then have "unat (base_addr cfg + push_bit 12 (block * 4096 AND 0xffff0000)) = seg * 65536 + v div 65536 * 268435456"
      using parts(1) small sz(3) by (subst unat_plus_u32) simp_all
    then show ?thesis unfolding a using parts(2) small b by (subst unat_plus_u32) simp_all
  qed
  moreover have "(q * 65536 + r) div 65536 = q" "(q * 65536 + r) mod 65536 = r" if "r < 65536" for q r :: nat
    using that by simp_all
  ultimately have u: "unat ?a div 65536 = seg + v div 65536 * 4096" "unat ?a mod 65536 = v mod 65536"
    using split(2) by (simp_all only:)
  have "phys ?a = lo + v" unfolding phys_def u using split sz(4) inside place(1) by simp
  moreover have "v mod 65536 + 4096 \<le> 65536"
  proof -
    have "v mod 65536 = (unat block mod 16) * 4096" using mult_mod_left [of "unat block" 16 4096] by (simp add: v_def mult.commute)
    moreover have "unat block mod 16 < 16" by simp
    ultimately show ?thesis by linarith
  qed
  ultimately show ?thesis using inside u(2) by (simp add: runs_def v_def)
qed

lemma regs_placed:
  assumes "placed cfg"
  shows "regs_ok (cfi_pdev cfg)"
proof -
  define seg where "seg = unat (base_addr cfg) div 65536"
  have b: "unat (base_addr cfg) = seg * 65536" "seg * 16 = lo" using assms by (auto simp: placed_def seg_def)
  have "seg < 65536" using unat_u32_lt [of "base_addr cfg"] b(1) by linarith
  then have "unat (base_addr cfg + x) = seg * 65536 + unat x" if "unat x < 65536" for x
    using b(1) that by (subst unat_plus_u32) linarith+
  then have "phys (base_addr cfg + x) = (lo + unat x) mod 1048576" if "unat x < 65536" for x
    using that b(2) by (simp add: phys_def)
  then show ?thesis using place by (simp add: regs_ok_def cfi_pdev_def CFI_ADDR0_def CFI_ADDR1_def)
qed

lemma mem_put_over: "length xs = length ys \<Longrightarrow> i + length xs \<le> length c \<Longrightarrow> mem_put (mem_put c i xs) i ys = mem_put c i ys"
  by (simp add: mem_put_def)

lemma unat_next_block: "unat (block :: u32) + Suc n \<le> unat (m :: u16) \<Longrightarrow> unat (block + 1) = unat block + 1"
proof -
  assume "unat block + Suc n \<le> unat m"
  then have "unat block + 1 < 4294967296" using unat_u16_lt [of m] by linarith
  then show ?thesis using unat_plus_u32 [of block 1] by simp
qed

lemma cfi_read_loop_ok:
  assumes "ready h" "placed cfg" "unat block + n \<le> unat (sector_count cfg)" "pos + n * 4096 \<le> length buf"
    "0 \<le> bytes" "bytes + int (n * 4096) < 32768"
  shows "cfi_read_loop bus (cfi_pdev cfg) (sector_size cfg) block n buf pos bytes h =
    (bytes + int (n * 4096), mem_put buf pos (mem_get (cells h) (unat block * 4096) (n * 4096)), h)"
  using assms
proof (induction n arbitrary: block buf pos bytes)
  case 0
  then show ?case by (simp add: mem_put_def mem_get_def)
next
  case (Suc n)
  let ?c = "cells h" and ?b = "unat block * 4096"
  have sz: "sector_size cfg = 4096" "unat (sector_count cfg) * 4096 = csize" using Suc.prems(2) by (auto simp: placed_def)
  have run: "runs (cfi_get_block_addr (cfi_pdev cfg) (sector_size cfg) block) ?b 4096"
    using Suc.prems by (intro sector_address) auto
  have nb: "unat (block + 1) = unat block + 1" using Suc.prems(3) by (rule unat_next_block)
  have len: "?b + 4096 \<le> length ?c" using run cells_length [OF Suc.prems(1)] by (simp add: runs_def)
  have "int16 (bytes + uint (sector_size cfg)) = bytes + 4096"
    using Suc.prems(5,6) sz by (simp add: in_int16_def)
  moreover have "length (mem_get ?c (?b + 4096) (n * 4096)) \<le> n * 4096" by (simp add: mem_get_def)
  then have "mem_put (mem_put buf pos (mem_get ?c ?b 4096)) (pos + 4096) (mem_get ?c (?b + 4096) (n * 4096)) =
      mem_put buf pos (mem_get ?c ?b (Suc n * 4096))"
    using mem_put_append [of pos "mem_get ?c ?b 4096" "mem_get ?c (?b + 4096) (n * 4096)" buf] len Suc.prems(4)
    by (simp add: mem_get_append [symmetric])
  moreover have "cfi_read_loop bus (cfi_pdev cfg) (sector_size cfg) (block + 1) n (mem_put buf pos (mem_get ?c ?b 4096)) (pos + 4096) (bytes + 4096) h =
      (bytes + 4096 + int (n * 4096), mem_put (mem_put buf pos (mem_get ?c ?b 4096)) (pos + 4096) (mem_get ?c (unat (block + 1) * 4096) (n * 4096)), h)"
    using Suc.prems nb len by (intro Suc.IH) simp_all
  moreover have "unat (sector_size cfg) = 4096" using sz(1) by simp
  ultimately show ?case using fmem_read_ok [OF Suc.prems(1) run] nb by (simp add: algebra_simps)
qed

lemma cfi_write_loop_ok:
  assumes "ready h" "placed cfg" "unat block + n \<le> unat (sector_count cfg)" "n * 4096 \<le> length buf"
    "0 \<le> bytes" "bytes + int (n * 4096) < 32768"
  shows "\<exists>h'. cfi_write_loop bus (cfi_pdev cfg) (sector_size cfg) block n buf bytes h = Some (bytes + int (n * 4096), h') \<and>
    ready h' \<and> cells h' = mem_put (cells h) (unat block * 4096) (mem_get buf 0 (n * 4096))"
  using assms
proof (induction n arbitrary: block buf bytes h)
  case 0
  then show ?case by (simp add: mem_put_def mem_get_def)
next
  case (Suc n)
  let ?b = "unat block * 4096" and ?a = "cfi_get_block_addr (cfi_pdev cfg) (sector_size cfg) block"
  have sz: "sector_size cfg = 4096" using Suc.prems(2) by (auto simp: placed_def)
  have run: "runs ?a ?b 4096" using Suc.prems by (intro sector_address) auto
  have regs: "regs_ok (cfi_pdev cfg)" using Suc.prems(2) by (rule regs_placed)
  have nb: "unat (block + 1) = unat block + 1" using Suc.prems(3) by (rule unat_next_block)
  have len: "?b + 4096 \<le> length (cells h)" using run cells_length [OF Suc.prems(1)] by (simp add: runs_def)
  obtain h1 where h1: "cfi_erase_block bus (cfi_pdev cfg) ?a h = Some h1" "ready h1"
      "cells h1 = mem_put (cells h) ?b (replicate 4096 0xFF)"
    using cfi_erase_block_ok [OF Suc.prems(1) regs, of ?a "unat block"] run by (auto simp: runs_def mult.commute)
  have "\<forall>j<4096. cells h1 ! (?b + j) = 0xFF" using h1(3) len by (simp add: nth_mem_put)
  then obtain h2 where h2: "cfi_program bus (cfi_pdev cfg) ?a (take 4096 buf) h1 = Some h2" "ready h2"
      "cells h2 = mem_put (cells h1) ?b (take 4096 buf)"
    using cfi_program_ok [OF h1(2) regs, of ?a ?b "take 4096 buf"] run Suc.prems(4) by auto
  have c2: "cells h2 = mem_put (cells h) ?b (take 4096 buf)"
    using h1(3) h2(3) len Suc.prems(4) by (simp add: mem_put_over)
  obtain h3 where h3: "cfi_write_loop bus (cfi_pdev cfg) (sector_size cfg) (block + 1) n (drop 4096 buf) (bytes + 4096) h2 =
      Some (bytes + 4096 + int (n * 4096), h3)" "ready h3"
      "cells h3 = mem_put (cells h2) (unat (block + 1) * 4096) (mem_get (drop 4096 buf) 0 (n * 4096))"
  proof -
    have "unat (block + 1) + n \<le> unat (sector_count cfg)" "n * 4096 \<le> length (drop 4096 buf)"
        "0 \<le> bytes + 4096" "bytes + 4096 + int (n * 4096) < 32768"
      using Suc.prems(3-6) nb by simp_all
    from Suc.IH [OF h2(2) Suc.prems(2) this] show ?thesis using that by blast
  qed
  have "int16 (bytes + uint (sector_size cfg)) = bytes + 4096"
    using Suc.prems(5,6) sz by (simp add: in_int16_def)
  moreover have "mem_put (mem_put (cells h) ?b (take 4096 buf)) (?b + 4096) (mem_get (drop 4096 buf) 0 (n * 4096)) =
      mem_put (cells h) ?b (mem_get buf 0 (Suc n * 4096))"
  proof -
    have "unat (sector_count cfg) * 4096 = csize" using Suc.prems(2) by (simp add: placed_def)
    then have "?b + Suc n * 4096 \<le> length (cells h)"
      using Suc.prems(3) mult_le_mono1 [OF Suc.prems(3), of 4096] cells_length [OF Suc.prems(1)] by (simp add: algebra_simps)
    moreover have "take 4096 buf @ mem_get (drop 4096 buf) 0 (n * 4096) = mem_get buf 0 (Suc n * 4096)"
      by (simp add: mem_get_def take_add)
    ultimately show ?thesis
      using mem_put_append [of ?b "take 4096 buf" "mem_get (drop 4096 buf) 0 (n * 4096)" "cells h"] Suc.prems(4) by simp
  qed
  moreover have "unat (sector_size cfg) = 4096" using sz by simp
  ultimately show ?case using h1 h2 h3 c2 nb by (simp add: algebra_simps)
qed

end

section \<open>The driver makes the chip block storage\<close>

locale cfi_store = flash_chip +
  fixes cfg :: cfi_flash
  assumes config: "placed cfg"

sublocale cfi_store \<subseteq> store: block_store "cfi_blkdev bus (Some (cfi_pdev cfg)) cfg" "\<lambda>s. \<exists>h. s = Some h \<and> ready h"
    "\<lambda>s. cells (the s)"
proof
  have sz: "unat (sector_size cfg) = 4096" "unat (sector_shift cfg) = 12" "unat (sector_count cfg) * 4096 = csize"
    using config by (auto simp: placed_def)
  then show "unat (block_size (cfi_blkdev bus (Some (cfi_pdev cfg)) cfg)) = 2 ^ unat (block_shift (cfi_blkdev bus (Some (cfi_pdev cfg)) cfg))"
    by (simp add: cfi_blkdev_def)
  show "unat (block_size (cfi_blkdev bus (Some (cfi_pdev cfg)) cfg)) * unat (block_count (cfi_blkdev bus (Some (cfi_pdev cfg)) cfg)) < 2 ^ 31"
    using sz place by (simp add: cfi_blkdev_def mult.commute)
  show "length (cells (the s)) = unat (block_size (cfi_blkdev bus (Some (cfi_pdev cfg)) cfg)) * unat (block_count (cfi_blkdev bus (Some (cfi_pdev cfg)) cfg))"
    if "\<exists>h. s = Some h \<and> ready h" for s
    using that sz cells_length by (auto simp: cfi_blkdev_def mult.commute)
  show "\<exists>rd. read_block (cfi_blkdev bus (Some (cfi_pdev cfg)) cfg) = Some rd \<and> (\<forall>s buf block count. (\<exists>h. s = Some h \<and> ready h) \<and> 0 < count \<and>
      unat block + unat count \<le> unat (block_count (cfi_blkdev bus (Some (cfi_pdev cfg)) cfg)) \<and>
      unat count * unat (block_size (cfi_blkdev bus (Some (cfi_pdev cfg)) cfg)) \<le> length buf \<and>
      unat count * unat (block_size (cfi_blkdev bus (Some (cfi_pdev cfg)) cfg)) < 32768 \<longrightarrow>
      (\<exists>s'. rd buf block count s = (int (unat count * unat (block_size (cfi_blkdev bus (Some (cfi_pdev cfg)) cfg))),
          mem_put buf 0 (mem_get (cells (the s)) (unat block * unat (block_size (cfi_blkdev bus (Some (cfi_pdev cfg)) cfg)))
            (unat count * unat (block_size (cfi_blkdev bus (Some (cfi_pdev cfg)) cfg)))), s') \<and>
        (\<exists>h. s' = Some h \<and> ready h) \<and> cells (the s') = cells (the s)))"
    using cfi_read_loop_ok [OF _ config, where pos = 0 and bytes = 0]
    by (auto simp: cfi_blkdev_def cfi_read_block_def sz)
  show "\<exists>wr. write_block (cfi_blkdev bus (Some (cfi_pdev cfg)) cfg) = Some wr \<and> (\<forall>s buf block count. (\<exists>h. s = Some h \<and> ready h) \<and> 0 < count \<and>
      unat block + unat count \<le> unat (block_count (cfi_blkdev bus (Some (cfi_pdev cfg)) cfg)) \<and>
      unat count * unat (block_size (cfi_blkdev bus (Some (cfi_pdev cfg)) cfg)) \<le> length buf \<and>
      unat count * unat (block_size (cfi_blkdev bus (Some (cfi_pdev cfg)) cfg)) < 32768 \<longrightarrow>
      (\<exists>s'. wr buf block count s = (int (unat count * unat (block_size (cfi_blkdev bus (Some (cfi_pdev cfg)) cfg))), s') \<and>
        (\<exists>h. s' = Some h \<and> ready h) \<and> cells (the s') = mem_put (cells (the s))
          (unat block * unat (block_size (cfi_blkdev bus (Some (cfi_pdev cfg)) cfg)))
          (mem_get buf 0 (unat count * unat (block_size (cfi_blkdev bus (Some (cfi_pdev cfg)) cfg))))))"
    using cfi_write_loop_ok [OF _ config, where bytes = 0]
    by (fastforce simp: cfi_blkdev_def cfi_write_block_def sz)
qed

section \<open>A chip\<close>

text \<open>
  The SST39SF010A of the board 8088-rev3 as a state machine: the command decoder, the cells, the
  toggle bit, and the identification mode.  Byte programming keeps it busy for two reads and an
  erasure for five, numbers that only matter for running the model.
\<close>

datatype sst_phase = Idle | Unlock1 | Unlock2 | Program | Erase0 | Erase1 | Erase2 | Busy nat

record sst39 =
  ch_cells :: "u8 list"
  ch_phase :: sst_phase
  ch_toggle :: bool
  ch_id :: bool

definition sst39_read :: "nat \<Rightarrow> sst39 \<Rightarrow> u8 \<times> sst39" where
  "sst39_read i h =
     (case ch_phase h of
        Busy n \<Rightarrow> (if ch_toggle h then 0x40 else 0,
                   h\<lparr>ch_toggle := \<not> ch_toggle h, ch_phase := (if n \<le> 1 then Idle else Busy (n - 1))\<rparr>)
      | _ \<Rightarrow> (if ch_id h then (if i = 0 then 0xBF else if i = 1 then 0xB5 else 0) else ch_cells h ! i, h))"

definition sst39_write :: "nat \<Rightarrow> u8 \<Rightarrow> sst39 \<Rightarrow> sst39" where
  "sst39_write i b h =
     (case ch_phase h of
        Idle \<Rightarrow> (if i = 0x5555 \<and> b = 0xAA then h\<lparr>ch_phase := Unlock1\<rparr> else h)
      | Unlock1 \<Rightarrow> h\<lparr>ch_phase := (if i = 0x2AAA \<and> b = 0x55 then Unlock2 else Idle)\<rparr>
      | Unlock2 \<Rightarrow>
          (if i \<noteq> 0x5555 then h\<lparr>ch_phase := Idle\<rparr>
           else if b = 0xA0 then h\<lparr>ch_phase := Program\<rparr>
           else if b = 0x80 then h\<lparr>ch_phase := Erase0\<rparr>
           else if b = 0x90 then h\<lparr>ch_phase := Idle, ch_id := True\<rparr>
           else h\<lparr>ch_phase := Idle, ch_id := False\<rparr>)
      | Program \<Rightarrow> h\<lparr>ch_phase := Busy 2, ch_cells := (ch_cells h)[i := ch_cells h ! i AND b]\<rparr>
      | Erase0 \<Rightarrow> h\<lparr>ch_phase := (if i = 0x5555 \<and> b = 0xAA then Erase1 else Idle)\<rparr>
      | Erase1 \<Rightarrow> h\<lparr>ch_phase := (if i = 0x2AAA \<and> b = 0x55 then Erase2 else Idle)\<rparr>
      | Erase2 \<Rightarrow>
          (if b = 0x30
           then h\<lparr>ch_phase := Busy 5, ch_cells := mem_put (ch_cells h) (4096 * (i div 4096)) (replicate 4096 0xFF)\<rparr>
           else h\<lparr>ch_phase := Idle\<rparr>)
      | Busy n \<Rightarrow> h)"

text \<open>The chip is at E000:0000, 128 kB up to the end of the address space.\<close>

definition sst39_bus :: "sst39 bus" where
  "sst39_bus =
     \<lparr>bus_rd = \<lambda>a h. if 0xE0000 \<le> phys a then sst39_read (phys a - 0xE0000) h else (0xFF, h),
      bus_wr = \<lambda>a b h. if 0xE0000 \<le> phys a then sst39_write (phys a - 0xE0000) b h else h\<rparr>"

definition sst39_ready :: "sst39 \<Rightarrow> bool" where
  "sst39_ready h \<longleftrightarrow> ch_phase h = Idle \<and> \<not> ch_id h \<and> length (ch_cells h) = 131072"

definition sst39_working :: "nat \<Rightarrow> sst39 \<Rightarrow> sst39 \<Rightarrow> bool" where
  "sst39_working k h h' \<longleftrightarrow>
     (if k = 0 then h = h'
      else ch_phase h = Busy k \<and> h' = h\<lparr>ch_phase := Idle, ch_toggle := (ch_toggle h \<longleftrightarrow> even k)\<rparr>)"

interpretation chip: flash_chip sst39_bus "0xE0000" 131072 sst39_ready ch_cells sst39_working ch_toggle
proof
  fix h :: sst39 and a r0 r1 :: u32 and i :: nat and b :: u8
  assume h: "sst39_ready h" and r: "phys r0 = 0xE0000 + 0x5555" "phys r1 = 0xE0000 + 0x2AAA"
  {
    assume a: "phys a = 0xE0000 + i" "i < 131072"
    let ?h = "bus_wr sst39_bus a b (bus_wr sst39_bus r0 0xA0 (bus_wr sst39_bus r1 0x55 (bus_wr sst39_bus r0 0xAA h)))"
    have "?h = h\<lparr>ch_phase := Busy 2, ch_cells := (ch_cells h)[i := ch_cells h ! i AND b]\<rparr>"
      using h a r by (simp add: sst39_bus_def sst39_write_def sst39_ready_def)
    then have "sst39_working 2 ?h (?h\<lparr>ch_phase := Idle\<rparr>)" by (simp add: sst39_working_def)
    moreover have "sst39_ready (?h\<lparr>ch_phase := Idle\<rparr>)" "ch_cells (?h\<lparr>ch_phase := Idle\<rparr>) = (ch_cells h)[i := ch_cells h ! i AND b]"
      using h \<open>?h = _\<close> by (simp_all add: sst39_ready_def)
    ultimately show "\<exists>k h'. sst39_working k ?h h' \<and> sst39_ready h' \<and> ch_cells h' = (ch_cells h)[i := ch_cells h ! i AND b]" by blast
  }
  {
    assume a: "phys a = 0xE0000 + 4096 * i" "4096 * i + 4096 \<le> 131072"
    let ?h = "bus_wr sst39_bus a 0x30 (bus_wr sst39_bus r1 0x55 (bus_wr sst39_bus r0 0xAA
          (bus_wr sst39_bus r0 0x80 (bus_wr sst39_bus r1 0x55 (bus_wr sst39_bus r0 0xAA h)))))"
    let ?c = "mem_put (ch_cells h) (4096 * i) (replicate 4096 0xFF)"
    have "?h = h\<lparr>ch_phase := Busy 5, ch_cells := ?c\<rparr>"
      using h a r by (simp add: sst39_bus_def sst39_write_def sst39_ready_def)
    then have "sst39_working 5 ?h (?h\<lparr>ch_phase := Idle, ch_toggle := \<not> ch_toggle h\<rparr>)" by (simp add: sst39_working_def)
    moreover have "sst39_ready (?h\<lparr>ch_phase := Idle, ch_toggle := \<not> ch_toggle h\<rparr>)"
        "ch_cells (?h\<lparr>ch_phase := Idle, ch_toggle := \<not> ch_toggle h\<rparr>) = ?c"
      using h a \<open>?h = _\<close> by (simp_all add: sst39_ready_def)
    ultimately show "\<exists>k h'. sst39_working k ?h h' \<and> sst39_ready h' \<and> ch_cells h' = ?c" by blast
  }
next
  show "\<exists>b h1. bus_rd sst39_bus a h = (b, h1) \<and> sst39_working k h1 h' \<and> bit b 6 = ch_toggle h \<and> ch_toggle h1 = (\<not> ch_toggle h)"
    if "sst39_working (Suc k) h h'" "phys a = 0xE0000 + i" "i < 131072" for k h h' a i
    using that by (cases k) (auto simp: sst39_bus_def sst39_read_def sst39_working_def)
qed (auto simp: sst39_bus_def sst39_read_def sst39_ready_def sst39_working_def)

text \<open>The flash of the board 8088-rev3, as its device table declares it.\<close>

definition rom_config :: cfi_flash where
  "rom_config = \<lparr>vendor_id = 0xbf, chip_id = 0xb5, base_addr = 0xE0000000, sector_count = 32, sector_size = 4096, sector_shift = 12\<rparr>"

lemma rom_device:
  "board_get_by_driver (devices board_8088_rev3) ''cfi'' = Some (DEVICE ''rom'' ''cfi'' (CCfi rom_config))"
  by (simp add: board_8088_rev3_def timer_devices_def DEVICE_def rom_config_def)

interpretation rom: cfi_store sst39_bus "0xE0000" 131072 sst39_ready ch_cells sst39_working ch_toggle rom_config
  by unfold_locales (simp add: chip.placed_def rom_config_def)

definition rom_blkdev :: "sst39 option blkdev" where
  "rom_blkdev = cfi_blkdev sst39_bus (Some (cfi_pdev rom_config)) rom_config"

section \<open>Properties\<close>

text \<open>
  C11. Block writes to flash: on every chip that obeys the command set, for a write of up to seven
  sectors inside the chip, the polling loops end, \<^verbatim>\<open>cfi_write_block\<close> returns the number of bytes, the
  cells of those sectors hold the bytes of the buffer and all others are unchanged; reading the
  sectors back returns what was written.
\<close>

theorem cfi_write_roundtrip:
  assumes "cfi_store bus lo csize ready cells working toggle cfg" "ready h"
    and "unat block + unat count \<le> unat (sector_count cfg)" "unat count \<le> 7"
    and "unat count * 4096 \<le> length buf" "unat count * 4096 \<le> length buf'"
  shows "\<exists>h' n. n = unat count * 4096 \<and>
    cfi_write_block bus (Some (cfi_pdev cfg)) (sector_size cfg) buf block count h = Some (int n, h') \<and> ready h' \<and>
    cells h' = mem_put (cells h) (unat block * 4096) (take n buf) \<and>
    cfi_read_block bus (Some (cfi_pdev cfg)) (sector_size cfg) buf' block count h' = (int n, mem_put buf' 0 (take n buf), h')"
proof -
  let ?n = "unat count * 4096"
  have chip: "flash_chip bus lo csize ready cells working toggle" using assms(1) by (rule cfi_store.axioms)
  have cfg: "flash_chip.placed lo csize cfg" using cfi_store.config [OF assms(1)] .
  have "?n < 32768" using assms(4) by linarith
  then have n: "(0::int) \<le> 0" "0 + int ?n < 32768" "0 + ?n \<le> length buf'" using assms(6) by linarith+
  obtain h' where h': "cfi_write_loop bus (cfi_pdev cfg) (sector_size cfg) block (unat count) buf 0 h = Some (0 + int ?n, h')"
      "ready h'" "cells h' = mem_put (cells h) (unat block * 4096) (mem_get buf 0 ?n)"
    using flash_chip.cfi_write_loop_ok [OF chip assms(2) cfg assms(3,5) n(1,2)] by blast
  note rd = flash_chip.cfi_read_loop_ok [OF chip h'(2) cfg assms(3) n(3,1,2)]
  have "unat (sector_count cfg) * 4096 = csize" using cfg by (simp add: flash_chip.placed_def [OF chip])
  then have "unat block * 4096 + ?n \<le> length (cells h)"
    using mult_le_mono1 [OF assms(3), of 4096] flash_chip.cells_length [OF chip assms(2)] by (simp add: add_mult_distrib)
  then have "mem_get (cells h') (unat block * 4096) ?n = take ?n buf"
    unfolding h'(3) using mem_get_put_same [of "unat block * 4096" "mem_get buf 0 ?n" "cells h"] assms(5)
    by (simp add: mem_get_def)
  then show ?thesis
    using h' rd by (simp add: cfi_write_block_def cfi_read_block_def mem_get_def)
qed

definition sample_rom :: sst39 where
  "sample_rom = \<lparr>ch_cells = replicate 131072 0, ch_phase = Idle, ch_toggle = False, ch_id = False\<rparr>"

theorem cfi_write_roundtrip_witness:
  "\<exists>h'. cfi_write_block sst39_bus (Some (cfi_pdev rom_config)) 4096 (replicate 8192 7) 3 2 sample_rom = Some (8192, h') \<and>
     sst39_ready h' \<and> ch_cells h' = mem_put (replicate 131072 0) 12288 (replicate 8192 7)"
proof -
  have "\<exists>h' n. n = unat (2 :: u16) * 4096 \<and>
    cfi_write_block sst39_bus (Some (cfi_pdev rom_config)) (sector_size rom_config) (replicate 8192 7) 3 2 sample_rom = Some (int n, h') \<and>
    sst39_ready h' \<and> ch_cells h' = mem_put (ch_cells sample_rom) (unat (3 :: u32) * 4096) (take n (replicate 8192 7)) \<and>
    cfi_read_block sst39_bus (Some (cfi_pdev rom_config)) (sector_size rom_config) (replicate 8192 0) 3 2 h' =
      (int n, mem_put (replicate 8192 0) 0 (take n (replicate 8192 7)), h')"
    by (rule cfi_write_roundtrip [OF rom.cfi_store_axioms]) (simp_all add: sample_rom_def sst39_ready_def rom_config_def)
  then show ?thesis by (auto simp: rom_config_def sample_rom_def)
qed

text \<open>
  Probing the flash of the board 8088-rev3: the identification leaves the chip ready with its
  contents, the device \<^verbatim>\<open>mtd0\<close> is in the registry, and reading any range of it with \<^verbatim>\<open>blk_read\<close>
  returns the bytes of the chip.
\<close>

theorem rom_probe_reads:
  assumes h: "sst39_ready h" and m: "mal 4096 = Some tmp" "length tmp = 4096"
    and r: "off + unat n \<le> 131072" "unat n < 32768" "unat n \<le> length buf"
  shows "\<exists>disks s d s'. cfi_probe sst39_bus (devices board_8088_rev3) True True mal oks None [] h = (True, disks, s) \<and>
    blk_open disks (Some ''mtd0'') = Some d \<and>
    blk_read (Some d) (Some buf) (int off) n s = (int (unat n), Some (mem_put buf 0 (mem_get (ch_cells h) off (unat n))), s')"
proof -
  let ?d = "registered mal rom_blkdev"
  have id: "cfi_identity sst39_bus (cfi_pdev rom_config) h = (0xbf, 0xb5, h)"
    using h by (simp add: cfi_identity_def cfi_pdev_def rom_config_def cfi_codes sst39_bus_def sst39_read_def sst39_write_def
        sst39_ready_def phys_def)
  have reg: "blk_register mal oks None [] (Some rom_blkdev) (Some h) = ([?d], Some h)"
    by (simp add: blk_register_def subdev_probe_def mbr_probe_def registered_def blk_dev_add_def Let_def)
  have "rom_blkdev = cfi_blkdev sst39_bus (Some (cfi_pdev rom_config)) rom_config" by (rule rom_blkdev_def)
  then have p: "cfi_probe sst39_bus (devices board_8088_rev3) True True mal oks None [] h = (True, [?d], Some h)"
    using id reg by (simp add: cfi_probe_def rom_device DEVICE_def rom_config_def [symmetric]) (simp add: rom_config_def)
  have o: "blk_open [?d] (Some ''mtd0'') = Some ?d"
    by (simp add: blk_open_def) (simp add: rom_blkdev_def cfi_blkdev_def)
  have d: "dev_read rom_blkdev = None" "dev_write rom_blkdev = None" "block_size rom_blkdev = 4096"
    by (simp_all add: rom_blkdev_def cfi_blkdev_def rom_config_def)
  have st: "block_store rom_blkdev (\<lambda>s. \<exists>h. s = Some h \<and> sst39_ready h) (\<lambda>s. ch_cells (the s))"
    unfolding rom_blkdev_def by (rule rom.store.block_store_axioms)
  have "min (unat n) (length (ch_cells h) - off) = unat n" using h r(1) by (simp add: sst39_ready_def)
  then obtain s' where "blk_read (Some ?d) (Some buf) (int off) n (Some h) =
      (int (unat n), Some (mem_put buf 0 (mem_get (ch_cells h) off (unat n))), s')"
    using registered_read_bytes [OF st d(1,2), of mal tmp "Some h" n off buf] h m r d(3) by auto
  then show ?thesis using p o by blast
qed

theorem rom_probe_reads_witness:
  "\<exists>disks s d s'. cfi_probe sst39_bus (devices board_8088_rev3) True True (\<lambda>n. Some (replicate (unat n) 0)) (\<lambda>_. (True, True)) None []
      sample_rom = (True, disks, s) \<and> blk_open disks (Some ''mtd0'') = Some d \<and>
    blk_read (Some d) (Some (replicate 100 1)) 5000 100 s = (100, Some (replicate 100 0), s')"
proof -
  have "\<exists>disks s d s'. cfi_probe sst39_bus (devices board_8088_rev3) True True (\<lambda>n. Some (replicate (unat n) 0)) (\<lambda>_. (True, True)) None []
      sample_rom = (True, disks, s) \<and> blk_open disks (Some ''mtd0'') = Some d \<and>
    blk_read (Some d) (Some (replicate 100 1)) (int 5000) 100 s =
      (int (unat (100 :: u16)), Some (mem_put (replicate 100 1) 0 (mem_get (ch_cells sample_rom) 5000 (unat (100 :: u16)))), s')"
    by (rule rom_probe_reads [where tmp = "replicate 4096 0"]) (simp_all add: sample_rom_def sst39_ready_def)
  then show ?thesis by (simp add: sample_rom_def mem_put_def mem_get_def)
qed

end
