(* ===== verification/Path.thy ===== *)
theory Path
  imports Prelude "HOL-Library.Sublist"
begin

text \<open>
  Path strings of the file system layer: the bounded copy \<^verbatim>\<open>strlcpy\<close> of the C library
  (\<^verbatim>\<open>libc/string/strlcpy.c\<close>) and, from \<^verbatim>\<open>kernel/core/fs.c\<close>, \<^verbatim>\<open>trim_name\<close> and \<^verbatim>\<open>fs_normalize_path\<close>, the
  state machine that rewrites a path in its own buffer.

  A buffer is a list of characters; the string it holds ends at the first NUL.  A C string given
  as an argument is the list of its characters without the NUL.  Reading past the end of the
  buffer is the result \<open>None\<close>.

  The main theorem relates the state machine to a reference that splits the path at the slashes
  and resolves \<^verbatim>\<open>.\<close> and \<^verbatim>\<open>..\<close> over the list of fields.
\<close>

abbreviation NUL :: char where "NUL \<equiv> CHR 0x00"
abbreviation slash :: char where "slash \<equiv> CHR ''/''"
abbreviation dot :: char where "dot \<equiv> CHR ''.''"

definition cstr :: "char list \<Rightarrow> string" where
  "cstr buf = takeWhile (\<lambda>c. c \<noteq> NUL) buf"

section \<open>Bounded copy\<close>

text \<open>
  The copying loop: \<open>d\<close> indexes the destination, \<open>s\<close> is what is left of the source, \<open>n\<close> the counter
  before its decrement.  It returns the destination, the index, the rest of the source and the counter.
\<close>

fun strlcpy_loop :: "char list \<Rightarrow> nat \<Rightarrow> string \<Rightarrow> nat \<Rightarrow> char list \<times> nat \<times> string \<times> nat" where
  "strlcpy_loop dst d s 0 = (dst, d, s, 0)"
| "strlcpy_loop dst d s (Suc 0) = (dst, d, s, 0)"
| "strlcpy_loop dst d [] (Suc (Suc n)) = (dst[d := NUL], d + 1, [], Suc n)"
| "strlcpy_loop dst d (c # s) (Suc (Suc n)) = strlcpy_loop (dst[d := c]) (d + 1) s (Suc n)"

definition strlcpy :: "char list \<Rightarrow> string \<Rightarrow> nat \<Rightarrow> nat \<times> char list" where
  "strlcpy dst src sz =
     (let (dst, d, s, n) = strlcpy_loop dst 0 src sz
      in (length src, if n = 0 \<and> sz \<noteq> 0 then dst[d := NUL] else dst))"

section \<open>Leading spaces and slashes\<close>

definition trim_name :: "string \<Rightarrow> string" where
  "trim_name name = dropWhile (\<lambda>c. c = slash) (dropWhile (\<lambda>c. c = CHR '' '') name)"

section \<open>The state machine\<close>

datatype nstate = INITIAL | FIELD_START | IN_FIELD | SEP | SEEN_SEP | DOT | SEEN_DOT | DOTDOT | SEEN_DOTDOT

text \<open>The inner loop: walk backwards until the next field boundary.\<close>

fun normalize_back :: "char list \<Rightarrow> nat \<Rightarrow> nat" where
  "normalize_back path 0 = 0"
| "normalize_back path (Suc n) = (if path ! n = slash then Suc n else normalize_back path n)"

function normalize_loop :: "nstate \<Rightarrow> char list \<Rightarrow> nat \<Rightarrow> nat \<Rightarrow> (char list \<times> nat) option" where
  "normalize_loop state path pos outpos =
     (if length path \<le> pos then None
      else
        let c = path ! pos
        in case state of
          INITIAL \<Rightarrow>
            if c = slash then normalize_loop SEP path pos outpos
            else if c = dot then normalize_loop DOT path pos outpos
            else normalize_loop FIELD_START path pos outpos
        | FIELD_START \<Rightarrow>
            if c = dot then normalize_loop DOT path pos outpos
            else if c = NUL then Some (path, outpos)
            else normalize_loop IN_FIELD path pos outpos
        | IN_FIELD \<Rightarrow>
            if c = slash then normalize_loop SEP path pos outpos
            else if c = NUL then Some (path, outpos)
            else normalize_loop IN_FIELD (path[outpos := c]) (pos + 1) (outpos + 1)
        | SEP \<Rightarrow> normalize_loop SEEN_SEP (path[outpos := slash]) (pos + 1) (outpos + 1)
        | SEEN_SEP \<Rightarrow>
            if c = slash then normalize_loop SEEN_SEP path (pos + 1) outpos
            else if c = NUL then Some (path, outpos)
            else normalize_loop FIELD_START path pos outpos
        | DOT \<Rightarrow> normalize_loop SEEN_DOT path (pos + 1) outpos
        | SEEN_DOT \<Rightarrow>
            if c = dot then normalize_loop DOTDOT path pos outpos
            else if c = slash then normalize_loop SEEN_SEP path (pos + 1) outpos
            else if c = NUL then Some (path, outpos)
            else normalize_loop IN_FIELD (path[outpos := dot]) pos (outpos + 1)
        | DOTDOT \<Rightarrow> normalize_loop SEEN_DOTDOT path (pos + 1) outpos
        | SEEN_DOTDOT \<Rightarrow>
            if c = slash \<or> c = NUL then
              let outpos = (if outpos > 0 then normalize_back path (outpos - 1) else outpos)
              in if c = NUL then Some (path, outpos) else normalize_loop SEEN_SEP path (pos + 1) outpos
            else normalize_loop IN_FIELD (path[outpos := dot, outpos + 1 := dot]) pos (outpos + 2))"
  by pat_completeness auto

fun nrank :: "nstate \<Rightarrow> nat" where
  "nrank INITIAL = 5" | "nrank SEEN_SEP = 5" | "nrank FIELD_START = 4" | "nrank SEEN_DOT = 4"
| "nrank SEEN_DOTDOT = 4" | "nrank IN_FIELD = 3" | "nrank SEP = 1" | "nrank DOT = 1" | "nrank DOTDOT = 1"

termination normalize_loop
  by (relation "measures [\<lambda>(st, path, pos, _). length path - pos, \<lambda>(st, _, _, _). nrank st]") auto

definition fs_normalize_path :: "char list \<Rightarrow> char list option" where
  "fs_normalize_path path =
     (case normalize_loop INITIAL path 0 0 of
        None \<Rightarrow> None
      | Some (path, outpos) \<Rightarrow>
          let outpos = (if outpos > 0 \<and> path ! (outpos - 1) = slash then outpos - 1 else outpos)
          in Some (path[outpos := NUL]))"

declare normalize_loop.simps [simp del]

text \<open>The prologue of every path operation: a bounded copy into a local buffer, then normalisation.\<close>

definition FS_MAX_PATH_LEN :: nat where "FS_MAX_PATH_LEN = 128"

definition temp_path :: "string \<Rightarrow> string option" where
  "temp_path path = map_option cstr (fs_normalize_path (snd (strlcpy (replicate FS_MAX_PATH_LEN NUL) path FS_MAX_PATH_LEN)))"

section \<open>The reference\<close>

text \<open>The fields of a path, between slashes.\<close>

fun fields_of :: "string \<Rightarrow> string list" where
  "fields_of [] = [[]]"
| "fields_of (c # s) =
     (if c = slash then [] # fields_of s
      else case fields_of s of [] \<Rightarrow> [[c]] | f # fs \<Rightarrow> (c # f) # fs)"

text \<open>
  One field resolved against the path so far, which is absolute or not and has a list of fields.  A
  \<^verbatim>\<open>..\<close> that has no field to remove makes an absolute path relative.
\<close>

definition resolve :: "bool \<times> string list \<Rightarrow> string \<Rightarrow> bool \<times> string list" where
  "resolve r f =
     (if f = [] \<or> f = [dot] then r
      else if f = [dot, dot] then (if snd r = [] then (False, []) else (fst r, butlast (snd r)))
      else (fst r, snd r @ [f]))"

definition join_fields :: "string list \<Rightarrow> string" where
  "join_fields fs = tl (concat (map (\<lambda>f. slash # f) fs))"

definition normal_path :: "string \<Rightarrow> string" where
  "normal_path p =
     (let (absolute, fs) = foldl resolve (p \<noteq> [] \<and> hd p = slash, []) (fields_of p)
      in if fs = [] then [] else (if absolute then [slash] else []) @ join_fields fs)"

section \<open>The machine without the buffer\<close>

text \<open>The same transitions over the text emitted so far and the text left to read.\<close>

definition pop_field :: "string \<Rightarrow> string" where
  "pop_field out = rev (dropWhile (\<lambda>c. c \<noteq> slash) (tl (rev out)))"

function nm :: "nstate \<Rightarrow> string \<Rightarrow> string \<Rightarrow> string" where
  "nm INITIAL out r =
     (case r of [] \<Rightarrow> nm FIELD_START out r
      | c # _ \<Rightarrow> nm (if c = slash then SEP else if c = dot then DOT else FIELD_START) out r)"
| "nm FIELD_START out r = (case r of [] \<Rightarrow> out | c # _ \<Rightarrow> nm (if c = dot then DOT else IN_FIELD) out r)"
| "nm IN_FIELD out r =
     (case r of [] \<Rightarrow> out | c # r' \<Rightarrow> if c = slash then nm SEP out r else nm IN_FIELD (out @ [c]) r')"
| "nm SEP out r = (case r of [] \<Rightarrow> out | _ # r' \<Rightarrow> nm SEEN_SEP (out @ [slash]) r')"
| "nm SEEN_SEP out r =
     (case r of [] \<Rightarrow> out | c # r' \<Rightarrow> if c = slash then nm SEEN_SEP out r' else nm FIELD_START out r)"
| "nm DOT out r = (case r of [] \<Rightarrow> out | _ # r' \<Rightarrow> nm SEEN_DOT out r')"
| "nm SEEN_DOT out r =
     (case r of [] \<Rightarrow> out
      | c # r' \<Rightarrow> if c = dot then nm DOTDOT out r else if c = slash then nm SEEN_SEP out r'
                  else nm IN_FIELD (out @ [dot]) r)"
| "nm DOTDOT out r = (case r of [] \<Rightarrow> out | _ # r' \<Rightarrow> nm SEEN_DOTDOT out r')"
| "nm SEEN_DOTDOT out r =
     (case r of [] \<Rightarrow> pop_field out
      | c # r' \<Rightarrow> if c = slash then nm SEEN_SEP (pop_field out) r' else nm IN_FIELD (out @ [dot, dot]) r)"
  by pat_completeness auto
termination
  by (relation "measures [\<lambda>(st, _, r). length r, \<lambda>(st, _, _). nrank st]") auto

declare nm.simps [simp del]

lemma normalize_back_list:
  "normalize_back (out @ xs) (length out) = length (rev (dropWhile (\<lambda>c. c \<noteq> slash) (rev out))) \<and>
   take (length (rev (dropWhile (\<lambda>c. c \<noteq> slash) (rev out)))) out = rev (dropWhile (\<lambda>c. c \<noteq> slash) (rev out))"
proof (induction out arbitrary: xs rule: rev_induct)
  case (snoc c out)
  show ?case
  proof (cases "c = slash")
    case True
    then show ?thesis by (simp add: nth_append)
  next
    case False
    have "length (dropWhile (\<lambda>c. c \<noteq> slash) (rev out)) \<le> length out"
      using length_dropWhile_le [of _ "rev out"] by simp
    then show ?thesis using False snoc [of "c # xs"] by (simp add: nth_append)
  qed
qed simp

lemma normalize_back_pop:
  assumes "out \<noteq> []"
  shows "\<exists>junk. normalize_back (out @ xs) (length out - 1) = length (pop_field out) \<and> out = pop_field out @ junk"
proof -
  obtain o' c where o': "out = o' @ [c]" using assms by (cases out rule: rev_cases) auto
  have "normalize_back (o' @ c # xs) (length o') = length (pop_field out)" "take (length (pop_field out)) o' = pop_field out"
    using normalize_back_list [of o' "c # xs"] by (simp_all add: pop_field_def o')
  then show ?thesis using o' by (metis append.assoc append_Cons append_Nil append_take_drop_id diff_Suc_1 length_append_singleton)
qed

text \<open>How much of the input is read but not yet emitted.\<close>

fun slack :: "nstate \<Rightarrow> nat" where
  "slack SEEN_DOT = 1" | "slack DOTDOT = 1" | "slack SEEN_DOTDOT = 2" | "slack _ = 0"

definition reads :: "nstate \<Rightarrow> bool" where
  "reads st \<longleftrightarrow> st \<in> {SEP, DOT, DOTDOT}"

definition sim_result :: "(char list \<times> nat) option \<Rightarrow> string \<Rightarrow> nat \<Rightarrow> bool" where
  "sim_result r out n \<longleftrightarrow> (\<exists>junk. r = Some (out @ junk, length out) \<and> length (out @ junk) = n \<and> length out < n)"

text \<open>The three ways the buffer changes, with the part between the output and the input.\<close>

lemma emit_read: "(out @ mid @ c # xs)[length out := e] = (out @ [e]) @ tl (mid @ [c]) @ xs"
  by (cases mid) (simp_all add: list_update_append)

lemma emit_dot: "mid \<noteq> [] \<Longrightarrow> (out @ mid @ xs)[length out := e] = (out @ [e]) @ tl mid @ xs"
  by (cases mid) (simp_all add: list_update_append)

lemma emit_dots:
  "2 \<le> length mid \<Longrightarrow> (out @ mid @ xs)[length out := e, Suc (length out) := e] = (out @ [e, e]) @ drop 2 mid @ xs"
  by (cases mid; cases "tl mid") (simp_all add: list_update_append)

lemma at_pos: "(out @ mid @ xs) ! (length out + length mid) = xs ! 0"
  using nth_append_length_plus [of "out @ mid" xs 0] by simp

abbreviation layout :: "string \<Rightarrow> string \<Rightarrow> string \<Rightarrow> char list \<Rightarrow> char list" where
  "layout out mid r tail \<equiv> out @ mid @ r @ NUL # tail"

lemma sim_done: "sim_result (Some (layout out mid r tail, length out)) out (length (layout out mid r tail))"
  by (auto simp: sim_result_def)

lemma sim_pop:
  obtains junk where "(if 0 < length out then normalize_back (out @ xs) (length out - 1) else length out) = length (pop_field out)"
    "out = pop_field out @ junk"
proof (cases "out = []")
  case True
  then show ?thesis using that [of "[]"] by (simp add: pop_field_def)
qed (use normalize_back_pop [of out xs] that in auto)

lemma normalize_sim:
  assumes "NUL \<notin> set r" "slack st \<le> length mid" "reads st \<Longrightarrow> r \<noteq> []"
  shows "sim_result (normalize_loop st (layout out mid r tail) (length out + length mid) (length out)) (nm st out r)
    (length (layout out mid r tail))"
  using assms
proof (induction st out r arbitrary: mid tail rule: nm.induct)
  case (1 out r)
  show ?case
  proof (cases r)
    case Nil
    then show ?thesis using 1(1) [OF Nil, of mid tail] 1(3-)
      by (subst normalize_loop.simps, subst nm.simps) (simp add: at_pos reads_def)
  next
    case (Cons c r')
    then show ?thesis using 1(2) [OF Cons, of mid tail] 1(3-)
      by (subst normalize_loop.simps, subst nm.simps) (auto simp: at_pos reads_def)
  qed
next
  case (2 out r)
  show ?case
  proof (cases r)
    case Nil
    then show ?thesis using sim_done [of out mid r tail]
      by (subst normalize_loop.simps, subst nm.simps) (simp add: at_pos)
  next
    case (Cons c r')
    then show ?thesis using 2(1) [OF Cons, of mid tail] 2(2-)
      by (subst normalize_loop.simps, subst nm.simps) (auto simp: at_pos reads_def)
  qed
next
  case (3 out r)
  show ?case
  proof (cases r)
    case Nil
    then show ?thesis using sim_done [of out mid r tail]
      by (subst normalize_loop.simps, subst nm.simps) (simp add: at_pos)
  next
    case (Cons c r')
    show ?thesis
    proof (cases "c = slash")
      case True
      then show ?thesis using 3(1) [OF Cons True, of mid tail] 3(3-) Cons
        by (subst normalize_loop.simps, subst nm.simps) (simp add: at_pos reads_def)
    next
      case False
      then show ?thesis using 3(2) [OF Cons False, of "tl (mid @ [c])" tail] 3(3-) Cons
        by (subst normalize_loop.simps, subst nm.simps) (auto simp: at_pos reads_def emit_read)
    qed
  qed
next
  case (4 out r)
  then obtain c r' where r: "r = c # r'" by (cases r) (auto simp: reads_def)
  show ?case using 4(1) [OF r, of "tl (mid @ [c])" tail] 4(2-) r
    by (subst normalize_loop.simps, subst nm.simps) (auto simp: at_pos reads_def emit_read)
next
  case (5 out r)
  show ?case
  proof (cases r)
    case Nil
    then show ?thesis using sim_done [of out mid r tail]
      by (subst normalize_loop.simps, subst nm.simps) (simp add: at_pos)
  next
    case (Cons c r')
    show ?thesis
    proof (cases "c = slash")
      case True
      then show ?thesis using 5(1) [OF Cons True, of "mid @ [c]" tail] 5(3-) Cons
        by (subst normalize_loop.simps, subst nm.simps) (simp add: at_pos reads_def)
    next
      case False
      then show ?thesis using 5(2) [OF Cons False, of mid tail] 5(3-) Cons
        by (subst normalize_loop.simps, subst nm.simps) (auto simp: at_pos reads_def)
    qed
  qed
next
  case (6 out r)
  then obtain c r' where r: "r = c # r'" by (cases r) (auto simp: reads_def)
  show ?case using 6(1) [OF r, of "mid @ [c]" tail] 6(2-) r
    by (subst normalize_loop.simps, subst nm.simps) (auto simp: at_pos reads_def)
next
  case (7 out r)
  show ?case
  proof (cases r)
    case Nil
    then show ?thesis using sim_done [of out mid r tail]
      by (subst normalize_loop.simps, subst nm.simps) (simp add: at_pos)
  next
    case (Cons c r')
    consider "c = dot" | "c = slash" | "c \<noteq> dot" "c \<noteq> slash" by blast
    then show ?thesis
    proof cases
      case 1
      then show ?thesis using 7(1) [OF Cons 1, of mid tail] 7(4-) Cons
        by (subst normalize_loop.simps, subst nm.simps) (simp add: at_pos reads_def)
    next
      case 2
      then show ?thesis using 7(2) [OF Cons _ 2, of "mid @ [c]" tail] 7(4-) Cons
        by (subst normalize_loop.simps, subst nm.simps) (simp add: at_pos reads_def)
    next
      case 3
      have "mid \<noteq> []" using 7(5) by auto
      then show ?thesis using 7(3) [OF Cons 3, of "tl mid" tail] 7(4-) Cons 3
        by (subst normalize_loop.simps, subst nm.simps) (auto simp: at_pos reads_def emit_dot)
    qed
  qed
next
  case (8 out r)
  then obtain c r' where r: "r = c # r'" by (cases r) (auto simp: reads_def)
  show ?case using 8(1) [OF r, of "mid @ [c]" tail] 8(2-) r
    by (subst normalize_loop.simps, subst nm.simps) (auto simp: at_pos reads_def)
next
  case (9 out r)
  obtain junk where p: "(if 0 < length out then normalize_back (layout out mid r tail) (length out - 1) else length out) = length (pop_field out)"
      "out = pop_field out @ junk"
    using sim_pop [of out "mid @ r @ NUL # tail"] by blast
  have eq: "layout out mid r tail = layout (pop_field out) (junk @ mid) r tail" using p(2) by (metis append.assoc)
  have len: "length out = length (pop_field out) + length junk" using p(2) by (metis length_append)
  show ?case
  proof (cases r)
    case Nil
    have "normalize_loop SEEN_DOTDOT (layout out mid r tail) (length out + length mid) (length out) =
        Some (layout out mid r tail, length (pop_field out))"
      using p(1) Nil by (subst normalize_loop.simps) (simp add: at_pos del: length_greater_0_conv)
    then show ?thesis
      using sim_done [of "pop_field out" "junk @ mid" r tail] Nil unfolding eq by (simp add: nm.simps(9))
  next
    case (Cons c r')
    show ?thesis
    proof (cases "c = slash")
      case True
      have eq2: "layout out mid r tail = layout (pop_field out) (junk @ mid @ [c]) r' tail" using eq Cons by simp
      have "normalize_loop SEEN_DOTDOT (layout out mid r tail) (length out + length mid) (length out) =
          normalize_loop SEEN_SEP (layout out mid r tail) (length out + length mid + 1) (length (pop_field out))"
        using p(1) Cons True by (subst normalize_loop.simps) (simp add: at_pos del: length_greater_0_conv)
      also have "length out + length mid + 1 = length (pop_field out) + length (junk @ mid @ [c])" using len by simp
      finally show ?thesis using 9(1) [OF Cons True, of "junk @ mid @ [c]" tail] 9(3-) Cons True
        unfolding eq2 by (simp add: nm.simps(9) reads_def)
    next
      case False
      obtain a b m where mid: "mid = a # b # m" using 9(4) by (cases mid; cases "tl mid") auto
      have at: "(out @ a # b # m @ xs) ! Suc (Suc (length out + length m)) = xs ! 0" for xs
        using at_pos [of out "a # b # m" xs] by simp
      have "c \<noteq> NUL" using 9(3) Cons by auto
      then have "normalize_loop SEEN_DOTDOT (layout out mid r tail) (length out + length mid) (length out) =
          normalize_loop IN_FIELD (layout (out @ [dot, dot]) m r tail) (length (out @ [dot, dot]) + length m) (length (out @ [dot, dot]))"
        using emit_dots [of mid out "r @ NUL # tail" dot] Cons False mid by (subst normalize_loop.simps) (simp add: at)
      then show ?thesis using 9(2) [OF Cons False, of m tail] 9(3-) Cons False by (simp add: nm.simps(9) reads_def mid)
    qed
  qed
qed

section \<open>The machine and the reference\<close>

text \<open>At a field boundary the output is the fields so far, each followed by a slash.\<close>

definition render :: "bool \<times> string list \<Rightarrow> string" where
  "render r = (if fst r then [slash] else []) @ concat (map (\<lambda>f. f @ [slash]) (snd r))"

definition strip_slash :: "string \<Rightarrow> string" where
  "strip_slash out = (if out \<noteq> [] \<and> last out = slash then butlast out else out)"

definition field_ok :: "string \<Rightarrow> bool" where
  "field_ok f \<longleftrightarrow> f \<noteq> [] \<and> slash \<notin> set f"

lemma nm_end:
  "nm INITIAL out [] = out" "nm FIELD_START out [] = out" "nm IN_FIELD out [] = out" "nm SEEN_SEP out [] = out"
  "nm SEEN_DOT out [] = out" "nm SEEN_DOTDOT out [] = pop_field out"
  by (simp_all add: nm.simps)

lemma nm_read:
  "nm FIELD_START out (c # r) = (if c = dot then nm SEEN_DOT out r else nm IN_FIELD out (c # r))"
  "nm IN_FIELD out (c # r) = (if c = slash then nm SEEN_SEP (out @ [slash]) r else nm IN_FIELD (out @ [c]) r)"
  "nm SEEN_SEP out (c # r) = (if c = slash then nm SEEN_SEP out r else nm FIELD_START out (c # r))"
  "nm SEEN_DOT out (c # r) =
     (if c = dot then nm SEEN_DOTDOT out r else if c = slash then nm SEEN_SEP out r else nm IN_FIELD (out @ [dot]) (c # r))"
  "nm SEEN_DOTDOT out (c # r) =
     (if c = slash then nm SEEN_SEP (pop_field out) r else nm IN_FIELD (out @ [dot, dot]) (c # r))"
  "nm INITIAL out (c # r) = (if c = slash then nm SEEN_SEP (out @ [slash]) r else nm FIELD_START out (c # r))"
proof -
  show "nm FIELD_START out (c # r) = (if c = dot then nm SEEN_DOT out r else nm IN_FIELD out (c # r))"
    by (subst nm.simps(2)) (simp add: nm.simps(6))
  show "nm IN_FIELD out (c # r) = (if c = slash then nm SEEN_SEP (out @ [slash]) r else nm IN_FIELD (out @ [c]) r)"
    by (subst nm.simps(3)) (simp add: nm.simps(4))
  show "nm SEEN_SEP out (c # r) = (if c = slash then nm SEEN_SEP out r else nm FIELD_START out (c # r))"
    by (subst nm.simps(5)) simp
  show "nm SEEN_DOT out (c # r) =
     (if c = dot then nm SEEN_DOTDOT out r else if c = slash then nm SEEN_SEP out r else nm IN_FIELD (out @ [dot]) (c # r))"
    by (subst nm.simps(7)) (simp add: nm.simps(8))
  show "nm SEEN_DOTDOT out (c # r) =
     (if c = slash then nm SEEN_SEP (pop_field out) r else nm IN_FIELD (out @ [dot, dot]) (c # r))"
    by (subst nm.simps(9)) simp
  show "nm INITIAL out (c # r) = (if c = slash then nm SEEN_SEP (out @ [slash]) r else nm FIELD_START out (c # r))"
    by (subst nm.simps(1)) (simp add: nm.simps(2,4))
qed

lemma nm_in_field:
  "slash \<notin> set f \<Longrightarrow> nm IN_FIELD out f = out @ f"
  "slash \<notin> set f \<Longrightarrow> nm IN_FIELD out (f @ slash # r) = nm SEEN_SEP (out @ f @ [slash]) r"
  by (induction f arbitrary: out) (auto simp: nm_end nm_read)

lemma nm_field:
  assumes "field_ok f"
  shows "nm FIELD_START out f = (if f = [dot] then out else if f = [dot, dot] then pop_field out else out @ f) \<and>
    nm FIELD_START out (f @ slash # r) =
     nm SEEN_SEP (if f = [dot] then out else if f = [dot, dot] then pop_field out else out @ f @ [slash]) r"
proof -
  have ns: "slash \<notin> set f" "f \<noteq> []" using assms by (simp_all add: field_ok_def)
  consider (plain) c g where "f = c # g" "c \<noteq> dot" | (one) "f = [dot]" | (pre) c g where "f = dot # c # g" "c \<noteq> dot"
      | (two) "f = [dot, dot]" | (pre2) c g where "f = dot # dot # c # g"
    using ns(2) by (metis list.exhaust)
  then show ?thesis
  proof cases
    case plain
    then show ?thesis using nm_in_field [OF ns(1)] by (auto simp: nm_read(1))
  next
    case pre
    then show ?thesis using nm_in_field [of "c # g" "out @ [dot]"] ns(1) by (auto simp: nm_read(1,4))
  next
    case pre2
    then show ?thesis using nm_in_field [of "c # g" "out @ [dot, dot]"] ns(1) by (auto simp: nm_read(1,4,5))
  qed (auto simp: nm_end nm_read(1,3,4,5))
qed

lemma fields_of_first: "slash \<notin> set f \<Longrightarrow> fields_of (f @ slash # r) = f # fields_of r"
  by (induction f) auto

lemma fields_of_last: "slash \<notin> set f \<Longrightarrow> fields_of f = [f]"
  by (induction f) auto

lemma concat_snoc: "concat (map (\<lambda>f. f @ [slash]) fs) \<noteq> [] \<longleftrightarrow> fs \<noteq> []"
  by (cases fs) auto

lemma pop_field_snoc: "slash \<notin> set f \<Longrightarrow> pop_field (out @ [slash] @ f @ [slash]) = out @ [slash]"
  "slash \<notin> set f \<Longrightarrow> pop_field (f @ [slash]) = []"
  by (auto simp: pop_field_def dropWhile_append)

lemma pop_render:
  assumes "\<forall>f \<in> set fs. field_ok f"
  shows "pop_field (render (a, fs)) = render (if fs = [] then (False, []) else (a, butlast fs))"
proof (cases fs rule: rev_cases)
  case Nil
  then show ?thesis by (simp add: render_def pop_field_def)
next
  case (snoc gs f)
  have f: "slash \<notin> set f" using assms snoc by (simp add: field_ok_def)
  show ?thesis
  proof (cases gs rule: rev_cases)
    case Nil
    then show ?thesis using snoc pop_field_snoc(1) [OF f, of "[]"] pop_field_snoc(2) [OF f] by (simp add: render_def)
  next
    case (snoc hs g)
    then show ?thesis
      using \<open>fs = gs @ [f]\<close> pop_field_snoc(1) [OF f, of "(if a then [slash] else []) @ concat (map (\<lambda>f. f @ [slash]) hs) @ g"]
      by (simp add: render_def butlast_append)
  qed
qed

lemma resolve_ok: "\<forall>f \<in> set (snd r). field_ok f \<Longrightarrow> slash \<notin> set g \<Longrightarrow> \<forall>f \<in> set (snd (resolve r g)). field_ok f"
  by (auto simp: resolve_def field_ok_def dest: in_set_butlastD)

lemma fields_no_slash: "f \<in> set (fields_of p) \<Longrightarrow> slash \<notin> set f"
  by (induction p arbitrary: f) (auto split: if_splits list.splits)

lemma foldl_resolve_ok:
  "\<forall>f \<in> set (snd r). field_ok f \<Longrightarrow> \<forall>g \<in> set gs. slash \<notin> set g \<Longrightarrow> \<forall>f \<in> set (snd (foldl resolve r gs)). field_ok f"
proof (induction gs arbitrary: r)
  case (Cons g gs)
  then show ?case using resolve_ok [of r g] by simp
qed simp

lemma render_resolve:
  assumes "\<forall>f \<in> set (snd r). field_ok f" "field_ok f"
  shows "(if f = [dot] then render r else if f = [dot, dot] then pop_field (render r) else render r @ f @ [slash]) = render (resolve r f)"
  using pop_render [of "snd r" "fst r"] assms by (auto simp: resolve_def render_def field_ok_def)

lemma strip_snoc: "field_ok f \<Longrightarrow> strip_slash (out @ f) = out @ f" "strip_slash (out @ [slash]) = out"
  by (auto simp: strip_slash_def field_ok_def last_append) (metis last_in_set)

lemma nm_fields:
  "\<forall>f \<in> set (snd st). field_ok f \<Longrightarrow>
   strip_slash (nm SEEN_SEP (render st) r) = strip_slash (render (foldl resolve st (fields_of r)))"
proof (induction "length r" arbitrary: r st rule: less_induct)
  case less
  show ?case
  proof (cases "slash \<in> set r")
    case True
    then obtain f r' where r: "r = f @ slash # r'" "slash \<notin> set f" by (metis split_list_first)
    have ih: "strip_slash (nm SEEN_SEP (render t) r') = strip_slash (render (foldl resolve t (fields_of r')))"
      if "\<forall>f \<in> set (snd t). field_ok f" for t using less.hyps [of r'] that r by simp
    show ?thesis
    proof (cases f)
      case Nil
      then show ?thesis using ih [OF less.prems] r by (simp add: nm_read resolve_def)
    next
      case (Cons c g)
      then have ok: "field_ok f" using r(2) by (simp add: field_ok_def)
      have "nm SEEN_SEP (render st) r = nm FIELD_START (render st) (f @ slash # r')"
        using r Cons by (auto simp: nm_read(3))
      also have "\<dots> = nm SEEN_SEP (render (resolve st f)) r'"
        using nm_field [OF ok] render_resolve [OF less.prems ok] by simp
      finally show ?thesis using ih [OF resolve_ok [OF less.prems r(2)]] r by (simp add: fields_of_first)
    qed
  next
    case False
    then have fr: "fields_of r = [r]" by (rule fields_of_last)
    show ?thesis
    proof (cases r)
      case Nil
      then show ?thesis using fr by (simp add: nm_end resolve_def)
    next
      case (Cons c g)
      then have ok: "field_ok r" using False by (simp add: field_ok_def)
      have "nm SEEN_SEP (render st) r = nm FIELD_START (render st) r" using Cons False by (auto simp: nm_read(3))
      then show ?thesis
        using nm_field [OF ok, of "render st"] render_resolve [OF less.prems ok] fr strip_snoc(1) [OF ok]
          strip_snoc(2) [of "render st @ r"] by (auto split: if_splits)
    qed
  qed
qed

lemma join_fields_render:
  "fs \<noteq> [] \<Longrightarrow> concat (map (\<lambda>f. f @ [slash]) fs) = join_fields fs @ [slash]"
proof -
  have "slash # concat (map (\<lambda>f. f @ [slash]) fs) = concat (map (\<lambda>f. slash # f) fs) @ [slash]"
    by (induction fs) auto
  moreover assume "fs \<noteq> []"
  ultimately show ?thesis unfolding join_fields_def by (cases fs) auto
qed

lemma strip_render:
  "strip_slash (render (a, fs)) = (if fs = [] then [] else (if a then [slash] else []) @ join_fields fs)"
  using strip_snoc(2) [of "(if a then [slash] else []) @ join_fields fs"] join_fields_render [of fs]
  by (auto simp: render_def strip_slash_def)

lemma nm_normal: "strip_slash (nm INITIAL [] p) = normal_path p"
proof (cases p)
  case Nil
  then show ?thesis by (simp add: nm_end normal_path_def resolve_def strip_slash_def)
next
  case (Cons c r)
  have "strip_slash (nm INITIAL [] p) = strip_slash (render (foldl resolve (c = slash, []) (fields_of p)))"
  proof (cases "c = slash")
    case True
    then have "nm INITIAL [] p = nm SEEN_SEP (render (True, [])) r" using Cons by (simp add: nm_read render_def)
    then show ?thesis using nm_fields [of "(True, [])" r] True Cons by (simp add: resolve_def)
  next
    case False
    then have "nm INITIAL [] p = nm SEEN_SEP (render (False, [])) p" using Cons by (simp add: nm_read(3,6) render_def)
    then show ?thesis using nm_fields [of "(False, [])" p] False by simp
  qed
  then show ?thesis using Cons strip_render by (simp add: normal_path_def split: prod.split)
qed

section \<open>Properties\<close>

lemma set_join: "set (join_fields fs) \<subseteq> insert slash (\<Union>f \<in> set fs. set f)"
  unfolding join_fields_def by (rule order.trans [OF set_mono_suffix [OF suffix_tl]]) auto

lemma set_fields_of: "f \<in> set (fields_of p) \<Longrightarrow> set f \<subseteq> set p"
  by (induction p arbitrary: f) (fastforce split: if_splits list.splits)+

lemma resolve_subset: "set (snd (resolve r g)) \<subseteq> insert g (set (snd r))"
  by (auto simp: resolve_def dest: in_set_butlastD)

lemma foldl_resolve_subset: "set (snd (foldl resolve r gs)) \<subseteq> set gs \<union> set (snd r)"
proof (induction gs arbitrary: r)
  case (Cons g gs)
  show ?case using Cons.IH [of "resolve r g"] resolve_subset [of r g] by auto
qed simp

lemma normal_path_chars: "set (normal_path p) \<subseteq> insert slash (set p)"
proof -
  let ?r = "foldl resolve (p \<noteq> [] \<and> hd p = slash, []) (fields_of p)"
  have "set f \<subseteq> set p" if "f \<in> set (snd ?r)" for f
    using foldl_resolve_subset [of _ "fields_of p"] set_fields_of that by fastforce
  then have "set (join_fields (snd ?r)) \<subseteq> insert slash (set p)" using set_join [of "snd ?r"] by blast
  then show ?thesis by (cases ?r) (auto simp: normal_path_def split: if_splits)
qed

lemma cstr_take: "NUL \<notin> set s \<Longrightarrow> cstr (s @ NUL # xs) = s"
  by (induction s) (auto simp: cstr_def)

lemma fs_normalize_buffer:
  assumes "NUL \<notin> set p"
  shows "\<exists>tail'. fs_normalize_path (p @ NUL # tail) = Some (normal_path p @ NUL # tail') \<and>
    length (normal_path p @ NUL # tail') = length (p @ NUL # tail)"
proof -
  let ?out = "nm INITIAL [] p"
  obtain junk where j: "normalize_loop INITIAL (p @ NUL # tail) 0 0 = Some (?out @ junk, length ?out)"
      "length (?out @ junk) = length (p @ NUL # tail)" "length ?out < length (p @ NUL # tail)"
    using normalize_sim [of p INITIAL "[]" "[]" tail] assms by (auto simp: sim_result_def reads_def)
  then have jn: "junk \<noteq> []" by auto
  let ?n = "if length ?out > 0 \<and> (?out @ junk) ! (length ?out - 1) = slash then length ?out - 1 else length ?out"
  have r: "fs_normalize_path (p @ NUL # tail) = Some ((?out @ junk)[?n := NUL])"
    unfolding fs_normalize_path_def j(1) by (simp add: Let_def)
  show ?thesis
  proof (cases "?out \<noteq> [] \<and> last ?out = slash")
    case True
    then obtain o' where o': "?out = o' @ [slash]" by (metis append_butlast_last_id)
    then have "normal_path p = o'" using nm_normal [of p] by (simp add: strip_slash_def)
    moreover have "(?out @ junk)[?n := NUL] = o' @ NUL # junk" by (simp add: o' nth_append list_update_append)
    ultimately show ?thesis using r j(2) o' by auto
  next
    case False
    then have "normal_path p = ?out" using nm_normal [of p] by (auto simp: strip_slash_def)
    moreover have "?n = length ?out" using False by (auto simp: nth_append last_conv_nth)
    then have "(?out @ junk)[?n := NUL] = ?out @ NUL # tl junk" using jn by (cases junk) (simp_all add: list_update_append)
    ultimately show ?thesis using r j(2) jn by (intro exI [of _ "tl junk"]) (cases junk, auto)
  qed
qed

text \<open>
  C19.  \<^verbatim>\<open>fs_normalize_path\<close> terminates on every NUL-terminated buffer, never reads or writes past its
  terminator, and leaves in it the normal form of the path: the fields between slashes with empty
  fields and \<^verbatim>\<open>.\<close> dropped, \<^verbatim>\<open>..\<close> resolved, without a trailing slash.
\<close>

theorem fs_normalize_path_correct:
  assumes "NUL \<notin> set p"
  shows "\<exists>buf'. fs_normalize_path (p @ NUL # tail) = Some buf' \<and> length buf' = length (p @ NUL # tail) \<and>
    cstr buf' = normal_path p"
proof -
  have "NUL \<notin> set (normal_path p)" using normal_path_chars [of p] assms by auto
  then show ?thesis using fs_normalize_buffer [OF assms, of tail] cstr_take by metis
qed

theorem fs_normalize_path_correct_witness:
  "\<exists>buf'. fs_normalize_path (''/bleh/bar/../../foo/../meh'' @ [NUL]) = Some buf' \<and> cstr buf' = ''/meh''"
proof -
  have "normal_path ''/bleh/bar/../../foo/../meh'' = ''/meh''"
    by (simp add: normal_path_def resolve_def join_fields_def)
  then show ?thesis using fs_normalize_path_correct [of "''/bleh/bar/../../foo/../meh''" "[]"] by auto
qed

text \<open>The fields of a normal form are plain names.\<close>

definition plain_field :: "string \<Rightarrow> bool" where
  "plain_field f \<longleftrightarrow> field_ok f \<and> f \<noteq> [dot] \<and> f \<noteq> [dot, dot]"

lemma foldl_resolve_plain:
  "\<forall>f \<in> set (snd r). plain_field f \<Longrightarrow> \<forall>g \<in> set gs. slash \<notin> set g \<Longrightarrow> \<forall>f \<in> set (snd (foldl resolve r gs)). plain_field f"
proof (induction gs arbitrary: r)
  case (Cons g gs)
  have "\<forall>f \<in> set (snd (resolve r g)). plain_field f"
    using Cons.prems by (auto simp: resolve_def plain_field_def field_ok_def dest: in_set_butlastD)
  then show ?case using Cons by simp
qed simp

lemma foldl_resolve_append: "\<forall>f \<in> set gs. plain_field f \<Longrightarrow> foldl resolve (a, fs) gs = (a, fs @ gs)"
  by (induction gs arbitrary: fs) (auto simp: resolve_def plain_field_def field_ok_def)

lemma join_fields_Cons: "fs \<noteq> [] \<Longrightarrow> join_fields (f # fs) = f @ slash # join_fields fs"
  by (cases fs) (simp_all add: join_fields_def)

lemma fields_of_join: "fs \<noteq> [] \<Longrightarrow> \<forall>f \<in> set fs. slash \<notin> set f \<Longrightarrow> fields_of (join_fields fs) = fs"
proof (induction fs)
  case (Cons f fs)
  then show ?case
    by (cases "fs = []") (simp_all add: join_fields_Cons fields_of_first fields_of_last, simp add: join_fields_def fields_of_last)
qed simp

definition rendered :: "bool \<Rightarrow> string list \<Rightarrow> string" where
  "rendered a fs = (if fs = [] then [] else (if a then [slash] else []) @ join_fields fs)"

lemma normal_path_rendered:
  obtains a fs where "normal_path p = rendered a fs" "\<forall>f \<in> set fs. plain_field f"
proof -
  let ?r = "foldl resolve (p \<noteq> [] \<and> hd p = slash, []) (fields_of p)"
  have "\<forall>f \<in> set (snd ?r). plain_field f" by (rule foldl_resolve_plain) (auto dest: fields_no_slash)
  then show ?thesis using that [of "fst ?r" "snd ?r"] by (simp add: normal_path_def rendered_def split: prod.split)
qed

lemma normal_path_of_rendered: "\<forall>f \<in> set fs. plain_field f \<Longrightarrow> normal_path (rendered a fs) = rendered a fs"
proof (cases fs)
  case (Cons g gs)
  assume pl: "\<forall>f \<in> set fs. plain_field f"
  then have ns: "\<forall>f \<in> set fs. slash \<notin> set f" "g \<noteq> []" "fs \<noteq> []" using Cons by (auto simp: plain_field_def field_ok_def)
  have "join_fields fs = g \<or> (\<exists>r. join_fields fs = g @ r)"
    using Cons join_fields_Cons [of gs g] by (cases "gs = []") (auto simp: join_fields_def)
  then have j: "join_fields fs \<noteq> []" "hd (join_fields fs) = hd g" using ns(2) by auto
  have "hd g \<noteq> slash" using ns Cons by (metis hd_in_set list.set_intros(1))
  have fo: "fields_of (join_fields fs) = fs" using fields_of_join [OF ns(3,1)] .
  show ?thesis
  proof (cases a)
    case True
    have "resolve (True, []) [] = (True, [])" by (simp add: resolve_def)
    then show ?thesis using True fo foldl_resolve_append [OF pl, of True "[]"] ns(3)
      by (simp add: normal_path_def rendered_def)
  next
    case False
    then show ?thesis using \<open>hd g \<noteq> slash\<close> j fo foldl_resolve_append [OF pl, of False "[]"] ns(3)
      by (simp add: normal_path_def rendered_def)
  qed
qed (simp add: rendered_def normal_path_def resolve_def)

lemma strlcpy_loop_ok:
  "d + n \<le> length dst \<Longrightarrow> 0 < n \<Longrightarrow>
   (case strlcpy_loop dst d s n of (dst', d', s', n') \<Rightarrow>
      length dst' = length dst \<and>
      take (d + min (length s) (n - 1)) dst' = take d dst @ take (n - 1) s \<and>
      (if length s < n - 1 then n' \<noteq> 0 \<and> dst' ! (d + length s) = NUL else n' = 0 \<and> d' = d + (n - 1)))"
proof (induction dst d s n rule: strlcpy_loop.induct)
  case (4 dst d c s n)
  have t: "take (Suc d) (dst[d := c]) = take d dst @ [c]" using 4(2) by (simp add: take_Suc_conv_app_nth)
  obtain dst' d' s' n' where r: "strlcpy_loop (dst[d := c]) (d + 1) s (Suc n) = (dst', d', s', n')" by (metis prod_cases4)
  show ?case using 4(1) 4(2) r t by (auto split: if_splits simp: min_def)
qed (auto simp: nth_list_update)

lemma strlcpy_ok:
  assumes "0 < sz" "sz \<le> length dst"
  shows "\<exists>tail. strlcpy dst src sz = (length src, take (sz - 1) src @ NUL # tail)"
proof -
  obtain dst' d' s' n' where r: "strlcpy_loop dst 0 src sz = (dst', d', s', n')" by (metis prod_cases4)
  let ?k = "min (length src) (sz - 1)"
  have l: "length dst' = length dst" "take ?k dst' = take (sz - 1) src"
      "if length src < sz - 1 then n' \<noteq> 0 \<and> dst' ! length src = NUL else n' = 0 \<and> d' = sz - 1"
    using strlcpy_loop_ok [of 0 sz dst src] assms r by auto
  have k: "?k < length dst'" using assms l(1) by (auto simp: min_def)
  have "dst' = take ?k dst' @ dst' ! ?k # drop (Suc ?k) dst'" using id_take_nth_drop [OF k] .
  then have "(if n' = 0 \<and> sz \<noteq> 0 then dst'[d' := NUL] else dst') = take (sz - 1) src @ NUL # drop (Suc ?k) dst'"
    using l assms k by (auto simp: min_def upd_conv_take_nth_drop split: if_splits)
  then show ?thesis using r by (auto simp: strlcpy_def)
qed

lemma temp_path_eq:
  assumes "NUL \<notin> set p" shows "temp_path p = Some (normal_path (take 127 p))"
proof -
  obtain tail where t: "strlcpy (replicate FS_MAX_PATH_LEN NUL) p FS_MAX_PATH_LEN = (length p, take 127 p @ NUL # tail)"
    using strlcpy_ok [of FS_MAX_PATH_LEN "replicate FS_MAX_PATH_LEN NUL" p] by (auto simp: FS_MAX_PATH_LEN_def)
  have nul: "NUL \<notin> set (take 127 p)" using assms by (meson in_set_takeD)
  then have "NUL \<notin> set (normal_path (take 127 p))" using normal_path_chars [of "take 127 p"] by auto
  then show ?thesis using fs_normalize_buffer [OF nul, of tail] t by (auto simp: temp_path_def cstr_take)
qed

text \<open>
  Normalisation is stable: the path every operation works on is the normal form of the first 127
  characters of its argument, it has no more characters than that, and normalising it again changes
  nothing.
\<close>

theorem temp_path_stable:
  assumes "NUL \<notin> set p"
  shows "\<exists>q. temp_path p = Some q \<and> q = normal_path (take 127 p) \<and> length q \<le> 127 \<and> temp_path q = Some q"
proof -
  let ?p = "take 127 p"
  have nul: "NUL \<notin> set ?p" using assms by (meson in_set_takeD)
  obtain tail' where "length (normal_path ?p @ NUL # tail') = length (?p @ NUL # [])"
    using fs_normalize_buffer [OF nul, of "[]"] by blast
  then have len: "length (normal_path ?p) \<le> 127" by simp
  have "NUL \<notin> set (normal_path ?p)" using normal_path_chars [of ?p] nul by auto
  moreover have "normal_path (normal_path ?p) = normal_path ?p"
    using normal_path_rendered [of ?p] normal_path_of_rendered by metis
  ultimately show ?thesis using temp_path_eq [OF assms] temp_path_eq [of "normal_path ?p"] len by auto
qed

theorem temp_path_stable_witness: "\<exists>q. temp_path ''/a//./b/'' = Some q \<and> q = ''/a/b'' \<and> temp_path q = Some q"
proof -
  have "normal_path (take 127 ''/a//./b/'') = ''/a/b''" by (simp add: normal_path_def resolve_def join_fields_def)
  then show ?thesis using temp_path_stable [of "''/a//./b/''"] by auto
qed

end
