(* ===== verification/Ext2.thy ===== *)
theory Ext2
  imports Cfi Path
begin

text \<open>
  The ext2 driver, first part: the on-disk structures (\<^verbatim>\<open>ext2_fs.h\<close>), mounting and loading of inodes
  (\<^verbatim>\<open>ext2.c\<close>) and the reading of a file through its direct and indirect blocks (\<^verbatim>\<open>io.c\<close>).

  A structure read from the device is a record, \<open>..._of\<close> being its overlay on the bytes it was read
  into, which are little-endian as the target is.  The driver runs on a state \<open>io\<close>: the state \<open>'s\<close> of
  the block device, and the heap as the outcome of each allocation in turn with the number of
  blocks that are allocated.  The contents of automatic arrays are those of \<open>io_junk\<close> until they
  are written.  The result \<open>None\<close> of an operation is an undefined access: a division by zero, or a
  read outside of an array.  Messages are not modelled.
\<close>

section \<open>Little-endian data\<close>

definition le16 :: "u8 list \<Rightarrow> nat \<Rightarrow> u16" where
  "le16 b i = ucast (b ! i) OR push_bit 8 (ucast (b ! (i + 1)))"

definition le32 :: "u8 list \<Rightarrow> nat \<Rightarrow> u32" where
  "le32 b i = ucast (b ! i) OR push_bit 8 (ucast (b ! (i + 1))) OR
     push_bit 16 (ucast (b ! (i + 2))) OR push_bit 24 (ucast (b ! (i + 3)))"

definition le32s :: "u8 list \<Rightarrow> nat \<Rightarrow> nat \<Rightarrow> u32 list" where
  "le32s b i n = map (\<lambda>k. le32 b (i + 4 * k)) [0..<n]"

definition bytes16 :: "u16 \<Rightarrow> u8 list" where
  "bytes16 w = [ucast w, ucast (drop_bit 8 w)]"

definition bytes32 :: "u32 \<Rightarrow> u8 list" where
  "bytes32 w = [ucast w, ucast (drop_bit 8 w), ucast (drop_bit 16 w), ucast (drop_bit 24 w)]"

definition LE16 :: "u16 \<Rightarrow> u16" where [simp]: "LE16 v = v"
definition LE32 :: "u32 \<Rightarrow> u32" where [simp]: "LE32 v = v"

section \<open>On-disk structures\<close>

record ext2_super_block =
  s_inodes_count :: u32
  s_blocks_count :: u32
  s_r_blocks_count :: u32
  s_free_blocks_count :: u32
  s_free_inodes_count :: u32
  s_first_data_block :: u32
  s_log_block_size :: u32
  s_log_frag_size :: u32
  s_blocks_per_group :: u32
  s_frags_per_group :: u32
  s_inodes_per_group :: u32
  s_mtime :: u32
  s_wtime :: u32
  s_mnt_count :: u16
  s_max_mnt_count :: u16
  s_magic :: u16
  s_state :: u16
  s_errors :: u16
  s_minor_rev_level :: u16
  s_lastcheck :: u32
  s_checkinterval :: u32
  s_creator_os :: u32
  s_rev_level :: u32
  s_def_resuid :: u16
  s_def_resgid :: u16
  s_first_ino :: u32
  s_inode_size :: u16
  s_block_group_nr :: u16
  s_feature_compat :: u32
  s_feature_incompat :: u32
  s_feature_ro_compat :: u32
  s_uuid :: "u8 list"
  s_volume_name :: "u8 list"
  s_last_mounted :: "u8 list"
  s_algorithm_usage_bitmap :: u32
  s_prealloc_blocks :: u8
  s_prealloc_dir_blocks :: u8
  s_padding1 :: u16
  s_journal_uuid :: "u8 list"
  s_journal_inum :: u32
  s_journal_dev :: u32
  s_last_orphan :: u32
  s_hash_seed :: "u32 list"
  s_def_hash_version :: u8
  s_reserved_char_pad :: u8
  s_reserved_word_pad :: u16
  s_default_mount_opts :: u32
  s_first_meta_bg :: u32
  s_reserved :: "u32 list"

definition super_block_of :: "u8 list \<Rightarrow> ext2_super_block" where
  "super_block_of b =
     \<lparr>s_inodes_count = le32 b 0, s_blocks_count = le32 b 4, s_r_blocks_count = le32 b 8,
      s_free_blocks_count = le32 b 12, s_free_inodes_count = le32 b 16, s_first_data_block = le32 b 20,
      s_log_block_size = le32 b 24, s_log_frag_size = le32 b 28, s_blocks_per_group = le32 b 32,
      s_frags_per_group = le32 b 36, s_inodes_per_group = le32 b 40, s_mtime = le32 b 44, s_wtime = le32 b 48,
      s_mnt_count = le16 b 52, s_max_mnt_count = le16 b 54, s_magic = le16 b 56, s_state = le16 b 58,
      s_errors = le16 b 60, s_minor_rev_level = le16 b 62, s_lastcheck = le32 b 64, s_checkinterval = le32 b 68,
      s_creator_os = le32 b 72, s_rev_level = le32 b 76, s_def_resuid = le16 b 80, s_def_resgid = le16 b 82,
      s_first_ino = le32 b 84, s_inode_size = le16 b 88, s_block_group_nr = le16 b 90,
      s_feature_compat = le32 b 92, s_feature_incompat = le32 b 96, s_feature_ro_compat = le32 b 100,
      s_uuid = mem_get b 104 16, s_volume_name = mem_get b 120 16, s_last_mounted = mem_get b 136 64,
      s_algorithm_usage_bitmap = le32 b 200, s_prealloc_blocks = b ! 204, s_prealloc_dir_blocks = b ! 205,
      s_padding1 = le16 b 206, s_journal_uuid = mem_get b 208 16, s_journal_inum = le32 b 224,
      s_journal_dev = le32 b 228, s_last_orphan = le32 b 232, s_hash_seed = le32s b 236 4,
      s_def_hash_version = b ! 252, s_reserved_char_pad = b ! 253, s_reserved_word_pad = le16 b 254,
      s_default_mount_opts = le32 b 256, s_first_meta_bg = le32 b 260, s_reserved = le32s b 264 190\<rparr>"

record ext2_group_desc =
  bg_block_bitmap :: u32
  bg_inode_bitmap :: u32
  bg_inode_table :: u32
  bg_free_blocks_count :: u16
  bg_free_inodes_count :: u16
  bg_used_dirs_count :: u16
  bg_pad :: u16
  bg_reserved :: "u32 list"

definition group_desc_of :: "u8 list \<Rightarrow> ext2_group_desc" where
  "group_desc_of b =
     \<lparr>bg_block_bitmap = le32 b 0, bg_inode_bitmap = le32 b 4, bg_inode_table = le32 b 8,
      bg_free_blocks_count = le16 b 12, bg_free_inodes_count = le16 b 14, bg_used_dirs_count = le16 b 16,
      bg_pad = le16 b 18, bg_reserved = le32s b 20 3\<rparr>"

definition EXT2_NDIR_BLOCKS :: u32 where "EXT2_NDIR_BLOCKS = 12"
definition EXT2_IND_BLOCK :: u32 where "EXT2_IND_BLOCK = EXT2_NDIR_BLOCKS"
definition EXT2_DIND_BLOCK :: u32 where "EXT2_DIND_BLOCK = EXT2_IND_BLOCK + 1"
definition EXT2_TIND_BLOCK :: u32 where "EXT2_TIND_BLOCK = EXT2_DIND_BLOCK + 1"
definition EXT2_N_BLOCKS :: u32 where "EXT2_N_BLOCKS = EXT2_TIND_BLOCK + 1"

text \<open>The unions \<^verbatim>\<open>osd1\<close> and \<^verbatim>\<open>osd2\<close> are read through their Linux members.\<close>

record ext2_inode =
  i_mode :: u16
  i_uid :: u16
  i_size :: u32
  i_atime :: u32
  i_ctime :: u32
  i_mtime :: u32
  i_dtime :: u32
  i_gid :: u16
  i_links_count :: u16
  i_blocks :: u32
  i_flags :: u32
  i_reserved1 :: u32
  i_block :: "u32 list"
  i_generation :: u32
  i_file_acl :: u32
  i_dir_acl :: u32
  i_faddr :: u32
  i_frag :: u8
  i_fsize :: u8
  i_pad1 :: u16
  i_uid_high :: u16
  i_gid_high :: u16
  i_reserved2 :: u32

definition inode_of :: "u8 list \<Rightarrow> ext2_inode" where
  "inode_of b =
     \<lparr>i_mode = le16 b 0, i_uid = le16 b 2, i_size = le32 b 4, i_atime = le32 b 8, i_ctime = le32 b 12,
      i_mtime = le32 b 16, i_dtime = le32 b 20, i_gid = le16 b 24, i_links_count = le16 b 26,
      i_blocks = le32 b 28, i_flags = le32 b 32, i_reserved1 = le32 b 36,
      i_block = le32s b 40 15,
      i_generation = le32 b 100, i_file_acl = le32 b 104, i_dir_acl = le32 b 108, i_faddr = le32 b 112,
      i_frag = b ! 116, i_fsize = b ! 117, i_pad1 = le16 b 118, i_uid_high = le16 b 120,
      i_gid_high = le16 b 122, i_reserved2 = le32 b 124\<rparr>"

text \<open>The bytes of an inode in memory, over which the device reads.\<close>

definition inode_bytes :: "ext2_inode \<Rightarrow> u8 list" where
  "inode_bytes n =
     bytes16 (i_mode n) @ bytes16 (i_uid n) @ bytes32 (i_size n) @ bytes32 (i_atime n) @ bytes32 (i_ctime n) @
     bytes32 (i_mtime n) @ bytes32 (i_dtime n) @ bytes16 (i_gid n) @ bytes16 (i_links_count n) @
     bytes32 (i_blocks n) @ bytes32 (i_flags n) @ bytes32 (i_reserved1 n) @ concat (map bytes32 (i_block n)) @
     bytes32 (i_generation n) @ bytes32 (i_file_acl n) @ bytes32 (i_dir_acl n) @ bytes32 (i_faddr n) @
     [i_frag n, i_fsize n] @ bytes16 (i_pad1 n) @ bytes16 (i_uid_high n) @ bytes16 (i_gid_high n) @
     bytes32 (i_reserved2 n)"

definition EXT2_SUPER_MAGIC :: u16 where "EXT2_SUPER_MAGIC = 0xEF53"
definition EXT2_GOOD_OLD_REV :: u32 where "EXT2_GOOD_OLD_REV = 0"
definition EXT2_DYNAMIC_REV :: u32 where "EXT2_DYNAMIC_REV = 1"
definition EXT2_GOOD_OLD_INODE_SIZE :: u16 where "EXT2_GOOD_OLD_INODE_SIZE = 128"
definition EXT2_FEATURE_RO_COMPAT_SPARSE_SUPER :: u32 where "EXT2_FEATURE_RO_COMPAT_SPARSE_SUPER = 1"
definition EXT2_FEATURE_RO_COMPAT_LARGE_FILE :: u32 where "EXT2_FEATURE_RO_COMPAT_LARGE_FILE = 2"
definition EXT2_ROOT_INO :: u32 where "EXT2_ROOT_INO = 2"

definition EXT2_BLOCK_SIZE :: "ext2_super_block \<Rightarrow> u32" where
  "EXT2_BLOCK_SIZE s = push_bit (unat (s_log_block_size s)) 1024"

definition EXT2_ADDR_PER_BLOCK :: "ext2_super_block \<Rightarrow> u32" where
  "EXT2_ADDR_PER_BLOCK s = EXT2_BLOCK_SIZE s div 4"

definition EXT2_INODE_SIZE :: "ext2_super_block \<Rightarrow> u16" where
  "EXT2_INODE_SIZE s = (if s_rev_level s = EXT2_GOOD_OLD_REV then EXT2_GOOD_OLD_INODE_SIZE else s_inode_size s)"

definition EXT2_INODES_PER_GROUP :: "ext2_super_block \<Rightarrow> u32" where
  "EXT2_INODES_PER_GROUP s = s_inodes_per_group s"

text \<open>The modes of \<^verbatim>\<open>ext2_priv.h\<close>, given there in octal.\<close>

definition S_IFMT :: u16 where "S_IFMT = 0xF000"
definition S_ISDIR :: "u16 \<Rightarrow> bool" where "S_ISDIR mode \<longleftrightarrow> mode AND S_IFMT = 0x4000"
definition S_ISREG :: "u16 \<Rightarrow> bool" where "S_ISREG mode \<longleftrightarrow> mode AND S_IFMT = 0x8000"
definition S_ISLNK :: "u16 \<Rightarrow> bool" where "S_ISLNK mode \<longleftrightarrow> mode AND S_IFMT = 0xA000"

section \<open>State\<close>

record 's io =
  io_dev :: 's
  io_mal :: "nat \<Rightarrow> u16 \<Rightarrow> u8 list option"
  io_n :: nat
  io_live :: int
  io_junk :: "nat \<Rightarrow> u8 list"

text \<open>The heap: \<open>io_mal\<close> gives the outcome of the \<open>io_n\<close>-th allocation, with the contents of the block.\<close>

definition io_malloc :: "u16 \<Rightarrow> 's io \<Rightarrow> u8 list option \<times> 's io" where
  "io_malloc n io =
     (let r = io_mal io (io_n io) n
      in (r, io\<lparr>io_n := io_n io + 1, io_live := io_live io + (if r = None then 0 else 1)\<rparr>))"

definition io_calloc :: "u16 \<Rightarrow> u16 \<Rightarrow> 's io \<Rightarrow> u8 list option \<times> 's io" where
  "io_calloc n sz io = (let (r, io) = io_malloc (n * sz) io in (map_option (map (\<lambda>_. 0)) r, io))"

definition io_free :: "'s io \<Rightarrow> 's io" where
  "io_free io = io\<lparr>io_live := io_live io - 1\<rparr>"

definition io_read :: "'s blkdev option \<Rightarrow> u8 list \<Rightarrow> u32 \<Rightarrow> u16 \<Rightarrow> 's io \<Rightarrow> int \<times> u8 list \<times> 's io" where
  "io_read dev buf offset len io =
     (let (err, b, s) = blk_read dev (Some buf) (int32 (uint offset)) len (io_dev io)
      in (err, the b, io\<lparr>io_dev := s\<rparr>))"

record 's ext2_t =
  e_dev :: "'s blkdev option"
  e_sb :: ext2_super_block
  s_group_count :: int
  e_gd :: "ext2_group_desc list"
  root_inode :: ext2_inode

section \<open>Byte order\<close>

definition endian_swap_superblock :: "ext2_super_block \<Rightarrow> ext2_super_block" where
  "endian_swap_superblock sb = sb\<lparr>
     s_inodes_count := LE32 (s_inodes_count sb),
     s_blocks_count := LE32 (s_blocks_count sb),
     s_r_blocks_count := LE32 (s_r_blocks_count sb),
     s_free_blocks_count := LE32 (s_free_blocks_count sb),
     s_free_inodes_count := LE32 (s_free_inodes_count sb),
     s_first_data_block := LE32 (s_first_data_block sb),
     s_log_block_size := LE32 (s_log_block_size sb),
     s_log_frag_size := LE32 (s_log_frag_size sb),
     s_blocks_per_group := LE32 (s_blocks_per_group sb),
     s_frags_per_group := LE32 (s_frags_per_group sb),
     s_inodes_per_group := LE32 (s_inodes_per_group sb),
     s_mtime := LE32 (s_mtime sb),
     s_wtime := LE32 (s_wtime sb),
     s_mnt_count := LE16 (s_mnt_count sb),
     s_max_mnt_count := LE16 (s_max_mnt_count sb),
     s_magic := LE16 (s_magic sb),
     s_state := LE16 (s_state sb),
     s_errors := LE16 (s_errors sb),
     s_minor_rev_level := LE16 (s_minor_rev_level sb),
     s_lastcheck := LE32 (s_lastcheck sb),
     s_checkinterval := LE32 (s_checkinterval sb),
     s_creator_os := LE32 (s_creator_os sb),
     s_rev_level := LE32 (s_rev_level sb),
     s_def_resuid := LE16 (s_def_resuid sb),
     s_def_resgid := LE16 (s_def_resgid sb),
     s_first_ino := LE32 (s_first_ino sb),
     s_inode_size := LE16 (s_inode_size sb),
     s_block_group_nr := LE16 (s_block_group_nr sb),
     s_feature_compat := LE32 (s_feature_compat sb),
     s_feature_incompat := LE32 (s_feature_incompat sb),
     s_feature_ro_compat := LE32 (s_feature_ro_compat sb),
     s_algorithm_usage_bitmap := LE32 (s_algorithm_usage_bitmap sb),
     s_journal_inum := LE32 (s_journal_inum sb),
     s_journal_dev := LE32 (s_journal_dev sb),
     s_last_orphan := LE32 (s_last_orphan sb),
     s_default_mount_opts := LE32 (s_default_mount_opts sb),
     s_first_meta_bg := LE32 (s_first_meta_bg sb)\<rparr>"

definition endian_swap_inode :: "ext2_inode \<Rightarrow> ext2_inode" where
  "endian_swap_inode n = n\<lparr>
     i_mode := LE16 (i_mode n),
     i_uid := LE16 (i_uid n),
     i_size := LE32 (i_size n),
     i_atime := LE32 (i_atime n),
     i_ctime := LE32 (i_ctime n),
     i_mtime := LE32 (i_mtime n),
     i_dtime := LE32 (i_dtime n),
     i_gid := LE16 (i_gid n),
     i_links_count := LE16 (i_links_count n),
     i_blocks := LE32 (i_blocks n),
     i_flags := LE32 (i_flags n),
     i_generation := LE32 (i_generation n),
     i_file_acl := LE32 (i_file_acl n),
     i_dir_acl := LE32 (i_dir_acl n),
     i_faddr := LE32 (i_faddr n),
     i_uid_high := LE16 (i_uid_high n),
     i_gid_high := LE16 (i_gid_high n)\<rparr>"

definition endian_swap_group_desc :: "ext2_group_desc \<Rightarrow> ext2_group_desc" where
  "endian_swap_group_desc gd = gd\<lparr>
     bg_block_bitmap := LE32 (bg_block_bitmap gd),
     bg_inode_bitmap := LE32 (bg_inode_bitmap gd),
     bg_inode_table := LE32 (bg_inode_table gd),
     bg_free_blocks_count := LE16 (bg_free_blocks_count gd),
     bg_free_inodes_count := LE16 (bg_free_inodes_count gd),
     bg_used_dirs_count := LE16 (bg_used_dirs_count gd)\<rparr>"

lemma endian_swap_id [simp]:
  "endian_swap_superblock sb = sb" "endian_swap_inode n = n" "endian_swap_group_desc gd = gd"
  by (simp_all add: endian_swap_superblock_def endian_swap_inode_def endian_swap_group_desc_def)

section \<open>Inodes\<close>

text \<open>The block and the offset in it.  \<^verbatim>\<open>offset\<close> is a \<^verbatim>\<open>size_t\<close>, which keeps 16 bits of the product.\<close>

definition get_inode_addr :: "'s ext2_t \<Rightarrow> u32 \<Rightarrow> (u32 \<times> u16) option" where
  "get_inode_addr ext2 num =
     (let sb = e_sb ext2; num = num - 1; group = num div s_inodes_per_group sb
      in if s_inodes_per_group sb = 0 \<or> EXT2_BLOCK_SIZE sb = 0 \<or> length (e_gd ext2) \<le> unat group then None
         else let block = bg_inode_table (e_gd ext2 ! unat group);
                  offset = ucast ((num mod EXT2_INODES_PER_GROUP sb) * ucast (EXT2_INODE_SIZE sb)) :: u16
              in Some (block + ucast offset div EXT2_BLOCK_SIZE sb, ucast (ucast offset mod EXT2_BLOCK_SIZE sb)))"

definition ext2_load_inode :: "'s ext2_t \<Rightarrow> u32 \<Rightarrow> ext2_inode \<Rightarrow> 's io \<Rightarrow> (int \<times> ext2_inode \<times> 's io) option" where
  "ext2_load_inode ext2 num inode io =
     (case get_inode_addr ext2 num of
        None \<Rightarrow> None
      | Some (bnum, block_offset) \<Rightarrow>
          let (err, b, io) = io_read (e_dev ext2) (inode_bytes inode)
                (bnum * EXT2_BLOCK_SIZE (e_sb ext2) + ucast block_offset) 128 io
          in Some (if err < 0 then (err, inode_of b, io) else (0, endian_swap_inode (inode_of b), io)))"

section \<open>Mounting\<close>

text \<open>
  \<open>Inl\<close> is a return with an error, \<open>Inr\<close> the new file system.  The group descriptors lie in the
  second block, 4096 bytes into the device for blocks of that size; \<^verbatim>\<open>calloc\<close> may have returned less than
  the loop over them visits, as the size it computes has 16 bits.
\<close>

definition gd_list :: "u8 list \<Rightarrow> int \<Rightarrow> ext2_group_desc list" where
  "gd_list b n = map (\<lambda>k. endian_swap_group_desc (group_desc_of (mem_get b (32 * k) 32))) [0..<nat n]"

definition ext2_mount_groups :: "'s ext2_t \<Rightarrow> 's io \<Rightarrow> ((int + 's ext2_t) \<times> 's io) option" where
  "ext2_mount_groups ext2 io =
     (let n = word_of_int (s_group_count ext2) :: u16;
          (g, io) = io_calloc n 32 io
      in case g of
           None \<Rightarrow> Some (Inl ERR_NO_MEM, io_free io)
         | Some gd \<Rightarrow>
             let (err, gd, io) = io_read (e_dev ext2) gd (if EXT2_BLOCK_SIZE (e_sb ext2) = 4096 then 4096 else 2048) (32 * n) io
             in if err < 0 then Some (Inl (- 4), io_free (io_free io))
                else if length gd < 32 * nat (s_group_count ext2) then None
                else let ext2 = ext2\<lparr>e_gd := gd_list gd (s_group_count ext2)\<rparr>
                     in case ext2_load_inode ext2 EXT2_ROOT_INO (root_inode ext2) io of
                          None \<Rightarrow> None
                        | Some (err, root, io) \<Rightarrow>
                            Some (if err < 0 then (Inl err, io_free (io_free io))
                                  else (Inr (ext2\<lparr>root_inode := root\<rparr>), io)))"

definition ext2_mount :: "'s blkdev option \<Rightarrow> 's io \<Rightarrow> ((int + 's ext2_t) \<times> 's io) option" where
  "ext2_mount dev io =
     (case dev of
        None \<Rightarrow> Some (Inl ERR_INVAL, io)
      | Some _ \<Rightarrow>
          let (e, io) = io_calloc 1 1158 io
          in case e of
               None \<Rightarrow> Some (Inl ERR_NO_MEM, io)
             | Some _ \<Rightarrow>
                 let (err, b, io) = io_read dev (replicate 1024 0) 1024 1024 io;
                     sb = endian_swap_superblock (super_block_of b)
                 in if err < 0 then Some (Inl err, io_free io)
                    else if s_magic sb \<noteq> EXT2_SUPER_MAGIC then Some (Inl (- 1), io_free io)
                    else if s_blocks_per_group sb = 0 then None
                    else let count = (s_blocks_count sb + s_blocks_per_group sb - 1) div s_blocks_per_group sb;
                             ext2 = \<lparr>e_dev = dev, e_sb = sb, s_group_count = int16 (uint count), e_gd = [],
                                     root_inode = inode_of (replicate 128 0)\<rparr>
                         in if s_rev_level sb > EXT2_DYNAMIC_REV then Some (Inl ERR_NOT_SUPP, io_free io)
                            else if s_feature_ro_compat sb AND NOT EXT2_FEATURE_RO_COMPAT_SPARSE_SUPER \<noteq> 0
                            then Some (Inl ERR_NOT_SUPP, io_free io)
                            else ext2_mount_groups ext2 io)"

definition ext2_unmount :: "'s ext2_t \<Rightarrow> 's io \<Rightarrow> int \<times> 's io" where
  "ext2_unmount ext2 io = (0, io_free (io_free io))"

section \<open>Blocks\<close>

definition ext2_read_block :: "'s ext2_t \<Rightarrow> u8 list \<Rightarrow> u32 \<Rightarrow> 's io \<Rightarrow> int \<times> u8 list \<times> 's io" where
  "ext2_read_block ext2 buf bnum io =
     (let bsz = EXT2_BLOCK_SIZE (e_sb ext2) in io_read (e_dev ext2) buf (bnum * bsz) (ucast bsz) io)"

definition ext2_get_block :: "'s ext2_t \<Rightarrow> u32 \<Rightarrow> 's io \<Rightarrow> (int + u8 list) \<times> 's io" where
  "ext2_get_block ext2 bnum io =
     (let bsz = EXT2_BLOCK_SIZE (e_sb ext2); (p, io) = io_malloc (ucast bsz) io
      in case p of
           None \<Rightarrow> (Inl ERR_NO_MEM, io)
         | Some block \<Rightarrow>
             let (err, block, io) = io_read (e_dev ext2) block (bnum * bsz) (ucast bsz) io
             in if err < 0 then (Inl err, io_free io) else (Inr block, io))"

definition ext2_put_block :: "'s io \<Rightarrow> int \<times> 's io" where
  "ext2_put_block io = (0, io_free io)"

text \<open>The level of indirection and the positions at each level, \<open>None\<close> for the result \<open>-1\<close>.\<close>

definition ext2_calculate_block_pointer_pos :: "'s ext2_t \<Rightarrow> u32 \<Rightarrow> (u32 \<times> u32 list) option" where
  "ext2_calculate_block_pointer_pos ext2 block_to_find =
     (if block_to_find < EXT2_NDIR_BLOCKS then Some (0, [block_to_find])
      else
        let n = EXT2_ADDR_PER_BLOCK (e_sb ext2);
            b = block_to_find - EXT2_NDIR_BLOCKS
        in if b < n then Some (1, [EXT2_IND_BLOCK, b])
           else
             let b = b - n; n2 = n * n
             in if b < n2 then Some (2, [EXT2_DIND_BLOCK, b div n, b mod n])
                else
                  let b = b - n2
                  in if b < n2 * n
                     then Some (3, [EXT2_TIND_BLOCK, b div n2, (b mod n2) div n, (b mod n2) mod n])
                     else None)"

text \<open>
  The walk down the indirect blocks: \<open>cur\<close> is \<^verbatim>\<open>current_block\<close>, an \<^verbatim>\<open>uint\<close>, and \<open>ps\<close> the positions below
  the current level.  The result is the last table read, or the error.
\<close>

fun ext2_walk_indirect :: "'s ext2_t \<Rightarrow> u16 \<Rightarrow> u32 list \<Rightarrow> 's io \<Rightarrow> ((int + u8 list) \<times> 's io) option" where
  "ext2_walk_indirect ext2 cur [] io = None"
| "ext2_walk_indirect ext2 cur (p # ps) io =
     (if cur = 0 then Some (Inl (- 1), io)
      else let (r, io) = ext2_get_block ext2 (ucast cur) io
           in case r of
                Inl err \<Rightarrow> Some (Inl err, io)
              | Inr block \<Rightarrow>
                  if ps = [] then Some (Inr block, io)
                  else if length block < 4 * unat p + 4 then None
                  else let cur = ucast (LE32 (le32 block (4 * unat p)))
                       in ext2_walk_indirect ext2 cur ps (snd (ext2_put_block io)))"

definition ext2_get_indirect_block_pointer_cache_block ::
    "'s ext2_t \<Rightarrow> ext2_inode \<Rightarrow> u32 \<Rightarrow> u32 list \<Rightarrow> 's io \<Rightarrow> ((int + u8 list) \<times> 's io) option" where
  "ext2_get_indirect_block_pointer_cache_block ext2 inode level pos io =
     (if level > 3 \<or> level = 0 then Some (Inl (- 1), io)
      else ext2_walk_indirect ext2 (ucast (LE32 (i_block inode ! unat (pos ! 0)))) (tl pos) io)"

text \<open>A failed search leaves \<^verbatim>\<open>level\<close> at 0, and the block is then looked up in the inode itself.\<close>

definition file_block_to_fs_block :: "'s ext2_t \<Rightarrow> ext2_inode \<Rightarrow> u16 \<Rightarrow> 's io \<Rightarrow> (u32 \<times> 's io) option" where
  "file_block_to_fs_block ext2 inode fileblock io =
     (let (level, pos) = (case ext2_calculate_block_pointer_pos ext2 (ucast fileblock) of
                            None \<Rightarrow> (0, []) | Some r \<Rightarrow> r)
      in if level = 0
         then if length (i_block inode) \<le> unat fileblock then None
              else Some (LE32 (i_block inode ! unat fileblock), io)
         else case ext2_get_indirect_block_pointer_cache_block ext2 inode level pos io of
                None \<Rightarrow> None
              | Some (Inl err, io) \<Rightarrow> Some (0, io)
              | Some (Inr ind_table, io) \<Rightarrow>
                  let p = unat (pos ! unat level)
                  in if length ind_table < 4 * p + 4 then None
                     else Some (LE32 (le32 ind_table (4 * p)), snd (ext2_put_block io)))"

section \<open>Reading a file\<close>

definition ext2_file_len :: "'s ext2_t \<Rightarrow> ext2_inode \<Rightarrow> int" where
  "ext2_file_len ext2 inode =
     (if s_feature_ro_compat (e_sb ext2) AND EXT2_FEATURE_RO_COMPAT_LARGE_FILE \<noteq> 0 \<and> S_ISREG (i_mode inode)
      then ERR_NOT_SUPP
      else int32 (uint (i_size inode)))"

text \<open>
  The local variables of \<^verbatim>\<open>ext2_read_inode\<close>, \<open>r_buf\<close> being the caller's buffer and \<open>r_pos\<close> the position
  of \<^verbatim>\<open>buf\<close> in it.
\<close>

record 's rstate =
  r_buf :: "u8 list"
  r_pos :: nat
  r_block :: u16
  r_len :: u16
  r_bytes :: u16
  r_io :: "'s io"

text \<open>Filling a block of memory with a block of the file; the result of \<^verbatim>\<open>ext2_read_block\<close> is not looked at.\<close>

definition ext2_fetch :: "'s ext2_t \<Rightarrow> ext2_inode \<Rightarrow> u16 \<Rightarrow> u8 list \<Rightarrow> 's io \<Rightarrow> (u8 list \<times> 's io) option" where
  "ext2_fetch ext2 inode file_block mem io =
     (case file_block_to_fs_block ext2 inode file_block io of
        None \<Rightarrow> None
      | Some (phys_block, io) \<Rightarrow>
          Some (if phys_block = 0
                then (mem_put mem 0 (replicate (unat (ucast (EXT2_BLOCK_SIZE (e_sb ext2)) :: u16)) 0), io)
                else snd (ext2_read_block ext2 mem phys_block io)))"

definition ext2_temp :: "'s ext2_t \<Rightarrow> 's io \<Rightarrow> u8 list" where
  "ext2_temp ext2 io = io_junk io (unat (ucast (EXT2_BLOCK_SIZE (e_sb ext2)) :: u16))"

definition ext2_read_first :: "'s ext2_t \<Rightarrow> ext2_inode \<Rightarrow> u32 \<Rightarrow> 's rstate \<Rightarrow> 's rstate option" where
  "ext2_read_first ext2 inode offset r =
     (let bsz = EXT2_BLOCK_SIZE (e_sb ext2)
      in if offset mod bsz = 0 then Some r
         else case ext2_fetch ext2 inode (r_block r) (ext2_temp ext2 (r_io r)) (r_io r) of
                None \<Rightarrow> None
              | Some (temp, io) \<Rightarrow>
                  let block_offset = ucast (offset mod bsz) :: u16;
                      tocopy = ucast (min (ucast (r_len r)) (bsz - ucast block_offset)) :: u16
                  in if length temp < unat block_offset + unat tocopy then None
                     else Some (r\<lparr>r_buf := mem_put (r_buf r) (r_pos r) (mem_get temp (unat block_offset) (unat tocopy)),
                                  r_pos := r_pos r + unat tocopy, r_block := r_block r + 1,
                                  r_len := r_len r - tocopy, r_bytes := r_bytes r + tocopy, r_io := io\<rparr>))"

function ext2_read_middle :: "'s ext2_t \<Rightarrow> ext2_inode \<Rightarrow> 's rstate \<Rightarrow> 's rstate option" where
  "ext2_read_middle ext2 inode r =
     (let bsz = EXT2_BLOCK_SIZE (e_sb ext2)
      in if bsz = 0 \<or> ucast (r_len r) < bsz then Some r
         else case ext2_fetch ext2 inode (r_block r) (drop (r_pos r) (r_buf r)) (r_io r) of
                None \<Rightarrow> None
              | Some (b, io) \<Rightarrow>
                  ext2_read_middle ext2 inode
                    (r\<lparr>r_buf := take (r_pos r) (r_buf r) @ b, r_pos := r_pos r + unat bsz, r_block := r_block r + 1,
                       r_len := r_len r - ucast bsz, r_bytes := r_bytes r + ucast bsz, r_io := io\<rparr>))"
  by pat_completeness auto
termination
proof (relation "measure (\<lambda>(ext2, inode, r). unat (r_len r))")
  fix ext2 :: "'s ext2_t" and inode r x b io y
  assume x: "x = EXT2_BLOCK_SIZE (e_sb ext2)" and g: "\<not> (x = 0 \<or> ucast (r_len r :: u16) < x)"
  have le: "unat x \<le> unat (r_len r)"
    using g by (simp add: word_less_nat_alt not_less unat_ucast_u16_u32)
  moreover have "0 < unat x" using g by (simp add: unat_gt_0)
  moreover have "unat (ucast x :: u16) = unat x"
    using le unat_u16_lt [of "r_len r"] by (subst unat_ucast_u32_u16) linarith+
  ultimately show "((ext2, inode, r\<lparr>r_buf := take (r_pos r) (r_buf r) @ y, r_pos := r_pos r + unat x, r_block := r_block r + 1,
       r_len := r_len r - ucast x, r_bytes := r_bytes r + ucast x, r_io := io\<rparr>), ext2, inode, r)
    \<in> measure (\<lambda>(ext2, inode, r). unat (r_len r))"
    by (simp add: unat_diff_u16 word_le_nat_alt)
qed simp

declare ext2_read_middle.simps [simp del]

definition ext2_read_last :: "'s ext2_t \<Rightarrow> ext2_inode \<Rightarrow> 's rstate \<Rightarrow> 's rstate option" where
  "ext2_read_last ext2 inode r =
     (if r_len r > 0
      then case ext2_fetch ext2 inode (r_block r) (ext2_temp ext2 (r_io r)) (r_io r) of
             None \<Rightarrow> None
           | Some (temp, io) \<Rightarrow>
               if length temp < unat (r_len r) then None
               else Some (r\<lparr>r_buf := mem_put (r_buf r) (r_pos r) (mem_get temp 0 (unat (r_len r))),
                            r_bytes := r_bytes r + r_len r, r_io := io\<rparr>)
      else Some r)"

definition ext2_read_inode ::
    "'s ext2_t \<Rightarrow> ext2_inode \<Rightarrow> u8 list \<Rightarrow> int \<Rightarrow> u16 \<Rightarrow> 's io \<Rightarrow> (int \<times> u8 list \<times> 's io) option" where
  "ext2_read_inode ext2 inode buf offset len io =
     (let file_size = ext2_file_len ext2 inode
      in if offset > file_size then Some (0, buf, io)
         else
           let len = (if int32 (offset + uint len) \<ge> file_size then word_of_int (file_size - offset) else len)
           in if len = 0 then Some (0, buf, io)
              else if EXT2_BLOCK_SIZE (e_sb ext2) = 0 then None
              else let off = word_of_int offset :: u32;
                       r = \<lparr>r_buf = buf, r_pos = 0, r_block = ucast (off div EXT2_BLOCK_SIZE (e_sb ext2)),
                            r_len = len, r_bytes = 0, r_io = io\<rparr>
                   in do { r \<leftarrow> ext2_read_first ext2 inode off r;
                           r \<leftarrow> ext2_read_middle ext2 inode r;
                           r \<leftarrow> ext2_read_last ext2 inode r;
                           Some (int16 (uint (r_bytes r)), r_buf r, r_io r) })"

section \<open>Reference: the contents of a file\<close>

text \<open>
  What the format says, over the bytes \<open>c\<close> of the volume: a block number 0 is a hole, a table holds
  \<open>bsz / 4\<close> block numbers, and \<open>file_tables\<close> are the tables consulted for a block of the file.
\<close>

definition table_at :: "u8 list \<Rightarrow> nat \<Rightarrow> u32 \<Rightarrow> nat \<Rightarrow> u32" where
  "table_at c bsz b i = (if b = 0 then 0 else le32 c (unat b * bsz + 4 * i))"

definition file_ptr :: "u8 list \<Rightarrow> nat \<Rightarrow> ext2_inode \<Rightarrow> nat \<Rightarrow> u32" where
  "file_ptr c bsz n k =
     (let p = bsz div 4; j = k - 12 - p
      in if k < 12 then i_block n ! k
         else if k < 12 + p then table_at c bsz (i_block n ! 12) (k - 12)
         else table_at c bsz (table_at c bsz (i_block n ! 13) (j div p)) (j mod p))"

definition file_tables :: "u8 list \<Rightarrow> nat \<Rightarrow> ext2_inode \<Rightarrow> nat \<Rightarrow> u32 list" where
  "file_tables c bsz n k =
     (let p = bsz div 4; j = k - 12 - p
      in if k < 12 then []
         else if k < 12 + p then [i_block n ! 12]
         else [i_block n ! 13, table_at c bsz (i_block n ! 13) (j div p)])"

definition file_byte :: "u8 list \<Rightarrow> nat \<Rightarrow> ext2_inode \<Rightarrow> nat \<Rightarrow> u8" where
  "file_byte c bsz n j =
     (let b = file_ptr c bsz n (j div bsz) in if b = 0 then 0 else c ! (unat b * bsz + j mod bsz))"

definition file_bytes :: "u8 list \<Rightarrow> nat \<Rightarrow> ext2_inode \<Rightarrow> nat \<Rightarrow> nat \<Rightarrow> u8 list" where
  "file_bytes c bsz n off len = map (file_byte c bsz n) [off..<off + len]"

text \<open>
  The blocks of a file lie on the volume, the tables below block 65536, as the driver keeps the
  number of a table in 16 bits.
\<close>

definition block_ok :: "u8 list \<Rightarrow> nat \<Rightarrow> u32 \<Rightarrow> bool" where
  "block_ok c bsz b \<longleftrightarrow> unat b * bsz + bsz \<le> length c"

definition file_ok :: "u8 list \<Rightarrow> nat \<Rightarrow> ext2_inode \<Rightarrow> nat \<Rightarrow> bool" where
  "file_ok c bsz n len \<longleftrightarrow> length (i_block n) = 15 \<and>
     (\<forall>k. k * bsz < len \<longrightarrow> block_ok c bsz (file_ptr c bsz n k) \<and>
        (\<forall>t\<in>set (file_tables c bsz n k). block_ok c bsz t \<and> unat t < 65536))"

lemma file_ok_mono: "file_ok c bsz n m \<Longrightarrow> l \<le> m \<Longrightarrow> file_ok c bsz n l"
  by (auto simp: file_ok_def dest: less_le_trans)

definition heap_ok :: "'s io \<Rightarrow> bool" where
  "heap_ok io \<longleftrightarrow> (\<forall>k n. \<exists>b. io_mal io k n = Some b \<and> length b = unat n) \<and> (\<forall>n. length (io_junk io n) = n)"

lemma length_bytes [simp]: "length (bytes16 w) = 2" "length (bytes32 v) = 4"
  by (simp_all add: bytes16_def bytes32_def)

lemma length_file_bytes [simp]: "length (file_bytes c bsz n off len) = len"
  by (simp add: file_bytes_def)

lemma file_bytes_append:
  "file_bytes c bsz n off a @ file_bytes c bsz n (off + a) b = file_bytes c bsz n off (a + b)"
  using upt_add_eq_append [of off "off + a" b] by (simp add: file_bytes_def add.assoc flip: map_append)

lemma mem_get_file_bytes:
  "i + m \<le> len \<Longrightarrow> mem_get (file_bytes c bsz n off len) i m = file_bytes c bsz n (off + i) m"
  by (rule nth_equalityI) (auto simp: file_bytes_def nth_mem_get add.assoc)

lemma le32_mem_get: "i + 4 \<le> m \<Longrightarrow> off + m \<le> length c \<Longrightarrow> le32 (mem_get c off m) i = le32 c (off + i)"
  by (simp add: le32_def nth_mem_get add.assoc)

lemma put_file_bytes:
  "k + m \<le> length buf \<Longrightarrow> mem_put (mem_put buf 0 (file_bytes c bsz n off k)) k (file_bytes c bsz n (off + k) m) =
     mem_put buf 0 (file_bytes c bsz n off (k + m))"
  using mem_put_append [of 0 "file_bytes c bsz n off k" "file_bytes c bsz n (off + k) m" buf]
  by (simp add: file_bytes_append)

text \<open>A whole block of the file is a hole or a block of the volume.\<close>

lemma file_block_bytes:
  assumes "0 < bsz" "b = file_ptr c bsz n k" "block_ok c bsz b"
  shows "file_bytes c bsz n (k * bsz) bsz = (if b = 0 then replicate bsz 0 else mem_get c (unat b * bsz) bsz)"
proof (rule nth_equalityI)
  show "length (file_bytes c bsz n (k * bsz) bsz) = length (if b = 0 then replicate bsz 0 else mem_get c (unat b * bsz) bsz)"
    using assms(3) by (simp add: block_ok_def)
  fix i assume "i < length (file_bytes c bsz n (k * bsz) bsz)"
  then have i: "i < bsz" by simp
  then have "(k * bsz + i) div bsz = k" "(k * bsz + i) mod bsz = i" using assms(1) by simp_all
  then show "file_bytes c bsz n (k * bsz) bsz ! i = (if b = 0 then replicate bsz 0 else mem_get c (unat b * bsz) bsz) ! i"
    using i assms(2,3) by (simp add: file_bytes_def file_byte_def nth_mem_get block_ok_def)
qed

section \<open>The interface: a readable volume\<close>

text \<open>
  What the driver relies on of the block layer: reads inside the device return its bytes.  The
  block size is one of those the format allows.
\<close>

locale volume =
  fixes dev :: "'s blkdev option" and inv :: "'s \<Rightarrow> bool" and c :: "u8 list"
  assumes small: "length c < 2 ^ 31"
    and read_law: "inv s \<Longrightarrow> off + unat n \<le> length c \<Longrightarrow> unat n \<le> length buf \<Longrightarrow> unat n < 32768 \<Longrightarrow>
      \<exists>s'. blk_read dev (Some buf) (int off) n s = (int (unat n), Some (mem_put buf 0 (mem_get c off (unat n))), s') \<and> inv s'"
begin

definition io_ok :: "'s io \<Rightarrow> bool" where
  "io_ok io \<longleftrightarrow> inv (io_dev io) \<and> heap_ok io"

definition kept :: "'s io \<Rightarrow> 's io \<Rightarrow> bool" where
  "kept io io' \<longleftrightarrow> io_ok io' \<and> io_live io' = io_live io \<and> io_junk io' = io_junk io"

lemma kept_trans: "kept a b \<Longrightarrow> kept b d \<Longrightarrow> kept a d"
  by (simp add: kept_def)

lemma io_read_ok:
  assumes "io_ok io" "unat off + unat n \<le> length c" "unat n \<le> length buf" "unat n < 32768"
  shows "\<exists>io'. io_read dev buf off n io = (int (unat n), mem_put buf 0 (mem_get c (unat off) (unat n)), io') \<and> kept io io'"
proof -
  have "unat off < 2147483648" using assms(2) small by simp
  then have "int32 (uint off) = int (unat off)" unfolding uint_nat by (intro int32_id in_int32_nat)
  moreover obtain s' where "blk_read dev (Some buf) (int (unat off)) n (io_dev io) =
      (int (unat n), Some (mem_put buf 0 (mem_get c (unat off) (unat n))), s')" "inv s'"
    using read_law [OF _ assms(2-4), of "io_dev io"] assms(1) by (auto simp: io_ok_def)
  moreover have "heap_ok (io\<lparr>io_dev := s'\<rparr>)" using assms(1) by (simp add: io_ok_def heap_ok_def)
  ultimately show ?thesis by (simp add: io_read_def io_ok_def kept_def)
qed

end

locale ext2_volume = volume +
  fixes ext2 :: "'a ext2_t"
  assumes device: "e_dev ext2 = dev"
    and block_sizes: "s_log_block_size (e_sb ext2) \<in> {0, 1, 2}"
begin

abbreviation bsz :: nat where "bsz \<equiv> unat (EXT2_BLOCK_SIZE (e_sb ext2))"

lemma bsz_cases: "bsz = 1024 \<or> bsz = 2048 \<or> bsz = 4096"
  using block_sizes by (auto simp: EXT2_BLOCK_SIZE_def)

lemma bsz_bounds: "1024 \<le> bsz" "bsz \<le> 4096" "0 < bsz" "bsz < 32768"
  using bsz_cases by auto

lemma bsz_dvd: "4 * (bsz div 4) = bsz"
  using bsz_cases by auto

lemma bsz_u16 [simp]: "unat (ucast (EXT2_BLOCK_SIZE (e_sb ext2)) :: u16) = bsz"
  using bsz_bounds by (intro unat_ucast_u32_u16) linarith

lemma bsz_nonzero [simp]: "EXT2_BLOCK_SIZE (e_sb ext2) \<noteq> 0"
  using bsz_bounds(3) by (auto simp: unat_gt_0)

abbreviation per :: nat where "per \<equiv> bsz div 4"

lemma per_bounds: "256 \<le> per" "per \<le> 1024"
  using bsz_cases by auto

lemma unat_per: "unat (EXT2_ADDR_PER_BLOCK (e_sb ext2)) = per"
  by (simp add: EXT2_ADDR_PER_BLOCK_def unat_div_distrib)

lemma unat_mult_bsz:
  assumes "block_ok c bsz b"
  shows "unat (b * EXT2_BLOCK_SIZE (e_sb ext2)) = unat b * bsz"
  using assms small by (intro unat_mult_u32) (simp add: block_ok_def)

lemma io_malloc_ok:
  assumes "io_ok io"
  shows "\<exists>b io'. io_malloc n io = (Some b, io') \<and> length b = unat n \<and> io_ok io' \<and> io_live io' = io_live io + 1 \<and>
    io_junk io' = io_junk io"
proof -
  obtain b where "io_mal io (io_n io) n = Some b" "length b = unat n"
    using assms unfolding io_ok_def heap_ok_def by blast
  then show ?thesis using assms by (auto simp: io_malloc_def io_ok_def heap_ok_def)
qed

lemma io_free_ok [simp]:
  "io_ok (io_free io) = io_ok io" "io_live (io_free io) = io_live io - 1" "io_junk (io_free io) = io_junk io"
  by (simp_all add: io_free_def io_ok_def heap_ok_def)

lemma ext2_get_block_ok:
  assumes "io_ok io" "block_ok c bsz b"
  shows "\<exists>io'. ext2_get_block ext2 b io = (Inr (mem_get c (unat b * bsz) bsz), io') \<and> io_ok io' \<and>
    io_live io' = io_live io + 1 \<and> io_junk io' = io_junk io"
proof -
  obtain m io1 where m: "io_malloc (ucast (EXT2_BLOCK_SIZE (e_sb ext2))) io = (Some m, io1)" "length m = bsz" "io_ok io1"
      "io_live io1 = io_live io + 1" "io_junk io1 = io_junk io"
    using io_malloc_ok [OF assms(1), of "ucast (EXT2_BLOCK_SIZE (e_sb ext2))"] by auto
  have len: "unat b * bsz + bsz \<le> length c" using assms(2) by (simp add: block_ok_def)
  obtain io2 where r: "io_read dev m (b * EXT2_BLOCK_SIZE (e_sb ext2)) (ucast (EXT2_BLOCK_SIZE (e_sb ext2))) io1 =
      (int bsz, mem_put m 0 (mem_get c (unat b * bsz) bsz), io2)" "kept io1 io2"
    using io_read_ok [OF m(3), of "b * EXT2_BLOCK_SIZE (e_sb ext2)" "ucast (EXT2_BLOCK_SIZE (e_sb ext2))" m]
      len m(2) bsz_bounds(4) by (auto simp: unat_mult_bsz [OF assms(2)])
  have "mem_put m 0 (mem_get c (unat b * bsz) bsz) = mem_get c (unat b * bsz) bsz"
    using m(2) len by (simp add: mem_put_def)
  then show ?thesis using m r by (simp add: ext2_get_block_def device kept_def Let_def)
qed

text \<open>The position of a block.\<close>

lemma block_position:
  fixes k :: u32
  defines "a \<equiv> unat k - 12" and "b \<equiv> unat k - 12 - per" and "d \<equiv> unat k - 12 - per - per * per"
  shows "map_option (map_prod unat (map unat)) (ext2_calculate_block_pointer_pos ext2 k) =
    (if unat k < 12 then Some (0, [unat k])
     else if a < per then Some (1, [12, a])
     else if b < per * per then Some (2, [13, b div per, b mod per])
     else if d < per * per * per then Some (3, [14, d div (per * per), d mod (per * per) div per, d mod (per * per) mod per])
     else None)"
proof -
  define n where "n = EXT2_ADDR_PER_BLOCK (e_sb ext2)"
  have n: "unat n = per" by (simp add: n_def unat_per)
  have sq: "per * per \<le> 1024 * 1024" using per_bounds by (intro mult_le_mono) auto
  then have cube: "per * per * per \<le> 1024 * 1024 * 1024" using per_bounds by (intro mult_le_mono) auto
  have nn: "unat (n * n) = per * per" using n sq by (subst unat_mult_u32) simp_all
  then have nnn: "unat (n * n * n) = per * per * per" using n cube by (subst unat_mult_u32) simp_all
  have a: "unat (k - 12) = a" if "\<not> unat k < 12"
    using that by (simp add: a_def unat_sub word_le_nat_alt)
  have b: "unat (k - 12 - n) = b" if "\<not> unat k < 12" "\<not> a < per"
    using that a n by (simp add: a_def b_def unat_sub word_le_nat_alt)
  have d: "unat (k - 12 - n - n * n) = d" if "\<not> unat k < 12" "\<not> a < per" "\<not> b < per * per"
    using that b nn by (simp add: b_def d_def unat_sub word_le_nat_alt)
  show ?thesis
    unfolding ext2_calculate_block_pointer_pos_def n_def [symmetric] Let_def word_less_nat_alt
      EXT2_NDIR_BLOCKS_def EXT2_IND_BLOCK_def EXT2_DIND_BLOCK_def EXT2_TIND_BLOCK_def
    using a b d n nn nnn by (auto simp: unat_div_distrib unat_mod_distrib)
qed

lemma narrow_block:
  assumes "unat (b :: u32) < 65536"
  shows "ucast (ucast b :: u16) = b" "(ucast b :: u16) = 0 \<longleftrightarrow> b = 0"
proof -
  have "unat (ucast b :: u16) = unat b" using assms by (rule unat_ucast_u32_u16)
  then show "ucast (ucast b :: u16) = b" "(ucast b :: u16) = 0 \<longleftrightarrow> b = 0"
    by (simp_all add: word_unat_eq_iff unat_ucast_u16_u32)
qed

text \<open>One step down: the table is read, or the walk stops at a hole.\<close>

lemma walk_indirect_Cons:
  assumes "io_ok io" "block_ok c bsz b" "unat b < 65536" "unat p < per"
  shows "\<exists>io'. io_ok io' \<and> io_live io' = io_live io + 1 \<and> io_junk io' = io_junk io \<and>
    ext2_walk_indirect ext2 (ucast b) (p # ps) io =
      (if b = 0 then Some (Inl (- 1), io)
       else if ps = [] then Some (Inr (mem_get c (unat b * bsz) bsz), io')
       else ext2_walk_indirect ext2 (ucast (table_at c bsz b (unat p))) ps (io_free io'))"
proof -
  obtain io' where io': "ext2_get_block ext2 b io = (Inr (mem_get c (unat b * bsz) bsz), io')" "io_ok io'"
      "io_live io' = io_live io + 1" "io_junk io' = io_junk io"
    using ext2_get_block_ok [OF assms(1,2)] by blast
  have len: "unat b * bsz + bsz \<le> length c" using assms(2) by (simp add: block_ok_def)
  have p: "4 * unat p + 4 \<le> bsz" using assms(4) bsz_dvd by linarith
  have "le32 (mem_get c (unat b * bsz) bsz) (4 * unat p) = le32 c (unat b * bsz + 4 * unat p)"
    using p len by (rule le32_mem_get)
  moreover have "length (mem_get c (unat b * bsz) bsz) = bsz" using len by simp
  ultimately show ?thesis using io' p
    by (auto simp: narrow_block [OF assms(3)] table_at_def ext2_put_block_def intro!: exI [of _ io'])
qed

lemma indirect_entry:
  assumes "block_ok c bsz b" "i < per" "b \<noteq> 0"
  shows "le32 (mem_get c (unat b * bsz) bsz) (4 * i) = table_at c bsz b i"
    "4 * i + 4 \<le> length (mem_get c (unat b * bsz) bsz)"
proof -
  have "4 * i + 4 \<le> bsz" using assms(2) bsz_dvd by linarith
  moreover have "unat b * bsz + bsz \<le> length c" using assms(1) by (simp add: block_ok_def)
  ultimately show "le32 (mem_get c (unat b * bsz) bsz) (4 * i) = table_at c bsz b i"
      "4 * i + 4 \<le> length (mem_get c (unat b * bsz) bsz)"
    using assms(3) by (simp_all add: le32_mem_get table_at_def)
qed

lemma per_square: "unat (k :: u16) - 12 - per < per * per"
proof -
  have "256 * 256 \<le> per * per" using per_bounds by (intro mult_le_mono) auto
  then show ?thesis using unat_u16_lt [of k] by linarith
qed

lemma position_cases:
  fixes k :: u16
  obtains (direct) pos where "unat k < 12" "ext2_calculate_block_pointer_pos ext2 (ucast k) = Some (0, pos)"
  | (single) p where "12 \<le> unat k" "unat k < 12 + per"
      "ext2_calculate_block_pointer_pos ext2 (ucast k) = Some (1, [12, p])" "unat p = unat k - 12"
  | (double) p q where "12 + per \<le> unat k"
      "ext2_calculate_block_pointer_pos ext2 (ucast k) = Some (2, [13, p, q])"
      "unat p = (unat k - 12 - per) div per" "unat q = (unat k - 12 - per) mod per"
proof -
  note pos = block_position [of "ucast k", unfolded unat_ucast_u16_u32]
  obtain r where r: "ext2_calculate_block_pointer_pos ext2 (ucast k) = Some r"
    using pos per_square [of k] by (auto split: if_splits)
  obtain l ps where [simp]: "r = (l, ps)" by fastforce
  have u: "unat x = 12 \<longleftrightarrow> x = 12" "unat x = 13 \<longleftrightarrow> x = 13" "unat x = Suc 0 \<longleftrightarrow> x = 1" "unat x = 2 \<longleftrightarrow> x = 2" for x :: u32
    by (simp_all add: word_unat_eq_iff)
  consider "unat k < 12" | "12 \<le> unat k" "unat k < 12 + per" | "12 + per \<le> unat k" by linarith
  then show ?thesis
  proof cases
    case 1
    then show ?thesis using pos r direct by (auto simp: unat_eq_0)
  next
    case 2
    then have "\<not> unat k < 12" "unat k - 12 < per" by linarith+
    then show ?thesis using pos r single [OF 2] by (auto simp: map_eq_Cons_conv u)
  next
    case 3
    then have "\<not> unat k < 12" "\<not> unat k - 12 < per" by linarith+
    then show ?thesis using pos r double [OF 3] per_square [of k] by (auto simp: map_eq_Cons_conv u)
  qed
qed

lemma file_block_to_fs_block_ok:
  assumes io: "io_ok io" and blocks: "length (i_block n) = 15"
    and tables: "\<forall>t\<in>set (file_tables c bsz n (unat k)). block_ok c bsz t \<and> unat t < 65536"
  shows "\<exists>io'. file_block_to_fs_block ext2 n k io = Some (file_ptr c bsz n (unat k), io') \<and> kept io io'"
proof (cases k rule: position_cases)
  case (direct pos)
  then show ?thesis using io blocks by (simp add: file_block_to_fs_block_def file_ptr_def kept_def)
next
  case (single p)
  let ?t = "i_block n ! 12"
  have t: "block_ok c bsz ?t" "unat ?t < 65536" using tables single by (simp_all add: file_tables_def)
  have p: "unat p < per" using single by linarith
  have ptr: "file_ptr c bsz n (unat k) = table_at c bsz ?t (unat p)" using single by (simp add: file_ptr_def Let_def)
  obtain io1 where io1: "io_ok io1" "io_live io1 = io_live io + 1" "io_junk io1 = io_junk io"
      "ext2_walk_indirect ext2 (ucast ?t) [p] io =
        (if ?t = 0 then Some (Inl (- 1), io) else Some (Inr (mem_get c (unat ?t * bsz) bsz), io1))"
    using walk_indirect_Cons [OF io t p, of "[]"] by auto
  show ?thesis
  proof (cases "?t = 0")
    case True
    then show ?thesis using io io1 single(3) unfolding ptr
      by (simp add: file_block_to_fs_block_def ext2_get_indirect_block_pointer_cache_block_def table_at_def kept_def)
  next
    case False
    then show ?thesis using io1 single(3) indirect_entry [OF t(1) p False] unfolding ptr
      by (simp add: file_block_to_fs_block_def ext2_get_indirect_block_pointer_cache_block_def kept_def ext2_put_block_def Let_def)
  qed
next
  case (double p q)
  let ?t = "i_block n ! 13"
  let ?u = "table_at c bsz ?t (unat p)"
  have "file_tables c bsz n (unat k) = [?t, ?u]" using double by (simp add: file_tables_def Let_def)
  then have t: "block_ok c bsz ?t" "unat ?t < 65536" and u: "block_ok c bsz ?u" "unat ?u < 65536"
    using tables by simp_all
  have p: "unat p < per" unfolding double(3) by (intro less_mult_imp_div_less per_square)
  have q: "unat q < per" using double(4) per_bounds by simp
  have ptr: "file_ptr c bsz n (unat k) = table_at c bsz ?u (unat q)" using double by (simp add: file_ptr_def Let_def)
  obtain io1 where io1: "io_ok io1" "io_live io1 = io_live io + 1" "io_junk io1 = io_junk io"
      "ext2_walk_indirect ext2 (ucast ?t) [p, q] io =
        (if ?t = 0 then Some (Inl (- 1), io) else ext2_walk_indirect ext2 (ucast ?u) [q] (io_free io1))"
    using walk_indirect_Cons [OF io t p, of "[q]"] by auto
  have "io_ok (io_free io1)" using io1(1) by simp
  then obtain io2 where io2: "io_ok io2" "io_live io2 = io_live (io_free io1) + 1" "io_junk io2 = io_junk io"
      "ext2_walk_indirect ext2 (ucast ?u) [q] (io_free io1) =
        (if ?u = 0 then Some (Inl (- 1), io_free io1) else Some (Inr (mem_get c (unat ?u * bsz) bsz), io2))"
    using walk_indirect_Cons [OF _ u q, of "io_free io1" "[]"] io1(3) by auto
  show ?thesis
  proof (cases "?t = 0 \<or> ?u = 0")
    case True
    then have "table_at c bsz ?u (unat q) = 0" by (auto simp: table_at_def)
    then show ?thesis using True io io1 io2 double(2) unfolding ptr
      by (auto simp: file_block_to_fs_block_def ext2_get_indirect_block_pointer_cache_block_def kept_def)
  next
    case False
    then show ?thesis using io1 io2 double(2) indirect_entry [OF u(1) q] unfolding ptr
      by (simp add: file_block_to_fs_block_def ext2_get_indirect_block_pointer_cache_block_def kept_def ext2_put_block_def Let_def)
  qed
qed

lemma ext2_read_block_ok:
  assumes "io_ok io" "block_ok c bsz b" "bsz \<le> length m"
  shows "\<exists>io'. ext2_read_block ext2 m b io = (int bsz, mem_put m 0 (mem_get c (unat b * bsz) bsz), io') \<and> kept io io'"
  unfolding ext2_read_block_def Let_def device
  using io_read_ok [OF assms(1), of "b * EXT2_BLOCK_SIZE (e_sb ext2)" "ucast (EXT2_BLOCK_SIZE (e_sb ext2))" m]
    assms(2,3) bsz_bounds(4) unat_mult_bsz [OF assms(2)] by (simp add: block_ok_def)

lemma ext2_fetch_ok:
  assumes io: "io_ok io" and f: "file_ok c bsz n len" and k: "unat k * bsz < len" and m: "bsz \<le> length m"
  shows "\<exists>io'. ext2_fetch ext2 n k m io = Some (mem_put m 0 (file_bytes c bsz n (unat k * bsz) bsz), io') \<and> kept io io'"
proof -
  let ?b = "file_ptr c bsz n (unat k)"
  have ok: "block_ok c bsz ?b" "length (i_block n) = 15"
      "\<forall>t\<in>set (file_tables c bsz n (unat k)). block_ok c bsz t \<and> unat t < 65536"
    using f k by (simp_all add: file_ok_def)
  obtain io1 where io1: "file_block_to_fs_block ext2 n k io = Some (?b, io1)" "kept io io1"
    using file_block_to_fs_block_ok [OF io ok(2,3)] by blast
  note bytes = file_block_bytes [OF bsz_bounds(3) refl ok(1)]
  show ?thesis
  proof (cases "?b = 0")
    case True
    then show ?thesis using io1 bytes by (simp add: ext2_fetch_def)
  next
    case False
    have "io_ok io1" using io1(2) by (simp add: kept_def)
    then obtain io2 where "ext2_read_block ext2 m ?b io1 = (int bsz, mem_put m 0 (mem_get c (unat ?b * bsz) bsz), io2)" "kept io1 io2"
      using ext2_read_block_ok [OF _ ok(1) m] by blast
    then show ?thesis using io1 bytes False kept_trans [OF io1(2)] by (simp add: ext2_fetch_def)
  qed
qed

lemma ext2_temp_fetch:
  assumes "io_ok io" "file_ok c bsz n len" "unat k * bsz < len"
  shows "\<exists>io'. ext2_fetch ext2 n k (ext2_temp ext2 io) io = Some (file_bytes c bsz n (unat k * bsz) bsz, io') \<and> kept io io'"
proof -
  have l: "length (ext2_temp ext2 io) = bsz" using assms(1) by (simp add: ext2_temp_def io_ok_def heap_ok_def)
  then have "mem_put (ext2_temp ext2 io) 0 (file_bytes c bsz n (unat k * bsz) bsz) = file_bytes c bsz n (unat k * bsz) bsz"
    by (simp add: mem_put_def)
  then show ?thesis using ext2_fetch_ok [OF assms, of "ext2_temp ext2 io"] l by simp
qed

text \<open>The state of a read that has delivered \<open>k\<close> of the \<open>len\<close> bytes at \<open>off\<close>.\<close>

definition filled :: "ext2_inode \<Rightarrow> 'a io \<Rightarrow> nat \<Rightarrow> nat \<Rightarrow> u8 list \<Rightarrow> nat \<Rightarrow> 'a rstate \<Rightarrow> bool" where
  "filled n io off len buf k r \<longleftrightarrow> k \<le> len \<and> r_pos r = k \<and> unat (r_len r) = len - k \<and> unat (r_bytes r) = k \<and>
     r_buf r = mem_put buf 0 (file_bytes c bsz n off k) \<and> kept io (r_io r) \<and>
     (k < len \<longrightarrow> unat (r_block r) * bsz = off + k)"

definition request :: "ext2_inode \<Rightarrow> nat \<Rightarrow> nat \<Rightarrow> u8 list \<Rightarrow> bool" where
  "request n off len buf \<longleftrightarrow> file_ok c bsz n (off + len) \<and> off + len \<le> 65536 * bsz \<and> len < 32768 \<and> len \<le> length buf"

lemma next_block:
  assumes "unat b * bsz = p" "p + bsz < 65536 * bsz"
  shows "unat (b + 1 :: u16) * bsz = p + bsz"
proof -
  have "(unat b + 1) * bsz < 65536 * bsz" using assms by simp
  then have "unat b + 1 < 65536" using mult_less_cancel2 by blast
  then have "unat (b + 1) = unat b + 1" by (simp add: unat_plus_u16)
  then show ?thesis using assms(1) by simp
qed

lemma ext2_read_last_ok:
  assumes q: "request n off len buf" and r: "filled n io off len buf k r" and l: "unat (r_len r) < bsz"
  shows "\<exists>r'. ext2_read_last ext2 n r = Some r' \<and> r_buf r' = mem_put buf 0 (file_bytes c bsz n off len) \<and>
    unat (r_bytes r') = len \<and> kept io (r_io r')"
proof (cases "r_len r > 0")
  case False
  then have "k = len" using r by (auto simp: filled_def word_less_nat_alt)
  then show ?thesis using r False by (simp add: ext2_read_last_def filled_def)
next
  case True
  let ?m = "len - k"
  have k: "k < len" "unat (r_len r) = ?m" "unat (r_block r) * bsz = off + k" "io_ok (r_io r)"
    using True r by (auto simp: filled_def word_less_nat_alt kept_def)
  obtain io' where io': "ext2_fetch ext2 n (r_block r) (ext2_temp ext2 (r_io r)) (r_io r) =
      Some (file_bytes c bsz n (off + k) bsz, io')" "kept (r_io r) io'"
    using ext2_temp_fetch [OF k(4), of n "off + len" "r_block r"] k q by (auto simp: request_def)
  have "mem_get (file_bytes c bsz n (off + k) bsz) 0 ?m = file_bytes c bsz n (off + k) ?m"
    using mem_get_file_bytes [of 0 ?m bsz] l k(2) by simp
  then have "mem_put (r_buf r) k (mem_get (file_bytes c bsz n (off + k) bsz) 0 ?m) = mem_put buf 0 (file_bytes c bsz n off len)"
    using r k(1) q by (simp add: filled_def request_def put_file_bytes)
  moreover have "unat (r_bytes r + r_len r) = len"
    using r k q by (subst unat_plus_u16) (simp_all add: filled_def request_def)
  moreover have "kept io io'" using r io'(2) kept_trans by (auto simp: filled_def)
  ultimately show ?thesis using True k l io'(1) r by (simp add: ext2_read_last_def filled_def)
qed

lemma ext2_read_middle_ok:
  assumes q: "request n off len buf" and "filled n io off len buf k r"
  shows "\<exists>k r'. ext2_read_middle ext2 n r = Some r' \<and> filled n io off len buf k r' \<and> unat (r_len r') < bsz"
  using assms(2)
proof (induction "unat (r_len r)" arbitrary: k r rule: less_induct)
  case less
  show ?case
  proof (cases "unat (r_len r) < bsz")
    case True
    then have "ext2_read_middle ext2 n r = Some r"
      by (subst ext2_read_middle.simps) (simp add: word_less_nat_alt)
    then show ?thesis using less.prems True by blast
  next
    case False
    have r: "k \<le> len" "r_pos r = k" "unat (r_len r) = len - k" "unat (r_bytes r) = k" "io_ok (r_io r)" "kept io (r_io r)"
        "r_buf r = mem_put buf 0 (file_bytes c bsz n off k)" "k < len \<longrightarrow> unat (r_block r) * bsz = off + k"
      using less.prems by (auto simp: filled_def kept_def)
    have kb: "k + bsz \<le> len" "k < len" using False r(1,3) bsz_bounds(3) by linarith+
    have q': "file_ok c bsz n (off + len)" "off + len \<le> 65536 * bsz" "len < 32768" "len \<le> length buf"
      using q by (simp_all add: request_def)
    have blk: "unat (r_block r) * bsz = off + k" using r(8) kb(2) by simp
    have len: "length (r_buf r) = length buf" using r(7) q' kb by simp
    have room: "bsz \<le> length (drop k (r_buf r))" using kb q'(4) len by simp
    obtain io' where io': "ext2_fetch ext2 n (r_block r) (drop k (r_buf r)) (r_io r) =
        Some (mem_put (drop k (r_buf r)) 0 (file_bytes c bsz n (off + k) bsz), io')" "kept (r_io r) io'"
      using ext2_fetch_ok [OF r(5) q'(1) _ room, of "r_block r"] blk kb by auto
    define r1 where "r1 = r\<lparr>r_buf := take k (r_buf r) @ mem_put (drop k (r_buf r)) 0 (file_bytes c bsz n (off + k) bsz),
        r_pos := k + bsz, r_block := r_block r + 1, r_len := r_len r - ucast (EXT2_BLOCK_SIZE (e_sb ext2)),
        r_bytes := r_bytes r + ucast (EXT2_BLOCK_SIZE (e_sb ext2)), r_io := io'\<rparr>"
    have step: "ext2_read_middle ext2 n r = ext2_read_middle ext2 n r1"
      using False io'(1) r(2) by (subst ext2_read_middle.simps) (simp add: word_less_nat_alt r1_def Let_def)
    have "take k (r_buf r) @ mem_put (drop k (r_buf r)) 0 (file_bytes c bsz n (off + k) bsz) =
        mem_put (r_buf r) k (file_bytes c bsz n (off + k) bsz)"
      using kb q'(4) len by (simp add: mem_put_def add.commute)
    then have buf: "r_buf r1 = mem_put buf 0 (file_bytes c bsz n off (k + bsz))"
      using r(7) kb q'(4) by (simp add: r1_def put_file_bytes)
    have l1: "unat (r_len r1) = len - (k + bsz)"
      using False r(3) by (simp add: r1_def unat_diff_u16 word_le_nat_alt)
    have b1: "unat (r_bytes r1) = k + bsz"
      using r(4) kb q'(3) by (simp add: r1_def unat_plus_u16)
    have n1: "unat (r_block r1) * bsz = off + (k + bsz)" if "k + bsz < len"
      using next_block [OF blk] that q'(2) by (simp add: r1_def)
    have "filled n io off len buf (k + bsz) r1"
      using buf l1 b1 n1 kb kept_trans [OF r(6) io'(2)] by (simp add: filled_def) (simp add: r1_def)
    moreover have "unat (r_len r1) < unat (r_len r)" using l1 r(3) kb bsz_bounds(3) by linarith
    ultimately show ?thesis unfolding step using less.hyps by blast
  qed
qed

lemma ext2_read_first_ok:
  assumes q: "request n off len buf" and l: "0 < len" and io: "io_ok io" and m: "unat len' = len"
    and o: "unat off' = off" and b: "unat b = off div bsz"
  shows "\<exists>k r'. ext2_read_first ext2 n off' \<lparr>r_buf = buf, r_pos = 0, r_block = b, r_len = len', r_bytes = 0, r_io = io\<rparr> = Some r' \<and>
    filled n io off len buf k r'"
proof (cases "off mod bsz = 0")
  case True
  then have "off' mod EXT2_BLOCK_SIZE (e_sb ext2) = 0" using o by (simp add: word_unat_eq_iff unat_mod_distrib)
  moreover have "off div bsz * bsz = off" using True by auto
  ultimately show ?thesis using m b io by (auto simp: ext2_read_first_def filled_def kept_def mem_put_def file_bytes_def)
next
  case False
  let ?o = "off mod bsz" and ?t = "min len (bsz - off mod bsz)"
  let ?bs = "EXT2_BLOCK_SIZE (e_sb ext2)"
  have om: "unat (off' mod ?bs) = ?o" using o by (simp add: unat_mod_distrib)
  have lt: "?o < bsz" using bsz_bounds(3) by simp
  then have tb: "?o + ?t \<le> bsz" using min.cobounded2 [of len "bsz - ?o"] by linarith
  have o1: "unat (ucast (off' mod ?bs) :: u16) = ?o"
    using om lt bsz_bounds(4) by (subst unat_ucast_u32_u16) linarith+
  have q': "file_ok c bsz n (off + len)" "off + len \<le> 65536 * bsz" "len < 32768" "len \<le> length buf"
    using q by (simp_all add: request_def)
  have base: "unat b * bsz = off - ?o" "off - ?o + ?o = off"
    using b by (simp_all add: minus_mod_eq_div_mult)
  have low: "off - ?o < off + len" using l by linarith
  have sub: "unat (?bs - ucast (ucast (off' mod ?bs) :: u16)) = bsz - ?o"
    using o1 lt by (subst unat_sub) (simp_all add: word_le_nat_alt)
  have t1: "unat (ucast (min (ucast len') (?bs - ucast (ucast (off' mod ?bs) :: u16))) :: u16) = ?t"
    using sub m q'(3) by (subst unat_ucast_u32_u16) (auto simp: min_def word_le_nat_alt)
  obtain io' where io': "ext2_fetch ext2 n b (ext2_temp ext2 io) io = Some (file_bytes c bsz n (off - ?o) bsz, io')" "kept io io'"
    using ext2_temp_fetch [OF io q'(1), of b] base low by auto
  have "mem_get (file_bytes c bsz n (off - ?o) bsz) ?o ?t = file_bytes c bsz n off ?t"
    using base(2) tb by (subst mem_get_file_bytes) simp_all
  moreover have "off' mod ?bs \<noteq> 0" using om False by (auto simp: word_unat_eq_iff)
  moreover have "\<not> bsz < ?o + ?t" using tb by linarith
  moreover have "unat (b + 1) * bsz = off + ?t" if "?t < len"
    using next_block [OF base(1)] base(2) that q'(2) by (simp add: min_def split: if_splits)
  ultimately show ?thesis using io' m t1 o1 q'(3)
    by (auto simp: ext2_read_first_def Let_def filled_def unat_diff_u16 word_le_nat_alt intro!: exI [of _ ?t])
qed

text \<open>The trimming of a request to the file, over the integers of the code.\<close>

lemma trim_read:
  fixes len :: u16
  assumes "off + unat len < 2 ^ 31" "unat len < 32768"
    and off: "off \<le> fsize"
  shows "unat (if int32 (int off + uint len) \<ge> int fsize then word_of_int (int fsize - int off) else len) = min (unat len) (fsize - off)"
    (is "unat ?l = _")
proof -
  have i: "int32 (int off + uint len) = int (off + unat len)"
    unfolding uint_nat of_nat_add [symmetric] using assms(1) by (intro int32_id in_int32_nat) simp
  show ?thesis
  proof (cases "fsize \<le> off + unat len")
    case True
    have "int fsize - int off = int (fsize - off)" using off by simp
    moreover have "fsize - off < 65536" using True assms(2) by linarith
    ultimately have "unat (word_of_int (int fsize - int off) :: u16) = fsize - off" by (simp only: unat_word_of_int_u16)
    then have "unat ?l = fsize - off" unfolding i using True by (simp only: of_nat_le_iff if_True)
    moreover have "min (unat len) (fsize - off) = fsize - off" using True by (intro min_absorb2) linarith
    ultimately show ?thesis by linarith
  next
    case False
    then have "?l = len" unfolding i by (simp only: of_nat_le_iff if_False)
    moreover have "min (unat len) (fsize - off) = unat len" using False by (intro min_absorb1) linarith
    ultimately show ?thesis by (simp only:)
  qed
qed

lemma ext2_read_inode_ok:
  assumes io: "io_ok io" and f: "ext2_file_len ext2 n = int fsize" "file_ok c bsz n fsize" "fsize \<le> 65536 * bsz"
    and off: "off + unat len < 2 ^ 31" and len: "unat len < 32768" "unat len \<le> length buf"
  defines "k \<equiv> min (unat len) (fsize - off)"
  shows "\<exists>io'. ext2_read_inode ext2 n buf (int off) len io =
      Some (int k, mem_put buf 0 (file_bytes c bsz n off k), io') \<and> kept io io'"
proof (cases "fsize < off")
  case True
  then show ?thesis using io by (simp add: ext2_read_inode_def f(1) k_def kept_def mem_put_def file_bytes_def)
next
  case False
  define l where "l = (if int32 (int off + uint len) \<ge> int fsize then word_of_int (int fsize - int off) else len)"
  have l: "unat l = k" unfolding l_def k_def using trim_read [OF off len(1)] False by simp
  show ?thesis
  proof (cases "k = 0")
    case True
    then have "l = 0" using l by (simp add: unat_eq_0)
    then show ?thesis using True False io
      by (simp add: ext2_read_inode_def f(1) Let_def l_def [symmetric] kept_def mem_put_def file_bytes_def)
  next
    case k: False
    have lt: "off < fsize" "off + k \<le> fsize" "k \<le> unat len" "0 < k" using False k by (auto simp: k_def)
    have o: "unat (word_of_int (int off) :: u32) = off" using off by (simp add: unat_of_nat_u32)
    have "off < 65536 * bsz" using lt f(3) by linarith
    then have d: "off div bsz < 65536" by (simp add: less_mult_imp_div_less)
    have b: "unat (ucast (word_of_int (int off) div EXT2_BLOCK_SIZE (e_sb ext2)) :: u16) = off div bsz"
      by (subst unat_ucast_u32_u16) (simp_all only: unat_div_distrib o d)
    have q: "request n off k buf"
      using f(3) lt len file_ok_mono [OF f(2) lt(2)] by (simp add: request_def)
    obtain j r1 where r1: "ext2_read_first ext2 n (word_of_int (int off)) \<lparr>r_buf = buf, r_pos = 0,
        r_block = ucast (word_of_int (int off) div EXT2_BLOCK_SIZE (e_sb ext2)), r_len = l, r_bytes = 0, r_io = io\<rparr> = Some r1"
        "filled n io off k buf j r1"
      using ext2_read_first_ok [OF q lt(4) io l o b] by blast
    obtain j2 r2 where r2: "ext2_read_middle ext2 n r1 = Some r2" "filled n io off k buf j2 r2" "unat (r_len r2) < bsz"
      using ext2_read_middle_ok [OF q r1(2)] by blast
    obtain r3 where r3: "ext2_read_last ext2 n r2 = Some r3" "r_buf r3 = mem_put buf 0 (file_bytes c bsz n off k)"
        "unat (r_bytes r3) = k" "kept io (r_io r3)"
      using ext2_read_last_ok [OF q r2(2,3)] by blast
    have res: "int16 (uint (r_bytes r3)) = int k"
      unfolding uint_nat r3(3) using lt len by (intro int16_id in_int16_nat) linarith
    have "l \<noteq> 0" using l lt(4) by auto
    then have "ext2_read_inode ext2 n buf (int off) len io = Some (int k, r_buf r3, r_io r3)"
      unfolding ext2_read_inode_def f(1) Let_def l_def [symmetric] r1(1) bind.bind_lunit r2(1) r3(1) res
      using False by simp
    then show ?thesis using r3 by simp
  qed
qed

text \<open>The address of an inode, as long as its offset in the table of the group fits 16 bits.\<close>

lemma get_inode_addr_ok:
  assumes num: "0 < unat num" and g: "g = (unat num - 1) div unat (s_inodes_per_group (e_sb ext2))" "g < length (e_gd ext2)"
    and i: "i = (unat num - 1) mod unat (s_inodes_per_group (e_sb ext2)) * unat (EXT2_INODE_SIZE (e_sb ext2))" "i < 65536"
    and ipg: "s_inodes_per_group (e_sb ext2) \<noteq> 0"
    and inside: "unat (bg_inode_table (e_gd ext2 ! g)) * bsz + i < 2 ^ 31"
  shows "\<exists>b o'. get_inode_addr ext2 num = Some (b, o') \<and>
    unat (b * EXT2_BLOCK_SIZE (e_sb ext2) + ucast o') = unat (bg_inode_table (e_gd ext2 ! g)) * bsz + i"
proof -
  let ?ipg = "s_inodes_per_group (e_sb ext2)" and ?isz = "EXT2_INODE_SIZE (e_sb ext2)" and ?bs = "EXT2_BLOCK_SIZE (e_sb ext2)"
  let ?t = "bg_inode_table (e_gd ext2 ! g)"
  have n1: "unat (num - 1) = unat num - 1" using num by (simp add: unat_sub word_le_nat_alt)
  have grp: "unat ((num - 1) div ?ipg) = g" using g(1) n1 by (simp add: unat_div_distrib)
  have prod: "unat ((num - 1) mod ?ipg * ucast ?isz) = i"
    using i n1 by (subst unat_mult_u32) (simp_all add: unat_mod_distrib)
  define v :: u16 where "v = ucast ((num - 1) mod EXT2_INODES_PER_GROUP (e_sb ext2) * ucast ?isz)"
  have v: "unat v = i" unfolding v_def EXT2_INODES_PER_GROUP_def using prod i(2) by (subst unat_ucast_u32_u16) simp_all
  have q: "unat (ucast v div ?bs) = i div bsz" "unat (ucast v mod ?bs) = i mod bsz"
    using v by (simp_all add: unat_div_distrib unat_mod_distrib)
  have m: "i mod bsz < 65536" using mod_less_divisor [OF bsz_bounds(3), of i] bsz_bounds(2) by linarith
  then have o1: "unat (ucast (ucast v mod ?bs :: u32) :: u16) = i mod bsz" using q(2) by (subst unat_ucast_u32_u16) simp_all
  have split: "(unat ?t + i div bsz) * bsz + i mod bsz = unat ?t * bsz + i"
    by (simp only: add_mult_distrib add.assoc div_mult_mod_eq)
  have le: "(unat ?t + i div bsz) * 1 \<le> (unat ?t + i div bsz) * bsz" using bsz_bounds(3) by (intro mult_le_mono2) linarith
  have "(unat ?t + i div bsz) * bsz \<le> unat ?t * bsz + i" unfolding split [symmetric] by (rule le_add1)
  also have "\<dots> < 2 ^ 31" by (rule inside)
  also have "(2 :: nat) ^ 31 < 4294967296" by simp
  finally have small: "(unat ?t + i div bsz) * bsz < 4294967296" .
  have small': "unat ?t + i div bsz < 4294967296" using le_less_trans [OF le small] by simp
  have b: "unat (?t + ucast v div ?bs) = unat ?t + i div bsz" using small' q(1) by (subst unat_plus_u32) simp_all
  have b2: "unat ((?t + ucast v div ?bs) * ?bs) = (unat ?t + i div bsz) * bsz"
    using small b by (subst unat_mult_u32) simp_all
  have "unat ((?t + ucast v div ?bs) * ?bs + ucast (ucast (ucast v mod ?bs :: u32) :: u16)) = unat ?t * bsz + i"
    using b2 o1 split inside by (subst unat_plus_u32) simp_all
  moreover have "get_inode_addr ext2 num = Some (?t + ucast v div ?bs, ucast (ucast v mod ?bs))"
    using ipg g(2) grp by (simp add: get_inode_addr_def Let_def v_def)
  ultimately show ?thesis by blast
qed

lemma ext2_load_inode_ok:
  assumes io: "io_ok io" and a: "get_inode_addr ext2 num = Some (b, o')"
      "unat (b * EXT2_BLOCK_SIZE (e_sb ext2) + ucast o') = pos"
    and inside: "pos + 128 \<le> length c" and old: "length (i_block old) = 15"
  shows "\<exists>io'. ext2_load_inode ext2 num old io = Some (0, inode_of (mem_get c pos 128), io') \<and> kept io io'"
proof -
  have l: "length (inode_bytes old) = 128"
    using old by (simp add: inode_bytes_def length_concat o_def map_replicate_const sum_list_replicate)
  then have "mem_put (inode_bytes old) 0 (mem_get c pos 128) = mem_get c pos 128"
    using inside by (simp add: mem_put_def)
  then show ?thesis
    using io_read_ok [OF io, of "b * EXT2_BLOCK_SIZE (e_sb ext2) + ucast o'" 128 "inode_bytes old"] a inside l
    by (auto simp: ext2_load_inode_def device)
qed

end

section \<open>No leaks\<close>

text \<open>
  Whatever the device returns and whichever allocations fail, the operations release what they
  allocate, except for the objects they return.
\<close>

named_theorems live \<open>the number of allocated blocks after an operation\<close>

lemma io_live_free [simp]: "io_live (io_free io) = io_live io - 1"
  by (simp add: io_free_def)

lemma io_read_live [live]: "io_read d b off n io = (err, m, io') \<Longrightarrow> io_live io' = io_live io"
  by (auto simp: io_read_def split: prod.splits)

lemma io_malloc_live [live]:
  "io_malloc n io = (r, io') \<Longrightarrow> io_live io' = io_live io + (if r = None then 0 else 1)"
  by (auto simp: io_malloc_def Let_def)

lemma io_calloc_live [live]:
  "io_calloc n m io = (r, io') \<Longrightarrow> io_live io' = io_live io + (if r = None then 0 else 1)"
  by (auto simp: io_calloc_def split: prod.splits dest!: io_malloc_live)

lemma ext2_load_inode_live [live]: "ext2_load_inode ext2 num n io = Some (err, n', io') \<Longrightarrow> io_live io' = io_live io"
  by (auto simp: ext2_load_inode_def split: option.splits prod.splits if_splits dest!: io_read_live)

lemma ext2_get_block_live [live]:
  "ext2_get_block ext2 b io = (r, io') \<Longrightarrow> io_live io' = io_live io + (case r of Inl _ \<Rightarrow> 0 | Inr _ \<Rightarrow> 1)"
  by (auto simp: ext2_get_block_def Let_def split: option.splits prod.splits if_splits dest!: io_read_live io_malloc_live)

lemma ext2_walk_indirect_live [live]:
  "ext2_walk_indirect ext2 cur ps io = Some (r, io') \<Longrightarrow> io_live io' = io_live io + (case r of Inl _ \<Rightarrow> 0 | Inr _ \<Rightarrow> 1)"
proof (induction ext2 cur ps io rule: ext2_walk_indirect.induct)
  case (2 ext2 cur p ps io)
  obtain b io1 where b: "ext2_get_block ext2 (ucast cur) io = (b, io1)" by fastforce
  show ?case
    using 2 b ext2_get_block_live [OF b]
    by (auto simp: ext2_put_block_def split: if_splits sum.splits)
qed simp

lemma file_block_to_fs_block_live [live]:
  "file_block_to_fs_block ext2 n k io = Some (b, io') \<Longrightarrow> io_live io' = io_live io"
  by (auto simp: file_block_to_fs_block_def ext2_get_indirect_block_pointer_cache_block_def ext2_put_block_def Let_def
      split: if_splits option.splits prod.splits sum.splits dest!: ext2_walk_indirect_live)

lemma ext2_fetch_live [live]: "ext2_fetch ext2 n k m io = Some (b, io') \<Longrightarrow> io_live io' = io_live io"
  by (auto simp: ext2_fetch_def ext2_read_block_def Let_def split: option.splits if_splits
      dest!: file_block_to_fs_block_live) (metis io_read_live prod.collapse)

lemma ext2_read_first_live [live]: "ext2_read_first ext2 n off r = Some r' \<Longrightarrow> io_live (r_io r') = io_live (r_io r)"
  by (auto simp: ext2_read_first_def Let_def split: option.splits if_splits dest!: ext2_fetch_live)

lemma ext2_read_middle_live [live]: "ext2_read_middle ext2 n r = Some r' \<Longrightarrow> io_live (r_io r') = io_live (r_io r)"
proof (induction ext2 n r rule: ext2_read_middle.induct)
  case (1 ext2 n r)
  show ?case
    using 1 by (subst (asm) (2) ext2_read_middle.simps) (auto simp: Let_def split: if_splits option.splits dest!: ext2_fetch_live)
qed

lemma ext2_read_last_live [live]: "ext2_read_last ext2 n r = Some r' \<Longrightarrow> io_live (r_io r') = io_live (r_io r)"
  by (auto simp: ext2_read_last_def split: option.splits if_splits dest!: ext2_fetch_live)

lemma ext2_read_inode_live [live]:
  "ext2_read_inode ext2 n buf off len io = Some (err, buf', io') \<Longrightarrow> io_live io' = io_live io"
  by (auto simp: ext2_read_inode_def Let_def split: if_splits bind_splits
      dest!: ext2_read_first_live ext2_read_middle_live ext2_read_last_live)

lemma ext2_mount_live [live]:
  "ext2_mount dev io = Some (r, io') \<Longrightarrow> io_live io' = io_live io + (case r of Inl _ \<Rightarrow> 0 | Inr _ \<Rightarrow> 2)"
  by (auto simp: ext2_mount_def ext2_mount_groups_def Let_def split: option.splits if_splits prod.splits
      dest!: io_calloc_live io_read_live ext2_load_inode_live)

section \<open>Registered devices are volumes\<close>

lemma registered_volume:
  assumes st: "block_store dev I cont" "dev_read dev = None" "dev_write dev = None"
    and tmp: "mal (block_size dev) = Some tmp" "length tmp = unat (block_size dev)" "unat (block_size dev) < 32768"
    and img: "length img < 2 ^ 31"
  shows "volume (Some (registered mal dev)) (\<lambda>s. I s \<and> cont s = img) img"
proof
  show "length img < 2 ^ 31" by (rule img)
  fix s off and n :: u16 and buf :: "u8 list"
  assume s: "I s \<and> cont s = img" and n: "off + unat n \<le> length img" "unat n \<le> length buf" "unat n < 32768"
  have "min (unat n) (length (cont s) - off) = unat n" using s n(1) by simp
  then show "\<exists>s'. blk_read (Some (registered mal dev)) (Some buf) (int off) n s =
      (int (unat n), Some (mem_put buf 0 (mem_get img off (unat n))), s') \<and> I s' \<and> cont s' = img"
    using registered_read_bytes [of dev I cont mal tmp s n off buf] st tmp s n img by auto
qed

definition rom_alloc :: "u16 \<Rightarrow> u8 list option" where
  "rom_alloc n = Some (replicate (unat n) 0)"

text \<open>
  A file system on the flash of the board: blocks of 1024 bytes, inodes of 128 bytes, eight to a
  group, with the table of the first group in block 5.
\<close>

definition rom_sb :: ext2_super_block where
  "rom_sb = (super_block_of (replicate 1024 0))\<lparr>s_inodes_count := 8, s_blocks_count := 128, s_blocks_per_group := 8192,
     s_inodes_per_group := 8, s_magic := EXT2_SUPER_MAGIC\<rparr>"

definition rom_ext2 :: "sst39 option ext2_t" where
  "rom_ext2 = \<lparr>e_dev = Some (registered rom_alloc rom_blkdev), e_sb = rom_sb, s_group_count = 1,
     e_gd = [(group_desc_of (replicate 32 0))\<lparr>bg_inode_table := 5\<rparr>], root_inode = inode_of (replicate 128 0)\<rparr>"

lemma le_zeros [simp]: "i + 2 \<le> n \<Longrightarrow> le16 (replicate n 0) i = 0" "i + 4 \<le> n \<Longrightarrow> le32 (replicate n 0) i = 0"
  by (simp_all add: le16_def le32_def)

lemma rom_sb_simps [simp]:
  "s_log_block_size rom_sb = 0" "s_inodes_per_group rom_sb = 8" "s_rev_level rom_sb = 0" "s_feature_ro_compat rom_sb = 0"
  "EXT2_BLOCK_SIZE rom_sb = 1024"
  by (simp_all add: rom_sb_def super_block_of_def EXT2_BLOCK_SIZE_def)

lemma rom_store: "block_store rom_blkdev (\<lambda>s. \<exists>h. s = Some h \<and> sst39_ready h) (\<lambda>s. ch_cells (the s))"
  unfolding rom_blkdev_def by (rule rom.store.block_store_axioms)

lemma rom_fields [simp]: "dev_read rom_blkdev = None" "dev_write rom_blkdev = None" "block_size rom_blkdev = 4096"
  by (simp_all add: rom_blkdev_def cfi_blkdev_def rom_config_def)

interpretation rom_volume: ext2_volume "Some (registered rom_alloc rom_blkdev)"
    "\<lambda>s. (\<exists>h. s = Some h \<and> sst39_ready h) \<and> ch_cells (the s) = ch_cells sample_rom" "ch_cells sample_rom" rom_ext2
proof (rule ext2_volume.intro)
  show "volume (Some (registered rom_alloc rom_blkdev))
      (\<lambda>s. (\<exists>h. s = Some h \<and> sst39_ready h) \<and> ch_cells (the s) = ch_cells sample_rom) (ch_cells sample_rom)"
    by (rule registered_volume [OF rom_store, where tmp = "replicate 4096 0"]) (simp_all add: rom_alloc_def sample_rom_def)
  show "ext2_volume_axioms (Some (registered rom_alloc rom_blkdev)) rom_ext2"
    by unfold_locales (simp_all add: rom_ext2_def)
qed

section \<open>Properties\<close>

text \<open>
  C4. Reading a file: over any block storage, for a file whose blocks lie on the volume,
  \<^verbatim>\<open>ext2_read_inode\<close> returns the number of bytes of the range inside the file and the buffer holds
  exactly those bytes of it, through direct, indirect and doubly indirect blocks and holes, at any
  offset; the volume is unchanged and no memory is lost.  The driver counts blocks of a file in 16
  bits, which bounds the file.
\<close>

theorem ext2_read_inode_correct:
  assumes st: "block_store dev I cont" "dev_read dev = None" "dev_write dev = None"
    and tmp: "mal (block_size dev) = Some tmp" "length tmp = unat (block_size dev)" "unat (block_size dev) < 32768"
    and fs: "e_dev ext2 = Some (registered mal dev)" "s_log_block_size (e_sb ext2) \<in> {0, 1, 2}"
    and io: "I (io_dev io)" "cont (io_dev io) = img" "length img < 2 ^ 31" "heap_ok io"
    and f: "ext2_file_len ext2 n = int fsize" "bs = unat (EXT2_BLOCK_SIZE (e_sb ext2))" "file_ok img bs n fsize" "fsize \<le> 65536 * bs"
    and req: "off + unat len < 2 ^ 31" "unat len < 32768" "unat len \<le> length buf"
  shows "\<exists>io' k. k = min (unat len) (fsize - off) \<and>
    ext2_read_inode ext2 n buf (int off) len io = Some (int k, mem_put buf 0 (file_bytes img bs n off k), io') \<and>
    cont (io_dev io') = img \<and> io_live io' = io_live io"
proof -
  have v: "volume (Some (registered mal dev)) (\<lambda>s. I s \<and> cont s = img) img"
    using st tmp io(3) by (rule registered_volume)
  then have x: "ext2_volume (Some (registered mal dev)) (\<lambda>s. I s \<and> cont s = img) img ext2"
    using fs by (intro ext2_volume.intro ext2_volume_axioms.intro)
  have ok: "volume.io_ok (\<lambda>s. I s \<and> cont s = img) io" using io by (simp add: volume.io_ok_def [OF v])
  obtain io' where io': "ext2_read_inode ext2 n buf (int off) len io =
      Some (int (min (unat len) (fsize - off)), mem_put buf 0 (file_bytes img bs n off (min (unat len) (fsize - off))), io')"
      "volume.kept (\<lambda>s. I s \<and> cont s = img) io io'"
    using ext2_volume.ext2_read_inode_ok [OF x ok f(1) _ _ req] f by blast
  then show ?thesis by (auto simp: volume.kept_def [OF v] volume.io_ok_def [OF v])
qed

definition rom_io :: "sst39 option io" where
  "rom_io = \<lparr>io_dev = Some sample_rom, io_mal = \<lambda>_ n. Some (replicate (unat n) 0), io_n = 0, io_live = 0, io_junk = \<lambda>n. replicate n 0\<rparr>"

text \<open>A regular file of 2500 bytes in the blocks 20 and 21, followed by a hole.\<close>

definition rom_file :: ext2_inode where
  "rom_file = (inode_of (replicate 128 0))\<lparr>i_mode := 0x8000, i_size := 2500, i_block := [20, 21] @ replicate 13 0\<rparr>"

lemma rom_file_ok: "file_ok (ch_cells sample_rom) 1024 rom_file 2500"
proof -
  have "block_ok (ch_cells sample_rom) 1024 (file_ptr (ch_cells sample_rom) 1024 rom_file k) \<and>
      file_tables (ch_cells sample_rom) 1024 rom_file k = []" if "k * 1024 < 2500" for k
  proof -
    have "k = 0 \<or> k = 1 \<or> k = 2" using that by auto
    then show ?thesis by (auto simp: file_ptr_def file_tables_def rom_file_def block_ok_def sample_rom_def)
  qed
  then show ?thesis by (auto simp: file_ok_def) (simp add: rom_file_def)
qed

theorem ext2_read_inode_correct_witness:
  "\<exists>io'. ext2_read_inode rom_ext2 rom_file (replicate 600 1) 2000 600 rom_io =
     Some (500, mem_put (replicate 600 1) 0 (file_bytes (ch_cells sample_rom) 1024 rom_file 2000 500), io') \<and> io_live io' = 0"
proof -
  have "\<exists>io' k. k = min (unat (600 :: u16)) (2500 - 2000) \<and>
    ext2_read_inode rom_ext2 rom_file (replicate 600 1) (int 2000) 600 rom_io =
      Some (int k, mem_put (replicate 600 1) 0 (file_bytes (ch_cells sample_rom) 1024 rom_file 2000 k), io') \<and>
    ch_cells (the (io_dev io')) = ch_cells sample_rom \<and> io_live io' = io_live rom_io"
  proof (rule ext2_read_inode_correct [OF rom_store, where mal = rom_alloc and tmp = "replicate 4096 0"])
    show "file_ok (ch_cells sample_rom) 1024 rom_file 2500" by (rule rom_file_ok)
    show "ext2_file_len rom_ext2 rom_file = int 2500"
      by (simp add: ext2_file_len_def rom_ext2_def rom_file_def in_int32_def)
  qed (simp_all add: rom_alloc_def rom_ext2_def rom_io_def heap_ok_def sst39_ready_def sample_rom_def)
  then show ?thesis by (auto simp: rom_io_def)
qed

text \<open>
  C37. Positions of the blocks of a file: \<^verbatim>\<open>ext2_calculate_block_pointer_pos\<close> fails exactly for the
  block numbers beyond the triply indirect ones; otherwise the level and the positions determine
  the block number, and every position below the first lies inside a table.
\<close>

fun position_block :: "nat \<Rightarrow> nat \<times> nat list \<Rightarrow> nat" where
  "position_block p (l, [a]) = a"
| "position_block p (l, [t, a]) = 12 + a"
| "position_block p (l, [t, a, b]) = 12 + p + a * p + b"
| "position_block p (l, [t, a, b, c]) = 12 + p + p * p + (a * p + b) * p + c"
| "position_block p _ = 0"

theorem block_positions:
  assumes "s_log_block_size (e_sb ext2) \<in> {0, 1, 2}" "p = unat (EXT2_BLOCK_SIZE (e_sb ext2)) div 4"
  shows "(ext2_calculate_block_pointer_pos ext2 k = None) = (12 + p + p * p + p * p * p \<le> unat k) \<and>
    (case ext2_calculate_block_pointer_pos ext2 k of None \<Rightarrow> True
     | Some (l, pos) \<Rightarrow> length pos = unat l + 1 \<and> unat (pos ! 0) = (if l = 0 then unat k else 11 + unat l) \<and>
         list_all (\<lambda>x. unat x < p) (tl pos) \<and> position_block p (unat l, map unat pos) = unat k)"
proof -
  have "volume None (\<lambda>_. False) []" by (rule volume.intro) simp_all
  then have x: "ext2_volume None (\<lambda>_. False) [] (ext2\<lparr>e_dev := None\<rparr>)"
    using assms(1) by (intro ext2_volume.intro ext2_volume_axioms.intro) simp_all
  let ?r = "ext2_calculate_block_pointer_pos ext2 k"
  have r: "ext2_calculate_block_pointer_pos (ext2\<lparr>e_dev := None\<rparr>) k = ?r"
    by (simp add: ext2_calculate_block_pointer_pos_def)
  have e: "e_sb (ext2\<lparr>e_dev := None\<rparr>) = e_sb ext2" by simp
  note pos = ext2_volume.block_position [OF x, of k, unfolded r e, folded assms(2)]
  have "256 \<le> p" using ext2_volume.per_bounds(1) [OF x] assms(2) by simp
  then have p: "0 < p" by linarith
  define a b d where "a = unat k - 12" and "b = unat k - 12 - p" and "d = unat k - 12 - p - p * p"
  note pos = pos [folded a_def b_def d_def]
  have l: "unat y = Suc 0 \<longleftrightarrow> y = 1" "unat y = 2 \<longleftrightarrow> y = 2" "unat y = 3 \<longleftrightarrow> y = 3" for y :: u32
    by (simp_all add: word_unat_eq_iff)
  consider "unat k < 12" | "12 \<le> unat k" "a < p" | "12 + p \<le> unat k" "b < p * p"
    | "12 + p + p * p \<le> unat k" "d < p * p * p" | "12 + p + p * p + p * p * p \<le> unat k"
    unfolding a_def b_def d_def by linarith
  then show ?thesis
  proof cases
    case 1
    then show ?thesis using pos by (auto simp: map_eq_Cons_conv unat_eq_0)
  next
    case 2
    then show ?thesis using pos by (auto simp: map_eq_Cons_conv l a_def)
  next
    case 3
    have "b div p < p" "b mod p < p" using 3(2) p by (simp_all add: less_mult_imp_div_less)
    moreover have "\<not> unat k < 12" "\<not> a < p" "unat k = 12 + p + b" using 3(1) by (simp_all add: a_def b_def)
    ultimately show ?thesis using pos 3 by (auto simp: map_eq_Cons_conv l)
  next
    case 4
    let ?m = "d mod (p * p)"
    have "?m < p * p" using p by simp
    then have "d div (p * p) < p" "?m div p < p" "?m mod p < p"
      using 4(2) p by (simp_all add: less_mult_imp_div_less mult.commute)
    moreover have "(d div (p * p) * p + ?m div p) * p + ?m mod p = d"
    proof -
      have "(d div (p * p) * p + ?m div p) * p + ?m mod p = d div (p * p) * (p * p) + (?m div p * p + ?m mod p)"
        by (simp only: algebra_simps)
      then show ?thesis by (simp only: div_mult_mod_eq)
    qed
    moreover have "\<not> unat k < 12" "\<not> a < p" "\<not> b < p * p" "unat k = 12 + p + p * p + d"
      using 4(1) by (simp_all add: a_def b_def d_def)
    ultimately show ?thesis using pos 4 by (auto simp: map_eq_Cons_conv l)
  next
    case 5
    then have "\<not> unat k < 12" "\<not> a < p" "\<not> b < p * p" "\<not> d < p * p * p" by (simp_all add: a_def b_def d_def)
    then show ?thesis using pos 5 by simp
  qed
qed

theorem block_positions_witness:
  "(ext2_calculate_block_pointer_pos rom_ext2 70000 = None) = (12 + 256 + 256 * 256 + 256 * 256 * (256 :: nat) \<le> unat (70000 :: u32)) \<and>
    (case ext2_calculate_block_pointer_pos rom_ext2 70000 of None \<Rightarrow> True
     | Some (l, pos) \<Rightarrow> length pos = unat l + 1 \<and> unat (pos ! 0) = (if l = 0 then unat (70000 :: u32) else 11 + unat l) \<and>
         list_all (\<lambda>x. unat x < 256) (tl pos) \<and> position_block 256 (unat l, map unat pos) = unat (70000 :: u32))"
  by (rule block_positions) (simp_all add: rom_ext2_def)

text \<open>
  C36. Loading an inode: over any block storage, for an inode of a group of the volume whose offset in
  the inode table is below 65536, \<^verbatim>\<open>ext2_load_inode\<close> returns the inode stored at that offset of the
  table, whatever the target held before.
\<close>

theorem ext2_load_inode_correct:
  assumes st: "block_store dev I cont" "dev_read dev = None" "dev_write dev = None"
    and tmp: "mal (block_size dev) = Some tmp" "length tmp = unat (block_size dev)" "unat (block_size dev) < 32768"
    and fs: "e_dev ext2 = Some (registered mal dev)" "s_log_block_size (e_sb ext2) \<in> {0, 1, 2}" "s_inodes_per_group (e_sb ext2) \<noteq> 0"
    and io: "I (io_dev io)" "cont (io_dev io) = img" "length img < 2 ^ 31" "heap_ok io"
    and num: "0 < unat num" "g = (unat num - 1) div unat (s_inodes_per_group (e_sb ext2))" "g < length (e_gd ext2)"
    and i: "i = (unat num - 1) mod unat (s_inodes_per_group (e_sb ext2)) * unat (EXT2_INODE_SIZE (e_sb ext2))" "i < 65536"
    and pos: "pos = unat (bg_inode_table (e_gd ext2 ! g)) * unat (EXT2_BLOCK_SIZE (e_sb ext2)) + i" "pos + 128 \<le> length img"
    and old: "length (i_block old) = 15"
  shows "\<exists>io'. ext2_load_inode ext2 num old io = Some (0, inode_of (mem_get img pos 128), io') \<and>
    cont (io_dev io') = img \<and> io_live io' = io_live io"
proof -
  have v: "volume (Some (registered mal dev)) (\<lambda>s. I s \<and> cont s = img) img"
    using st tmp io(3) by (rule registered_volume)
  then have x: "ext2_volume (Some (registered mal dev)) (\<lambda>s. I s \<and> cont s = img) img ext2"
    using fs(1,2) by (intro ext2_volume.intro ext2_volume_axioms.intro)
  have ok: "volume.io_ok (\<lambda>s. I s \<and> cont s = img) io" using io by (simp add: volume.io_ok_def [OF v])
  have "pos < 2 ^ 31" using pos(2) io(3) by linarith
  then obtain b o' where a: "get_inode_addr ext2 num = Some (b, o')"
      "unat (b * EXT2_BLOCK_SIZE (e_sb ext2) + ucast o') = pos"
    using ext2_volume.get_inode_addr_ok [OF x num i fs(3)] pos(1) by auto
  then show ?thesis
    using ext2_volume.ext2_load_inode_ok [OF x ok a pos(2) old] by (auto simp: volume.kept_def [OF v] volume.io_ok_def [OF v])
qed

theorem ext2_load_inode_correct_witness:
  "\<exists>io'. ext2_load_inode rom_ext2 2 (inode_of (replicate 128 0)) rom_io =
     Some (0, inode_of (mem_get (ch_cells sample_rom) 5248 128), io') \<and> io_live io' = 0"
proof -
  have "\<exists>io'. ext2_load_inode rom_ext2 2 (inode_of (replicate 128 0)) rom_io =
     Some (0, inode_of (mem_get (ch_cells sample_rom) 5248 128), io') \<and>
    ch_cells (the (io_dev io')) = ch_cells sample_rom \<and> io_live io' = io_live rom_io"
    by (rule ext2_load_inode_correct [OF rom_store, where mal = rom_alloc and tmp = "replicate 4096 0" and g = 0 and i = 128])
      (simp_all add: rom_alloc_def rom_ext2_def rom_io_def heap_ok_def sst39_ready_def sample_rom_def EXT2_INODE_SIZE_def
        EXT2_GOOD_OLD_REV_def EXT2_GOOD_OLD_INODE_SIZE_def group_desc_of_def inode_of_def le32s_def)
  then show ?thesis by (auto simp: rom_io_def)
qed

lemma ucast_wraps: "(ucast (x + 65536 :: u32) :: u16) = ucast x"
proof -
  have u: "unat (ucast y :: u16) = unat y mod 65536" for y :: u32 by (simp add: unsigned_ucast_eq take_bit_eq_mod)
  have "unat (x + 65536) mod 65536 = (unat x + 65536) mod 4294967296 mod 65536" by (simp add: unat_word_ariths)
  also have "\<dots> = (unat x + 65536) mod 65536" by (rule mod_mod_cancel) simp
  finally show ?thesis unfolding word_unat_eq_iff u by simp
qed

text \<open>
  The offset of an inode in its table is kept in 16 bits: with inodes of 128 bytes, inode
  \<open>num + 512\<close> of a group is looked up at the address of inode \<open>num\<close>.
\<close>

theorem inode_addr_wraps:
  assumes "s_rev_level (e_sb ext2) = 0" "unat num = g * unat (s_inodes_per_group (e_sb ext2)) + i + 1"
    and "i + 512 < unat (s_inodes_per_group (e_sb ext2))" "unat num + 512 < 2 ^ 32"
  shows "get_inode_addr ext2 (num + 512) = get_inode_addr ext2 num"
proof -
  let ?ipg = "s_inodes_per_group (e_sb ext2)"
  have n1: "unat (num - 1) = g * unat ?ipg + i" using assms(2) by (simp add: unat_sub word_le_nat_alt)
  have n2: "unat (num + 512 - 1) = g * unat ?ipg + (i + 512)"
  proof -
    have "unat (num + 512) = unat num + 512" using assms(4) by (subst unat_plus_u32) simp_all
    then show ?thesis using assms(2) by (subst unat_sub) (simp_all add: word_le_nat_alt)
  qed
  have dm: "(g * unat ?ipg + j) div unat ?ipg = g" "(g * unat ?ipg + j) mod unat ?ipg = j" if "j < unat ?ipg" for j
    using that by simp_all
  have "unat ((num + 512 - 1) div ?ipg) = g" "unat ((num - 1) div ?ipg) = g"
    using dm(1) n1 n2 assms(3) by (simp_all add: unat_div_distrib)
  then have grp: "(num + 512 - 1) div ?ipg = (num - 1) div ?ipg" by (simp add: word_unat_eq_iff)
  have u: "unat ((num + 512 - 1) mod ?ipg) = i + 512" "unat ((num - 1) mod ?ipg) = i"
    using dm(2) n1 n2 assms(3) by (simp_all add: unat_mod_distrib)
  have "i + 512 < 4294967296" using assms(3) unat_u32_lt [of ?ipg] by linarith
  then have "unat ((num - 1) mod ?ipg + 512) = i + 512" using u(2) by (subst unat_plus_u32) simp_all
  then have "(num + 512 - 1) mod ?ipg = (num - 1) mod ?ipg + 512" using u(1) by (simp only: word_unat_eq_iff)
  then have "(ucast ((num + 512 - 1) mod ?ipg * 128) :: u16) = ucast ((num - 1) mod ?ipg * 128 + 65536)"
    by (simp add: distrib_right)
  also have "\<dots> = ucast ((num - 1) mod ?ipg * 128)"
    by (rule ucast_wraps)
  finally show ?thesis using grp
    by (simp add: get_inode_addr_def Let_def EXT2_INODES_PER_GROUP_def EXT2_INODE_SIZE_def EXT2_GOOD_OLD_REV_def
        EXT2_GOOD_OLD_INODE_SIZE_def assms(1))
qed

theorem inode_addr_wraps_witness:
  "get_inode_addr (rom_ext2\<lparr>e_sb := rom_sb\<lparr>s_inodes_per_group := 1024\<rparr>\<rparr>) 515 =
   get_inode_addr (rom_ext2\<lparr>e_sb := rom_sb\<lparr>s_inodes_per_group := 1024\<rparr>\<rparr>) 3"
  using inode_addr_wraps [of "rom_ext2\<lparr>e_sb := rom_sb\<lparr>s_inodes_per_group := 1024\<rparr>\<rparr>" 3 0 2] by simp

text \<open>Mounting, in two steps: the superblock, then the descriptors and the root inode.\<close>

context volume
begin

lemma io_calloc_ok:
  assumes "io_ok io"
  shows "\<exists>io'. io_calloc n m io = (Some (replicate (unat (n * m)) 0), io') \<and> io_ok io' \<and> io_live io' = io_live io + 1"
proof -
  obtain b where "io_mal io (io_n io) (n * m) = Some b" "length b = unat (n * m)"
    using assms unfolding io_ok_def heap_ok_def by blast
  moreover have "map (\<lambda>_. 0) b = replicate (length b) 0" by (simp add: map_replicate_const)
  ultimately show ?thesis using assms by (auto simp: io_calloc_def io_malloc_def io_ok_def heap_ok_def)
qed

definition descriptors :: "nat \<Rightarrow> nat \<Rightarrow> ext2_group_desc list" where
  "descriptors gpos ng = map (\<lambda>k. group_desc_of (mem_get c (gpos + 32 * k) 32)) [0..<ng]"

lemma gd_list_ok: "gd_list (mem_get c gpos (32 * ng)) (int ng) = descriptors gpos ng"
proof -
  have "mem_get (mem_get c gpos (32 * ng)) (32 * k) 32 = mem_get c (gpos + 32 * k) 32" if "k < ng" for k
    using that by (intro mem_get_mem_get) simp
  then show ?thesis by (simp add: gd_list_def descriptors_def)
qed

lemma read_descriptors:
  assumes io: "io_ok io" and ng: "ng < 1024" and pos: "unat p + 32 * ng \<le> length c"
  shows "\<exists>io1 io2. io_calloc (word_of_int (int ng)) 32 io = (Some (replicate (32 * ng) 0), io1) \<and>
    io_read dev (replicate (32 * ng) 0) p (32 * word_of_int (int ng)) io1 = (int (32 * ng), mem_get c (unat p) (32 * ng), io2) \<and>
    io_ok io2 \<and> io_live io2 = io_live io + 1"
proof -
  have u: "unat (word_of_int (int ng) * 32 :: u16) = 32 * ng" "unat (32 * word_of_int (int ng) :: u16) = 32 * ng"
    using ng by (simp_all add: unat_word_ariths unat_of_nat_u16 mult.commute)
  obtain io1 where io1: "io_calloc (word_of_int (int ng)) 32 io = (Some (replicate (32 * ng) 0), io1)" "io_ok io1"
      "io_live io1 = io_live io + 1"
    using io_calloc_ok [OF io, of "word_of_int (int ng)" 32] unfolding u by auto
  obtain io2 where "io_read dev (replicate (32 * ng) 0) p (32 * word_of_int (int ng)) io1 = (int (32 * ng), mem_get c (unat p) (32 * ng), io2)"
      "kept io1 io2"
    using io_read_ok [OF io1(2), of p "32 * word_of_int (int ng)" "replicate (32 * ng) 0"] pos ng unfolding u by (auto simp: mem_put_def)
  then show ?thesis using io1 by (auto simp: kept_def)
qed

lemma mount_groups_ok:
  fixes p :: u32
  assumes io: "io_ok io" and e: "e_dev e = dev" "s_group_count e = int ng" "root_inode e = inode_of (replicate 128 0)"
      "s_log_block_size (e_sb e) \<in> {0, 1, 2}" "s_inodes_per_group (e_sb e) \<noteq> 0"
    and ng: "ng < 1024" and p: "p = (if EXT2_BLOCK_SIZE (e_sb e) = 4096 then 4096 else 2048)" "unat p + 32 * ng \<le> length c"
    and g: "g = 1 div unat (s_inodes_per_group (e_sb e))" "g < ng"
    and i: "i = 1 mod unat (s_inodes_per_group (e_sb e)) * unat (EXT2_INODE_SIZE (e_sb e))"
    and r: "rpos = unat (bg_inode_table (descriptors (unat p) ng ! g)) * unat (EXT2_BLOCK_SIZE (e_sb e)) + i" "rpos + 128 \<le> length c"
  shows "\<exists>io'. ext2_mount_groups e io =
      Some (Inr (e\<lparr>e_gd := descriptors (unat p) ng, root_inode := inode_of (mem_get c rpos 128)\<rparr>), io') \<and>
    io_ok io' \<and> io_live io' = io_live io + 1"
proof -
  obtain io1 io2 where io2: "io_calloc (word_of_int (int ng)) 32 io = (Some (replicate (32 * ng) 0), io1)"
      "io_read dev (replicate (32 * ng) 0) p (32 * word_of_int (int ng)) io1 = (int (32 * ng), mem_get c (unat p) (32 * ng), io2)"
      "io_ok io2" "io_live io2 = io_live io + 1"
    using read_descriptors [OF io ng p(2)] by blast
  define e2 where "e2 = e\<lparr>e_gd := descriptors (unat p) ng\<rparr>"
  have x: "ext2_volume dev inv c e2"
    using volume_axioms e by (intro ext2_volume.intro ext2_volume_axioms.intro) (simp_all add: e2_def)
  have "i \<le> 1 * unat (EXT2_INODE_SIZE (e_sb e))" unfolding i by (intro mult_le_mono1) (simp add: mod_le_divisor)
  then have i16: "i < 65536" using unat_u16_lt [of "EXT2_INODE_SIZE (e_sb e)"] by linarith
  have "rpos < 2 ^ 31" using r(2) small by linarith
  then obtain b o' where a: "get_inode_addr e2 EXT2_ROOT_INO = Some (b, o')" "unat (b * EXT2_BLOCK_SIZE (e_sb e2) + ucast o') = rpos"
    using ext2_volume.get_inode_addr_ok [OF x, of EXT2_ROOT_INO g i] g i e(5) i16 r(1)
    by (auto simp: e2_def EXT2_ROOT_INO_def descriptors_def)
  obtain io3 where io3: "ext2_load_inode e2 EXT2_ROOT_INO (inode_of (replicate 128 0)) io2 = Some (0, inode_of (mem_get c rpos 128), io3)"
      "kept io2 io3"
    using ext2_volume.ext2_load_inode_ok [OF x io2(3) a r(2), of "inode_of (replicate 128 0)"] by (auto simp: inode_of_def le32s_def)
  have "length (mem_get c (unat p) (32 * ng)) = 32 * ng" using p(2) by simp
  then show ?thesis
    using io2 io3 gd_list_ok [of "unat p" ng] e p(1)
    by (simp add: ext2_mount_groups_def Let_def e2_def kept_def)
qed

end

text \<open>
  C18. Mounting: over any block storage that holds a superblock with the right magic number, a supported
  revision and features, at most 1023 groups, their descriptors and the root inode, \<^verbatim>\<open>ext2_mount\<close>
  succeeds and returns exactly these structures, with two blocks of memory allocated.
\<close>

theorem ext2_mount_correct:
  assumes st: "block_store dev I cont" "dev_read dev = None" "dev_write dev = None"
    and tmp: "mal (block_size dev) = Some tmp" "length tmp = unat (block_size dev)" "unat (block_size dev) < 32768"
    and io: "I (io_dev io)" "cont (io_dev io) = img" "length img < 2 ^ 31" "heap_ok io"
    and sb: "sb = super_block_of (mem_get img 1024 1024)" "2048 \<le> length img" "s_magic sb = EXT2_SUPER_MAGIC"
      "s_rev_level sb \<le> EXT2_DYNAMIC_REV" "s_feature_ro_compat sb AND NOT EXT2_FEATURE_RO_COMPAT_SPARSE_SUPER = 0"
      "s_log_block_size sb \<in> {0, 1, 2}" "s_blocks_per_group sb \<noteq> 0" "s_inodes_per_group sb \<noteq> 0"
    and ng: "ng = unat ((s_blocks_count sb + s_blocks_per_group sb - 1) div s_blocks_per_group sb)" "ng < 1024"
    and gd: "gpos = (if EXT2_BLOCK_SIZE sb = 4096 then 4096 else 2048)" "gpos + 32 * ng \<le> length img"
      "gds = map (\<lambda>k. group_desc_of (mem_get img (gpos + 32 * k) 32)) [0..<ng]"
    and root: "g = 1 div unat (s_inodes_per_group sb)" "g < ng"
      "i = 1 mod unat (s_inodes_per_group sb) * unat (EXT2_INODE_SIZE sb)"
      "rpos = unat (bg_inode_table (gds ! g)) * unat (EXT2_BLOCK_SIZE sb) + i" "rpos + 128 \<le> length img"
  shows "\<exists>io'. ext2_mount (Some (registered mal dev)) io =
      Some (Inr \<lparr>e_dev = Some (registered mal dev), e_sb = sb, s_group_count = int ng, e_gd = gds,
                 root_inode = inode_of (mem_get img rpos 128)\<rparr>, io') \<and>
    cont (io_dev io') = img \<and> io_live io' = io_live io + 2"
proof -
  let ?d = "Some (registered mal dev)" and ?I = "\<lambda>s. I s \<and> cont s = img"
  have v: "volume ?d ?I img" using st tmp io(3) by (rule registered_volume)
  have ok: "volume.io_ok ?I io" using io by (simp add: volume.io_ok_def [OF v])
  obtain b1 io1 where io1: "io_calloc 1 1158 io = (Some b1, io1)" "volume.io_ok ?I io1" "io_live io1 = io_live io + 1"
    using volume.io_calloc_ok [OF v ok, of 1 1158] by auto
  obtain io2 where io2: "io_read ?d (replicate 1024 0) 1024 1024 io1 = (1024, mem_get img 1024 1024, io2)" "volume.kept ?I io1 io2"
    using volume.io_read_ok [OF v io1(2), of 1024 1024 "replicate 1024 0"] sb(2) by (auto simp: mem_put_def)
  define e where "e = \<lparr>e_dev = ?d, e_sb = sb, s_group_count = int ng, e_gd = [], root_inode = inode_of (replicate 128 0)\<rparr>"
  have ng16: "int16 (uint ((s_blocks_count sb + s_blocks_per_group sb - 1) div s_blocks_per_group sb)) = int ng"
    unfolding uint_nat ng(1) [symmetric] using ng(2) by (intro int16_id in_int16_nat) simp
  have esb: "e_sb e = sb" by (simp add: e_def)
  have m1: "ext2_mount ?d io = ext2_mount_groups e io2"
    using io1(1) io2(1) sb leD [OF sb(4)] ng16 by (simp add: ext2_mount_def e_def Let_def)
  define p :: u32 where "p = (if EXT2_BLOCK_SIZE sb = 4096 then 4096 else 2048)"
  have p: "unat p = gpos" using gd(1) by (simp add: p_def)
  have gds: "volume.descriptors img gpos ng = gds" by (simp add: volume.descriptors_def [OF v] gd(3))
  have ok2: "volume.io_ok ?I io2" "io_live io2 = io_live io + 1" using io2(2) io1(3) by (simp_all add: volume.kept_def [OF v])
  have "\<exists>io'. ext2_mount_groups e io2 = Some (Inr (e\<lparr>e_gd := volume.descriptors img (unat p) ng, root_inode := inode_of (mem_get img rpos 128)\<rparr>), io') \<and>
      volume.io_ok ?I io' \<and> io_live io' = io_live io2 + 1"
  proof (rule volume.mount_groups_ok [OF v ok2(1), where g = g and i = i], unfold esb p gds)
    show "p = (if EXT2_BLOCK_SIZE sb = 4096 then 4096 else 2048)" by (rule p_def)
  qed (fact | simp add: e_def)+
  then show ?thesis unfolding m1 using ok2(2) by (auto simp: e_def p gds volume.io_ok_def [OF v])
qed

text \<open>A volume with one group of eight inodes, the table of which is in block 5.\<close>

definition sb_bytes :: "u8 list" where
  "sb_bytes = replicate 4 0 @ bytes32 128 @ replicate 24 0 @ bytes32 8192 @ replicate 4 0 @ bytes32 8 @ replicate 12 0 @
     bytes16 0xEF53 @ replicate 966 0"

definition gd_bytes :: "u8 list" where
  "gd_bytes = replicate 8 0 @ bytes32 5 @ replicate 20 0"

definition mount_rom :: sst39 where
  "mount_rom = sample_rom\<lparr>ch_cells := mem_put (mem_put (replicate 131072 0) 1024 sb_bytes) 2048 gd_bytes\<rparr>"

lemma mount_rom_len: "length sb_bytes = 1024" "length gd_bytes = 32" "length (ch_cells mount_rom) = 131072"
  by (simp_all add: sb_bytes_def gd_bytes_def mount_rom_def)

lemma mount_rom_parts:
  "mem_get (ch_cells mount_rom) 1024 1024 = sb_bytes" "mem_get (ch_cells mount_rom) 2048 32 = gd_bytes"
proof -
  let ?c = "mem_put (replicate 131072 0) 1024 sb_bytes"
  have "mem_get (ch_cells mount_rom) 1024 1024 = mem_get ?c 1024 1024"
    by (simp add: mount_rom_def mem_get_put_outside mount_rom_len)
  then show "mem_get (ch_cells mount_rom) 1024 1024 = sb_bytes"
    using mem_get_put_same [of 1024 sb_bytes "replicate 131072 0"] by (simp add: mount_rom_len)
  show "mem_get (ch_cells mount_rom) 2048 32 = gd_bytes"
    using mem_get_put_same [of 2048 gd_bytes ?c] by (simp add: mount_rom_def mount_rom_len)
qed

lemma sb_bytes_fields:
  "le32 sb_bytes 4 = 128" "le32 sb_bytes 24 = 0" "le32 sb_bytes 32 = 8192" "le32 sb_bytes 40 = 8" "le16 sb_bytes 56 = 0xEF53"
  "le32 sb_bytes 76 = 0" "le32 sb_bytes 100 = 0" "le32 gd_bytes 8 = 5"
  by (simp_all add: sb_bytes_def gd_bytes_def le32_def le16_def nth_append bytes32_def bytes16_def)

theorem ext2_mount_correct_witness:
  "\<exists>io'. ext2_mount (Some (registered rom_alloc rom_blkdev)) (rom_io\<lparr>io_dev := Some mount_rom\<rparr>) =
      Some (Inr \<lparr>e_dev = Some (registered rom_alloc rom_blkdev), e_sb = super_block_of sb_bytes, s_group_count = 1,
                 e_gd = [group_desc_of gd_bytes], root_inode = inode_of (mem_get (ch_cells mount_rom) 5248 128)\<rparr>, io') \<and> io_live io' = 2"
proof -
  have f: "s_magic (super_block_of sb_bytes) = 0xEF53" "s_blocks_count (super_block_of sb_bytes) = 128"
      "s_blocks_per_group (super_block_of sb_bytes) = 8192" "s_inodes_per_group (super_block_of sb_bytes) = 8"
      "s_log_block_size (super_block_of sb_bytes) = 0" "s_rev_level (super_block_of sb_bytes) = 0"
      "s_feature_ro_compat (super_block_of sb_bytes) = 0"
    by (simp_all add: super_block_of_def sb_bytes_fields)
  have t: "bg_inode_table (group_desc_of gd_bytes) = 5" by (simp add: group_desc_of_def sb_bytes_fields)
  have "\<exists>io'. ext2_mount (Some (registered rom_alloc rom_blkdev)) (rom_io\<lparr>io_dev := Some mount_rom\<rparr>) =
      Some (Inr \<lparr>e_dev = Some (registered rom_alloc rom_blkdev), e_sb = super_block_of sb_bytes, s_group_count = int 1,
                 e_gd = [group_desc_of gd_bytes], root_inode = inode_of (mem_get (ch_cells mount_rom) 5248 128)\<rparr>, io') \<and>
    ch_cells (the (io_dev io')) = ch_cells mount_rom \<and> io_live io' = io_live (rom_io\<lparr>io_dev := Some mount_rom\<rparr>) + 2"
  proof (rule ext2_mount_correct [OF rom_store, where mal = rom_alloc and tmp = "replicate 4096 0" and ng = 1 and gpos = 2048 and g = 0 and i = 128])
    show "\<exists>h. io_dev (rom_io\<lparr>io_dev := Some mount_rom\<rparr>) = Some h \<and> sst39_ready h"
      using mount_rom_len(3) by (simp add: sst39_ready_def) (simp add: mount_rom_def sample_rom_def)
  qed (simp_all add: rom_alloc_def rom_io_def heap_ok_def mount_rom_len mount_rom_parts f t EXT2_SUPER_MAGIC_def EXT2_DYNAMIC_REV_def
      EXT2_BLOCK_SIZE_def EXT2_INODE_SIZE_def EXT2_GOOD_OLD_REV_def EXT2_GOOD_OLD_INODE_SIZE_def)
  then show ?thesis by (auto simp: rom_io_def)
qed

end
