(* ===== verification/Ext2_Dir.thy ===== *)
theory Ext2_Dir
  imports Ext2 Task
begin

text \<open>
  The ext2 driver, second part: directories and the resolution of paths (\<^verbatim>\<open>dir.c\<close>) and the operations
  on files (\<^verbatim>\<open>file.c\<close>).  The conventions are those of theory \<open>Ext2\<close>; the variable \<^verbatim>\<open>*inum\<close> that the
  functions write is passed in and out, with its contents before the call.

  The scan of a directory block and the jump back to \<^verbatim>\<open>nextcomponent\<close> are loops nothing bounds, so
  they are partial functions: \<open>None\<close> stands for an undefined access and for not returning.
\<close>

text \<open>The bytes of a string and back.\<close>

definition byte_of :: "char \<Rightarrow> u8" where
  "byte_of ch = of_char ch"

definition char_of_byte :: "u8 \<Rightarrow> char" where
  "char_of_byte b = char_of (unat b)"

section \<open>Directories\<close>

definition ROUNDUP4 :: "u16 \<Rightarrow> u16" where
  "ROUNDUP4 a = (a + 3) AND NOT 3"

text \<open>
  The entry at \<open>pos\<close> has its inode number, the record length, the length of the name and the name at
  offsets 0, 4, 6 and 8.  The result is the inode of the entry found, if any.
\<close>

partial_function (option) ext2_dir_scan :: "u8 list \<Rightarrow> u32 \<Rightarrow> u8 list \<Rightarrow> u16 \<Rightarrow> u32 option option" where
  "ext2_dir_scan buf bsz name pos =
     (let p = unat pos
      in if \<not> ucast pos < bsz then Some None
         else if length buf < p + 6 then None
         else if LE16 (le16 buf (p + 4)) = 0 then Some None
         else if length buf < p + 7 then None
         else if ucast (buf ! (p + 6)) = (of_nat (length name) :: u16) \<and> length buf < p + 8 + unat (buf ! (p + 6)) then None
         else if ucast (buf ! (p + 6)) = (of_nat (length name) :: u16) \<and>
                 take (unat (buf ! (p + 6))) name = mem_get buf (p + 8) (unat (buf ! (p + 6)))
         then Some (Some (LE32 (le32 buf p)))
         else ext2_dir_scan buf bsz name (pos + ROUNDUP4 (LE16 (le16 buf (p + 4)))))"

text \<open>The loop over the blocks of the directory, \<open>fb\<close> being \<^verbatim>\<open>file_blocknum\<close>, at most 1024.\<close>

function ext2_dir_blocks ::
    "'s ext2_t \<Rightarrow> ext2_inode \<Rightarrow> u8 list \<Rightarrow> nat \<Rightarrow> u8 list \<Rightarrow> u32 \<Rightarrow> 's io \<Rightarrow> (int \<times> u32 \<times> 's io) option" where
  "ext2_dir_blocks ext2 dir_inode name fb buf inum io =
     (let bsz = EXT2_BLOCK_SIZE (e_sb ext2)
      in case ext2_read_inode ext2 dir_inode buf (int32 (uint (of_nat fb * bsz))) (ucast bsz) io of
           None \<Rightarrow> None
         | Some (err, buf, io) \<Rightarrow>
             if err \<le> 0 then Some (err, inum, io_free io)
             else case ext2_dir_scan buf bsz name 0 of
                    None \<Rightarrow> None
                  | Some (Some n) \<Rightarrow> Some (1, n, io_free io)
                  | Some None \<Rightarrow>
                      if fb + 1 > 1024 then Some (- 1, inum, io_free io)
                      else ext2_dir_blocks ext2 dir_inode name (fb + 1) buf inum io)"
  by pat_completeness auto
termination
  by (relation "measure (\<lambda>(ext2, dir_inode, name, fb, buf, inum, io). 1025 - fb)") auto

declare ext2_dir_blocks.simps [simp del]

text \<open>The result of \<^verbatim>\<open>malloc\<close> is not tested.\<close>

definition ext2_dir_lookup ::
    "'s ext2_t \<Rightarrow> ext2_inode \<Rightarrow> string \<Rightarrow> u32 \<Rightarrow> 's io \<Rightarrow> (int \<times> u32 \<times> 's io) option" where
  "ext2_dir_lookup ext2 dir_inode name inum io =
     (if \<not> S_ISDIR (i_mode dir_inode) then Some (ERR_NOT_DIR, inum, io)
      else let (buf, io) = io_malloc (ucast (EXT2_BLOCK_SIZE (e_sb ext2))) io
           in case buf of
                None \<Rightarrow> None
              | Some b \<Rightarrow> ext2_dir_blocks ext2 dir_inode (map byte_of name) 0 b inum io)"

section \<open>Symbolic links\<close>

definition ext2_read_link ::
    "'s ext2_t \<Rightarrow> ext2_inode \<Rightarrow> u8 list \<Rightarrow> u16 \<Rightarrow> 's io \<Rightarrow> (int \<times> u8 list \<times> 's io) option" where
  "ext2_read_link ext2 inode str len io =
     (let linklen = ext2_file_len ext2 inode
      in if linklen < 0 \<or> int32 (linklen + 1) > uint len then Some (ERR_NO_MEM, str, io)
         else if linklen > 60
         then case ext2_read_inode ext2 inode str 0 (word_of_int linklen) io of
                None \<Rightarrow> None
              | Some (err, str, io) \<Rightarrow>
                  if err < 0 then Some (err, str, io)
                  else if length str \<le> nat linklen then None
                  else Some (int16 linklen, str[nat linklen := 0], io)
         else if length str \<le> nat linklen then None
         else Some (int16 linklen, (mem_put str 0 (take (nat linklen) (concat (map bytes32 (i_block inode)))))[nat linklen := 0], io))"

section \<open>Paths\<close>

text \<open>
  From the label \<^verbatim>\<open>nextcomponent\<close> to the end of the iteration.  \<open>walk\<close> is the recursive call.  \<open>Inl\<close> is a
  return with an error, \<open>Inr\<close> has the variables \<^verbatim>\<open>dir_inode\<close>, \<^verbatim>\<open>inode\<close> and \<^verbatim>\<open>*inum\<close>.
\<close>

partial_function (option) ext2_nextcomponent ::
    "(string \<Rightarrow> ext2_inode \<Rightarrow> u32 \<Rightarrow> 's io \<Rightarrow> (int \<times> u32 \<times> 's io) option) \<Rightarrow> 's ext2_t \<Rightarrow> bool \<Rightarrow>
     ext2_inode \<Rightarrow> ext2_inode \<Rightarrow> u32 \<Rightarrow> 's io \<Rightarrow> ((int \<times> u32 + ext2_inode \<times> ext2_inode \<times> u32) \<times> 's io) option" where
  "ext2_nextcomponent walk ext2 dne dir_inode inode inum io =
     do { (err, inode, io) \<leftarrow> ext2_load_inode ext2 inum inode io;
          if err < 0 then Some (Inl (err, inum), io)
          else if S_ISLNK (i_mode inode)
          then do { (err, link, io) \<leftarrow> ext2_read_link ext2 inode (io_junk io 512) 512 io;
                    if err < 0 then Some (Inl (err, inum), io)
                    else do { (err, inum, io) \<leftarrow>
                                walk (cstr (map char_of_byte link))
                                  (if link ! 0 = byte_of slash then root_inode ext2 else dir_inode) inum io;
                              if err < 0 then Some (Inl (err, inum), io)
                              else if \<not> dne then ext2_nextcomponent walk ext2 dne dir_inode inode inum io
                              else Some (Inr (dir_inode, inode, inum), io) } }
          else if S_ISDIR (i_mode inode) then Some (Inr (inode, inode, inum), io)
          else if \<not> dne then Some (Inl (ERR_NO_ENTRY, inum), io)
          else Some (Inr (dir_inode, inode, inum), io) }"

text \<open>The loop over the components: \<open>path\<close> is the string at \<^verbatim>\<open>ptr\<close>.\<close>

function ext2_walk_loop ::
    "(string \<Rightarrow> ext2_inode \<Rightarrow> u32 \<Rightarrow> 's io \<Rightarrow> (int \<times> u32 \<times> 's io) option) \<Rightarrow> 's ext2_t \<Rightarrow> string \<Rightarrow>
     ext2_inode \<Rightarrow> ext2_inode \<Rightarrow> u32 \<Rightarrow> 's io \<Rightarrow> (int \<times> u32 \<times> 's io) option" where
  "ext2_walk_loop walk ext2 path dir_inode inode inum io =
     (let comp = takeWhile (\<lambda>c. c \<noteq> slash) path;
          next_sep = dropWhile (\<lambda>c. c \<noteq> slash) path;
          dne = (next_sep = [])
      in case ext2_dir_lookup ext2 dir_inode comp inum io of
           None \<Rightarrow> None
         | Some (err, inum, io) \<Rightarrow>
             if err < 0 then Some (err, inum, io)
             else case ext2_nextcomponent walk ext2 dne dir_inode inode inum io of
                    None \<Rightarrow> None
                  | Some (Inl (err, inum), io) \<Rightarrow> Some (err, inum, io)
                  | Some (Inr (dir_inode, inode, inum), io) \<Rightarrow>
                      if dne then Some (0, inum, io)
                      else ext2_walk_loop walk ext2 (dropWhile (\<lambda>c. c = slash) next_sep) dir_inode inode inum io)"
  by pat_completeness auto
termination
proof (relation "measure (\<lambda>(walk, ext2, path, dir_inode, inode, inum, io). length path)", goal_cases)
  case (2 walk ext2 path)
  have "length (dropWhile (\<lambda>c. c = slash) (dropWhile (\<lambda>c. c \<noteq> slash) path)) < length path"
    if ne: "dropWhile (\<lambda>c. c \<noteq> slash) path \<noteq> []"
  proof -
    obtain xs where "dropWhile (\<lambda>c. c \<noteq> slash) path = slash # xs"
      using ne hd_dropWhile [OF ne] by (cases "dropWhile (\<lambda>c. c \<noteq> slash) path") auto
    then show ?thesis
      using length_dropWhile_le [of "\<lambda>c. c = slash" xs] length_dropWhile_le [of "\<lambda>c. c \<noteq> slash" path] by simp
  qed
  then show ?case using 2 by auto
qed simp

declare ext2_walk_loop.simps [simp del]

text \<open>The argument \<^verbatim>\<open>recurse\<close> of the code is 5 less the first one.\<close>

fun ext2_walk :: "nat \<Rightarrow> 's ext2_t \<Rightarrow> string \<Rightarrow> ext2_inode \<Rightarrow> u32 \<Rightarrow> 's io \<Rightarrow> (int \<times> u32 \<times> 's io) option" where
  "ext2_walk 0 ext2 path start_inode inum io = Some (ERR_NO_ENTRY, inum, io)"
| "ext2_walk (Suc n) ext2 path start_inode inum io =
     ext2_walk_loop (ext2_walk n ext2) ext2 (dropWhile (\<lambda>c. c = slash) path) start_inode
       (inode_of (io_junk io 128)) inum io"

definition ext2_lookup :: "'s ext2_t \<Rightarrow> string \<Rightarrow> u32 \<Rightarrow> 's io \<Rightarrow> (int \<times> u32 \<times> 's io) option" where
  "ext2_lookup ext2 path inum io =
     (let buf = snd (strlcpy (map char_of_byte (io_junk io 512)) path 512)
      in ext2_walk 4 ext2 (cstr buf) (root_inode ext2) inum io)"

section \<open>Files\<close>

record cache_block =
  cb_num :: u32
  cb_ptr :: ptr

record 's ext2_file_t =
  f_ext2 :: "'s ext2_t"
  ind_cache :: "cache_block list"
  f_inode :: ext2_inode

definition ext2_open_file :: "'s ext2_t \<Rightarrow> string \<Rightarrow> 's io \<Rightarrow> ((int + 's ext2_file_t) \<times> 's io) option" where
  "ext2_open_file ext2 path io =
     do { (err, inum, io) \<leftarrow> ext2_lookup ext2 path (le32 (io_junk io 4) 0) io;
          if err < 0 then Some (Inl err, io)
          else let (f, io) = io_calloc 1 148 io
               in case f of
                    None \<Rightarrow> Some (Inl ERR_NO_MEM, io)
                  | Some _ \<Rightarrow>
                      do { (err, inode, io) \<leftarrow> ext2_load_inode ext2 inum (inode_of (replicate 128 0)) io;
                           if err < 0 then Some (Inl err, io_free io)
                           else Some (Inr \<lparr>f_ext2 = ext2, ind_cache = replicate 3 \<lparr>cb_num = 0, cb_ptr = 0\<rparr>,
                                           f_inode = inode\<rparr>, io) } }"

definition ext2_read_file :: "'s ext2_file_t \<Rightarrow> u8 list \<Rightarrow> int \<Rightarrow> u16 \<Rightarrow> 's io \<Rightarrow> (int \<times> u8 list \<times> 's io) option" where
  "ext2_read_file file buf offset len io =
     (if \<not> S_ISREG (i_mode (f_inode file)) then Some (ERR_NO_ENTRY, buf, io)
      else ext2_read_inode (f_ext2 file) (f_inode file) buf offset len io)"

definition ext2_close_file :: "'s ext2_file_t \<Rightarrow> 's io \<Rightarrow> int \<times> 's io" where
  "ext2_close_file file io =
     (0, io_free (foldl (\<lambda>io b. if cb_num b \<noteq> 0 then io_free io else io) io (take 3 (ind_cache file))))"

definition ext2_stat_file :: "'s ext2_file_t \<Rightarrow> int \<times> u32 \<times> bool" where
  "ext2_stat_file file = (0, word_of_int (ext2_file_len (f_ext2 file) (f_inode file)), S_ISDIR (i_mode (f_inode file)))"

section \<open>No leaks\<close>

lemma ext2_dir_blocks_live [live]:
  "ext2_dir_blocks ext2 d name fb buf inum io = Some (err, inum', io') \<Longrightarrow> io_live io' = io_live io - 1"
proof (induction ext2 d name fb buf inum io rule: ext2_dir_blocks.induct)
  case (1 ext2 d name fb buf inum io)
  then show ?case
    by (subst (asm) (2) ext2_dir_blocks.simps)
      (auto simp: Let_def split: option.splits if_splits dest!: ext2_read_inode_live)
qed

lemma ext2_dir_lookup_live [live]:
  "ext2_dir_lookup ext2 d name inum io = Some (err, inum', io') \<Longrightarrow> io_live io' = io_live io"
  by (auto simp: ext2_dir_lookup_def split: if_splits option.splits prod.splits dest!: io_malloc_live ext2_dir_blocks_live)

lemma ext2_read_link_live [live]:
  "ext2_read_link ext2 n str len io = Some (err, str', io') \<Longrightarrow> io_live io' = io_live io"
  by (auto simp: ext2_read_link_def Let_def split: if_splits option.splits dest!: ext2_read_inode_live)

definition keeps_live :: "(string \<Rightarrow> ext2_inode \<Rightarrow> u32 \<Rightarrow> 's io \<Rightarrow> (int \<times> u32 \<times> 's io) option) \<Rightarrow> bool" where
  "keeps_live walk \<longleftrightarrow> (\<forall>p n i io e i' io'. walk p n i io = Some (e, i', io') \<longrightarrow> io_live io' = io_live io)"

lemma keeps_liveD: "keeps_live walk \<Longrightarrow> walk p n i io = Some (e, i', io') \<Longrightarrow> io_live io' = io_live io"
  by (auto simp: keeps_live_def)

lemma ext2_nextcomponent_live:
  assumes "ext2_nextcomponent walk ext2 dne d n inum io = Some r"
  shows "keeps_live walk \<longrightarrow> io_live (snd r) = io_live io"
  using _ assms
proof (rule ext2_nextcomponent.raw_induct [where P = "\<lambda>walk ext2 dne d n inum io r. keeps_live walk \<longrightarrow> io_live (snd r) = io_live io"])
  fix f :: "(string \<Rightarrow> ext2_inode \<Rightarrow> u32 \<Rightarrow> 'a io \<Rightarrow> (int \<times> u32 \<times> 'a io) option) \<Rightarrow> 'a ext2_t \<Rightarrow> bool \<Rightarrow>
     ext2_inode \<Rightarrow> ext2_inode \<Rightarrow> u32 \<Rightarrow> 'a io \<Rightarrow> ((int \<times> u32 + ext2_inode \<times> ext2_inode \<times> u32) \<times> 'a io) option"
    and walk ext2 dne d n inum io r
  assume IH: "\<And>walk ext2 dne d n inum io r. f walk ext2 dne d n inum io = Some r \<Longrightarrow>
      keeps_live walk \<longrightarrow> io_live (snd r) = io_live io"
    and step: "do { (err, inode, io) \<leftarrow> ext2_load_inode ext2 inum n io;
          if err < 0 then Some (Inl (err, inum), io)
          else if S_ISLNK (i_mode inode)
          then do { (err, link, io) \<leftarrow> ext2_read_link ext2 inode (io_junk io 512) 512 io;
                    if err < 0 then Some (Inl (err, inum), io)
                    else do { (err, inum, io) \<leftarrow>
                                walk (cstr (map char_of_byte link))
                                  (if link ! 0 = byte_of slash then root_inode ext2 else d) inum io;
                              if err < 0 then Some (Inl (err, inum), io)
                              else if \<not> dne then f walk ext2 dne d inode inum io
                              else Some (Inr (d, inode, inum), io) } }
          else if S_ISDIR (i_mode inode) then Some (Inr (inode, inode, inum), io)
          else if \<not> dne then Some (Inl (ERR_NO_ENTRY, inum), io)
          else Some (Inr (d, inode, inum), io) } = Some r"
  show "keeps_live walk \<longrightarrow> io_live (snd r) = io_live io"
  proof
    assume k: "keeps_live walk"
    show "io_live (snd r) = io_live io"
      using step
      by (auto split: if_splits bind_splits
          dest!: IH [THEN mp, OF _ k] ext2_load_inode_live ext2_read_link_live keeps_liveD [OF k])
  qed
qed

lemma ext2_walk_loop_live:
  "keeps_live walk \<Longrightarrow> ext2_walk_loop walk ext2 path d n inum io = Some (err, inum', io') \<Longrightarrow> io_live io' = io_live io"
proof (induction walk ext2 path d n inum io rule: ext2_walk_loop.induct)
  case (1 walk ext2 path d n inum io)
  let ?comp = "takeWhile (\<lambda>c. c \<noteq> slash) path" and ?rest = "dropWhile (\<lambda>c. c \<noteq> slash) path"
  note run = 1(3) [unfolded ext2_walk_loop.simps [of walk ext2 path] Let_def]
  obtain e1 i1 io1 where l: "ext2_dir_lookup ext2 d ?comp inum io = Some (e1, i1, io1)"
    using run by (cases "ext2_dir_lookup ext2 d ?comp inum io") auto
  note l' = ext2_dir_lookup_live [OF l]
  show ?case
  proof (cases "e1 < 0")
    case True
    then show ?thesis using run l l' by simp
  next
    case False
    then obtain r io2 where r: "ext2_nextcomponent walk ext2 (?rest = []) d n i1 io1 = Some (r, io2)"
      using run l by (cases "ext2_nextcomponent walk ext2 (?rest = []) d n i1 io1") auto
    have "io_live io2 = io_live io1" using ext2_nextcomponent_live [OF r] 1(2) by simp
    moreover have "io_live io' = io_live io2"
      using run l False r 1(1) [OF refl refl refl l refl refl False r refl _ _ _ _ 1(2)]
      by (simp split: sum.splits prod.splits if_splits)
    ultimately show ?thesis using l' by simp
  qed
qed

lemma ext2_walk_live: "keeps_live (ext2_walk n ext2)"
proof (induction n)
  case (Suc n)
  then show ?case using ext2_walk_loop_live [OF Suc] by (simp add: keeps_live_def)
qed (simp add: keeps_live_def)

lemma ext2_lookup_live [live]:
  "ext2_lookup ext2 path inum io = Some (err, inum', io') \<Longrightarrow> io_live io' = io_live io"
  using keeps_liveD [OF ext2_walk_live] by (simp add: ext2_lookup_def)

lemma ext2_open_file_live [live]:
  "ext2_open_file ext2 path io = Some (r, io') \<Longrightarrow>
     io_live io' = io_live io + (case r of Inl _ \<Rightarrow> 0 | Inr _ \<Rightarrow> 1) \<and> (\<forall>f io''. r = Inr f \<longrightarrow> io_live (snd (ext2_close_file f io'')) = io_live io'' - 1)"
  by (auto simp: ext2_open_file_def ext2_close_file_def numeral_3_eq_3 Let_def split: if_splits bind_splits option.splits prod.splits
      dest!: ext2_lookup_live io_calloc_live ext2_load_inode_live)

section \<open>Reference: directory blocks\<close>

text \<open>
  A directory block is the concatenation of its records.  A record holds the inode number, the
  length of the record, the length of the name, the file type, the name and padding.
\<close>

record dirent =
  d_inode :: u32
  d_name :: "u8 list"
  d_type :: u8
  d_pad :: "u8 list"

definition d_len :: "dirent \<Rightarrow> nat" where
  "d_len e = 8 + length (d_name e) + length (d_pad e)"

definition dirent_bytes :: "dirent \<Rightarrow> u8 list" where
  "dirent_bytes e = bytes32 (d_inode e) @ bytes16 (of_nat (d_len e)) @ [of_nat (length (d_name e)), d_type e] @ d_name e @ d_pad e"

definition dirent_ok :: "dirent \<Rightarrow> bool" where
  "dirent_ok e \<longleftrightarrow> 4 dvd d_len e \<and> d_len e \<le> 4096 \<and> length (d_name e) < 256"

definition dir_block :: "dirent list \<Rightarrow> u8 list" where
  "dir_block es = concat (map dirent_bytes es)"

definition dir_find :: "u8 list \<Rightarrow> dirent list \<Rightarrow> u32 option" where
  "dir_find name es = map_option d_inode (find (\<lambda>e. d_name e = name) es)"

lemma le_bytes [simp]:
  "le16 (xs @ bytes16 w @ ys) (length xs) = w" "le32 (xs @ bytes32 v @ ys) (length xs) = v"
proof -
  have n: "(xs @ [a, b] @ ys) ! length xs = a" "(xs @ [a, b] @ ys) ! (length xs + 1) = b" for a b :: u8
    by (simp_all add: nth_append)
  have m: "(xs @ [a, b, c, d] @ ys) ! length xs = a" "(xs @ [a, b, c, d] @ ys) ! (length xs + 1) = b"
     "(xs @ [a, b, c, d] @ ys) ! (length xs + 2) = c" "(xs @ [a, b, c, d] @ ys) ! (length xs + 3) = d" for a b c d :: u8
    by (simp_all add: nth_append numeral_2_eq_2 numeral_3_eq_3)
  show "le16 (xs @ bytes16 w @ ys) (length xs) = w"
    unfolding le16_def bytes16_def n by (rule bit_word_eqI) (auto simp: bit_simps)
  show "le32 (xs @ bytes32 v @ ys) (length xs) = v"
    unfolding le32_def bytes32_def m
  proof (rule bit_word_eqI)
    fix n assume "n < LENGTH(32)"
    then consider "n < 8" | "8 \<le> n" "n < 16" | "16 \<le> n" "n < 24" | "24 \<le> n" "n < 32" by fastforce
    then show "bit (ucast (ucast v :: u8) OR push_bit 8 (ucast (ucast (drop_bit 8 v) :: u8)) OR
        push_bit 16 (ucast (ucast (drop_bit 16 v) :: u8)) OR push_bit 24 (ucast (ucast (drop_bit 24 v) :: u8)) :: u32) n = bit v n"
      by cases (auto simp: bit_simps)
  qed
qed

lemma ROUNDUP4_id:
  assumes "4 dvd n" "n \<le> 4096"
  shows "ROUNDUP4 (of_nat n) = of_nat n"
proof -
  obtain m where m: "n = 4 * m" using assms(1) by (auto simp: dvd_def)
  have u: "unat (of_nat n + 3 :: u16) = 4 * m + 3"
    using assms(2) m by (simp add: unat_plus_u16 unat_of_nat_u16 del: of_nat_mult)
  have "drop_bit 2 (of_nat n + 3 :: u16) = of_nat m"
    using assms(2) m u by (simp add: word_unat_eq_iff unat_drop_bit_eq drop_bit_eq_div unat_of_nat_u16 unat_div_distrib del: of_nat_mult)
  moreover have "(x :: u16) AND NOT 3 = push_bit 2 (drop_bit 2 x)" for x
  proof -
    have "(3 :: u16) = mask 2" by (simp add: mask_eq_exp_minus_1)
    then show ?thesis by (simp only: and_not_mask)
  qed
  ultimately show ?thesis unfolding ROUNDUP4_def by (simp add: m push_bit_eq_mult)
qed

lemma length_dirent_bytes [simp]: "length (dirent_bytes e) = d_len e"
  by (simp add: dirent_bytes_def d_len_def)

lemma dirent_fields:
  assumes "dirent_ok e"
  shows "le16 (pre @ dirent_bytes e @ suf) (length pre + 4) = of_nat (d_len e)"
    "le32 (pre @ dirent_bytes e @ suf) (length pre) = d_inode e"
    "(pre @ dirent_bytes e @ suf) ! (length pre + 6) = of_nat (length (d_name e))"
    "unat (of_nat (length (d_name e)) :: u8) = length (d_name e)"
    "mem_get (pre @ dirent_bytes e @ suf) (length pre + 8) (length (d_name e)) = d_name e"
    "(of_nat (d_len e) :: u16) \<noteq> 0"
proof -
  let ?b = "pre @ dirent_bytes e @ suf" and ?i = "bytes32 (d_inode e)" and ?l = "bytes16 (of_nat (d_len e))"
  show "le16 ?b (length pre + 4) = of_nat (d_len e)"
    using le_bytes(1) [of "pre @ ?i" "of_nat (d_len e)"] by (simp add: dirent_bytes_def)
  show "le32 ?b (length pre) = d_inode e" by (simp add: dirent_bytes_def)
  show "?b ! (length pre + 6) = of_nat (length (d_name e))"
    using nth_append_length [of "pre @ ?i @ ?l"] by (simp add: dirent_bytes_def)
  show "unat (of_nat (length (d_name e)) :: u8) = length (d_name e)"
    using assms by (simp add: dirent_ok_def unat_of_nat)
  show "mem_get ?b (length pre + 8) (length (d_name e)) = d_name e"
    by (simp add: mem_get_def dirent_bytes_def)
  have "unat (of_nat (d_len e) :: u16) = d_len e" using assms by (intro unat_of_nat_u16) (simp add: dirent_ok_def)
  then show "(of_nat (d_len e) :: u16) \<noteq> 0" by (auto simp: d_len_def)
qed

text \<open>The scan finds the first entry with the name.\<close>

lemma ext2_dir_scan_ok:
  assumes "list_all dirent_ok es" "length (pre @ dir_block es) = unat bs" "unat bs \<le> 4096" "length name < 65536"
  shows "ext2_dir_scan (pre @ dir_block es) bs name (of_nat (length pre)) = Some (dir_find name es)"
  using assms
proof (induction es arbitrary: pre)
  case Nil
  then have "length pre = unat bs" by (simp add: dir_block_def)
  moreover have "unat (of_nat (length pre) :: u16) = length pre"
    using calculation Nil(3) by (intro unat_of_nat_u16) linarith
  ultimately show ?case by (subst ext2_dir_scan.simps) (simp add: dir_find_def word_less_nat_alt)
next
  case (Cons e es)
  let ?buf = "pre @ dir_block (e # es)" and ?p = "length pre"
  have buf: "?buf = pre @ dirent_bytes e @ dir_block es" by (simp add: dir_block_def)
  have e: "dirent_ok e" using Cons.prems(1) by simp
  note f = dirent_fields(1-3) [OF e, of pre "dir_block es", folded buf] dirent_fields(4) [OF e]
    dirent_fields(5) [OF e, of pre "dir_block es", folded buf] dirent_fields(6) [OF e]
  have dl: "8 + length (d_name e) \<le> d_len e" by (simp add: d_len_def)
  have len: "?p + d_len e \<le> unat bs" "length ?buf = unat bs" using Cons.prems(2) unfolding buf by simp_all
  have p: "unat (of_nat ?p :: u16) = ?p" using len dl Cons.prems(3) by (intro unat_of_nat_u16) linarith
  have nl: "(ucast (?buf ! (?p + 6)) = (of_nat (length name) :: u16)) = (length (d_name e) = length name)"
  proof -
    have "unat (ucast (?buf ! (?p + 6)) :: u16) = length (d_name e)" unfolding f(3) using f(4) by simp
    moreover have "unat (of_nat (length name) :: u16) = length name" using Cons.prems(4) by (rule unat_of_nat_u16)
    ultimately show ?thesis by (simp add: word_unat_eq_iff)
  qed
  show ?case
  proof (cases "d_name e = name")
    case True
    show ?thesis
      using f len dl nl True p by (subst ext2_dir_scan.simps) (simp add: dir_find_def word_less_nat_alt Let_def)
  next
    case False
    have step: "of_nat ?p + ROUNDUP4 (of_nat (d_len e)) = (of_nat (length (pre @ dirent_bytes e)) :: u16)"
      using e by (simp add: ROUNDUP4_id dirent_ok_def)
    have "ext2_dir_scan ?buf bs name (of_nat (length (pre @ dirent_bytes e))) = Some (dir_find name es)"
      using Cons.IH [of "pre @ dirent_bytes e"] Cons.prems by (simp add: dir_block_def)
    moreover have "\<not> (length (d_name e) = length name \<and> take (length (d_name e)) name = d_name e)" using False by auto
    ultimately show ?thesis
      using f len dl nl False p step by (subst ext2_dir_scan.simps) (auto simp: dir_find_def word_less_nat_alt Let_def)
  qed
qed

section \<open>Directory search over a volume\<close>

text \<open>A directory of \<open>length bss\<close> blocks whose entries are \<open>bss\<close>.\<close>

definition dir_image :: "u8 list \<Rightarrow> nat \<Rightarrow> ext2_inode \<Rightarrow> dirent list list \<Rightarrow> bool" where
  "dir_image c bs n bss \<longleftrightarrow> file_ok c bs n (length bss * bs) \<and> length bss \<le> 1024 \<and>
     (\<forall>k<length bss. list_all dirent_ok (bss ! k) \<and> file_bytes c bs n (k * bs) bs = dir_block (bss ! k))"

lemma dir_find_append:
  "dir_find name (xs @ ys) = (case dir_find name xs of None \<Rightarrow> dir_find name ys | Some i \<Rightarrow> Some i)"
  by (induction xs) (auto simp: dir_find_def)

context ext2_volume
begin

lemma kept_free: "kept io io' \<Longrightarrow> kept (io_free io) (io_free io')"
  by (simp add: kept_def)

lemma dir_offset: "fb \<le> 1024 \<Longrightarrow> int32 (uint (of_nat fb * EXT2_BLOCK_SIZE (e_sb ext2))) = int (fb * bsz)"
proof -
  assume fb: "fb \<le> 1024"
  have u: "unat (of_nat fb :: u32) = fb" using fb by (intro unat_of_nat_u32) simp
  have le: "fb * bsz \<le> 1024 * 4096" using fb bsz_bounds(2) by (rule mult_le_mono)
  then have "unat (of_nat fb * EXT2_BLOCK_SIZE (e_sb ext2)) = fb * bsz" using u by (subst unat_mult_u32) simp_all
  then show ?thesis unfolding uint_nat using le by (simp only:) (intro int32_id in_int32_nat, simp)
qed

text \<open>Reading one block of a directory: nothing at the end, a whole block before.\<close>

lemma dir_read:
  assumes io: "io_ok io" and d: "file_ok c bsz n (m * bsz)" "m \<le> 1024" and len: "ext2_file_len ext2 n = int (m * bsz)"
    and buf: "length buf = bsz" and fb: "fb \<le> m"
  shows "\<exists>io'. ext2_read_inode ext2 n buf (int (fb * bsz)) (ucast (EXT2_BLOCK_SIZE (e_sb ext2))) io =
      (if fb = m then Some (0, buf, io') else Some (int bsz, file_bytes c bsz n (fb * bsz) bsz, io')) \<and> kept io io'"
proof -
  let ?k = "min bsz (m * bsz - fb * bsz)"
  have a: "m * bsz \<le> 65536 * bsz" using d(2) by (intro mult_le_mono1) simp
  have "fb * bsz \<le> 1024 * 4096" using fb d(2) bsz_bounds(2) by (intro mult_le_mono) auto
  then have b: "fb * bsz + unat (ucast (EXT2_BLOCK_SIZE (e_sb ext2)) :: u16) < 2 ^ 31" using bsz_bounds(2) by simp
  obtain io' where io': "ext2_read_inode ext2 n buf (int (fb * bsz)) (ucast (EXT2_BLOCK_SIZE (e_sb ext2))) io =
      Some (int ?k, mem_put buf 0 (file_bytes c bsz n (fb * bsz) ?k), io')" "kept io io'"
    using ext2_read_inode_ok [OF io len d(1) a b, of buf] buf bsz_bounds(4) by auto
  show ?thesis
  proof (cases "fb = m")
    case True
    then show ?thesis using io' by (simp add: mem_put_def file_bytes_def)
  next
    case False
    then have "Suc fb * bsz \<le> m * bsz" using fb by (intro mult_le_mono1) simp
    then have k: "?k = bsz" by simp
    then show ?thesis using io' False buf by (simp add: mem_put_def)
  qed
qed

lemma dir_blocks_ok:
  assumes "io_ok io" "dir_image c bsz n bss" "ext2_file_len ext2 n = int (length bss * bsz)"
    and "length name < 65536" "length buf = bsz" "fb \<le> length bss"
  shows "\<exists>io'. ext2_dir_blocks ext2 n name fb buf inum io =
      (case dir_find name (concat (drop fb bss)) of None \<Rightarrow> Some (0, inum, io') | Some i \<Rightarrow> Some (1, i, io')) \<and>
    kept (io_free io) io'"
  using assms
proof (induction "length bss - fb" arbitrary: fb buf io)
  case (0 fb buf io)
  note pr = 0(2-7)
  let ?s = "length bss * bsz"
  have d: "file_ok c bsz n ?s" "length bss \<le> 1024" using pr(2) by (simp_all add: dir_image_def)
  have fb: "fb = length bss" using 0 by simp
  obtain io1 where "ext2_read_inode ext2 n buf (int (fb * bsz)) (ucast (EXT2_BLOCK_SIZE (e_sb ext2))) io = Some (0, buf, io1)" "kept io io1"
    using dir_read [OF pr(1) d pr(3,5,6)] fb by (auto simp: mem_put_def file_bytes_def)
  then show ?case using dir_offset [of fb] d(2) fb kept_free
    by (subst ext2_dir_blocks.simps) (auto simp: dir_find_def)
next
  case (Suc m fb buf io)
  note pr = Suc(3-8)
  let ?b = "file_bytes c bsz n (fb * bsz) bsz"
  have d: "file_ok c bsz n (length bss * bsz)" "length bss \<le> 1024" using pr(2) by (simp_all add: dir_image_def)
  have fb: "fb < length bss" using Suc(2) by simp
  then have es: "list_all dirent_ok (bss ! fb)" "?b = dir_block (bss ! fb)" using pr(2) by (simp_all add: dir_image_def)
  obtain io1 where io1: "ext2_read_inode ext2 n buf (int (fb * bsz)) (ucast (EXT2_BLOCK_SIZE (e_sb ext2))) io =
      Some (int bsz, ?b, io1)" "kept io io1"
    using dir_read [OF pr(1) d pr(3,5,6)] fb by auto
  have scan: "ext2_dir_scan ?b (EXT2_BLOCK_SIZE (e_sb ext2)) name 0 = Some (dir_find name (bss ! fb))"
    using ext2_dir_scan_ok [OF es(1), of "[]" "EXT2_BLOCK_SIZE (e_sb ext2)" name] es(2) bsz_bounds(2) pr(4)
      length_file_bytes [of c bsz n "fb * bsz" bsz] by simp
  have ok: "io_ok io1" using io1(2) by (simp add: kept_def)
  obtain io2 where io2: "ext2_dir_blocks ext2 n name (Suc fb) ?b inum io1 =
      (case dir_find name (concat (drop (Suc fb) bss)) of None \<Rightarrow> Some (0, inum, io2) | Some i \<Rightarrow> Some (1, i, io2))"
      "kept (io_free io1) io2"
  proof -
    have "m = length bss - Suc fb" using Suc(2) by linarith
    then show ?thesis using that Suc(1) [of "Suc fb" io1 ?b] ok pr(2-4) fb by auto
  qed
  have off: "int32 (uint (of_nat fb * EXT2_BLOCK_SIZE (e_sb ext2))) = int (fb * bsz)" using dir_offset d(2) fb by simp
  have split: "drop fb bss = bss ! fb # drop (Suc fb) bss" using fb by (simp add: Cons_nth_drop_Suc)
  have step: "ext2_dir_blocks ext2 n name fb buf inum io = (case dir_find name (bss ! fb) of
        None \<Rightarrow> ext2_dir_blocks ext2 n name (Suc fb) ?b inum io1 | Some i \<Rightarrow> Some (1, i, io_free io1))"
    unfolding ext2_dir_blocks.simps [of ext2 n name fb] Let_def off io1(1) using scan bsz_bounds(3) fb d(2)
    by (simp add: unsigned_eq_0_iff split: option.split)
  show ?case
  proof (cases "dir_find name (bss ! fb)")
    case None
    then show ?thesis using step io2 split kept_trans [OF kept_free [OF io1(2)]] by (auto simp: dir_find_append)
  next
    case (Some i)
    then show ?thesis using step split kept_free [OF io1(2)] by (simp add: dir_find_append)
  qed
qed

lemma ext2_dir_lookup_ok:
  assumes "io_ok io" "S_ISDIR (i_mode n)" "dir_image c bsz n bss" "ext2_file_len ext2 n = int (length bss * bsz)"
    and "length name < 65536"
  shows "\<exists>io'. ext2_dir_lookup ext2 n name inum io =
      (case dir_find (map byte_of name) (concat bss) of None \<Rightarrow> Some (0, inum, io') | Some i \<Rightarrow> Some (1, i, io')) \<and> kept io io'"
proof -
  obtain b io1 where b: "io_malloc (ucast (EXT2_BLOCK_SIZE (e_sb ext2))) io = (Some b, io1)" "length b = bsz" "io_ok io1"
      "io_live io1 = io_live io + 1" "io_junk io1 = io_junk io"
    using io_malloc_ok [OF assms(1), of "ucast (EXT2_BLOCK_SIZE (e_sb ext2))"] by auto
  then obtain io2 where "ext2_dir_blocks ext2 n (map byte_of name) 0 b inum io1 =
      (case dir_find (map byte_of name) (concat bss) of None \<Rightarrow> Some (0, inum, io2) | Some i \<Rightarrow> Some (1, i, io2))"
      "kept (io_free io1) io2"
    using dir_blocks_ok [OF b(3) assms(3,4), of "map byte_of name" b 0 inum] assms(5) by auto
  moreover have "kept io io2" using calculation(2) b(4,5) by (simp add: kept_def)
  ultimately show ?thesis using b(1) assms(2) by (auto simp: ext2_dir_lookup_def)
qed

text \<open>A missing name is not reported: the walk goes on with the inode number the caller's variable had.\<close>

lemma ext2_walk_missing:
  assumes io: "io_ok io" and root: "S_ISDIR (i_mode (root_inode ext2))" "dir_image c bsz (root_inode ext2) bss"
      "ext2_file_len ext2 (root_inode ext2) = int (length bss * bsz)"
    and name: "length name < 65536" "slash \<notin> set name" "dir_find (map byte_of name) (concat bss) = None"
    and addr: "get_inode_addr ext2 inum = Some (b, o')" "unat (b * EXT2_BLOCK_SIZE (e_sb ext2) + ucast o') = pos" "pos + 128 \<le> length c"
    and plain: "\<not> S_ISLNK (i_mode (inode_of (mem_get c pos 128)))"
  shows "\<exists>io'. ext2_walk (Suc l) ext2 (slash # name) (root_inode ext2) inum io = Some (0, inum, io') \<and> kept io io'"
proof -
  obtain io1 where io1: "ext2_dir_lookup ext2 (root_inode ext2) name inum io = Some (0, inum, io1)" "kept io io1"
    using ext2_dir_lookup_ok [OF io root name(1), of inum] name(3) by auto
  have ok1: "io_ok io1" using io1(2) by (simp add: kept_def)
  have "length (i_block (inode_of (io_junk io 128))) = 15" by (simp add: inode_of_def le32s_def)
  then obtain io2 where io2: "ext2_load_inode ext2 inum (inode_of (io_junk io 128)) io1 = Some (0, inode_of (mem_get c pos 128), io2)"
      "kept io1 io2"
    using ext2_load_inode_ok [OF ok1 addr] by blast
  have nx: "ext2_nextcomponent w ext2 True (root_inode ext2) (inode_of (io_junk io 128)) inum io1 =
      Some (Inr (if S_ISDIR (i_mode (inode_of (mem_get c pos 128))) then inode_of (mem_get c pos 128) else root_inode ext2,
                 inode_of (mem_get c pos 128), inum), io2)" for w
    using io2(1) plain by (subst ext2_nextcomponent.simps) simp
  have p: "dropWhile (\<lambda>ch. ch = slash) (slash # name) = name" "takeWhile (\<lambda>ch. ch \<noteq> slash) name = name" "dropWhile (\<lambda>ch. ch \<noteq> slash) name = []"
    using name(2) by (auto simp: takeWhile_eq_all_conv) (cases name; auto)
  have "ext2_walk (Suc l) ext2 (slash # name) (root_inode ext2) inum io = Some (0, inum, io2)"
    unfolding ext2_walk.simps p ext2_walk_loop.simps [of _ ext2 name] Let_def by (simp add: io1(1) nx)
  then show ?thesis using kept_trans [OF io1(2) io2(2)] by blast
qed

end

section \<open>Properties\<close>

text \<open>
  C17. Directory search: over any block storage, for a directory whose blocks hold well-formed
  records, \<^verbatim>\<open>ext2_dir_lookup\<close> returns 1 and the inode number of the first entry with the name, in the
  order of the blocks; when there is none it returns 0 and leaves \<^verbatim>\<open>*inum\<close> as it was.
\<close>

theorem ext2_dir_lookup_correct:
  assumes st: "block_store dev I cont" "dev_read dev = None" "dev_write dev = None"
    and tmp: "mal (block_size dev) = Some tmp" "length tmp = unat (block_size dev)" "unat (block_size dev) < 32768"
    and fs: "e_dev ext2 = Some (registered mal dev)" "s_log_block_size (e_sb ext2) \<in> {0, 1, 2}"
    and io: "I (io_dev io)" "cont (io_dev io) = img" "length img < 2 ^ 31" "heap_ok io"
    and d: "S_ISDIR (i_mode n)" "bs = unat (EXT2_BLOCK_SIZE (e_sb ext2))" "dir_image img bs n bss"
      "ext2_file_len ext2 n = int (length bss * bs)" and name: "length name < 65536"
  shows "\<exists>io'. ext2_dir_lookup ext2 n name inum io =
      (case dir_find (map byte_of name) (concat bss) of None \<Rightarrow> Some (0, inum, io') | Some i \<Rightarrow> Some (1, i, io')) \<and>
    cont (io_dev io') = img \<and> io_live io' = io_live io"
proof -
  have v: "volume (Some (registered mal dev)) (\<lambda>s. I s \<and> cont s = img) img"
    using st tmp io(3) by (rule registered_volume)
  then have x: "ext2_volume (Some (registered mal dev)) (\<lambda>s. I s \<and> cont s = img) img ext2"
    using fs by (intro ext2_volume.intro ext2_volume_axioms.intro)
  have ok: "volume.io_ok (\<lambda>s. I s \<and> cont s = img) io" using io by (simp add: volume.io_ok_def [OF v])
  obtain io' where "ext2_dir_lookup ext2 n name inum io =
      (case dir_find (map byte_of name) (concat bss) of None \<Rightarrow> Some (0, inum, io') | Some i \<Rightarrow> Some (1, i, io'))"
      "volume.kept (\<lambda>s. I s \<and> cont s = img) io io'"
    using ext2_volume.ext2_dir_lookup_ok [OF x ok d(1) _ _ name, of bss inum] d(2-4) by blast
  then show ?thesis by (auto simp: volume.kept_def [OF v] volume.io_ok_def [OF v])
qed

text \<open>An empty directory, and one with a block of two entries, in the blocks of the flash.\<close>

definition dir_entries :: "dirent list" where
  "dir_entries =
     [\<lparr>d_inode = 2, d_name = [0x2e], d_type = 2, d_pad = replicate 3 0\<rparr>,
      \<lparr>d_inode = 12, d_name = map byte_of ''init'', d_type = 1, d_pad = replicate 1000 0\<rparr>]"

definition dir_rom :: sst39 where
  "dir_rom = sample_rom\<lparr>ch_cells := mem_put (replicate 131072 0) 20480 (dir_block dir_entries)\<rparr>"

definition dir_io :: "sst39 option io" where
  "dir_io = rom_io\<lparr>io_dev := Some dir_rom\<rparr>"

definition rom_dir :: ext2_inode where
  "rom_dir = (inode_of (replicate 128 0))\<lparr>i_mode := 0x4000, i_size := 1024, i_block := 20 # replicate 14 0\<rparr>"

lemma dir_entries_len: "length (dir_block dir_entries) = 1024"
  by (simp add: dir_block_def dir_entries_def d_len_def)

lemma dir_rom_cells: "length (ch_cells dir_rom) = 131072" "mem_get (ch_cells dir_rom) 20480 1024 = dir_block dir_entries"
  using mem_get_put_same [of 20480 "dir_block dir_entries" "replicate 131072 0"]
  by (simp_all add: dir_rom_def dir_entries_len)

lemma rom_dir_image: "dir_image (ch_cells dir_rom) 1024 rom_dir [dir_entries]"
proof -
  have p: "file_ptr (ch_cells dir_rom) 1024 rom_dir 0 = 20" "file_tables (ch_cells dir_rom) 1024 rom_dir 0 = []" "length (i_block rom_dir) = 15"
    by (simp_all add: file_ptr_def file_tables_def rom_dir_def)
  have ok: "block_ok (ch_cells dir_rom) 1024 20" by (simp add: block_ok_def dir_rom_cells)
  have "file_ok (ch_cells dir_rom) 1024 rom_dir 1024" using p ok by (auto simp: file_ok_def)
  moreover have "file_bytes (ch_cells dir_rom) 1024 rom_dir 0 1024 = dir_block dir_entries"
    using file_block_bytes [of 1024 20 "ch_cells dir_rom" rom_dir 0] p ok by (simp add: dir_rom_cells)
  ultimately show ?thesis by (simp add: dir_image_def) (simp add: dir_entries_def dirent_ok_def d_len_def)
qed

theorem ext2_dir_lookup_correct_witness:
  "\<exists>io'. ext2_dir_lookup rom_ext2 rom_dir ''init'' 0 dir_io = Some (1, 12, io') \<and> io_live io' = 0"
proof -
  have "\<exists>io'. ext2_dir_lookup rom_ext2 rom_dir ''init'' 0 dir_io =
      (case dir_find (map byte_of ''init'') (concat [dir_entries]) of None \<Rightarrow> Some (0, 0, io') | Some i \<Rightarrow> Some (1, i, io')) \<and>
    ch_cells (the (io_dev io')) = ch_cells dir_rom \<and> io_live io' = io_live dir_io"
  proof (rule ext2_dir_lookup_correct [OF rom_store, where mal = rom_alloc and tmp = "replicate 4096 0"])
    show "dir_image (ch_cells dir_rom) 1024 rom_dir [dir_entries]" by (rule rom_dir_image)
    show "\<exists>h. io_dev dir_io = Some h \<and> sst39_ready h"
      using dir_rom_cells(1) by (simp add: dir_io_def sst39_ready_def) (simp add: dir_rom_def sample_rom_def)
  qed (simp_all add: rom_alloc_def rom_ext2_def dir_io_def rom_io_def heap_ok_def dir_rom_cells rom_dir_def S_ISDIR_def S_IFMT_def
      ext2_file_len_def in_int32_def)
  then show ?thesis by (auto simp: dir_find_def dir_entries_def dir_io_def rom_io_def)
qed

text \<open>
  Looking up a name the root directory does not have succeeds: \<^verbatim>\<open>ext2_lookup\<close> returns 0 with the
  inode number the variable of the caller held before, as \<^verbatim>\<open>ext2_walk\<close> takes the result 0 of
  \<^verbatim>\<open>ext2_dir_lookup\<close> for a match.
\<close>

theorem ext2_lookup_missing:
  assumes st: "block_store dev I cont" "dev_read dev = None" "dev_write dev = None"
    and tmp: "mal (block_size dev) = Some tmp" "length tmp = unat (block_size dev)" "unat (block_size dev) < 32768"
    and fs: "e_dev ext2 = Some (registered mal dev)" "s_log_block_size (e_sb ext2) \<in> {0, 1, 2}"
    and io: "I (io_dev io)" "cont (io_dev io) = img" "length img < 2 ^ 31" "heap_ok io"
    and d: "S_ISDIR (i_mode (root_inode ext2))" "bs = unat (EXT2_BLOCK_SIZE (e_sb ext2))" "dir_image img bs (root_inode ext2) bss"
      "ext2_file_len ext2 (root_inode ext2) = int (length bss * bs)"
    and name: "length name < 511" "slash \<notin> set name" "NUL \<notin> set name" "dir_find (map byte_of name) (concat bss) = None"
    and addr: "get_inode_addr ext2 inum = Some (b, o')" "unat (b * EXT2_BLOCK_SIZE (e_sb ext2) + ucast o') = pos" "pos + 128 \<le> length img"
    and plain: "\<not> S_ISLNK (i_mode (inode_of (mem_get img pos 128)))"
  shows "\<exists>io'. ext2_lookup ext2 (slash # name) inum io = Some (0, inum, io')"
proof -
  have v: "volume (Some (registered mal dev)) (\<lambda>s. I s \<and> cont s = img) img"
    using st tmp io(3) by (rule registered_volume)
  then have x: "ext2_volume (Some (registered mal dev)) (\<lambda>s. I s \<and> cont s = img) img ext2"
    using fs by (intro ext2_volume.intro ext2_volume_axioms.intro)
  have ok: "volume.io_ok (\<lambda>s. I s \<and> cont s = img) io" using io by (simp add: volume.io_ok_def [OF v])
  have l: "length name < 65536" using name(1) by simp
  obtain io' where "ext2_walk (Suc 3) ext2 (slash # name) (root_inode ext2) inum io = Some (0, inum, io')"
    using ext2_volume.ext2_walk_missing [OF x ok d(1) d(3) [unfolded d(2)] d(4) [unfolded d(2)] l name(2,4) addr plain] by blast
  moreover obtain tail where "strlcpy (map char_of_byte (io_junk io 512)) (slash # name) 512 =
      (length (slash # name), take (512 - 1) (slash # name) @ NUL # tail)"
    using strlcpy_ok [of 512 "map char_of_byte (io_junk io 512)" "slash # name"] io(4) by (auto simp: heap_ok_def)
  moreover have "take (512 - 1) (slash # name) = slash # name" using name(1) by simp
  moreover have "cstr ((slash # name) @ NUL # tail) = slash # name" using name(3) by (intro cstr_take) simp
  ultimately show ?thesis by (simp add: ext2_lookup_def numeral_eq_Suc)
qed

definition dir_ext2 :: "sst39 option ext2_t" where
  "dir_ext2 = rom_ext2\<lparr>root_inode := rom_dir\<rparr>"

theorem ext2_lookup_missing_witness: "\<exists>io'. ext2_lookup dir_ext2 ''/missing'' 3 dir_io = Some (0, 3, io')"
proof -
  have a: "get_inode_addr dir_ext2 3 = Some (5, 256)"
    by (simp add: get_inode_addr_def dir_ext2_def rom_ext2_def EXT2_INODE_SIZE_def EXT2_INODES_PER_GROUP_def
        EXT2_GOOD_OLD_REV_def EXT2_GOOD_OLD_INODE_SIZE_def group_desc_of_def)
  have z: "mem_get (ch_cells dir_rom) 5376 128 = replicate 128 0"
    using mem_get_put_outside [of 20480 "dir_block dir_entries" "replicate 131072 0" 5376 128]
    by (simp add: dir_rom_def dir_entries_len mem_get_def)
  have "\<exists>io'. ext2_lookup dir_ext2 (slash # ''missing'') 3 dir_io = Some (0, 3, io')"
  proof (rule ext2_lookup_missing [OF rom_store, where mal = rom_alloc and tmp = "replicate 4096 0" and bss = "[dir_entries]" and pos = 5376])
    show "dir_image (ch_cells dir_rom) 1024 (root_inode dir_ext2) [dir_entries]"
      using rom_dir_image by (simp add: dir_ext2_def)
    show "\<exists>h. io_dev dir_io = Some h \<and> sst39_ready h"
      using dir_rom_cells(1) by (simp add: dir_io_def sst39_ready_def) (simp add: dir_rom_def sample_rom_def)
    show "get_inode_addr dir_ext2 3 = Some (5, 256)" by (rule a)
    show "dir_find (map byte_of ''missing'') (concat [dir_entries]) = None"
      by (simp add: dir_find_def dir_entries_def)
    show "\<not> S_ISLNK (i_mode (inode_of (mem_get (ch_cells dir_rom) 5376 128)))"
      unfolding z by (simp add: inode_of_def S_ISLNK_def S_IFMT_def)
  qed (simp_all add: rom_alloc_def dir_ext2_def rom_ext2_def dir_io_def rom_io_def heap_ok_def dir_rom_cells rom_dir_def S_ISDIR_def S_IFMT_def
      ext2_file_len_def in_int32_def)
  then show ?thesis by simp
qed

text \<open>
  The scan of a directory block does not end on a record length of 0xFFFD or more whose name does
  not match: rounded up to a multiple of four in 16 bits it is 0.
\<close>

theorem ext2_dir_scan_endless:
  assumes "le16 buf 4 \<ge> 0xFFFD" "bs \<noteq> 0" "8 \<le> length buf" "unat (buf ! 6) \<noteq> length name" "length name < 65536"
  shows "ext2_dir_scan buf bs name 0 = None"
proof -
  have r: "ROUNDUP4 (le16 buf 4) = 0"
  proof -
    have "unat (le16 buf 4) \<ge> 65533" using assms(1) by (simp add: word_le_nat_alt)
    moreover have "unat (le16 buf 4) < 65536" by (rule unat_u16_lt)
    ultimately have "unat (le16 buf 4) = 65533 \<or> unat (le16 buf 4) = 65534 \<or> unat (le16 buf 4) = 65535" by linarith
    then have "(unat (le16 buf 4) + 3) mod 65536 < 4" by auto
    then have "unat (le16 buf 4 + 3) < 4" by (simp add: unat_plus_u16)
    then have "unat (le16 buf 4 + 3) div 4 = 0" by (rule div_less)
    then have "unat (drop_bit 2 (le16 buf 4 + 3)) = 0" by (simp only: drop_bit_eq_div unat_div_distrib) simp
    then have "drop_bit 2 (le16 buf 4 + 3) = 0" by (simp only: unat_eq_0)
    then have "(le16 buf 4 + 3) AND NOT (mask 2) = 0" unfolding and_not_mask by simp
    moreover have "NOT (3 :: u16) = NOT (mask 2)" by (simp add: mask_eq_exp_minus_1)
    ultimately show ?thesis by (simp only: ROUNDUP4_def)
  qed
  have nm: "ucast (buf ! 6) \<noteq> (of_nat (length name) :: u16)"
  proof
    assume "ucast (buf ! 6) = (of_nat (length name) :: u16)"
    then have "unat (buf ! 6) = length name" using unat_of_nat_u16 [OF assms(5)] by (metis unat_ucast_u8_u16)
    then show False using assms(4) by simp
  qed
  have nz: "le16 buf 4 \<noteq> 0" using assms(1) by auto
  have b0: "0 < bs" using assms(2) by (simp add: word_neq_0_conv)
  have "\<not> (b = buf \<and> s = bs \<and> n = name \<and> pos = 0)" if "ext2_dir_scan b s n pos = Some y" for b s n pos y
    using _ that
  proof (rule ext2_dir_scan.raw_induct [where P = "\<lambda>b s n pos y. \<not> (b = buf \<and> s = bs \<and> n = name \<and> pos = 0)"])
    fix f :: "u8 list \<Rightarrow> u32 \<Rightarrow> u8 list \<Rightarrow> u16 \<Rightarrow> u32 option option" and b s n pos y
    assume IH: "\<And>b s n pos y. f b s n pos = Some y \<Longrightarrow> \<not> (b = buf \<and> s = bs \<and> n = name \<and> pos = 0)"
      and step: "(let p = unat pos
      in if \<not> ucast pos < s then Some None
         else if length b < p + 6 then None
         else if LE16 (le16 b (p + 4)) = 0 then Some None
         else if length b < p + 7 then None
         else if ucast (b ! (p + 6)) = (of_nat (length n) :: u16) \<and> length b < p + 8 + unat (b ! (p + 6)) then None
         else if ucast (b ! (p + 6)) = (of_nat (length n) :: u16) \<and>
                 take (unat (b ! (p + 6))) n = mem_get b (p + 8) (unat (b ! (p + 6)))
         then Some (Some (LE32 (le32 b p)))
         else f b s n (pos + ROUNDUP4 (LE16 (le16 b (p + 4))))) = Some y"
    show "\<not> (b = buf \<and> s = bs \<and> n = name \<and> pos = 0)"
    proof
      assume e: "b = buf \<and> s = bs \<and> n = name \<and> pos = 0"
      then have "f buf bs name 0 = Some y" using step nz nm r b0 assms(3) by simp
      then show False using IH by blast
    qed
  qed
  then show ?thesis by (metis option.exhaust)
qed

theorem ext2_dir_scan_endless_witness: "ext2_dir_scan ([0, 0, 0, 0, 0xFF, 0xFF, 1, 0] @ replicate 1016 0) 1024 [] 0 = None"
  by (rule ext2_dir_scan_endless) (simp_all add: le16_def)



end
