(* ===== verification/Fs.thy ===== *)
theory Fs
  imports Path Blkdev Task
begin

text \<open>
  The virtual file system (\<^verbatim>\<open>kernel/core/fs.c\<close>): the table of file system drivers, the list of mount
  points with their reference counts, and the handles of open files and directories.

  A driver is the record of its operations on the state \<open>'s\<close> of the driver and its devices; a
  function pointer left null is \<open>None\<close>.  Mount structures and handles are allocated objects: the
  state has the map of those that are live, and an access to a freed one, like a call of a null
  function pointer, is the result \<open>None\<close> of an operation.  The list of mounts is the sequence of its
  nodes (theory \<open>Intrusive_List\<close> shows that the linked lists implement sequences).  Each operation
  takes what its allocations return, \<open>0\<close> being \<^verbatim>\<open>NULL\<close>.  What is printed is not modelled.
\<close>

section \<open>Drivers\<close>

record file_stat =
  is_dir :: bool
  stat_size :: u32
  capacity :: u32

record fs_stat =
  free_space :: u32
  total_space :: u32
  free_inodes :: u32
  total_inodes :: u32

definition FS_MAX_FILE_LEN :: nat where "FS_MAX_FILE_LEN = 64"

record 's fs_api =
  api_format :: "('s blkdev option \<Rightarrow> ptr \<Rightarrow> 's \<Rightarrow> int \<times> 's) option"
  api_fs_stat :: "(ptr \<Rightarrow> 's \<Rightarrow> int \<times> fs_stat \<times> 's) option"
  api_mount :: "('s blkdev option \<Rightarrow> 's \<Rightarrow> int \<times> ptr \<times> 's) option"
  api_unmount :: "(ptr \<Rightarrow> 's \<Rightarrow> int \<times> 's) option"
  api_open :: "(ptr \<Rightarrow> string \<Rightarrow> 's \<Rightarrow> int \<times> ptr \<times> 's) option"
  api_create :: "(ptr \<Rightarrow> string \<Rightarrow> u32 \<Rightarrow> 's \<Rightarrow> int \<times> ptr \<times> 's) option"
  api_remove :: "(ptr \<Rightarrow> string \<Rightarrow> 's \<Rightarrow> int \<times> 's) option"
  api_truncate :: "(ptr \<Rightarrow> u32 \<Rightarrow> 's \<Rightarrow> int \<times> 's) option"
  api_stat :: "(ptr \<Rightarrow> 's \<Rightarrow> int \<times> file_stat \<times> 's) option"
  api_read :: "(ptr \<Rightarrow> u8 list \<Rightarrow> int \<Rightarrow> u16 \<Rightarrow> 's \<Rightarrow> int \<times> u8 list \<times> 's) option"
  api_write :: "(ptr \<Rightarrow> u8 list \<Rightarrow> int \<Rightarrow> u16 \<Rightarrow> 's \<Rightarrow> int \<times> 's) option"
  api_close :: "(ptr \<Rightarrow> 's \<Rightarrow> int \<times> 's) option"
  api_mkdir :: "(ptr \<Rightarrow> string \<Rightarrow> 's \<Rightarrow> int \<times> 's) option"
  api_opendir :: "(ptr \<Rightarrow> string \<Rightarrow> 's \<Rightarrow> int \<times> ptr \<times> 's) option"
  api_readdir :: "(ptr \<Rightarrow> 's \<Rightarrow> int \<times> string \<times> 's) option"
  api_closedir :: "(ptr \<Rightarrow> 's \<Rightarrow> int \<times> 's) option"

record 's fs =
  fs_name :: string
  fs_ops :: "'s fs_api"

section \<open>State\<close>

record 's fs_mount_struct =
  m_path :: string
  m_dev :: "'s blkdev option"
  m_cookie :: ptr
  m_ref :: int
  m_fs :: "'s fs"

record fs_handle =
  h_cookie :: ptr
  h_mount :: ptr

record 's vfs =
  mounts :: "ptr list"
  mount_at :: "ptr \<Rightarrow> 's fs_mount_struct option"
  files :: "ptr \<Rightarrow> fs_handle option"
  dirs :: "ptr \<Rightarrow> fs_handle option"
  fs_table :: "'s fs list"
  disks :: "'s blkdev list"
  drv :: 's

abbreviation m_api :: "'s fs_mount_struct \<Rightarrow> 's fs_api" where
  "m_api m \<equiv> fs_ops (m_fs m)"

definition find_fs :: "'s vfs \<Rightarrow> string \<Rightarrow> 's fs option" where
  "find_fs v name = find (\<lambda>f. fs_name f = name) (fs_table v)"

section \<open>Mount points\<close>

text \<open>The test of \<^verbatim>\<open>find_mount\<close>: the mount's path is a prefix that ends at a separator or at the end.\<close>

definition mount_matches :: "string \<Rightarrow> string \<Rightarrow> bool" where
  "mount_matches mpath path \<longleftrightarrow>
     length mpath \<le> length path \<and> take (length mpath) path = mpath \<and>
     (let rest = drop (length mpath) path in rest = [] \<or> hd rest = slash)"

lemma mount_matches_append: "mount_matches m (m @ rest) \<longleftrightarrow> rest = [] \<or> hd rest = slash"
  by (simp add: mount_matches_def)

fun find_mount_loop :: "(ptr \<Rightarrow> 's fs_mount_struct option) \<Rightarrow> ptr list \<Rightarrow> string \<Rightarrow> ptr option option" where
  "find_mount_loop ms [] path = Some None"
| "find_mount_loop ms (p # ps) path =
     do { m \<leftarrow> ms p;
          if mount_matches (m_path m) path then Some (Some p) else find_mount_loop ms ps path }"

definition find_mount :: "'s vfs \<Rightarrow> string \<Rightarrow> ((ptr \<times> string) option \<times> 's vfs) option" where
  "find_mount v path =
     (if path = [] \<or> hd path \<noteq> slash then Some (None, v)
      else do {
        r \<leftarrow> find_mount_loop (mount_at v) (mounts v) path;
        case r of
          None \<Rightarrow> Some (None, v)
        | Some p \<Rightarrow>
            do { m \<leftarrow> mount_at v p;
                 let rest = drop (length (m_path m)) path;
                 let trimmed = (if rest = [] then [slash] else rest);
                 Some (Some (p, trimmed), v\<lparr>mount_at := (mount_at v)(p \<mapsto> m\<lparr>m_ref := int16 (m_ref m + 1)\<rparr>)\<rparr>) } })"

definition put_mount :: "'s vfs \<Rightarrow> ptr \<Rightarrow> 's vfs option" where
  "put_mount v p =
     do { m \<leftarrow> mount_at v p;
          let ref = int16 (m_ref m - 1);
          if ref = 0
          then do { unmount \<leftarrow> api_unmount (m_api m);
                    let (_, s) = unmount (m_cookie m) (drv v);
                    Some (v\<lparr>mounts := remove1 p (mounts v), mount_at := (mount_at v)(p := None), drv := s\<rparr>) }
          else Some (v\<lparr>mount_at := (mount_at v)(p \<mapsto> m\<lparr>m_ref := ref\<rparr>)\<rparr>) }"

text \<open>The device of \<^verbatim>\<open>mount\<close> and \<^verbatim>\<open>fs_format_device\<close>: none for a null or empty name, \<open>Inl\<close> when it does not exist.\<close>

definition open_device :: "'s vfs \<Rightarrow> string option \<Rightarrow> int + 's blkdev option" where
  "open_device v device =
     (case device of
        None \<Rightarrow> Inr None
      | Some n \<Rightarrow>
          if n = [] then Inr None
          else case blk_open (disks v) device of None \<Rightarrow> Inl ERR_NO_DEV | Some d \<Rightarrow> Inr (Some d))"

text \<open>\<open>p\<close> and \<open>q\<close> are the results of the allocations of the structure and of the copy of the path.\<close>

definition mount :: "'s vfs \<Rightarrow> string \<Rightarrow> string option \<Rightarrow> 's fs \<Rightarrow> ptr \<Rightarrow> ptr \<Rightarrow> (int \<times> 's vfs) option" where
  "mount v path device fs p q =
     do { temppath \<leftarrow> temp_path path;
          if temppath = [] \<or> hd temppath \<noteq> slash then Some (ERR_INVAL, v)
          else do {
            (r, v) \<leftarrow> find_mount v temppath;
            case r of
              Some (m, _) \<Rightarrow> do { v \<leftarrow> put_mount v m; Some (ERR_INVAL, v) }
            | None \<Rightarrow>
                (case open_device v device of
                   Inl err \<Rightarrow> Some (err, v)
                 | Inr dev \<Rightarrow>
                     do { mnt \<leftarrow> api_mount (fs_ops fs);
                          let (err, cookie, s) = mnt dev (drv v);
                          let v = v\<lparr>drv := s\<rparr>;
                          if err < 0 then Some (err, v)
                          else if p = 0 then Some (ERR_NO_MEM, v)
                          else if q = 0 then Some (ERR_NO_MEM, v)
                          else Some (0, v\<lparr>mounts := p # mounts v,
                                 mount_at := (mount_at v)(p \<mapsto> \<lparr>m_path = temppath, m_dev = dev, m_cookie = cookie,
                                   m_ref = 1, m_fs = fs\<rparr>)\<rparr>) }) } }"

definition fs_format_device :: "'s vfs \<Rightarrow> string \<Rightarrow> string option \<Rightarrow> ptr \<Rightarrow> int \<times> 's vfs" where
  "fs_format_device v fsname device args =
     (case find_fs v fsname of
        None \<Rightarrow> (ERR_INVAL, v)
      | Some fs \<Rightarrow>
          (case api_format (fs_ops fs) of
             None \<Rightarrow> (ERR_INVAL, v)
           | Some fmt \<Rightarrow>
               (case open_device v device of
                  Inl err \<Rightarrow> (err, v)
                | Inr dev \<Rightarrow> let (r, s) = fmt dev args (drv v) in (r, v\<lparr>drv := s\<rparr>))))"

definition fs_mount :: "'s vfs \<Rightarrow> string \<Rightarrow> string \<Rightarrow> string option \<Rightarrow> ptr \<Rightarrow> ptr \<Rightarrow> (int \<times> 's vfs) option" where
  "fs_mount v path fsname device p q =
     (case find_fs v fsname of None \<Rightarrow> Some (ERR_NO_ENTRY, v) | Some fs \<Rightarrow> mount v path device fs p q)"

definition fs_unmount :: "'s vfs \<Rightarrow> string \<Rightarrow> (int \<times> 's vfs) option" where
  "fs_unmount v path =
     do { temppath \<leftarrow> temp_path path;
          (r, v) \<leftarrow> find_mount v temppath;
          case r of
            None \<Rightarrow> Some (ERR_NO_ENTRY, v)
          | Some (m, _) \<Rightarrow> do { v \<leftarrow> put_mount v m; v \<leftarrow> put_mount v m; Some (0, v) } }"

section \<open>Files\<close>

text \<open>
  The results are the return value, the handle written through the pointer argument if any, and
  the state.  \<^verbatim>\<open>fs_open_file\<close> does not check its allocation: with a null result it writes through it.
\<close>

definition fs_open_file :: "'s vfs \<Rightarrow> string \<Rightarrow> ptr \<Rightarrow> (int \<times> ptr option \<times> 's vfs) option" where
  "fs_open_file v path f =
     do { temppath \<leftarrow> temp_path path;
          (r, v) \<leftarrow> find_mount v temppath;
          case r of
            None \<Rightarrow> Some (ERR_NO_ENTRY, None, v)
          | Some (p, newpath) \<Rightarrow>
              do { m \<leftarrow> mount_at v p;
                   open \<leftarrow> api_open (m_api m);
                   let (err, cookie, s) = open (m_cookie m) newpath (drv v);
                   let v = v\<lparr>drv := s\<rparr>;
                   if err < 0 then do { v \<leftarrow> put_mount v p; Some (err, None, v) }
                   else if f = 0 then None
                   else Some (0, Some f, v\<lparr>files := (files v)(f \<mapsto> \<lparr>h_cookie = cookie, h_mount = p\<rparr>)\<rparr>) } }"

definition fs_create_file :: "'s vfs \<Rightarrow> string \<Rightarrow> u32 \<Rightarrow> ptr \<Rightarrow> (int \<times> ptr option \<times> 's vfs) option" where
  "fs_create_file v path len f =
     do { temppath \<leftarrow> temp_path path;
          (r, v) \<leftarrow> find_mount v temppath;
          case r of
            None \<Rightarrow> Some (ERR_NO_ENTRY, None, v)
          | Some (p, newpath) \<Rightarrow>
              do { m \<leftarrow> mount_at v p;
                   case api_create (m_api m) of
                     None \<Rightarrow> do { v \<leftarrow> put_mount v p; Some (- 1, None, v) }
                   | Some create \<Rightarrow>
                       do { let (err, cookie, s) = create (m_cookie m) newpath len (drv v);
                            let v = v\<lparr>drv := s\<rparr>;
                            if err < 0 then do { v \<leftarrow> put_mount v p; Some (err, None, v) }
                            else if f = 0 then do { v \<leftarrow> put_mount v p; Some (err, None, v) }
                            else Some (0, Some f, v\<lparr>files := (files v)(f \<mapsto> \<lparr>h_cookie = cookie, h_mount = p\<rparr>)\<rparr>) } } }"

text \<open>The mount and the cookie behind a handle.\<close>

definition handle_mount :: "'s vfs \<Rightarrow> (ptr \<Rightarrow> fs_handle option) \<Rightarrow> ptr \<Rightarrow> (fs_handle \<times> 's fs_mount_struct) option" where
  "handle_mount v hs h = do { x \<leftarrow> hs h; m \<leftarrow> mount_at v (h_mount x); Some (x, m) }"

definition fs_truncate_file :: "'s vfs \<Rightarrow> ptr \<Rightarrow> u32 \<Rightarrow> (int \<times> 's vfs) option" where
  "fs_truncate_file v h len =
     (if h = 0 then Some (ERR_INVAL, v)
      else do { (x, m) \<leftarrow> handle_mount v (files v) h;
                trunc \<leftarrow> api_truncate (m_api m);
                let (r, s) = trunc (h_cookie x) len (drv v);
                Some (r, v\<lparr>drv := s\<rparr>) })"

definition fs_remove_file :: "'s vfs \<Rightarrow> string \<Rightarrow> (int \<times> 's vfs) option" where
  "fs_remove_file v path =
     do { temppath \<leftarrow> temp_path path;
          (r, v) \<leftarrow> find_mount v temppath;
          case r of
            None \<Rightarrow> Some (ERR_NO_ENTRY, v)
          | Some (p, newpath) \<Rightarrow>
              do { m \<leftarrow> mount_at v p;
                   case api_remove (m_api m) of
                     None \<Rightarrow> do { v \<leftarrow> put_mount v p; Some (ERR_NOT_SUPP, v) }
                   | Some rem \<Rightarrow>
                       do { let (err, s) = rem (m_cookie m) newpath (drv v);
                            v \<leftarrow> put_mount (v\<lparr>drv := s\<rparr>) p;
                            Some (err, v) } } }"

definition fs_read_file :: "'s vfs \<Rightarrow> ptr \<Rightarrow> u8 list \<Rightarrow> int \<Rightarrow> u16 \<Rightarrow> (int \<times> u8 list \<times> 's vfs) option" where
  "fs_read_file v h buf offset len =
     do { (x, m) \<leftarrow> handle_mount v (files v) h;
          rd \<leftarrow> api_read (m_api m);
          let (r, buf, s) = rd (h_cookie x) buf offset len (drv v);
          Some (r, buf, v\<lparr>drv := s\<rparr>) }"

definition fs_write_file :: "'s vfs \<Rightarrow> ptr \<Rightarrow> u8 list \<Rightarrow> int \<Rightarrow> u16 \<Rightarrow> (int \<times> 's vfs) option" where
  "fs_write_file v h buf offset len =
     do { (x, m) \<leftarrow> handle_mount v (files v) h;
          case api_write (m_api m) of
            None \<Rightarrow> Some (- 1, v)
          | Some wr \<Rightarrow> let (r, s) = wr (h_cookie x) buf offset len (drv v) in Some (r, v\<lparr>drv := s\<rparr>) }"

definition fs_close_file :: "'s vfs \<Rightarrow> ptr \<Rightarrow> (int \<times> 's vfs) option" where
  "fs_close_file v h =
     do { (x, m) \<leftarrow> handle_mount v (files v) h;
          close \<leftarrow> api_close (m_api m);
          let (err, s) = close (h_cookie x) (drv v);
          let v = v\<lparr>drv := s\<rparr>;
          if err < 0 then Some (err, v)
          else do { v \<leftarrow> put_mount v (h_mount x); Some (0, v\<lparr>files := (files v)(h := None)\<rparr>) } }"

definition fs_stat_file :: "'s vfs \<Rightarrow> ptr \<Rightarrow> (int \<times> file_stat \<times> 's vfs) option" where
  "fs_stat_file v h =
     do { (x, m) \<leftarrow> handle_mount v (files v) h;
          st \<leftarrow> api_stat (m_api m);
          let (r, i, s) = st (h_cookie x) (drv v);
          Some (r, i, v\<lparr>drv := s\<rparr>) }"

section \<open>Directories\<close>

definition fs_make_dir :: "'s vfs \<Rightarrow> string \<Rightarrow> (int \<times> 's vfs) option" where
  "fs_make_dir v path =
     do { temppath \<leftarrow> temp_path path;
          (r, v) \<leftarrow> find_mount v temppath;
          case r of
            None \<Rightarrow> Some (ERR_NO_ENTRY, v)
          | Some (p, newpath) \<Rightarrow>
              do { m \<leftarrow> mount_at v p;
                   case api_mkdir (m_api m) of
                     None \<Rightarrow> do { v \<leftarrow> put_mount v p; Some (ERR_NOT_SUPP, v) }
                   | Some mkdir \<Rightarrow>
                       do { let (err, s) = mkdir (m_cookie m) newpath (drv v);
                            v \<leftarrow> put_mount (v\<lparr>drv := s\<rparr>) p;
                            Some (err, v) } } }"

definition fs_open_dir :: "'s vfs \<Rightarrow> string \<Rightarrow> ptr \<Rightarrow> (int \<times> ptr option \<times> 's vfs) option" where
  "fs_open_dir v path d =
     do { temppath \<leftarrow> temp_path path;
          (r, v) \<leftarrow> find_mount v temppath;
          case r of
            None \<Rightarrow> Some (ERR_NO_ENTRY, None, v)
          | Some (p, newpath) \<Rightarrow>
              do { m \<leftarrow> mount_at v p;
                   case api_opendir (m_api m) of
                     None \<Rightarrow> do { v \<leftarrow> put_mount v p; Some (ERR_NOT_SUPP, None, v) }
                   | Some opendir \<Rightarrow>
                       do { let (err, cookie, s) = opendir (m_cookie m) newpath (drv v);
                            let v = v\<lparr>drv := s\<rparr>;
                            if err < 0 then do { v \<leftarrow> put_mount v p; Some (err, None, v) }
                            else if d = 0 then do { v \<leftarrow> put_mount v p; Some (ERR_NO_MEM, None, v) }
                            else Some (0, Some d, v\<lparr>dirs := (dirs v)(d \<mapsto> \<lparr>h_cookie = cookie, h_mount = p\<rparr>)\<rparr>) } } }"

definition fs_read_dir :: "'s vfs \<Rightarrow> ptr \<Rightarrow> (int \<times> string option \<times> 's vfs) option" where
  "fs_read_dir v h =
     do { (x, m) \<leftarrow> handle_mount v (dirs v) h;
          case api_readdir (m_api m) of
            None \<Rightarrow> Some (ERR_NOT_SUPP, None, v)
          | Some rdir \<Rightarrow> let (r, ent, s) = rdir (h_cookie x) (drv v) in Some (r, Some ent, v\<lparr>drv := s\<rparr>) }"

definition fs_close_dir :: "'s vfs \<Rightarrow> ptr \<Rightarrow> (int \<times> 's vfs) option" where
  "fs_close_dir v h =
     do { (x, m) \<leftarrow> handle_mount v (dirs v) h;
          case api_closedir (m_api m) of
            None \<Rightarrow> Some (ERR_NOT_SUPP, v)
          | Some close \<Rightarrow>
              do { let (err, s) = close (h_cookie x) (drv v);
                   let v = v\<lparr>drv := s\<rparr>;
                   if err < 0 then Some (err, v)
                   else do { v \<leftarrow> put_mount v (h_mount x); Some (0, v\<lparr>dirs := (dirs v)(h := None)\<rparr>) } } }"

definition fs_stat_fs :: "'s vfs \<Rightarrow> string \<Rightarrow> bool \<Rightarrow> (int \<times> fs_stat option \<times> 's vfs) option" where
  "fs_stat_fs v mountpoint stat_given =
     (if \<not> stat_given then Some (ERR_INVAL, None, v)
      else do {
        (r, v) \<leftarrow> find_mount v mountpoint;
        case r of
          None \<Rightarrow> Some (ERR_NO_ENTRY, None, v)
        | Some (p, _) \<Rightarrow>
            do { m \<leftarrow> mount_at v p;
                 case api_fs_stat (m_api m) of
                   None \<Rightarrow> do { v \<leftarrow> put_mount v p; Some (ERR_NOT_SUPP, None, v) }
                 | Some st \<Rightarrow>
                     do { let (r, i, s) = st (m_cookie m) (drv v);
                          v \<leftarrow> put_mount (v\<lparr>drv := s\<rparr>) p;
                          Some (r, Some i, v) } } })"

definition fs_load_file :: "'s vfs \<Rightarrow> string \<Rightarrow> u8 list \<Rightarrow> u16 \<Rightarrow> ptr \<Rightarrow> (int \<times> u8 list \<times> 's vfs) option" where
  "fs_load_file v path buf maxlen f =
     do { (err, hp, v) \<leftarrow> fs_open_file v path f;
          if err < 0 then Some (err, buf, v)
          else do {
            h \<leftarrow> hp;
            (_, st, v) \<leftarrow> fs_stat_file v h;
            (n, buf, v) \<leftarrow> fs_read_file v h buf 0 (ucast (min (ucast maxlen) (stat_size st)));
            (_, v) \<leftarrow> fs_close_file v h;
            Some (n, buf, v) } }"

section \<open>Reference counts\<close>

definition users :: "'s vfs \<Rightarrow> ptr \<Rightarrow> nat" where
  "users v p = card {h. \<exists>x. files v h = Some x \<and> h_mount x = p} + card {h. \<exists>x. dirs v h = Some x \<and> h_mount x = p}"

text \<open>The functions of a driver that the layer calls without a check for null.\<close>

definition driver_ok :: "'s fs \<Rightarrow> bool" where
  "driver_ok f \<longleftrightarrow> api_mount (fs_ops f) \<noteq> None \<and> api_unmount (fs_ops f) \<noteq> None \<and> api_open (fs_ops f) \<noteq> None \<and>
     api_close (fs_ops f) \<noteq> None \<and> api_read (fs_ops f) \<noteq> None \<and> api_stat (fs_ops f) \<noteq> None"

text \<open>
  The invariant: the list holds exactly the live structures, every handle refers to one, and the
  count of each is the number of its open files and directories, plus one while it is mounted
  (\<open>M\<close>), plus the references \<open>e\<close> taken inside an operation.
\<close>

definition refs :: "'s vfs \<Rightarrow> ptr set \<Rightarrow> (ptr \<Rightarrow> nat) \<Rightarrow> ptr \<Rightarrow> nat" where
  "refs v M e p = users v p + of_bool (p \<in> M) + e p"

definition counted :: "'s vfs \<Rightarrow> ptr set \<Rightarrow> (ptr \<Rightarrow> nat) \<Rightarrow> bool" where
  "counted v M e \<longleftrightarrow> (\<forall>p m. mount_at v p = Some m \<longrightarrow>
     m_ref m = int (refs v M e p) \<and> 0 < refs v M e p \<and> driver_ok (m_fs m))"

definition linked :: "'s vfs \<Rightarrow> ptr set \<Rightarrow> bool" where
  "linked v M \<longleftrightarrow> distinct (mounts v) \<and> set (mounts v) = dom (mount_at v) \<and> M \<subseteq> dom (mount_at v) \<and>
     finite (dom (files v)) \<and> finite (dom (dirs v)) \<and> list_all driver_ok (fs_table v) \<and>
     (\<forall>h x. files v h = Some x \<or> dirs v h = Some x \<longrightarrow> h_mount x \<in> dom (mount_at v))"

definition vfs_inv :: "'s vfs \<Rightarrow> ptr set \<Rightarrow> (ptr \<Rightarrow> nat) \<Rightarrow> bool" where
  "vfs_inv v M e \<longleftrightarrow> linked v M \<and> counted v M e"

definition MAX_HANDLES :: nat where "MAX_HANDLES = 8192"

text \<open>A handle takes at least 8 bytes of a heap smaller than 64 KiB.\<close>

definition few :: "'s vfs \<Rightarrow> bool" where
  "few v \<longleftrightarrow> card (dom (files v)) + card (dom (dirs v)) \<le> MAX_HANDLES"

lemma users_le: "linked v M \<Longrightarrow> users v p \<le> card (dom (files v)) + card (dom (dirs v))"
  unfolding users_def linked_def by (intro add_mono card_mono) auto

lemma countedD:
  assumes "vfs_inv v M e" "mount_at v p = Some m"
  shows "m_ref m = int (refs v M e p)" "0 < refs v M e p" "driver_ok (m_fs m)"
  using assms unfolding vfs_inv_def counted_def by blast+

lemma ref_small:
  assumes "vfs_inv v M e" "few v" "e p \<le> 2"
  shows "refs v M e p < 32766"
  using users_le [of v M p] assms by (auto simp: vfs_inv_def refs_def few_def MAX_HANDLES_def)

lemma linked_ref: "linked v M \<Longrightarrow> mount_at v p = Some m \<Longrightarrow> linked (v\<lparr>mount_at := (mount_at v)(p \<mapsto> m')\<rparr>) M"
  by (auto simp: linked_def)

lemma users_ref [simp]: "users (v\<lparr>mount_at := ms\<rparr>) p = users v p" "users (v\<lparr>drv := s\<rparr>) p = users v p"
  "users (v\<lparr>mounts := l\<rparr>) p = users v p"
  by (simp_all add: users_def)

lemma refs_drv [simp]: "refs (v\<lparr>mount_at := ms\<rparr>) M e = refs v M e" "refs (v\<lparr>drv := s\<rparr>) M e = refs v M e"
  "refs (v\<lparr>mounts := l\<rparr>) M e = refs v M e"
  by (simp_all add: refs_def fun_eq_iff)

lemma vfs_inv_drv [simp]: "vfs_inv (v\<lparr>drv := s\<rparr>) M e = vfs_inv v M e"
  by (simp add: vfs_inv_def linked_def counted_def)

lemma few_simps [simp]: "few (v\<lparr>mount_at := ms\<rparr>) = few v" "few (v\<lparr>drv := s\<rparr>) = few v" "few (v\<lparr>mounts := l\<rparr>) = few v"
  by (simp_all add: few_def)

lemma vfs_inv_count:
  assumes inv: "vfs_inv v M e" and m: "mount_at v p = Some m" and r: "refs v M e' p = k" "0 < k"
    and same: "\<And>q. q \<noteq> p \<Longrightarrow> e' q = e q"
  shows "vfs_inv (v\<lparr>mount_at := (mount_at v)(p \<mapsto> m\<lparr>m_ref := int k\<rparr>)\<rparr>) M e'"
proof -
  have "refs v M e' q = refs v M e q" if "q \<noteq> p" for q using same that by (simp add: refs_def)
  then show ?thesis
    using inv m r linked_ref [of v M p m] by (auto simp: vfs_inv_def counted_def)
qed

section \<open>Looking up a mount\<close>

lemma find_mount_loop_ok:
  "set ps \<subseteq> dom ms \<Longrightarrow>
   find_mount_loop ms ps path = Some (find (\<lambda>p. mount_matches (m_path (the (ms p))) path) ps)"
  by (induction ps) auto

definition mount_of :: "'s vfs \<Rightarrow> string \<Rightarrow> ptr option" where
  "mount_of v path =
     (if path = [] \<or> hd path \<noteq> slash then None
      else find (\<lambda>p. mount_matches (m_path (the (mount_at v p))) path) (mounts v))"

definition rest_path :: "'s vfs \<Rightarrow> ptr \<Rightarrow> string \<Rightarrow> string" where
  "rest_path v p path = (let rest = drop (length (m_path (the (mount_at v p)))) path in if rest = [] then [slash] else rest)"

lemma mount_of_in: "linked v M \<Longrightarrow> mount_of v path = Some p \<Longrightarrow> p \<in> dom (mount_at v)"
  by (auto simp: mount_of_def linked_def find_Some_iff split: if_splits)

lemma find_mount_none:
  assumes "linked v M" "mount_of v path = None" shows "find_mount v path = Some (None, v)"
  using assms find_mount_loop_ok [of "mounts v" "mount_at v" path]
  by (auto simp: find_mount_def mount_of_def linked_def)

lemma find_mount_some:
  assumes inv: "vfs_inv v M e" and few: "few v" and e: "e p = 0" and p: "mount_of v path = Some p"
  obtains m v' where "mount_at v p = Some m" "find_mount v path = Some (Some (p, rest_path v p path), v')"
    "v' = v\<lparr>mount_at := (mount_at v)(p \<mapsto> m\<lparr>m_ref := m_ref m + 1\<rparr>)\<rparr>" "vfs_inv v' M (e(p := 1))" "driver_ok (m_fs m)"
proof -
  have l: "linked v M" using inv by (simp add: vfs_inv_def)
  obtain m where m: "mount_at v p = Some m" using mount_of_in [OF l p] by auto
  note r = countedD [OF inv m]
  have small: "int16 (m_ref m + 1) = m_ref m + 1"
    by (rule int16_id) (use ref_small [OF inv few, of p] e r(1) in \<open>simp add: in_int16_def\<close>)
  let ?v = "v\<lparr>mount_at := (mount_at v)(p \<mapsto> m\<lparr>m_ref := m_ref m + 1\<rparr>)\<rparr>"
  have nz: "path \<noteq> []" "hd path = slash" using p by (auto simp: mount_of_def split: if_splits)
  have "find_mount_loop (mount_at v) (mounts v) path = Some (Some p)"
    using find_mount_loop_ok [of "mounts v" "mount_at v" path] l p by (auto simp: linked_def mount_of_def split: if_splits)
  then have "find_mount v path = Some (Some (p, rest_path v p path), ?v)"
    using nz m small by (simp add: find_mount_def rest_path_def Let_def)
  moreover have "vfs_inv ?v M (e(p := 1))"
    using vfs_inv_count [OF inv m, of "e(p := 1)" "refs v M e p + 1"] r(1) e by (simp add: refs_def add.commute)
  ultimately show ?thesis using that m r(3) by blast
qed

section \<open>Taking and returning references\<close>

lemma no_users:
  assumes "linked v M" "users v p = 0" "files v h = Some x \<or> dirs v h = Some x" shows "h_mount x \<noteq> p"
proof -
  have "finite {h. \<exists>x. files v h = Some x \<and> h_mount x = p}" "finite {h. \<exists>x. dirs v h = Some x \<and> h_mount x = p}"
    using assms(1) unfolding linked_def by (auto elim!: finite_subset [rotated])
  then show ?thesis using assms(2,3) by (auto simp: users_def)
qed

lemma vfs_inv_free:
  assumes inv: "vfs_inv v M e" and m: "mount_at v p = Some m" and z: "refs v M (e(p := 0)) p = 0"
  shows "vfs_inv (v\<lparr>mounts := remove1 p (mounts v), mount_at := (mount_at v)(p := None)\<rparr>) M (e(p := 0))"
proof -
  let ?v = "v\<lparr>mounts := remove1 p (mounts v), mount_at := (mount_at v)(p := None)\<rparr>"
  have l: "linked v M" using inv by (simp add: vfs_inv_def)
  have "users v p = 0" "p \<notin> M" using z by (auto simp: refs_def)
  then have "linked ?v M" using l no_users [OF l] by (auto simp: linked_def)
  moreover have "refs v M (e(p := 0)) q = refs v M e q" if "q \<noteq> p" for q using that by (simp add: refs_def)
  ultimately show ?thesis using inv by (auto simp: vfs_inv_def counted_def)
qed

lemma put_mount_ok:
  assumes inv: "vfs_inv v M e" and few: "few v" and p: "p \<in> dom (mount_at v)" and e: "e p = Suc k" "k \<le> 1"
  obtains v' where "put_mount v p = Some v'" "vfs_inv v' M (e(p := k))" "files v' = files v" "dirs v' = dirs v"
    "refs v M (e(p := k)) p \<noteq> 0 \<Longrightarrow> mounts v' = mounts v \<and> dom (mount_at v') = dom (mount_at v)"
    "refs v M (e(p := k)) p = 0 \<Longrightarrow> mount_at v' p = None"
proof -
  obtain m where m: "mount_at v p = Some m" using p by auto
  note r = countedD [OF inv m]
  have rk: "refs v M e p = Suc (refs v M (e(p := k)) p)" using e by (simp add: refs_def)
  have small: "int16 (m_ref m - 1) = int (refs v M (e(p := k)) p)"
    using r(1) rk ref_small [OF inv few, of p] e by (simp add: int16_id in_int16_def)
  show ?thesis
  proof (cases "refs v M (e(p := k)) p = 0")
    case True
    then have k0: "k = 0" by (simp add: refs_def)
    obtain u where u: "api_unmount (m_api m) = Some u" using r(3) by (auto simp: driver_ok_def)
    let ?v = "v\<lparr>mounts := remove1 p (mounts v), mount_at := (mount_at v)(p := None), drv := snd (u (m_cookie m) (drv v))\<rparr>"
    have "put_mount v p = Some ?v" using m u small True by (simp add: put_mount_def Let_def split: prod.split)
    moreover have "vfs_inv ?v M (e(p := k))"
      using vfs_inv_free [OF inv m] True k0 by simp
    ultimately show ?thesis using that [of ?v] True by simp
  next
    case False
    let ?v = "v\<lparr>mount_at := (mount_at v)(p \<mapsto> m\<lparr>m_ref := int (refs v M (e(p := k)) p)\<rparr>)\<rparr>"
    have "put_mount v p = Some ?v" using m small False by (simp add: put_mount_def Let_def)
    moreover have "vfs_inv ?v M (e(p := k))" by (rule vfs_inv_count [OF inv m]) (use False in simp_all)
    ultimately show ?thesis using that [of ?v] False p by (auto simp: insert_absorb)
  qed
qed

text \<open>A reference held by an operation becomes that of a handle, and back.\<close>

lemma card_upd:
  assumes "finite (dom f)" "f h = None"
  shows "card {g. \<exists>x. (f(h \<mapsto> y)) g = Some x \<and> Q x} = card {g. \<exists>x. f g = Some x \<and> Q x} + of_bool (Q y)"
proof -
  have eq: "{g. \<exists>x. (f(h \<mapsto> y)) g = Some x \<and> Q x} = (if Q y then insert h else id) {g. \<exists>x. f g = Some x \<and> Q x}"
    using assms(2) by auto
  have "finite {g. \<exists>x. f g = Some x \<and> Q x}" using assms(1) by (auto elim!: finite_subset [rotated])
  then show ?thesis unfolding eq using assms(2) by simp
qed

definition add_file :: "'s vfs \<Rightarrow> ptr \<Rightarrow> fs_handle \<Rightarrow> 's vfs" where
  "add_file v h x = v\<lparr>files := (files v)(h \<mapsto> x)\<rparr>"

definition add_dir :: "'s vfs \<Rightarrow> ptr \<Rightarrow> fs_handle \<Rightarrow> 's vfs" where
  "add_dir v h x = v\<lparr>dirs := (dirs v)(h \<mapsto> x)\<rparr>"

lemma users_add:
  "finite (dom (files v)) \<Longrightarrow> files v h = None \<Longrightarrow> users (add_file v h x) q = users v q + of_bool (h_mount x = q)"
  "finite (dom (dirs v)) \<Longrightarrow> dirs v h = None \<Longrightarrow> users (add_dir v h x) q = users v q + of_bool (h_mount x = q)"
  using card_upd [of "files v" h x "\<lambda>x. h_mount x = q"] card_upd [of "dirs v" h x "\<lambda>x. h_mount x = q"]
  by (simp_all add: users_def add_file_def add_dir_def)

lemma handles_add:
  assumes "f h = None"
  shows "(\<forall>g y. (f(h \<mapsto> z)) g = Some y \<or> f' g = Some y \<longrightarrow> P y) = ((\<forall>g y. f g = Some y \<or> f' g = Some y \<longrightarrow> P y) \<and> P z)"
  using assms by (metis fun_upd_other fun_upd_same option.distinct(1) option.inject)

lemma vfs_inv_add:
  assumes p: "h_mount x = p" "p \<in> dom (mount_at v)" and e: "e' = e(p := Suc (e p))"
  shows "files v h = None \<Longrightarrow> vfs_inv v M e' = vfs_inv (add_file v h x) M e"
    "dirs v h = None \<Longrightarrow> vfs_inv v M e' = vfs_inv (add_dir v h x) M e"
proof -
  have fin: "linked v M \<Longrightarrow> finite (dom (files v)) \<and> finite (dom (dirs v))" by (simp add: linked_def)
  have la: "linked (add_file v h x) M = linked v M" if "files v h = None"
    using p that handles_add [of "files v" h x "dirs v" "\<lambda>y. h_mount y \<in> dom (mount_at v)"]
    by (simp add: linked_def add_file_def del: fun_upd_apply)
  have ld: "linked (add_dir v h x) M = linked v M" if "dirs v h = None"
    using p that handles_add [of "dirs v" h x "files v" "\<lambda>y. h_mount y \<in> dom (mount_at v)"]
    by (simp add: linked_def add_dir_def disj_commute del: fun_upd_apply)
  have ra: "refs (add_file v h x) M e q = refs v M e' q" if "files v h = None" "linked v M" for q
    using users_add(1) [of v h x q] fin that e p by (simp add: refs_def)
  have rd: "refs (add_dir v h x) M e q = refs v M e' q" if "dirs v h = None" "linked v M" for q
    using users_add(2) [of v h x q] fin that e p by (simp add: refs_def)
  show "vfs_inv v M e' = vfs_inv (add_file v h x) M e" if "files v h = None"
    using la [OF that] ra [OF that] by (auto simp: vfs_inv_def counted_def add_file_def)
  show "vfs_inv v M e' = vfs_inv (add_dir v h x) M e" if "dirs v h = None"
    using ld [OF that] rd [OF that] by (auto simp: vfs_inv_def counted_def add_dir_def)
qed

section \<open>The operations keep the counts\<close>

abbreviation vfs_ok :: "'s vfs \<Rightarrow> ptr set \<Rightarrow> bool" where
  "vfs_ok v M \<equiv> vfs_inv v M (\<lambda>_. 0)"

lemma no_extra [simp]: "(\<lambda>_. 0)(p := 0) = (\<lambda>_. 0 :: nat)"
  by auto

text \<open>A lookup in a consistent state, and the reference returned afterwards.\<close>

lemma on_path:
  assumes inv: "vfs_ok v M" "few v" and path: "NUL \<notin> set path"
    and none: "P (body None v)"
    and some: "\<And>p n m v1. \<lbrakk>mount_at v1 p = Some m; driver_ok (m_fs m); vfs_inv v1 M ((\<lambda>_. 0)(p := 1)); few v1;
      files v1 = files v; dirs v1 = dirs v\<rbrakk> \<Longrightarrow> P (body (Some (p, n)) v1)"
  shows "P (do { temppath \<leftarrow> temp_path path; (r, v) \<leftarrow> find_mount v temppath; body r v })"
proof -
  let ?p = "normal_path (take 127 path)"
  note tp = temp_path_eq [OF path]
  show ?thesis
  proof (cases "mount_of v ?p")
    case None
    then have "find_mount v ?p = Some (None, v)" using find_mount_none [of v M ?p] inv(1) by (simp add: vfs_inv_def)
    then show ?thesis using tp none by simp
  next
    case (Some p)
    obtain m v1 where w: "mount_at v p = Some m" "find_mount v ?p = Some (Some (p, rest_path v p ?p), v1)"
        "v1 = v\<lparr>mount_at := (mount_at v)(p \<mapsto> m\<lparr>m_ref := m_ref m + 1\<rparr>)\<rparr>" "vfs_inv v1 M ((\<lambda>_. 0)(p := 1))"
        "driver_ok (m_fs m)"
      by (rule find_mount_some [OF inv refl Some])
    have "P (body (Some (p, rest_path v p ?p)) v1)"
      by (rule some [of v1 p "m\<lparr>m_ref := m_ref m + 1\<rparr>"]) (use w inv(2) in simp_all)
    then show ?thesis using tp w(2) by simp
  qed
qed

lemma return_ok:
  assumes "vfs_inv v M ((\<lambda>_. 0)(p := 1))" "few v" "mount_at v p = Some m"
  obtains v' where "put_mount v p = Some v'" "vfs_ok v' M" "files v' = files v" "dirs v' = dirs v"
  using put_mount_ok [OF assms(1,2), of p 0] assms(3) by auto

lemma vfs_inv_files:
  assumes "vfs_inv v M ((\<lambda>_. 0)(h_mount x := 1))" "h_mount x \<in> dom (mount_at v)"
  shows "files v h = None \<Longrightarrow> vfs_ok (v\<lparr>files := (files v)(h \<mapsto> x)\<rparr>) M"
    "dirs v h = None \<Longrightarrow> vfs_ok (v\<lparr>dirs := (dirs v)(h \<mapsto> x)\<rparr>) M"
  using vfs_inv_add [of x "h_mount x" v "(\<lambda>_. 0)(h_mount x := 1)" "\<lambda>_. 0" h M] assms
  by (simp_all add: add_file_def add_dir_def)

text \<open>
  The outcome of an operation that returns a value, perhaps a handle and the state: it does not
  fault, and the counts are right again.  The handle \<open>h\<close>, if returned, was added to the files or
  to the directories.
\<close>

definition settled :: "'s vfs \<Rightarrow> ptr set \<Rightarrow> ('r \<times> 's vfs) option \<Rightarrow> bool" where
  "settled v M r \<longleftrightarrow> (\<exists>x v'. r = Some (x, v') \<and> vfs_ok v' M \<and> files v' = files v \<and> dirs v' = dirs v)"

definition opens_file :: "'s vfs \<Rightarrow> ptr set \<Rightarrow> ptr \<Rightarrow> (int \<times> ptr option \<times> 's vfs) option \<Rightarrow> bool" where
  "opens_file v M f r \<longleftrightarrow> (\<exists>n h v'. r = Some (n, h, v') \<and> vfs_ok v' M \<and> dirs v' = dirs v \<and>
     (case h of None \<Rightarrow> files v' = files v | Some f' \<Rightarrow> n = 0 \<and> f' = f \<and> (\<exists>x. files v' = (files v)(f \<mapsto> x))))"

definition opens_dir :: "'s vfs \<Rightarrow> ptr set \<Rightarrow> ptr \<Rightarrow> (int \<times> ptr option \<times> 's vfs) option \<Rightarrow> bool" where
  "opens_dir v M f r \<longleftrightarrow> (\<exists>n h v'. r = Some (n, h, v') \<and> vfs_ok v' M \<and> files v' = files v \<and>
     (case h of None \<Rightarrow> dirs v' = dirs v | Some f' \<Rightarrow> n = 0 \<and> f' = f \<and> (\<exists>x. dirs v' = (dirs v)(f \<mapsto> x))))"

lemma return_settled:
  assumes "mount_at v1 p = Some m" "vfs_inv v1 M ((\<lambda>_. 0)(p := 1))" "few v1" "files v1 = files v" "dirs v1 = dirs v"
  shows "\<exists>v'. put_mount (v1\<lparr>drv := s\<rparr>) p = Some v' \<and> vfs_ok v' M \<and> files v' = files v \<and> dirs v' = dirs v"
  using return_ok [of "v1\<lparr>drv := s\<rparr>" M p m] assms by auto

lemma return_same:
  assumes "mount_at v1 p = Some m" "vfs_inv v1 M ((\<lambda>_. 0)(p := 1))" "few v1" "files v1 = files v" "dirs v1 = dirs v"
  shows "\<exists>v'. put_mount v1 p = Some v' \<and> vfs_ok v' M \<and> files v' = files v \<and> dirs v' = dirs v"
  using return_ok [of v1 M p m] assms by auto

lemma fs_open_file_ok:
  assumes "vfs_ok v M" "few v" "NUL \<notin> set path" "f \<noteq> 0" "files v f = None"
  shows "opens_file v M f (fs_open_file v path f)"
  unfolding fs_open_file_def
proof (rule on_path [OF assms(1-3)], goal_cases)
  case 1
  then show ?case using assms(1) by (simp add: opens_file_def)
next
  case (2 p n m v1)
  obtain op where op: "api_open (m_api m) = Some op" using 2(2) by (auto simp: driver_ok_def)
  obtain err c s where o': "op (m_cookie m) n (drv v1) = (err, c, s)" by (metis prod_cases3)
  let ?x = "\<lparr>h_cookie = c, h_mount = p\<rparr>"
  have "vfs_ok (v1\<lparr>drv := s, files := (files v1)(f \<mapsto> ?x)\<rparr>) M"
    using vfs_inv_files(1) [of "v1\<lparr>drv := s\<rparr>" M ?x f] 2 assms(5) by auto
  then show ?case using return_settled [of v1 p m M v s] 2 op o' assms(4) by (auto simp: opens_file_def Let_def)
qed

lemma fs_create_file_ok:
  assumes "vfs_ok v M" "few v" "NUL \<notin> set path" "files v f = None"
  shows "opens_file v M f (fs_create_file v path len f)"
  unfolding fs_create_file_def
proof (rule on_path [OF assms(1-3)], goal_cases)
  case 1
  then show ?case using assms(1) by (simp add: opens_file_def)
next
  case (2 p n m v1)
  show ?case
  proof (cases "api_create (m_api m)")
    case None
    then show ?thesis using return_same [of v1 p m M v] 2 by (auto simp: opens_file_def Let_def)
  next
    case (Some create)
    obtain err c s where o': "create (m_cookie m) n len (drv v1) = (err, c, s)" by (metis prod_cases3)
    let ?x = "\<lparr>h_cookie = c, h_mount = p\<rparr>"
    have "vfs_ok (v1\<lparr>drv := s, files := (files v1)(f \<mapsto> ?x)\<rparr>) M"
      using vfs_inv_files(1) [of "v1\<lparr>drv := s\<rparr>" M ?x f] 2 assms(4) by auto
    then show ?thesis using return_settled [of v1 p m M v s] 2 Some o' by (auto simp: opens_file_def Let_def)
  qed
qed

lemma fs_open_dir_ok:
  assumes "vfs_ok v M" "few v" "NUL \<notin> set path" "dirs v d = None"
  shows "opens_dir v M d (fs_open_dir v path d)"
  unfolding fs_open_dir_def
proof (rule on_path [OF assms(1-3)], goal_cases)
  case 1
  then show ?case using assms(1) by (simp add: opens_dir_def)
next
  case (2 p n m v1)
  show ?case
  proof (cases "api_opendir (m_api m)")
    case None
    then show ?thesis using return_same [of v1 p m M v] 2 by (auto simp: opens_dir_def Let_def)
  next
    case (Some opendir)
    obtain err c s where o': "opendir (m_cookie m) n (drv v1) = (err, c, s)" by (metis prod_cases3)
    let ?x = "\<lparr>h_cookie = c, h_mount = p\<rparr>"
    have "vfs_ok (v1\<lparr>drv := s, dirs := (dirs v1)(d \<mapsto> ?x)\<rparr>) M"
      using vfs_inv_files(2) [of "v1\<lparr>drv := s\<rparr>" M ?x d] 2 assms(4) by auto
    then show ?thesis using return_settled [of v1 p m M v s] 2 Some o' by (auto simp: opens_dir_def Let_def)
  qed
qed

lemma fs_remove_file_ok:
  assumes "vfs_ok v M" "few v" "NUL \<notin> set path" shows "settled v M (fs_remove_file v path)"
  unfolding fs_remove_file_def
proof (rule on_path [OF assms], goal_cases)
  case 1
  then show ?case using assms(1) by (simp add: settled_def)
next
  case (2 p n m v1)
  show ?case
  proof (cases "api_remove (m_api m)")
    case None
    then show ?thesis using return_same [of v1 p m M v] 2 by (auto simp: settled_def)
  next
    case (Some f)
    obtain err s where "f (m_cookie m) n (drv v1) = (err, s)" by fastforce
    then show ?thesis using return_settled [of v1 p m M v s] 2 Some by (auto simp: settled_def)
  qed
qed

lemma fs_make_dir_ok:
  assumes "vfs_ok v M" "few v" "NUL \<notin> set path" shows "settled v M (fs_make_dir v path)"
  unfolding fs_make_dir_def
proof (rule on_path [OF assms], goal_cases)
  case 1
  then show ?case using assms(1) by (simp add: settled_def)
next
  case (2 p n m v1)
  show ?case
  proof (cases "api_mkdir (m_api m)")
    case None
    then show ?thesis using return_same [of v1 p m M v] 2 by (auto simp: settled_def)
  next
    case (Some f)
    obtain err s where "f (m_cookie m) n (drv v1) = (err, s)" by fastforce
    then show ?thesis using return_settled [of v1 p m M v s] 2 Some by (auto simp: settled_def)
  qed
qed

lemma put_mount_files:
  "put_mount v p = Some v' \<Longrightarrow> put_mount (v\<lparr>files := F, dirs := D\<rparr>) p = Some (v'\<lparr>files := F, dirs := D\<rparr>)"
  by (auto simp: put_mount_def Let_def split: bind_splits if_splits prod.splits)

text \<open>
  Closing: the structure is put, then the handle is freed.  The state \<open>w\<close> without the handle has
  the handle's reference as that of the operation.
\<close>

lemma put_without:
  assumes "vfs_inv w M ((\<lambda>_. 0)(p := 1))" "few w" "p \<in> dom (mount_at w)" "v = w\<lparr>files := F, dirs := D\<rparr>"
  shows "\<exists>w'. put_mount v p = Some (w'\<lparr>files := F, dirs := D\<rparr>) \<and> vfs_ok w' M \<and> files w' = files w \<and> dirs w' = dirs w"
proof -
  obtain m where "mount_at w p = Some m" using assms(3) by auto
  then obtain w' where w': "put_mount w p = Some w'" "vfs_ok w' M" "files w' = files w" "dirs w' = dirs w"
    using return_ok [OF assms(1,2)] by metis
  show ?thesis using put_mount_files [OF w'(1)] w' unfolding assms(4) by blast
qed

lemma drop_handle:
  assumes inv: "vfs_ok v M" "few v"
  shows "files v h = Some x \<Longrightarrow> vfs_inv (v\<lparr>files := (files v)(h := None)\<rparr>) M ((\<lambda>_. 0)(h_mount x := 1)) \<and>
      few (v\<lparr>files := (files v)(h := None)\<rparr>)"
    "dirs v h = Some x \<Longrightarrow> vfs_inv (v\<lparr>dirs := (dirs v)(h := None)\<rparr>) M ((\<lambda>_. 0)(h_mount x := 1)) \<and>
      few (v\<lparr>dirs := (dirs v)(h := None)\<rparr>)"
proof -
  have fin: "finite (dom (files v))" "finite (dom (dirs v))" using inv(1) by (simp_all add: vfs_inv_def linked_def)
  have e: "(\<lambda>_. 0)(h_mount x := 1) = (\<lambda>_. 0)(h_mount x := Suc ((\<lambda>_. 0) (h_mount x)))" by simp
  show "vfs_inv (v\<lparr>files := (files v)(h := None)\<rparr>) M ((\<lambda>_. 0)(h_mount x := 1)) \<and> few (v\<lparr>files := (files v)(h := None)\<rparr>)"
    if h: "files v h = Some x"
  proof -
    let ?w = "v\<lparr>files := (files v)(h := None)\<rparr>"
    have same: "add_file ?w h x = v" using h by (simp add: add_file_def fun_upd_idem)
    have p: "h_mount x \<in> dom (mount_at ?w)" using inv(1) h by (auto simp: vfs_inv_def linked_def)
    have "vfs_inv ?w M ((\<lambda>_. 0)(h_mount x := 1)) = vfs_ok v M"
      using vfs_inv_add(1) [OF refl p e, of h M] unfolding same by simp
    moreover have "card (dom (files ?w)) \<le> card (dom (files v))" by (rule card_mono) (use fin in auto)
    ultimately show ?thesis using inv by (simp add: few_def)
  qed
  show "vfs_inv (v\<lparr>dirs := (dirs v)(h := None)\<rparr>) M ((\<lambda>_. 0)(h_mount x := 1)) \<and> few (v\<lparr>dirs := (dirs v)(h := None)\<rparr>)"
    if h: "dirs v h = Some x"
  proof -
    let ?w = "v\<lparr>dirs := (dirs v)(h := None)\<rparr>"
    have same: "add_dir ?w h x = v" using h by (simp add: add_dir_def fun_upd_idem)
    have p: "h_mount x \<in> dom (mount_at ?w)" using inv(1) h by (auto simp: vfs_inv_def linked_def)
    have "vfs_inv ?w M ((\<lambda>_. 0)(h_mount x := 1)) = vfs_ok v M"
      using vfs_inv_add(2) [OF refl p e, of h M] unfolding same by simp
    moreover have "card (dom (dirs ?w)) \<le> card (dom (dirs v))" by (rule card_mono) (use fin in auto)
    ultimately show ?thesis using inv by (simp add: few_def)
  qed
qed

lemma put_close:
  assumes inv: "vfs_ok v M" "few v"
  shows "files v h = Some x \<Longrightarrow> \<exists>v'. put_mount v (h_mount x) = Some v' \<and> files v' = files v \<and> dirs v' = dirs v \<and>
      vfs_ok (v'\<lparr>files := (files v')(h := None)\<rparr>) M"
    "dirs v h = Some x \<Longrightarrow> \<exists>v'. put_mount v (h_mount x) = Some v' \<and> files v' = files v \<and> dirs v' = dirs v \<and>
      vfs_ok (v'\<lparr>dirs := (dirs v')(h := None)\<rparr>) M"
proof -
  have live: "h_mount x \<in> dom (mount_at v)" if "files v h = Some x \<or> dirs v h = Some x"
    using inv(1) that by (auto simp: vfs_inv_def linked_def)
  show "\<exists>v'. put_mount v (h_mount x) = Some v' \<and> files v' = files v \<and> dirs v' = dirs v \<and>
      vfs_ok (v'\<lparr>files := (files v')(h := None)\<rparr>) M" if h: "files v h = Some x"
  proof -
    obtain w' where w': "put_mount v (h_mount x) = Some (w'\<lparr>files := files v, dirs := dirs v\<rparr>)" "vfs_ok w' M"
        "files w' = (files v)(h := None)" "dirs w' = dirs v"
      using put_without [of "v\<lparr>files := (files v)(h := None)\<rparr>" M "h_mount x" v, where F = "files v" and D = "dirs v"]
        drop_handle(1) [OF inv h] live h by auto
    have "w'\<lparr>dirs := dirs v, files := (files v)(h := None)\<rparr> = w'" using w'(3,4) by simp
    then show ?thesis using w'(1,2) by simp
  qed
  show "\<exists>v'. put_mount v (h_mount x) = Some v' \<and> files v' = files v \<and> dirs v' = dirs v \<and>
      vfs_ok (v'\<lparr>dirs := (dirs v')(h := None)\<rparr>) M" if h: "dirs v h = Some x"
  proof -
    obtain w' where w': "put_mount v (h_mount x) = Some (w'\<lparr>files := files v, dirs := dirs v\<rparr>)" "vfs_ok w' M"
        "dirs w' = (dirs v)(h := None)" "files w' = files v"
      using put_without [of "v\<lparr>dirs := (dirs v)(h := None)\<rparr>" M "h_mount x" v, where F = "files v" and D = "dirs v"]
        drop_handle(2) [OF inv h] live h by auto
    have "w'\<lparr>files := files v, dirs := (dirs v)(h := None)\<rparr> = w'" using w'(3,4) by simp
    then show ?thesis using w'(1,2) by simp
  qed
qed

lemma handle_live:
  assumes "vfs_inv v M e" "files v h = Some x \<or> dirs v h = Some x"
  obtains m where "mount_at v (h_mount x) = Some m" "driver_ok (m_fs m)"
  using assms countedD(3) [OF assms(1)] by (fastforce simp: vfs_inv_def linked_def)

lemma fs_close_file_ok:
  assumes inv: "vfs_ok v M" "few v" and h: "files v h = Some x"
  shows "\<exists>r v'. fs_close_file v h = Some (r, v') \<and> vfs_ok v' M \<and> dirs v' = dirs v \<and>
    (r < 0 \<and> files v' = files v \<or> r = 0 \<and> files v' = (files v)(h := None))"
proof -
  obtain m where m: "mount_at v (h_mount x) = Some m" "driver_ok (m_fs m)" using handle_live [OF inv(1)] h by blast
  then obtain cl where cl: "api_close (m_api m) = Some cl" by (auto simp: driver_ok_def)
  obtain err s where c: "cl (h_cookie x) (drv v) = (err, s)" by fastforce
  show ?thesis
  proof (cases "err < 0")
    case True
    then show ?thesis using h m cl c inv(1) by (simp add: fs_close_file_def handle_mount_def)
  next
    case False
    obtain v' where "put_mount (v\<lparr>drv := s\<rparr>) (h_mount x) = Some v'" "files v' = files v" "dirs v' = dirs v"
        "vfs_ok (v'\<lparr>files := (files v')(h := None)\<rparr>) M"
      using put_close(1) [of "v\<lparr>drv := s\<rparr>" M h x] inv h by auto
    then show ?thesis using h m cl c False by (simp add: fs_close_file_def handle_mount_def)
  qed
qed

lemma fs_close_dir_ok:
  assumes inv: "vfs_ok v M" "few v" and h: "dirs v h = Some x"
  shows "\<exists>r v'. fs_close_dir v h = Some (r, v') \<and> vfs_ok v' M \<and> files v' = files v \<and>
    (r < 0 \<and> dirs v' = dirs v \<or> r = 0 \<and> dirs v' = (dirs v)(h := None))"
proof -
  obtain m where m: "mount_at v (h_mount x) = Some m" using handle_live [OF inv(1)] h by blast
  show ?thesis
  proof (cases "api_closedir (m_api m)")
    case None
    then show ?thesis using h m inv(1) by (simp add: fs_close_dir_def handle_mount_def)
  next
    case (Some cl)
    obtain err s where c: "cl (h_cookie x) (drv v) = (err, s)" by fastforce
    show ?thesis
    proof (cases "err < 0")
      case True
      then show ?thesis using h m Some c inv(1) by (simp add: fs_close_dir_def handle_mount_def)
    next
      case False
      obtain v' where "put_mount (v\<lparr>drv := s\<rparr>) (h_mount x) = Some v'" "files v' = files v" "dirs v' = dirs v"
          "vfs_ok (v'\<lparr>dirs := (dirs v')(h := None)\<rparr>) M"
        using put_close(2) [of "v\<lparr>drv := s\<rparr>" M h x] inv h by auto
      then show ?thesis using h m Some c False by (simp add: fs_close_dir_def handle_mount_def)
    qed
  qed
qed

text \<open>Unmounting gives back the reference of the mount itself.\<close>

lemma vfs_inv_unmounted:
  assumes "vfs_inv v M e" "p \<in> M" shows "vfs_inv v (M - {p}) (e(p := Suc (e p)))"
proof -
  have "refs v (M - {p}) (e(p := Suc (e p))) q = refs v M e q" for q using assms(2) by (simp add: refs_def)
  then show ?thesis using assms(1) by (auto simp: vfs_inv_def counted_def linked_def)
qed

lemma fs_unmount_ok:
  assumes inv: "vfs_ok v M" "few v" and path: "NUL \<notin> set path"
    and m: "mount_of v (normal_path (take 127 path)) = Some p" "p \<in> M"
  shows "\<exists>v'. fs_unmount v path = Some (0, v') \<and> vfs_ok v' (M - {p}) \<and> files v' = files v \<and> dirs v' = dirs v"
proof -
  let ?p = "normal_path (take 127 path)"
  obtain m v1 where w: "mount_at v p = Some m" "find_mount v ?p = Some (Some (p, rest_path v p ?p), v1)"
      "v1 = v\<lparr>mount_at := (mount_at v)(p \<mapsto> m\<lparr>m_ref := m_ref m + 1\<rparr>)\<rparr>" "vfs_inv v1 M ((\<lambda>_. 0)(p := 1))"
    by (rule find_mount_some [OF inv refl m(1)])
  have v1: "vfs_inv v1 (M - {p}) ((\<lambda>_. 0)(p := 2))" "few v1" "p \<in> dom (mount_at v1)"
    using vfs_inv_unmounted [OF w(4) m(2)] inv(2) w(3) by (simp_all add: numeral_2_eq_2)
  have pos: "refs v1 (M - {p}) ((\<lambda>_. 0)(p := 1)) p \<noteq> 0" by (simp add: refs_def)
  obtain v2 where v2: "put_mount v1 p = Some v2" "vfs_inv v2 (M - {p}) ((\<lambda>_. 0)(p := 1))" "files v2 = files v1" "dirs v2 = dirs v1"
      "dom (mount_at v2) = dom (mount_at v1)"
    by (rule put_mount_ok [OF v1, of 1]) (use pos in auto)
  have "few v2" using v1(2) v2(3,4) by (simp add: few_def)
  then obtain v3 where "put_mount v2 p = Some v3" "vfs_ok v3 (M - {p})" "files v3 = files v2" "dirs v3 = dirs v2"
    using return_ok [OF v2(2)] v1(3) v2(5) by (metis domD)
  then show ?thesis using temp_path_eq [OF path] w(2,3) v2 by (simp add: fs_unmount_def)
qed

lemma vfs_inv_mounted:
  assumes inv: "vfs_ok v M" and p: "p \<notin> dom (mount_at v)" and ok: "driver_ok fs"
  shows "vfs_ok (v\<lparr>mounts := p # mounts v,
    mount_at := (mount_at v)(p \<mapsto> \<lparr>m_path = path, m_dev = dev, m_cookie = c, m_ref = 1, m_fs = fs\<rparr>)\<rparr>) (insert p M)"
proof -
  have l: "linked v M" using inv by (simp add: vfs_inv_def)
  have "{h. \<exists>x. files v h = Some x \<and> h_mount x = p} = {}" "{h. \<exists>x. dirs v h = Some x \<and> h_mount x = p} = {}"
    using l p by (auto simp: linked_def)
  then have "users v p = 0" by (simp only: users_def card.empty)
  then have rp: "refs v (insert p M) (\<lambda>_. 0) p = 1" by (simp add: refs_def)
  have "refs v (insert p M) (\<lambda>_. 0) q = refs v M (\<lambda>_. 0) q" if "q \<noteq> p" for q using that by (simp add: refs_def)
  moreover have "linked (v\<lparr>mounts := p # mounts v, mount_at := (mount_at v)(p \<mapsto> y)\<rparr>) (insert p M)" for y
    using l p by (auto simp: linked_def)
  ultimately show ?thesis using inv rp ok by (auto simp: vfs_inv_def counted_def)
qed

lemma fs_mount_ok:
  assumes inv: "vfs_ok v M" "few v" and path: "NUL \<notin> set path" and p: "p \<notin> dom (mount_at v)"
  shows "\<exists>r v'. fs_mount v path name dev p q = Some (r, v') \<and> vfs_ok v' (if r = 0 then insert p M else M) \<and>
    files v' = files v \<and> dirs v' = dirs v"
proof (cases "find_fs v name")
  case None
  then show ?thesis using inv by (simp add: fs_mount_def)
next
  case (Some fs)
  then have mem: "fs \<in> set (fs_table v)" by (auto simp: find_fs_def find_Some_iff in_set_conv_nth)
  then have ok: "driver_ok fs" using inv(1) by (auto simp: vfs_inv_def linked_def list_all_iff)
  let ?p = "normal_path (take 127 path)"
  have tp: "temp_path path = Some ?p" by (rule temp_path_eq [OF path])
  show ?thesis
  proof (cases "?p = [] \<or> hd ?p \<noteq> slash")
    case True
    then show ?thesis using tp Some inv by (auto simp: fs_mount_def mount_def)
  next
    case False
    show ?thesis
    proof (cases "mount_of v ?p")
      case None
      then have f: "find_mount v ?p = Some (None, v)" using find_mount_none inv(1) by (auto simp: vfs_inv_def)
      obtain mnt where m: "api_mount (fs_ops fs) = Some mnt" using ok by (auto simp: driver_ok_def)
      show ?thesis
      proof (cases "open_device v dev")
        case (Inl err)
        then have "err \<noteq> 0" by (auto simp: open_device_def split: option.splits if_splits)
        then show ?thesis using tp Some f False Inl inv by (simp add: fs_mount_def mount_def)
      next
        case (Inr d)
        obtain err c s where r: "mnt d (drv v) = (err, c, s)" by (metis prod_cases3)
        show ?thesis
          using tp Some f False Inr m r inv vfs_inv_mounted [of "v\<lparr>drv := s\<rparr>" M p fs ?p d c] p ok
          by (auto simp: fs_mount_def mount_def Let_def)
      qed
    next
      case (Some m)
      obtain mm v1 where w: "mount_at v m = Some mm" "find_mount v ?p = Some (Some (m, rest_path v m ?p), v1)"
          "v1 = v\<lparr>mount_at := (mount_at v)(m \<mapsto> mm\<lparr>m_ref := m_ref mm + 1\<rparr>)\<rparr>" "vfs_inv v1 M ((\<lambda>_. 0)(m := 1))"
        by (rule find_mount_some [OF inv refl Some])
      then obtain v2 where "put_mount v1 m = Some v2" "vfs_ok v2 M" "files v2 = files v" "dirs v2 = dirs v"
        using return_same [of v1 m _ M v] inv(2) by auto
      then show ?thesis using tp \<open>find_fs v name = Some fs\<close> w(2) False by (simp add: fs_mount_def mount_def)
    qed
  qed
qed

section \<open>Runs\<close>

text \<open>
  Any sequence of the operations from boot: new objects at addresses that are not in use, at most
  \<open>MAX_HANDLES\<close> handles open at a time, and \<^verbatim>\<open>fs_unmount\<close> called once for a mount (\<open>M\<close> holds those that
  were not unmounted yet).
\<close>

inductive vfs_run :: "'s vfs \<Rightarrow> ptr set \<Rightarrow> bool" where
  boot: "\<lbrakk>list_all driver_ok (fs_table v); mounts v = []; mount_at v = Map.empty; files v = Map.empty; dirs v = Map.empty\<rbrakk>
    \<Longrightarrow> vfs_run v {}"
| mount: "\<lbrakk>vfs_run v M; few v; NUL \<notin> set path; p \<notin> dom (mount_at v); fs_mount v path name dev p q = Some (r, v')\<rbrakk>
    \<Longrightarrow> vfs_run v' (if r = 0 then insert p M else M)"
| unmount: "\<lbrakk>vfs_run v M; few v; NUL \<notin> set path; mount_of v (normal_path (take 127 path)) = Some p; p \<in> M;
      fs_unmount v path = Some (r, v')\<rbrakk> \<Longrightarrow> vfs_run v' (M - {p})"
| open_file: "\<lbrakk>vfs_run v M; few v; NUL \<notin> set path; f \<noteq> 0; files v f = None; fs_open_file v path f = Some (r, h, v')\<rbrakk>
    \<Longrightarrow> vfs_run v' M"
| create: "\<lbrakk>vfs_run v M; few v; NUL \<notin> set path; files v f = None; fs_create_file v path len f = Some (r, h, v')\<rbrakk>
    \<Longrightarrow> vfs_run v' M"
| open_dir: "\<lbrakk>vfs_run v M; few v; NUL \<notin> set path; dirs v f = None; fs_open_dir v path f = Some (r, h, v')\<rbrakk>
    \<Longrightarrow> vfs_run v' M"
| close_file: "\<lbrakk>vfs_run v M; few v; files v h = Some x; fs_close_file v h = Some (r, v')\<rbrakk> \<Longrightarrow> vfs_run v' M"
| close_dir: "\<lbrakk>vfs_run v M; few v; dirs v h = Some x; fs_close_dir v h = Some (r, v')\<rbrakk> \<Longrightarrow> vfs_run v' M"
| remove: "\<lbrakk>vfs_run v M; few v; NUL \<notin> set path; fs_remove_file v path = Some (r, v')\<rbrakk> \<Longrightarrow> vfs_run v' M"
| make_dir: "\<lbrakk>vfs_run v M; few v; NUL \<notin> set path; fs_make_dir v path = Some (r, v')\<rbrakk> \<Longrightarrow> vfs_run v' M"
| transfer: "vfs_run v M \<Longrightarrow> vfs_run (v\<lparr>drv := s\<rparr>) M"

lemma vfs_run_ok: "vfs_run v M \<Longrightarrow> vfs_ok v M"
proof (induction rule: vfs_run.induct)
  case (boot v)
  then show ?case by (simp add: vfs_inv_def linked_def counted_def)
next
  case (mount v M path p name dev q r v')
  then show ?case using fs_mount_ok [of v M path p name dev q] by auto
next
  case (unmount v M path p r v')
  then show ?case using fs_unmount_ok [of v M path p] by auto
next
  case (open_file v M path f r h v')
  then show ?case using fs_open_file_ok [of v M path f] by (auto simp: opens_file_def)
next
  case (create v M path f len r h v')
  then show ?case using fs_create_file_ok [of v M path f len] by (auto simp: opens_file_def)
next
  case (open_dir v M path f r h v')
  then show ?case using fs_open_dir_ok [of v M path f] by (auto simp: opens_dir_def)
next
  case (close_file v M h x r v')
  then show ?case using fs_close_file_ok [of v M h x] by auto
next
  case (close_dir v M h x r v')
  then show ?case using fs_close_dir_ok [of v M h x] by auto
next
  case (remove v M path r v')
  then show ?case using fs_remove_file_ok [of v M path] by (auto simp: settled_def)
next
  case (make_dir v M path r v')
  then show ?case using fs_make_dir_ok [of v M path] by (auto simp: settled_def)
qed simp

section \<open>Properties\<close>



text \<open>
  \<^verbatim>\<open>find_mount\<close> in a run: an absolute path goes to the most recently mounted path that is a prefix
  of it ending at a separator, and the path passed on to the driver is the rest (\<^verbatim>\<open>/\<close> when nothing is
  left); a path that is not absolute, or under no mount point, goes nowhere.
\<close>

theorem find_mount_prefix:
  assumes "vfs_run v M" "few v"
  shows "case find_mount v path of
      None \<Rightarrow> False
    | Some (None, v') \<Rightarrow> v' = v \<and> (hd path = slash \<and> path \<noteq> [] \<longrightarrow>
        (\<forall>p \<in> set (mounts v). \<forall>rest. path = m_path (the (mount_at v p)) @ rest \<longrightarrow> rest \<noteq> [] \<and> hd rest \<noteq> slash))
    | Some (Some (p, rest), v') \<Rightarrow> hd path = slash \<and> (\<exists>later earlier tl. mounts v = later @ p # earlier \<and>
        (\<forall>q \<in> set later. \<not> mount_matches (m_path (the (mount_at v q))) path) \<and>
        path = m_path (the (mount_at v p)) @ tl \<and> (tl = [] \<or> hd tl = slash) \<and> rest = (if tl = [] then [slash] else tl))"
proof -
  have ok: "vfs_ok v M" by (rule vfs_run_ok [OF assms(1)])
  have l: "linked v M" using ok by (simp add: vfs_inv_def)
  show ?thesis
  proof (cases "mount_of v path")
    case None
    then have "find_mount v path = Some (None, v)" by (rule find_mount_none [OF l])
    moreover have "\<forall>p \<in> set (mounts v). \<not> mount_matches (m_path (the (mount_at v p))) path" if "hd path = slash" "path \<noteq> []"
      using None that by (auto simp: mount_of_def find_None_iff)
    ultimately show ?thesis using mount_matches_append by auto
  next
    case (Some p)
    obtain v' where f: "find_mount v path = Some (Some (p, rest_path v p path), v')"
      using find_mount_some [OF ok assms(2) refl Some] by metis
    have fd: "find (\<lambda>p. mount_matches (m_path (the (mount_at v p))) path) (mounts v) = Some p" "hd path = slash"
      using Some by (auto simp: mount_of_def split: if_splits)
    then obtain i where i: "i < length (mounts v)" "mount_matches (m_path (the (mount_at v p))) path" "p = mounts v ! i"
        "\<forall>j < i. \<not> mount_matches (m_path (the (mount_at v (mounts v ! j)))) path"
      by (auto simp: find_Some_iff)
    have "mounts v = take i (mounts v) @ p # drop (Suc i) (mounts v)" using i(1,3) by (simp add: id_take_nth_drop)
    moreover have "\<forall>q \<in> set (take i (mounts v)). \<not> mount_matches (m_path (the (mount_at v q))) path"
      using i(1,4) by (auto simp: in_set_conv_nth)
    moreover let ?tl = "drop (length (m_path (the (mount_at v p)))) path"
    have "path = m_path (the (mount_at v p)) @ ?tl" "?tl = [] \<or> hd ?tl = slash"
      using i(2) append_take_drop_id [of "length (m_path (the (mount_at v p)))" path] by (auto simp: mount_matches_def Let_def)
    ultimately have "\<exists>later earlier tl. mounts v = later @ p # earlier \<and>
        (\<forall>q \<in> set later. \<not> mount_matches (m_path (the (mount_at v q))) path) \<and>
        path = m_path (the (mount_at v p)) @ tl \<and> (tl = [] \<or> hd tl = slash) \<and>
        rest_path v p path = (if tl = [] then [slash] else tl)"
      unfolding rest_path_def Let_def by blast
    then show ?thesis unfolding f using fd(2) by simp
  qed
qed

text \<open>
  A second \<^verbatim>\<open>fs_unmount\<close> of a path whose mount is only kept by an open file takes the reference of
  that file: the structure is freed under the handle, and closing the file is then an access to
  freed memory.
\<close>

theorem fs_unmount_twice:
  assumes run: "vfs_run v M" "few v" and path: "NUL \<notin> set path"
    and p: "mount_of v (normal_path (take 127 path)) = Some p" "p \<notin> M"
    and h: "files v h = Some x" "h_mount x = p" "users v p = 1"
  shows "\<exists>v'. fs_unmount v path = Some (0, v') \<and> files v' h = Some x \<and> fs_close_file v' h = None"
proof -
  let ?p = "normal_path (take 127 path)"
  note ok = vfs_run_ok [OF run(1)]
  obtain m v1 where w: "mount_at v p = Some m" "find_mount v ?p = Some (Some (p, rest_path v p ?p), v1)"
      "v1 = v\<lparr>mount_at := (mount_at v)(p \<mapsto> m\<lparr>m_ref := m_ref m + 1\<rparr>)\<rparr>" "driver_ok (m_fs m)"
    by (rule find_mount_some [OF ok run(2) refl p(1)])
  have one: "m_ref m = 1" using countedD(1) [OF ok w(1)] h(3) p(2) by (simp add: refs_def)
  obtain u where u: "api_unmount (m_api m) = Some u" using w(4) by (auto simp: driver_ok_def)
  have i: "int16 1 = 1" "int16 0 = 0" by (simp_all add: in_int16_def)
  have same: "m\<lparr>m_ref := 1\<rparr> = m" using one by simp
  have "put_mount v1 p = Some (v1\<lparr>mount_at := (mount_at v)(p \<mapsto> m)\<rparr>)"
    using w(3) one i by (simp add: put_mount_def Let_def same)
  moreover obtain v2 where "put_mount (v1\<lparr>mount_at := (mount_at v)(p \<mapsto> m)\<rparr>) p = Some v2" "mount_at v2 p = None" "files v2 = files v"
    using u one i w(3) by (cases "u (m_cookie m) (drv v)") (auto simp: put_mount_def Let_def)
  ultimately show ?thesis
    using temp_path_eq [OF path] w(2) h by (auto simp: fs_unmount_def fs_close_file_def handle_mount_def)
qed

section \<open>A sample run\<close>

text \<open>A driver with the required functions only, all of which succeed.\<close>

definition sample_fs :: "unit fs" where
  "sample_fs = \<lparr>fs_name = ''sample'', fs_ops = \<lparr>api_format = None, api_fs_stat = None,
     api_mount = Some (\<lambda>_ s. (0, 1, s)), api_unmount = Some (\<lambda>_ s. (0, s)),
     api_open = Some (\<lambda>_ _ s. (0, 2, s)), api_create = None, api_remove = None, api_truncate = None,
     api_stat = Some (\<lambda>_ s. (0, \<lparr>is_dir = False, stat_size = 0, capacity = 0\<rparr>, s)),
     api_read = Some (\<lambda>_ buf _ _ s. (0, buf, s)), api_write = None, api_close = Some (\<lambda>_ s. (0, s)),
     api_mkdir = None, api_opendir = None, api_readdir = None, api_closedir = None\<rparr>\<rparr>"

definition sample_mount :: "unit fs_mount_struct" where
  "sample_mount = \<lparr>m_path = ''/a'', m_dev = None, m_cookie = 1, m_ref = 1, m_fs = sample_fs\<rparr>"

definition vfs0 :: "unit vfs" where
  "vfs0 = \<lparr>mounts = [], mount_at = Map.empty, files = Map.empty, dirs = Map.empty, fs_table = [sample_fs], disks = [], drv = ()\<rparr>"

definition vfs1 :: "unit vfs" where
  "vfs1 = vfs0\<lparr>mounts := [100], mount_at := [100 \<mapsto> sample_mount]\<rparr>"

definition vfs2 :: "unit vfs" where
  "vfs2 = vfs1\<lparr>mount_at := [100 \<mapsto> sample_mount\<lparr>m_ref := 2\<rparr>], files := [200 \<mapsto> \<lparr>h_cookie = 2, h_mount = 100\<rparr>]\<rparr>"

definition vfs3 :: "unit vfs" where
  "vfs3 = vfs2\<lparr>mount_at := [100 \<mapsto> sample_mount]\<rparr>"

lemma sample_paths: "normal_path (take 127 ''/a'') = ''/a''" "normal_path (take 127 ''/a/f'') = ''/a/f''"
  by (simp_all add: normal_path_def resolve_def join_fields_def)

lemma sample_temp: "temp_path ''/a'' = Some ''/a''" "temp_path ''/a/f'' = Some ''/a/f''"
  using temp_path_eq [of "''/a''"] temp_path_eq [of "''/a/f''"] sample_paths by simp_all

lemmas sample_defs = vfs0_def vfs1_def vfs2_def vfs3_def sample_mount_def sample_fs_def

lemma sample_few: "few vfs0" "few vfs1" "few vfs2" "few vfs3"
  by (simp_all add: few_def MAX_HANDLES_def sample_defs)

lemma sample_int16: "int16 0 = 0" "int16 1 = 1" "int16 2 = 2" "int16 3 = 3"
  by (simp_all add: in_int16_def)

lemma sample_steps:
  "fs_mount vfs0 ''/a'' ''sample'' None 100 101 = Some (0, vfs1)"
  "fs_open_file vfs1 ''/a/f'' 200 = Some (0, Some 200, vfs2)"
  "fs_unmount vfs2 ''/a'' = Some (0, vfs3)"
  by (simp_all add: fs_mount_def find_fs_def mount_def fs_open_file_def fs_unmount_def find_mount_def put_mount_def
      mount_matches_def open_device_def sample_temp sample_defs sample_int16 fun_upd_idem)

lemma sample_run: "vfs_run vfs0 {}" "vfs_run vfs1 {100}" "vfs_run vfs2 {100}" "vfs_run vfs3 {}"
proof -
  show r0: "vfs_run vfs0 {}" by (rule vfs_run.boot) (simp_all add: sample_defs driver_ok_def)
  show r1: "vfs_run vfs1 {100}"
    using vfs_run.mount [OF r0 sample_few(1) _ _ sample_steps(1)] by (simp add: vfs0_def)
  show r2: "vfs_run vfs2 {100}"
    by (rule vfs_run.open_file [OF r1 sample_few(2) _ _ _ sample_steps(2)]) (simp_all add: sample_defs)
  have "mount_of vfs2 (normal_path (take 127 ''/a'')) = Some 100"
    unfolding sample_paths by (simp add: mount_of_def mount_matches_def sample_defs)
  then show "vfs_run vfs3 {}" using vfs_run.unmount [OF r2 sample_few(3) _ _ _ sample_steps(3), of 100] by simp
qed



theorem find_mount_prefix_witness: "case find_mount vfs2 ''/ab'' of Some (None, v') \<Rightarrow> v' = vfs2 | _ \<Rightarrow> False"
  using find_mount_prefix [OF sample_run(3) sample_few(3), of "''/ab''"]
  by (simp add: find_mount_def mount_matches_def sample_defs)

theorem fs_unmount_twice_witness: "\<exists>v'. fs_unmount vfs3 ''/a'' = Some (0, v') \<and> fs_close_file v' 200 = None"
proof -
  have "mount_of vfs3 (normal_path (take 127 ''/a'')) = Some 100"
    unfolding sample_paths by (simp add: mount_of_def mount_matches_def sample_defs)
  moreover have "users vfs3 100 = 1" by (simp add: users_def sample_defs)
  ultimately show ?thesis
    using fs_unmount_twice [OF sample_run(4) sample_few(4), of "''/a''" 100 200] by (auto simp: sample_defs)
qed

end
