(* ===== verification/Syscall_Fs.thy ===== *)
theory Syscall_Fs
  imports Fs Scheduler
begin

text \<open>
  The file system calls (\<^verbatim>\<open>kernel/syscall_fs.c\<close>): the descriptors of the running task on top of the
  handles of the virtual file system.  The state is the scheduler's and the file system's; an
  operation is \<open>None\<close> where one of the calls it makes faults, or where there is no running task.

  The invariant ties the two components together: every descriptor of every task refers to an open
  handle, and no two descriptors share one.  It is kept by the system calls of any task and by the
  steps of the scheduler between them.
\<close>

record 's fsys =
  f_sched :: sched
  f_vfs :: "'s vfs"

definition cur_task :: "('s, 'z) fsys_scheme \<Rightarrow> task option" where
  "cur_task k = tasks (f_sched k) (scheduler_current (f_sched k))"

definition set_cur_task :: "task \<Rightarrow> ('s, 'z) fsys_scheme \<Rightarrow> ('s, 'z) fsys_scheme" where
  "set_cur_task t k =
     k\<lparr>f_sched := (f_sched k)\<lparr>tasks := (tasks (f_sched k))(scheduler_current (f_sched k) \<mapsto> t)\<rparr>\<rparr>"

text \<open>\<open>f\<close> is the allocation of the handle, \<open>alloc\<close> tells whether that of the descriptor table succeeds.\<close>

definition sys_open :: "bool \<Rightarrow> ptr \<Rightarrow> string \<Rightarrow> int \<Rightarrow> int \<Rightarrow> ('s, 'z) fsys_scheme \<Rightarrow> (int \<times> ('s, 'z) fsys_scheme) option" where
  "sys_open alloc f pathname flags mode k =
     do { (ret, fh, v) \<leftarrow> fs_open_file (f_vfs k) pathname f;
          let k = k\<lparr>f_vfs := v\<rparr>;
          if ret < 0 then Some (ret, k)
          else do {
            h \<leftarrow> fh;
            t \<leftarrow> cur_task k;
            (ret, t) \<leftarrow> task_put_desc alloc t DESC_FILE h;
            let k = set_cur_task t k;
            if ret < 0
            then do { (_, v) \<leftarrow> fs_close_file (f_vfs k) h; Some (ret, k\<lparr>f_vfs := v\<rparr>) }
            else Some (ret, k) } }"

text \<open>The buffer is its contents before the call; the result has the contents after it.\<close>

definition sys_read :: "int \<Rightarrow> u8 list \<Rightarrow> u16 \<Rightarrow> ('s, 'z) fsys_scheme \<Rightarrow> (int \<times> u8 list \<times> ('s, 'z) fsys_scheme) option" where
  "sys_read fd buf count k =
     do { current \<leftarrow> cur_task k;
          d \<leftarrow> task_get_desc current fd;
          case d of
            None \<Rightarrow> Some (ERR_INVAL, buf, k)
          | Some desc \<Rightarrow>
              if desc_type desc \<noteq> DESC_FILE then Some (ERR_NOT_SUPP, buf, k)
              else do { (r, buf, v) \<leftarrow> fs_read_file (f_vfs k) (handle desc) buf 0 count; Some (r, buf, k\<lparr>f_vfs := v\<rparr>) } }"

definition sys_write :: "int \<Rightarrow> u8 list \<Rightarrow> u16 \<Rightarrow> ('s, 'z) fsys_scheme \<Rightarrow> (int \<times> ('s, 'z) fsys_scheme) option" where
  "sys_write fd buf count k =
     do { current \<leftarrow> cur_task k;
          d \<leftarrow> task_get_desc current fd;
          case d of
            None \<Rightarrow> Some (ERR_INVAL, k)
          | Some desc \<Rightarrow>
              if desc_type desc \<noteq> DESC_FILE then Some (ERR_NOT_SUPP, k)
              else do { (r, v) \<leftarrow> fs_write_file (f_vfs k) (handle desc) buf 0 count; Some (r, k\<lparr>f_vfs := v\<rparr>) } }"

definition sys_close :: "int \<Rightarrow> ('s, 'z) fsys_scheme \<Rightarrow> (int \<times> ('s, 'z) fsys_scheme) option" where
  "sys_close fd k =
     do { current \<leftarrow> cur_task k;
          d \<leftarrow> task_get_desc current fd;
          case d of
            None \<Rightarrow> Some (ERR_INVAL, k)
          | Some desc \<Rightarrow>
              (case desc_type desc of
                 DESC_FILE \<Rightarrow> do { (_, v) \<leftarrow> fs_close_file (f_vfs k) (handle desc);
                                t \<leftarrow> task_reset_desc current fd;
                                Some (0, set_cur_task t (k\<lparr>f_vfs := v\<rparr>)) }
               | DESC_DIR \<Rightarrow> do { (_, v) \<leftarrow> fs_close_dir (f_vfs k) (handle desc);
                               t \<leftarrow> task_reset_desc current fd;
                               Some (0, set_cur_task t (k\<lparr>f_vfs := v\<rparr>)) }
               | _ \<Rightarrow> Some (ERR_NOT_SUPP, k)) }"

text \<open>\<open>p\<close> and \<open>q\<close> are the allocations of the mount structure and of its path.\<close>

definition sys_mount :: "ptr \<Rightarrow> ptr \<Rightarrow> string option \<Rightarrow> string \<Rightarrow> string \<Rightarrow> ('s, 'z) fsys_scheme \<Rightarrow> (int \<times> ('s, 'z) fsys_scheme) option" where
  "sys_mount p q source target filesystemtype k =
     do { (r, v) \<leftarrow> fs_mount (f_vfs k) target filesystemtype source p q; Some (r, k\<lparr>f_vfs := v\<rparr>) }"

section \<open>Open descriptors\<close>

definition open_fds :: "(ptr \<Rightarrow> descriptor list option option) \<Rightarrow> (ptr \<times> nat \<times> descriptor) set" where
  "open_fds D = {(p, i, d). \<exists>ds. D p = Some (Some ds) \<and> i < length ds \<and> d = ds ! i \<and> desc_type d \<noteq> DESC_UNSET}"

text \<open>The descriptor tables of the tasks.\<close>

definition tables :: "sched \<Rightarrow> ptr \<Rightarrow> descriptor list option option" where
  "tables s p = map_option descriptors (tasks s p)"

definition desc_live :: "'s vfs \<Rightarrow> descriptor \<Rightarrow> bool" where
  "desc_live v d \<longleftrightarrow> desc_type d = DESC_FILE \<and> handle d \<in> dom (files v) \<or> desc_type d = DESC_DIR \<and> handle d \<in> dom (dirs v)"

definition fds_ok :: "(ptr \<Rightarrow> descriptor list option option) \<Rightarrow> 's vfs \<Rightarrow> bool" where
  "fds_ok D v \<longleftrightarrow> (\<forall>x \<in> open_fds D. desc_live v (snd (snd x))) \<and> inj_on (\<lambda>x. snd (snd x)) (open_fds D) \<and>
     (\<forall>p ds. D p = Some (Some ds) \<longrightarrow> length ds = length calloc_descriptors)"

lemma length_calloc [simp]: "length calloc_descriptors = 8"
  by (simp add: calloc_descriptors_def MAX_FD_def sizeof_desc_t_def sizeof_descriptor_def)

lemma tables_cur: "cur_task k = Some t \<Longrightarrow>
    tables (f_sched (set_cur_task t' k)) = (tables (f_sched k))(current (f_sched k) := Some (descriptors t'))"
  by (auto simp: tables_def set_cur_task_def scheduler_current_def)

lemma fds_put:
  assumes ok: "fds_ok D v" and D: "D p = Some None \<and> ds = calloc_descriptors \<or> D p = Some (Some ds)"
    and i: "i < length ds" "desc_type (ds ! i) = DESC_UNSET"
    and d: "desc_live v d" "d \<notin> (\<lambda>x. snd (snd x)) ` open_fds D"
  shows "fds_ok (D(p \<mapsto> Some (ds[i := d]))) v"
proof -
  have n: "desc_type d \<noteq> DESC_UNSET" using d(1) by (auto simp: desc_live_def)
  have c: "desc_type (calloc_descriptors ! j) = DESC_UNSET" if "j < 8" for j
    using that by (simp add: calloc_descriptors_def zero_descriptor_def MAX_FD_def sizeof_desc_t_def sizeof_descriptor_def)
  have "open_fds (D(p \<mapsto> Some (ds[i := d]))) = insert (p, i, d) (open_fds D)"
    unfolding open_fds_def using D i n c by (auto simp: nth_list_update split: if_splits)
  moreover have "length ds = 8" using D ok by (auto simp: fds_ok_def)
  ultimately show ?thesis using ok d by (auto simp: fds_ok_def)
qed

lemma fds_reset:
  assumes ok: "fds_ok D v" and D: "D p = Some (Some ds)" and i: "i < length ds" "ds ! i = d"
    and v': "\<And>e. desc_live v e \<Longrightarrow> e \<noteq> d \<Longrightarrow> desc_live v' e"
  shows "fds_ok (D(p \<mapsto> Some (ds[i := d\<lparr>desc_type := DESC_UNSET\<rparr>]))) v'"
proof -
  let ?D = "D(p \<mapsto> Some (ds[i := d\<lparr>desc_type := DESC_UNSET\<rparr>]))"
  have sub: "open_fds ?D \<subseteq> open_fds D" unfolding open_fds_def using D i(1) by (auto simp: nth_list_update split: if_splits)
  have ne: "snd (snd x) \<noteq> d" if x: "x \<in> open_fds ?D" for x
  proof
    assume e: "snd (snd x) = d"
    then have "(p, i, d) \<in> open_fds D" using D i x by (auto simp: open_fds_def split: if_splits)
    moreover have "x \<in> open_fds D" using sub x by blast
    ultimately have "x = (p, i, d)" using ok e by (auto simp: fds_ok_def inj_on_def)
    then have "desc_type (ds[i := d\<lparr>desc_type := DESC_UNSET\<rparr>] ! i) \<noteq> DESC_UNSET"
      using x by (auto simp: open_fds_def simp del: nth_list_update_eq)
    then show False using i by simp
  qed
  have "length ds = 8" using ok D by (simp add: fds_ok_def)
  moreover have "inj_on (\<lambda>x. snd (snd x)) (open_fds ?D)" using ok sub by (auto simp: fds_ok_def intro: inj_on_subset)
  moreover have "desc_live v' (snd (snd x))" if "x \<in> open_fds ?D" for x
    using ok sub ne [OF that] v' that unfolding fds_ok_def by blast
  ultimately show ?thesis using ok unfolding fds_ok_def by simp
qed

section \<open>The calls keep the invariant\<close>

definition sys_ok :: "('s, 'z) fsys_scheme \<Rightarrow> ptr set \<Rightarrow> bool" where
  "sys_ok k M \<longleftrightarrow> vfs_ok (f_vfs k) M \<and> fds_ok (tables (f_sched k)) (f_vfs k)"

text \<open>A table that is not allocated yet, or has a free entry.\<close>

definition has_free_fd :: "task \<Rightarrow> bool" where
  "has_free_fd t \<longleftrightarrow> (case descriptors t of None \<Rightarrow> True | Some ds \<Rightarrow> \<exists>j < length ds. desc_type (ds ! j) = DESC_UNSET)"

lemma fs_open_file_handle: "fs_open_file v path f = Some (n, None, v') \<Longrightarrow> n < 0"
  by (auto simp: fs_open_file_def Let_def split: bind_splits option.splits prod.splits if_splits)

lemma task_put_desc_free:
  assumes "has_free_fd t" "\<And>ds. descriptors t = Some ds \<Longrightarrow> length ds = 8"
  obtains ds i where "descriptors t = None \<and> ds = calloc_descriptors \<or> descriptors t = Some ds" "i < length ds" "i < 8"
    "desc_type (ds ! i) = DESC_UNSET"
    "task_put_desc True t DESC_FILE h = Some (int i, t\<lparr>descriptors := Some (ds[i := \<lparr>desc_type = DESC_FILE, handle = h\<rparr>])\<rparr>)"
proof -
  define ds where "ds = (case descriptors t of None \<Rightarrow> calloc_descriptors | Some ds \<Rightarrow> ds)"
  have l: "length ds = 8" using assms(2) by (auto simp: ds_def split: option.splits)
  have "\<exists>j. 0 \<le> j \<and> j < length ds \<and> j < MAX_FD \<and> desc_type (ds ! j) = DESC_UNSET"
  proof (cases "descriptors t")
    case None
    then show ?thesis by (intro exI [of _ 0])
      (simp add: ds_def calloc_descriptors_def zero_descriptor_def MAX_FD_def sizeof_desc_t_def sizeof_descriptor_def)
  next
    case (Some e)
    then show ?thesis using assms(1) l by (auto simp: ds_def has_free_fd_def MAX_FD_def)
  qed
  then obtain i where i: "i < length ds" "desc_type (ds ! i) = DESC_UNSET"
      "task_put_desc_loop ds DESC_FILE h 0 MAX_FD = Some (int i, ds[i := task_set_desc (ds ! i) DESC_FILE h])"
    using task_put_desc_loop_spec [of 0 MAX_FD ds DESC_FILE h] by auto
  have "(case descriptors t of None \<Rightarrow> if True then Some calloc_descriptors else None | Some ds \<Rightarrow> Some ds) = Some ds"
    by (simp add: ds_def split: option.split)
  then have "task_put_desc True t DESC_FILE h = Some (int i, t\<lparr>descriptors := Some (ds[i := \<lparr>desc_type = DESC_FILE, handle = h\<rparr>])\<rparr>)"
    unfolding task_put_desc_def using i(3) by (simp add: task_set_desc_def) (cases "ds ! i", simp)
  moreover have "descriptors t = None \<and> ds = calloc_descriptors \<or> descriptors t = Some ds"
    by (simp add: ds_def split: option.split)
  ultimately show thesis using that i l by auto
qed

lemma desc_live_mono: "desc_live v d \<Longrightarrow> dom (files v) \<subseteq> dom (files v') \<Longrightarrow> dom (dirs v) \<subseteq> dom (dirs v') \<Longrightarrow> desc_live v' d"
  by (auto simp: desc_live_def)

lemma fds_ok_mono: "fds_ok D v \<Longrightarrow> dom (files v) \<subseteq> dom (files v') \<Longrightarrow> dom (dirs v) \<subseteq> dom (dirs v') \<Longrightarrow> fds_ok D v'"
  unfolding fds_ok_def using desc_live_mono by blast

lemma fresh_desc: "fds_ok D v \<Longrightarrow> files v f = None \<Longrightarrow> \<lparr>desc_type = DESC_FILE, handle = f\<rparr> \<notin> (\<lambda>x. snd (snd x)) ` open_fds D"
  by (force simp: fds_ok_def desc_live_def)

lemma tables_Some: "cur_task k = Some t \<Longrightarrow> tables (f_sched k) (current (f_sched k)) = Some (descriptors t)"
  by (simp add: cur_task_def tables_def scheduler_current_def)

lemma table_length:
  "fds_ok (tables (f_sched k)) v \<Longrightarrow> cur_task k = Some t \<Longrightarrow> descriptors t = Some ds \<Longrightarrow> length ds = 8"
  using tables_Some [of k t] by (simp add: fds_ok_def)

lemma set_cur_task_simps [simp]: "f_vfs (set_cur_task t k) = f_vfs k" "cur_task (k\<lparr>f_vfs := v\<rparr>) = cur_task k"
  "f_sched (set_cur_task t (k\<lparr>f_vfs := v\<rparr>)) = f_sched (set_cur_task t k)"
  by (simp_all add: set_cur_task_def cur_task_def)

text \<open>
  Opening a file: either it fails and nothing is open that was not, or the task has a new
  descriptor, the lowest free one, for a new handle.
\<close>

lemma sys_open_ok:
  assumes ok: "sys_ok k M" "few (f_vfs k)" "NUL \<notin> set path" and f: "f \<noteq> 0" "files (f_vfs k) f = None"
    and t: "cur_task k = Some t" "has_free_fd t"
  shows "\<exists>r k'. sys_open True f path flags mode k = Some (r, k') \<and> sys_ok k' M \<and>
    (r < 0 \<and> f_sched k' = f_sched k \<and> files (f_vfs k') = files (f_vfs k) \<or>
     0 \<le> r \<and> (\<exists>x t'. files (f_vfs k') = (files (f_vfs k))(f \<mapsto> x) \<and> cur_task k' = Some t' \<and>
       task_get_desc t' r = Some (Some \<lparr>desc_type = DESC_FILE, handle = f\<rparr>)))"
proof -
  have inv: "vfs_ok (f_vfs k) M" "fds_ok (tables (f_sched k)) (f_vfs k)" using ok(1) by (simp_all add: sys_ok_def)
  obtain n h v where o': "fs_open_file (f_vfs k) path f = Some (n, h, v)" "vfs_ok v M" "dirs v = dirs (f_vfs k)"
      "case h of None \<Rightarrow> files v = files (f_vfs k) | Some f' \<Rightarrow> n = 0 \<and> f' = f \<and> (\<exists>x. files v = (files (f_vfs k))(f \<mapsto> x))"
    using fs_open_file_ok [OF inv(1) ok(2,3) f] by (auto simp: opens_file_def)
  show ?thesis
  proof (cases h)
    case None
    have "n < 0" using fs_open_file_handle o'(1) None by blast
    then show ?thesis using o' None inv(2) by (auto simp: sys_open_def sys_ok_def intro: fds_ok_mono)
  next
    case (Some f')
    then have h: "n = 0" "f' = f" and x: "\<exists>x. files v = (files (f_vfs k))(f \<mapsto> x)" using o'(4) by auto
    let ?d = "\<lparr>desc_type = DESC_FILE, handle = f\<rparr>"
    obtain ds i where d: "descriptors t = None \<and> ds = calloc_descriptors \<or> descriptors t = Some ds" "i < length ds" "i < 8"
        "desc_type (ds ! i) = DESC_UNSET"
        "task_put_desc True t DESC_FILE f = Some (int i, t\<lparr>descriptors := Some (ds[i := ?d])\<rparr>)"
      using task_put_desc_free [OF t(2)] table_length [OF inv(2) t(1)] by metis
    let ?t = "t\<lparr>descriptors := Some (ds[i := ?d])\<rparr>"
    let ?k = "set_cur_task ?t (k\<lparr>f_vfs := v\<rparr>)"
    have fd: "fds_ok (tables (f_sched k)) v" by (rule fds_ok_mono [OF inv(2)]) (use x o'(3) in auto)
    have "fds_ok ((tables (f_sched k))(current (f_sched k) \<mapsto> Some (ds[i := ?d]))) v"
      by (rule fds_put [OF fd _ d(2,4)])
        (use d(1) tables_Some [OF t(1)] x fresh_desc [OF inv(2) f(2)] in \<open>auto simp: desc_live_def\<close>)
    then have "sys_ok ?k M" using o'(2) tables_cur [OF t(1), of ?t] by (simp add: sys_ok_def)
    moreover have "sys_open True f path flags mode k = Some (int i, ?k)"
      using o'(1) Some h d(5) t(1) by (simp add: sys_open_def)
    moreover have "cur_task ?k = Some ?t" by (simp add: cur_task_def set_cur_task_def scheduler_current_def)
    moreover have "task_get_desc ?t (int i) = Some (Some ?d)" using d(2) by (simp add: task_get_desc_def)
    ultimately show ?thesis using x by auto
  qed
qed

lemma get_descE:
  assumes "fds_ok (tables (f_sched k)) v" "cur_task k = Some t" "0 \<le> fd" "fd < 8"
  obtains (none) "task_get_desc t fd = Some None"
  | (desc) ds where "descriptors t = Some ds" "length ds = 8" "desc_type (ds ! nat fd) \<noteq> DESC_UNSET"
      "task_get_desc t fd = Some (Some (ds ! nat fd))" "desc_live v (ds ! nat fd)"
      "task_reset_desc t fd = Some (t\<lparr>descriptors := Some (ds[nat fd := (ds ! nat fd)\<lparr>desc_type := DESC_UNSET\<rparr>])\<rparr>)"
proof (cases "descriptors t")
  case None
  then show thesis using that(1) by (simp add: task_get_desc_def)
next
  case (Some ds)
  have l: "length ds = 8" by (rule table_length [OF assms(1,2) Some])
  show thesis
  proof (cases "desc_type (ds ! nat fd) = DESC_UNSET")
    case True
    then show thesis using that(1) Some l assms(3,4) by (simp add: task_get_desc_def)
  next
    case False
    have "(current (f_sched k), nat fd, ds ! nat fd) \<in> open_fds (tables (f_sched k))"
      using tables_Some [OF assms(2)] Some l assms(3,4) False by (auto simp: open_fds_def)
    then have "desc_live v (ds ! nat fd)" using assms(1) by (auto simp: fds_ok_def)
    then show thesis using that(2) Some l assms(3,4) False by (simp add: task_get_desc_def task_reset_desc_def)
  qed
qed

lemma desc_eq: "handle d = handle e \<Longrightarrow> desc_type d = desc_type e \<Longrightarrow> d = e" for d :: descriptor
  by simp

lemma sys_close_ok:
  assumes ok: "sys_ok k M" "few (f_vfs k)" and t: "cur_task k = Some t" "0 \<le> fd" "fd < 8"
  shows "\<exists>r k'. sys_close fd k = Some (r, k') \<and> sys_ok k' M \<and> (\<exists>t'. cur_task k' = Some t' \<and> task_get_desc t' fd = Some None)"
proof -
  have inv: "vfs_ok (f_vfs k) M" "fds_ok (tables (f_sched k)) (f_vfs k)" using ok(1) by (simp_all add: sys_ok_def)
  show ?thesis
  proof (cases rule: get_descE [OF inv(2) t])
    case 1
    then show ?thesis using t(1) ok(1) by (simp add: sys_close_def)
  next
    case (2 ds)
    let ?d = "ds ! nat fd" and ?ds = "ds[nat fd := (ds ! nat fd)\<lparr>desc_type := DESC_UNSET\<rparr>]"
    have fin: "\<exists>k'. set_cur_task (t\<lparr>descriptors := Some ?ds\<rparr>) (k\<lparr>f_vfs := v\<rparr>) = k' \<and> sys_ok k' M \<and>
        (\<exists>t'. cur_task k' = Some t' \<and> task_get_desc t' fd = Some None)"
      if v: "vfs_ok v M" "\<And>e. desc_live (f_vfs k) e \<Longrightarrow> e \<noteq> ?d \<Longrightarrow> desc_live v e" for v
    proof -
      let ?t = "t\<lparr>descriptors := Some ?ds\<rparr>"
      have "fds_ok ((tables (f_sched k))(current (f_sched k) \<mapsto> Some ?ds)) v"
        by (rule fds_reset [OF inv(2) _ _ refl v(2)]) (use tables_Some [OF t(1)] 2 t in auto)
      then have "sys_ok (set_cur_task ?t (k\<lparr>f_vfs := v\<rparr>)) M"
        using v(1) tables_cur [OF t(1), of ?t] by (simp add: sys_ok_def)
      moreover have "cur_task (set_cur_task ?t (k\<lparr>f_vfs := v\<rparr>)) = Some ?t"
        by (simp add: cur_task_def set_cur_task_def scheduler_current_def)
      moreover have "task_get_desc ?t fd = Some None" using 2(2) t(2,3) by (simp add: task_get_desc_def)
      ultimately show ?thesis by blast
    qed
    consider (regular) "desc_type ?d = DESC_FILE" "handle ?d \<in> dom (files (f_vfs k))"
      | (dir) "desc_type ?d = DESC_DIR" "handle ?d \<in> dom (dirs (f_vfs k))"
      using 2(5) by (auto simp: desc_live_def)
    then show ?thesis
    proof cases
      case regular
      then obtain x where "files (f_vfs k) (handle ?d) = Some x" by blast
      then obtain r v where c: "fs_close_file (f_vfs k) (handle ?d) = Some (r, v)" "vfs_ok v M" "dirs v = dirs (f_vfs k)"
          "files v = files (f_vfs k) \<or> files v = (files (f_vfs k))(handle ?d := None)"
        using fs_close_file_ok [OF inv(1) ok(2)] by metis
      have "desc_live v e" if "desc_live (f_vfs k) e" "e \<noteq> ?d" for e
        using that c(3,4) regular(1) desc_eq [of e ?d] by (auto simp: desc_live_def split: if_splits)
      then show ?thesis using fin [OF c(2)] c(1) 2 t(1) regular(1) by (simp add: sys_close_def)
    next
      case dir
      then obtain x where "dirs (f_vfs k) (handle ?d) = Some x" by blast
      then obtain r v where c: "fs_close_dir (f_vfs k) (handle ?d) = Some (r, v)" "vfs_ok v M" "files v = files (f_vfs k)"
          "dirs v = dirs (f_vfs k) \<or> dirs v = (dirs (f_vfs k))(handle ?d := None)"
        using fs_close_dir_ok [OF inv(1) ok(2)] by metis
      have "desc_live v e" if "desc_live (f_vfs k) e" "e \<noteq> ?d" for e
        using that c(3,4) dir(1) desc_eq [of e ?d] by (auto simp: desc_live_def split: if_splits)
      then show ?thesis using fin [OF c(2)] c(1) 2 t(1) dir(1) by (simp add: sys_close_def)
    qed
  qed
qed

lemma sys_read_ok:
  assumes ok: "sys_ok k M" and t: "cur_task k = Some t" "0 \<le> fd" "fd < 8"
  shows "\<exists>r b s. sys_read fd buf count k = Some (r, b, k\<lparr>f_vfs := (f_vfs k)\<lparr>drv := s\<rparr>\<rparr>)"
proof -
  have inv: "vfs_ok (f_vfs k) M" "fds_ok (tables (f_sched k)) (f_vfs k)" using ok(1) by (simp_all add: sys_ok_def)
  have id: "\<exists>s. k = k\<lparr>f_vfs := (f_vfs k)\<lparr>drv := s\<rparr>\<rparr>" by (intro exI [of _ "drv (f_vfs k)"]) simp
  show ?thesis
  proof (cases rule: get_descE [OF inv(2) t])
    case 1
    then show ?thesis using t(1) id by (auto simp: sys_read_def)
  next
    case (2 ds)
    show ?thesis
    proof (cases "desc_type (ds ! nat fd) = DESC_FILE")
      case True
      then obtain x where x: "files (f_vfs k) (handle (ds ! nat fd)) = Some x" using 2(5) by (auto simp: desc_live_def)
      then obtain m where m: "mount_at (f_vfs k) (h_mount x) = Some m" "driver_ok (m_fs m)" using handle_live [OF inv(1)] by blast
      then obtain rd where rd: "api_read (m_api m) = Some rd" by (auto simp: driver_ok_def)
      obtain r b s where "rd (h_cookie x) buf 0 count (drv (f_vfs k)) = (r, b, s)" by (metis prod_cases3)
      then show ?thesis using x m rd 2 t(1) True by (simp add: sys_read_def fs_read_file_def handle_mount_def) blast
    next
      case False
      then show ?thesis using 2 t(1) id by (auto simp: sys_read_def)
    qed
  qed
qed

lemma sys_write_ok:
  assumes ok: "sys_ok k M" and t: "cur_task k = Some t" "0 \<le> fd" "fd < 8"
  shows "\<exists>r s. sys_write fd buf count k = Some (r, k\<lparr>f_vfs := (f_vfs k)\<lparr>drv := s\<rparr>\<rparr>)"
proof -
  have inv: "vfs_ok (f_vfs k) M" "fds_ok (tables (f_sched k)) (f_vfs k)" using ok(1) by (simp_all add: sys_ok_def)
  have id: "\<exists>s. k = k\<lparr>f_vfs := (f_vfs k)\<lparr>drv := s\<rparr>\<rparr>" by (intro exI [of _ "drv (f_vfs k)"]) simp
  show ?thesis
  proof (cases rule: get_descE [OF inv(2) t])
    case 1
    then show ?thesis using t(1) id by (auto simp: sys_write_def)
  next
    case (2 ds)
    show ?thesis
    proof (cases "desc_type (ds ! nat fd) = DESC_FILE")
      case True
      then obtain x where x: "files (f_vfs k) (handle (ds ! nat fd)) = Some x" using 2(5) by (auto simp: desc_live_def)
      then obtain m where m: "mount_at (f_vfs k) (h_mount x) = Some m" using handle_live [OF inv(1)] by blast
      show ?thesis
      proof (cases "api_write (m_api m)")
        case None
        then show ?thesis using x m 2 t(1) True id by (auto simp: sys_write_def fs_write_file_def handle_mount_def)
      next
        case (Some wr)
        obtain r s where "wr (h_cookie x) buf 0 count (drv (f_vfs k)) = (r, s)" by fastforce
        then show ?thesis using x m Some 2 t(1) True by (simp add: sys_write_def fs_write_file_def handle_mount_def) blast
      qed
    next
      case False
      then show ?thesis using 2 t(1) id by (auto simp: sys_write_def)
    qed
  qed
qed

section \<open>The scheduler leaves the descriptors alone\<close>

lemma upd_task_tables:
  "upd_task p g s = Some s' \<Longrightarrow> (\<And>t. descriptors (g t) = descriptors t) \<Longrightarrow> tables s' = tables s"
  by (auto simp: upd_task_def tables_def split: bind_splits)

lemma task_put_tables: "task_put s l t = Some s' \<Longrightarrow> tables s' = tables s"
  by (auto simp: task_put_def tables_def Let_def split: bind_splits if_splits option.splits)

lemma tables_fields [simp]: "tables (s\<lparr>heap := h\<rparr>) = tables s" "tables (s\<lparr>current := c\<rparr>) = tables s"
  "tables (s\<lparr>regs := r\<rparr>) = tables s" "tables (s\<lparr>next_pid := n\<rparr>) = tables s"
  by (simp_all add: tables_def fun_eq_iff)

lemma ctx_switch_tables: "ctx_switch p n s = Some s' \<Longrightarrow> tables s' = tables s"
  unfolding ctx_switch_def by (auto split: bind_splits dest: upd_task_tables)

lemma schedule_tables: "schedule s = Some s' \<Longrightarrow> tables s' = tables s"
  unfolding schedule_def Let_def task_get_def
  by (auto split: if_splits bind_splits prod.splits dest!: upd_task_tables task_put_tables ctx_switch_tables)

lemma wake_up_tables: "scheduler_wake_up s t = Some s' \<Longrightarrow> tables s' = tables s"
  unfolding scheduler_wake_up_def by (auto split: if_splits bind_splits dest!: upd_task_tables task_put_tables)

lemma sleep_on_tables: "scheduler_sleep_on s q d = Some s' \<Longrightarrow> tables s' = tables s"
  unfolding scheduler_sleep_on_def by (auto split: if_splits bind_splits dest!: upd_task_tables schedule_tables)

lemma exit_tables: "scheduler_exit s st = Some s' \<Longrightarrow> tables s' = tables s"
  unfolding scheduler_exit_def Let_def
  by (auto split: if_splits bind_splits option.splits dest!: upd_task_tables wake_up_tables schedule_tables)

lemma queue_new_tables: "scheduler_queue_new s t pr = Some (r, s') \<Longrightarrow> tables s' = tables s"
  unfolding scheduler_queue_new_def Let_def by (auto split: bind_splits dest!: upd_task_tables task_put_tables)

lemma wait_tables:
  assumes "scheduler_wait s p opt = Some (r, s')"
  shows "tables s' = tables s \<or> (\<exists>t. tables s' = (tables s)(t := None))"
proof -
  have "s' = s \<or> (\<exists>q d. scheduler_sleep_on s q d = Some s') \<or> (\<exists>t. s' = s\<lparr>tasks := (tasks s)(t := None)\<rparr>)"
    using assms unfolding scheduler_wait_def scheduler_wait_pass_def
    by (simp split: if_splits bind_splits) blast+
  then show ?thesis using sleep_on_tables by (auto simp: tables_def fun_eq_iff)
qed

text \<open>
  What the scheduler does between two file system calls, whoever calls it; a new task has zeroed
  memory.
\<close>

inductive sched_call :: "sched \<Rightarrow> sched \<Rightarrow> bool" where
  call_schedule: "schedule s = Some s' \<Longrightarrow> sched_call s s'"
| call_run: "sched_call s (s\<lparr>regs := r\<rparr>)"
| call_new: "descriptors t = None \<Longrightarrow> scheduler_queue_new (s\<lparr>tasks := (tasks s)(x \<mapsto> t)\<rparr>) x pr = Some (r, s') \<Longrightarrow> sched_call s s'"
| call_sleep: "scheduler_sleep_on s q d = Some s' \<Longrightarrow> sched_call s s'"
| call_wake: "scheduler_wake_up (s\<lparr>heap := h\<rparr>) t = Some s' \<Longrightarrow> sched_call s s'"
| call_exit: "scheduler_exit s st = Some s' \<Longrightarrow> sched_call s s'"
| call_wait: "scheduler_wait s p opt = Some (r, s') \<Longrightarrow> sched_call s s'"

lemma sched_call_tables:
  "sched_call s s' \<Longrightarrow> tables s' p = tables s p \<or> tables s' p = None \<or> tables s' p = Some None"
proof (induction rule: sched_call.induct)
  case (call_new t s x pr r s')
  then have "tables s' = (tables s)(x := Some None)" using queue_new_tables [OF call_new(2)] by (auto simp: tables_def)
  then show ?case by simp
next
  case (call_wake s h t s')
  then show ?case using wake_up_tables [OF call_wake] by simp
next
  case (call_wait s q opt r s')
  then show ?case using wait_tables [OF call_wait] by auto
qed (simp_all add: schedule_tables sleep_on_tables exit_tables)

lemma fds_ok_sub:
  assumes "fds_ok D v" "\<forall>p. D' p = D p \<or> D' p = None \<or> D' p = Some None"
  shows "fds_ok D' v"
proof -
  have e: "D p = Some (Some ds)" if "D' p = Some (Some ds)" for p ds using assms(2) that by (metis option.distinct(1) option.inject)
  then have "open_fds D' \<subseteq> open_fds D" by (auto simp: open_fds_def)
  moreover have "length ds = length calloc_descriptors" if "D' p = Some (Some ds)" for p ds
    using assms(1) e [OF that] by (simp add: fds_ok_def)
  ultimately show ?thesis using assms(1) unfolding fds_ok_def by (blast intro: inj_on_subset)
qed

text \<open>
  Runs: the calls of the running task, with allocations that succeed, descriptors inside the table
  and a table that is not full, interleaved with steps of the scheduler.
\<close>

inductive sys_run :: "'s fsys \<Rightarrow> ptr set \<Rightarrow> bool" where
  boot: "vfs_run (f_vfs k) M \<Longrightarrow> (\<forall>p ds. tables (f_sched k) p \<noteq> Some (Some ds)) \<Longrightarrow> sys_run k M"
| sched: "sys_run k M \<Longrightarrow> sched_call (f_sched k) s' \<Longrightarrow> sys_run (k\<lparr>f_sched := s'\<rparr>) M"
| mount: "sys_run k M \<Longrightarrow> few (f_vfs k) \<Longrightarrow> NUL \<notin> set path \<Longrightarrow> p \<notin> dom (mount_at (f_vfs k)) \<Longrightarrow>
    sys_mount p q dev path name k = Some (r, k') \<Longrightarrow> sys_run k' (if r = 0 then insert p M else M)"
| do_open: "sys_run k M \<Longrightarrow> few (f_vfs k) \<Longrightarrow> NUL \<notin> set path \<Longrightarrow> f \<noteq> 0 \<Longrightarrow> files (f_vfs k) f = None \<Longrightarrow>
    cur_task k = Some t \<Longrightarrow> has_free_fd t \<Longrightarrow> sys_open True f path flags mode k = Some (r, k') \<Longrightarrow> sys_run k' M"
| do_read: "sys_run k M \<Longrightarrow> cur_task k = Some t \<Longrightarrow> 0 \<le> fd \<Longrightarrow> fd < 8 \<Longrightarrow>
    sys_read fd buf count k = Some (r, b, k') \<Longrightarrow> sys_run k' M"
| do_write: "sys_run k M \<Longrightarrow> cur_task k = Some t \<Longrightarrow> 0 \<le> fd \<Longrightarrow> fd < 8 \<Longrightarrow>
    sys_write fd buf count k = Some (r, k') \<Longrightarrow> sys_run k' M"
| do_close: "sys_run k M \<Longrightarrow> few (f_vfs k) \<Longrightarrow> cur_task k = Some t \<Longrightarrow> 0 \<le> fd \<Longrightarrow> fd < 8 \<Longrightarrow>
    sys_close fd k = Some (r, k') \<Longrightarrow> sys_run k' M"

lemma sys_ok_drv: "sys_ok (k\<lparr>f_vfs := (f_vfs k)\<lparr>drv := s\<rparr>\<rparr>) M = sys_ok k M"
  by (simp add: sys_ok_def fds_ok_def desc_live_def)

lemma sys_run_ok: "sys_run k M \<Longrightarrow> sys_ok k M"
proof (induction rule: sys_run.induct)
  case (boot k M)
  then have "open_fds (tables (f_sched k)) = {}" by (auto simp: open_fds_def)
  then show ?case using boot vfs_run_ok by (auto simp: sys_ok_def fds_ok_def)
next
  case (sched k M s')
  then show ?case using fds_ok_sub sched_call_tables by (fastforce simp: sys_ok_def)
next
  case (mount k M path p q dev name r k')
  then obtain v where v: "fs_mount (f_vfs k) path name dev p q = Some (r, v)" "k' = k\<lparr>f_vfs := v\<rparr>"
    by (auto simp: sys_mount_def split: bind_splits)
  then show ?case
    using fs_mount_ok [of "f_vfs k" M path p name dev q] mount by (auto simp: sys_ok_def intro: fds_ok_mono)
next
  case (do_open k M path f t flags mode r k')
  then show ?case using sys_open_ok [of k M path f t flags mode] by auto
next
  case (do_read k M t fd buf count r b k')
  then show ?case using sys_read_ok [of k M t fd buf count] by (auto simp: sys_ok_drv)
next
  case (do_write k M t fd buf count r k')
  then show ?case using sys_write_ok [of k M t fd buf count] by (auto simp: sys_ok_drv)
next
  case (do_close k M t fd r k')
  then show ?case using sys_close_ok [of k M t fd] by auto
qed

section \<open>Properties\<close>



text \<open>
  In every run the calls of the running task return: reading, writing and closing any descriptor
  number inside the table, and opening a file while an entry is free.
\<close>

theorem sys_calls_return:
  assumes "sys_run k M" "few (f_vfs k)" "cur_task k = Some t"
  shows "(0 \<le> fd \<and> fd < 8 \<longrightarrow>
      sys_read fd buf count k \<noteq> None \<and> sys_write fd buf count k \<noteq> None \<and> sys_close fd k \<noteq> None) \<and>
    (NUL \<notin> set path \<and> f \<noteq> 0 \<and> files (f_vfs k) f = None \<and> has_free_fd t \<longrightarrow> sys_open True f path flags mode k \<noteq> None)"
  using sys_run_ok [OF assms(1)] assms(2,3) sys_read_ok [of k M t fd buf count] sys_write_ok [of k M t fd buf count]
    sys_close_ok [of k M t fd] sys_open_ok [of k M path f t flags mode]
  by auto

text \<open>
  The descriptor number is not checked: with a table allocated, reading, writing or closing a
  number below 0 or above 7 accesses memory outside the table.
\<close>

theorem sys_fd_unchecked:
  assumes "sys_run k M" "cur_task k = Some t" "descriptors t \<noteq> None" "fd < 0 \<or> 8 \<le> fd"
  shows "sys_read fd buf count k = None \<and> sys_write fd buf count k = None \<and> sys_close fd k = None"
proof -
  obtain ds where ds: "descriptors t = Some ds" using assms(3) by auto
  have "length ds = 8" using sys_run_ok [OF assms(1)] table_length [OF _ assms(2) ds] by (auto simp: sys_ok_def)
  then have "task_get_desc t fd = None" using ds assms(4) by (auto simp: task_get_desc_def)
  then show ?thesis using assms(2) by (simp add: sys_read_def sys_write_def sys_close_def)
qed

text \<open>
  \<^verbatim>\<open>sys_close\<close> ignores the result of closing the file: when the driver fails, it returns success,
  the descriptor is gone and the handle stays open with its reference on the mount.
\<close>

theorem sys_close_leaks:
  assumes run: "sys_run k M" "few (f_vfs k)" "cur_task k = Some t" "0 \<le> fd" "fd < 8"
    and d: "task_get_desc t fd = Some (Some d)" "desc_type d = DESC_FILE"
    and c: "fs_close_file (f_vfs k) (handle d) = Some (e, v)" "e < 0"
  shows "\<exists>k' t'. sys_close fd k = Some (0, k') \<and> cur_task k' = Some t' \<and> task_get_desc t' fd = Some None \<and>
    handle d \<in> dom (files (f_vfs k'))"
proof -
  have ok: "sys_ok k M" by (rule sys_run_ok [OF run(1)])
  have inv: "vfs_ok (f_vfs k) M" "fds_ok (tables (f_sched k)) (f_vfs k)" using ok by (simp_all add: sys_ok_def)
  have live: "handle d \<in> dom (files (f_vfs k))"
    by (cases rule: get_descE [OF inv(2) run(3-5)]) (use d in \<open>auto simp: desc_live_def\<close>)
  then obtain x where "files (f_vfs k) (handle d) = Some x" by blast
  then have "files v = files (f_vfs k)" using fs_close_file_ok [OF inv(1) run(2)] c by fastforce
  moreover obtain r k' t' where k': "sys_close fd k = Some (r, k')" "cur_task k' = Some t'" "task_get_desc t' fd = Some None"
    using sys_close_ok [OF ok run(2-5)] by blast
  moreover have "r = 0 \<and> f_vfs k' = v" using k'(1) run(3) d c(1) by (auto simp: sys_close_def split: bind_splits)
  ultimately show ?thesis using live by auto
qed

section \<open>A sample run\<close>

definition sys0 :: "unit fsys" where
  "sys0 = \<lparr>f_sched = kernel_sched, f_vfs = vfs1\<rparr>"

definition sample_table :: "descriptor list" where
  "sample_table = calloc_descriptors[0 := \<lparr>desc_type = DESC_FILE, handle = 200\<rparr>]"

definition sys1 :: "unit fsys" where
  "sys1 = set_cur_task ((the (cur_task sys0))\<lparr>descriptors := Some sample_table\<rparr>) (sys0\<lparr>f_vfs := vfs2\<rparr>)"

lemma sys0_cur: "cur_task sys0 = Some (zero_task\<lparr>parent := - 1, state := RUNNING\<rparr>)"
  by (simp add: cur_task_def sys0_def scheduler_current_def kernel_sched_def boot_sched_def zero_task_def
      scheduler_initialize_def upd_task_def)

lemma sys0_run: "sys_run sys0 {100}"
proof (rule sys_run.boot)
  show "vfs_run (f_vfs sys0) {100}" by (simp add: sys0_def sample_run)
  show "\<forall>p ds. tables (f_sched sys0) p \<noteq> Some (Some ds)"
    by (simp add: sys0_def tables_def kernel_sched_def boot_sched_def zero_task_def scheduler_initialize_def upd_task_def)
qed

lemma sample_put: "task_put_desc True (zero_task\<lparr>parent := - 1, state := RUNNING\<rparr>) DESC_FILE 200
    = Some (0, zero_task\<lparr>parent := - 1, state := RUNNING, descriptors := Some sample_table\<rparr>)"
proof -
  have m: "MAX_FD = Suc 15" by (simp add: MAX_FD_def)
  have c: "calloc_descriptors ! 0 = zero_descriptor"
    by (simp add: calloc_descriptors_def MAX_FD_def sizeof_desc_t_def sizeof_descriptor_def)
  have "task_put_desc_loop calloc_descriptors DESC_FILE 200 0 MAX_FD = Some (0, sample_table)"
    unfolding m by (subst task_put_desc_loop.simps(2)) (simp add: c sample_table_def zero_descriptor_def task_set_desc_def)
  then show ?thesis by (simp add: task_put_desc_def zero_task_def)
qed

lemma sys0_open: "sys_open True 200 ''/a/f'' 0 0 sys0 = Some (0, sys1)"
proof -
  have "f_vfs sys0 = vfs1" by (simp add: sys0_def)
  then show ?thesis using sample_steps(2) sys0_cur sample_put by (simp add: sys_open_def sys1_def)
qed

lemma sys0_side: "few (f_vfs sys0)" "files (f_vfs sys0) 200 = None" "has_free_fd (zero_task\<lparr>parent := - 1, state := RUNNING\<rparr>)"
  "few (f_vfs sys1)"
  by (simp_all add: sys0_def sys1_def few_def MAX_HANDLES_def has_free_fd_def zero_task_def sample_defs)

lemma sys1_cur: "cur_task sys1 = Some (zero_task\<lparr>parent := - 1, state := RUNNING, descriptors := Some sample_table\<rparr>)"
  using sys0_cur by (simp add: sys1_def cur_task_def set_cur_task_def scheduler_current_def)

lemma sys1_run: "sys_run sys1 {100}"
  by (rule sys_run.do_open [OF sys0_run sys0_side(1) _ _ sys0_side(2) sys0_cur sys0_side(3) sys0_open]) simp_all

lemma sample_table_0: "sample_table ! 0 = \<lparr>desc_type = DESC_FILE, handle = 200\<rparr>" "length sample_table = 8"
  by (simp_all add: sample_table_def)



theorem sys_calls_return_witness: "sys_read 0 [1] 1 sys1 \<noteq> None \<and> sys_close 7 sys1 \<noteq> None"
  using sys_calls_return [OF sys1_run sys0_side(4) sys1_cur, of 0] sys_calls_return [OF sys1_run sys0_side(4) sys1_cur, of 7] by auto

theorem sys_fd_unchecked_witness: "sys_read 8 [1] 1 sys1 = None"
  using sys_fd_unchecked [OF sys1_run sys1_cur, of 8] by simp

text \<open>A driver whose close function fails.\<close>

definition failing_fs :: "unit fs" where
  "failing_fs = sample_fs\<lparr>fs_ops := (fs_ops sample_fs)\<lparr>api_close := Some (\<lambda>_ s. (- 5, s))\<rparr>\<rparr>"

definition failing_mount :: "unit fs_mount_struct" where
  "failing_mount = sample_mount\<lparr>m_fs := failing_fs\<rparr>"

definition vfs_failing :: "unit vfs" where
  "vfs_failing = vfs1\<lparr>fs_table := [failing_fs], mount_at := [100 \<mapsto> failing_mount]\<rparr>"

definition vfs_opened :: "unit vfs" where
  "vfs_opened = vfs_failing\<lparr>mount_at := [100 \<mapsto> failing_mount\<lparr>m_ref := 2\<rparr>], files := [200 \<mapsto> \<lparr>h_cookie = 2, h_mount = 100\<rparr>]\<rparr>"

lemmas failing_defs = vfs_opened_def vfs_failing_def failing_mount_def failing_fs_def sample_defs

lemma failing_steps:
  "fs_mount (vfs0\<lparr>fs_table := [failing_fs]\<rparr>) ''/a'' ''sample'' None 100 101 = Some (0, vfs_failing)"
  "fs_open_file vfs_failing ''/a/f'' 200 = Some (0, Some 200, vfs_opened)"
  "fs_close_file vfs_opened 200 = Some (- 5, vfs_opened)"
  by (simp_all add: fs_mount_def find_fs_def mount_def fs_open_file_def fs_close_file_def handle_mount_def find_mount_def
      put_mount_def mount_matches_def open_device_def sample_temp failing_defs sample_int16)

lemma failing_run: "vfs_run vfs_failing {100}"
proof -
  have r0: "vfs_run (vfs0\<lparr>fs_table := [failing_fs]\<rparr>) {}" by (rule vfs_run.boot) (simp_all add: failing_defs driver_ok_def)
  have "few (vfs0\<lparr>fs_table := [failing_fs]\<rparr>)" using sample_few(1) by (simp add: few_def)
  then show ?thesis using vfs_run.mount [OF r0 _ _ _ failing_steps(1)] by (simp add: vfs0_def)
qed

definition sys_failing :: "unit fsys" where
  "sys_failing = sys1\<lparr>f_vfs := vfs_opened\<rparr>"

lemma sys_failing_run: "sys_run sys_failing {100}"
proof -
  have b: "sys_run (sys0\<lparr>f_vfs := vfs_failing\<rparr>) {100}"
    by (rule sys_run.boot)
      (simp_all add: failing_run sys0_def tables_def kernel_sched_def boot_sched_def zero_task_def scheduler_initialize_def upd_task_def)
  have "sys_open True 200 ''/a/f'' 0 0 (sys0\<lparr>f_vfs := vfs_failing\<rparr>) = Some (0, sys_failing)"
    using failing_steps(2) sys0_cur sample_put
    by (simp add: sys_open_def sys_failing_def sys1_def set_cur_task_def)
  then show ?thesis
    using sys_run.do_open [OF b, of "''/a/f''" 200] sys0_cur sys0_side(3)
    by (simp add: failing_defs few_def MAX_HANDLES_def)
qed

theorem sys_close_leaks_witness: "\<exists>k'. sys_close 0 sys_failing = Some (0, k') \<and> 200 \<in> dom (files (f_vfs k'))"
proof -
  have "few (f_vfs sys_failing)" by (simp add: sys_failing_def failing_defs few_def MAX_HANDLES_def)
  moreover have "cur_task sys_failing = cur_task sys1" by (simp add: sys_failing_def)
  moreover have "task_get_desc (zero_task\<lparr>parent := - 1, state := RUNNING, descriptors := Some sample_table\<rparr>) 0
      = Some (Some \<lparr>desc_type = DESC_FILE, handle = 200\<rparr>)"
    using sample_table_0 by (simp add: task_get_desc_def)
  ultimately show ?thesis
    using sys_close_leaks [OF sys_failing_run, of _ 0 "\<lparr>desc_type = DESC_FILE, handle = 200\<rparr>" "- 5" vfs_opened]
      failing_steps(3) sys1_cur
    by (fastforce simp: sys_failing_def)
qed

end
