(* ===== verification/Uart.thy ===== *)
theory Uart
  imports Ringbuffer Board
begin

text \<open>
  The two UART drivers, \<^verbatim>\<open>kernel/drivers/pc16550.c\<close> and \<^verbatim>\<open>kernel/drivers/p8251.c\<close>, one of which a
  board links.  Both move bytes between the chip and the two ring buffers of the console; their
  interrupt handlers run on the state shared with the console.

  What the chips do is a parameter: the locales \<open>pc16550_chip\<close> and \<open>p8251_chip\<close> state what the data
  sheets say of the registers the drivers use, over the bytes the chip has sent and those it has
  received and not yet delivered.  The locale \<open>uart_driver\<close> is the contract the console relies on, and
  both drivers provide it.  Messages printed by the drivers are not modelled.
\<close>

section \<open>State\<close>

text \<open>
  The rings \<^verbatim>\<open>rx_ring\<close> and \<^verbatim>\<open>tx_ring\<close> (the drivers keep pointers to those of the console), the I/O
  device \<^verbatim>\<open>uart\<close>, the command byte of the 8251, the flag \<^verbatim>\<open>binded\<close> of the console, the interrupt table
  and the state of the hardware.
\<close>

record 'd serial =
  rx_ring :: ring_buffer_t
  tx_ring :: ring_buffer_t
  sr_uart :: "io_device option"
  sr_cmd :: u8
  binded :: bool
  sr_irqs :: irq_state
  sr_hw :: 'd

section \<open>The 16550\<close>

definition PC16550_TX_FIFO_SZ :: nat where "PC16550_TX_FIFO_SZ = 16"
definition PC16550_RX_FIFO_TRIG :: nat where "PC16550_RX_FIFO_TRIG = 14"

definition PC16550_BUFR :: "io_device \<Rightarrow> u16" where "PC16550_BUFR dev = io_port dev"
definition PC16550_IER :: "io_device \<Rightarrow> u16" where "PC16550_IER dev = io_port dev + 1"
definition PC16550_ISR :: "io_device \<Rightarrow> u16" where "PC16550_ISR dev = io_port dev + 2"
definition PC16550_FCR :: "io_device \<Rightarrow> u16" where "PC16550_FCR dev = io_port dev + 2"
definition PC16550_LINE_CTRL :: "io_device \<Rightarrow> u16" where "PC16550_LINE_CTRL dev = io_port dev + 3"
definition PC16550_MCR :: "io_device \<Rightarrow> u16" where "PC16550_MCR dev = io_port dev + 4"
definition PC16550_LSR :: "io_device \<Rightarrow> u16" where "PC16550_LSR dev = io_port dev + 5"
definition PC16550_MSR :: "io_device \<Rightarrow> u16" where "PC16550_MSR dev = io_port dev + 6"
definition PC16550_DIV_LSB :: "io_device \<Rightarrow> u16" where "PC16550_DIV_LSB dev = io_port dev"
definition PC16550_DIV_MSB :: "io_device \<Rightarrow> u16" where "PC16550_DIV_MSB dev = io_port dev + 1"

definition LCR_8BITS :: u8 where "LCR_8BITS = 3"
definition LCR_DLAB :: u8 where "LCR_DLAB = push_bit 7 1"
definition LSR_DATA_READY :: u8 where "LSR_DATA_READY = 1"
definition FCR_RX_TX_ENABLE :: u8 where "FCR_RX_TX_ENABLE = 1"
definition FCR_RX_CLEAR :: u8 where "FCR_RX_CLEAR = push_bit 1 1"
definition FCR_TX_CLEAR :: u8 where "FCR_TX_CLEAR = push_bit 2 1"
definition FCR_TRIGGER_14B :: u8 where "FCR_TRIGGER_14B = push_bit 6 3"

definition MODEM_STATUS :: u8 where "MODEM_STATUS = 0"
definition TX_EMPTY :: u8 where "TX_EMPTY = 1"
definition RX_DATA :: u8 where "RX_DATA = 2"
definition RX_LINE_STATUS :: u8 where "RX_LINE_STATUS = 3"
definition RX_FIFO_TIMEOUT :: u8 where "RX_FIFO_TIMEOUT = 6"

definition ISR_NO_INTERRUPT :: u8 where "ISR_NO_INTERRUPT = 1"
definition ISR_INT_ID :: "u8 \<Rightarrow> u8" where "ISR_INT_ID reg = drop_bit 1 reg AND 7"

definition IER_RX_RDY :: u8 where "IER_RX_RDY = 1"
definition IER_TX_RDY :: u8 where "IER_TX_RDY = push_bit 1 1"
definition IER_RX_LINE_STATUS :: u8 where "IER_RX_LINE_STATUS = push_bit 2 1"
definition MCR_RTS :: u8 where "MCR_RTS = push_bit 1 1"

definition pc16550_set_baud_rate :: "'d ports \<Rightarrow> io_device \<Rightarrow> u16 \<Rightarrow> 'd \<Rightarrow> 'd option" where
  "pc16550_set_baud_rate io dev baud_rate d =
     (let (lcr, d) = inb io (PC16550_LINE_CTRL dev) d;
          lcr = lcr OR LCR_DLAB;
          d = outb io (PC16550_LINE_CTRL dev) lcr d
      in if baud_rate = 0 then None
         else let dv = drop_bit 4 (uart_freq dev) div ucast baud_rate;
                  d = outb io (PC16550_DIV_LSB dev) (ucast (dv AND 0xff)) d;
                  d = outb io (PC16550_DIV_MSB dev) (ucast (drop_bit 8 dv AND 0xff)) d;
                  lcr = lcr AND NOT LCR_DLAB
              in Some (outb io (PC16550_LINE_CTRL dev) lcr d))"

definition pc16550_disable_tx_int :: "'d ports \<Rightarrow> io_device \<Rightarrow> 'd \<Rightarrow> 'd" where
  "pc16550_disable_tx_int io dev d =
     (let (ier, d) = inb io (PC16550_IER dev) d
      in outb io (PC16550_IER dev) (ier AND NOT IER_TX_RDY) d)"

text \<open>\<open>devs\<close> are the I/O devices of the board; the handler's address is a parameter.\<close>

definition pc16550_uart_initialize ::
    "'d ports \<Rightarrow> (io_device_t \<Rightarrow> io_device option) \<Rightarrow> u16 \<Rightarrow> u16 \<Rightarrow> u16 \<Rightarrow> 'd serial \<Rightarrow> 'd serial option" where
  "pc16550_uart_initialize io devs cs uart_int_handler baud_rate s =
     do { let s = s\<lparr>sr_uart := board_get_io_dev devs IO_DEV_UART\<rparr>;
          dev \<leftarrow> sr_uart s;
          let d = sr_hw s;
          let d = outb io (PC16550_FCR dev) (FCR_RX_TX_ENABLE OR FCR_RX_CLEAR OR FCR_TX_CLEAR OR FCR_TRIGGER_14B) d;
          let d = outb io (PC16550_LINE_CTRL dev) LCR_8BITS d;
          let d = outb io (PC16550_IER dev) (IER_RX_RDY OR IER_RX_LINE_STATUS) d;
          d \<leftarrow> pc16550_set_baud_rate io dev baud_rate d;
          let d = outb io (PC16550_MCR dev) MCR_RTS d;
          v \<leftarrow> interrupts_from_irq (sr_irqs s) (io_irq dev);
          let s = s\<lparr>sr_irqs := interrupts_handle (sr_irqs s) v cs uart_int_handler\<rparr>;
          d \<leftarrow> irq_enable io (sr_irqs s) (io_irq dev) d;
          Some (s\<lparr>sr_hw := d\<rparr>) }"

text \<open>The loop of the case \<^verbatim>\<open>RX_DATA\<close>.\<close>

fun pc16550_rx_trig :: "'d ports \<Rightarrow> io_device \<Rightarrow> nat \<Rightarrow> ring_buffer_t \<Rightarrow> 'd \<Rightarrow> ring_buffer_t \<times> 'd" where
  "pc16550_rx_trig io dev 0 rx d = (rx, d)"
| "pc16550_rx_trig io dev (Suc n) rx d =
     (let (data, d) = inb io (PC16550_BUFR dev) d
      in pc16550_rx_trig io dev n (ring_buffer_queue rx data) d)"

text \<open>The loop of the case \<^verbatim>\<open>RX_FIFO_TIMEOUT\<close>.\<close>

partial_function (option) pc16550_rx_drain ::
    "'d ports \<Rightarrow> io_device \<Rightarrow> u8 \<Rightarrow> ring_buffer_t \<Rightarrow> 'd \<Rightarrow> (ring_buffer_t \<times> 'd) option" where
  "pc16550_rx_drain io dev status rx d =
     (if status AND LSR_DATA_READY = 0 then Some (rx, d)
      else let (data, d) = inb io (PC16550_BUFR dev) d;
               rx = ring_buffer_queue rx data;
               (status, d) = inb io (PC16550_LSR dev) d
           in pc16550_rx_drain io dev status rx d)"

text \<open>
  The loop of the case \<^verbatim>\<open>TX_EMPTY\<close>.  The dequeue follows a test that the ring is not empty, so it
  always delivers a byte.
\<close>

fun pc16550_tx_fill :: "'d ports \<Rightarrow> io_device \<Rightarrow> nat \<Rightarrow> ring_buffer_t \<Rightarrow> 'd \<Rightarrow> ring_buffer_t \<times> 'd" where
  "pc16550_tx_fill io dev 0 tx d = (tx, d)"
| "pc16550_tx_fill io dev (Suc n) tx d =
     (if ring_buffer_is_empty tx then (tx, d)
      else case ring_buffer_dequeue tx of
             (None, tx) \<Rightarrow> (tx, d)
           | (Some data, tx) \<Rightarrow> pc16550_tx_fill io dev n tx (outb io (PC16550_BUFR dev) data d))"

text \<open>The body of the handler's loop for one value of the interrupt status register.\<close>

definition pc16550_dispatch :: "'d ports \<Rightarrow> io_device \<Rightarrow> u8 \<Rightarrow> 'd serial \<Rightarrow> 'd serial option" where
  "pc16550_dispatch io dev isr s =
     (let id = ISR_INT_ID isr
      in if id = RX_DATA
         then let (rx, d) = pc16550_rx_trig io dev PC16550_RX_FIFO_TRIG (rx_ring s) (sr_hw s)
              in Some (s\<lparr>rx_ring := rx, sr_hw := d\<rparr>)
         else if id = RX_FIFO_TIMEOUT
         then do { let (status, d) = inb io (PC16550_LSR dev) (sr_hw s);
                   (rx, d) \<leftarrow> pc16550_rx_drain io dev status (rx_ring s) d;
                   Some (s\<lparr>rx_ring := rx, sr_hw := d\<rparr>) }
         else if id = RX_LINE_STATUS
         then let (_, d) = inb io (PC16550_LSR dev) (sr_hw s) in Some (s\<lparr>sr_hw := d\<rparr>)
         else if id = TX_EMPTY
         then if \<not> ring_buffer_is_empty (tx_ring s)
              then let (tx, d) = pc16550_tx_fill io dev PC16550_TX_FIFO_SZ (tx_ring s) (sr_hw s)
                   in Some (s\<lparr>tx_ring := tx, sr_hw := d\<rparr>)
              else Some (s\<lparr>sr_hw := pc16550_disable_tx_int io dev (sr_hw s)\<rparr>)
         else if id = MODEM_STATUS
         then let (_, d) = inb io (PC16550_MSR dev) (sr_hw s) in Some (s\<lparr>sr_hw := d\<rparr>)
         else Some s)"

partial_function (option) pc16550_loop :: "'d ports \<Rightarrow> io_device \<Rightarrow> u8 \<Rightarrow> 'd serial \<Rightarrow> 'd serial option" where
  "pc16550_loop io dev isr s =
     (if isr AND ISR_NO_INTERRUPT \<noteq> 0 then Some s
      else do { s \<leftarrow> pc16550_dispatch io dev isr s;
                let (isr, d) = inb io (PC16550_ISR dev) (sr_hw s);
                pc16550_loop io dev isr (s\<lparr>sr_hw := d\<rparr>) })"

definition pc16550_uart_handler :: "'d ports \<Rightarrow> 'd serial \<Rightarrow> 'd serial option" where
  "pc16550_uart_handler io s =
     do { dev \<leftarrow> sr_uart s;
          let (isr, d) = inb io (PC16550_ISR dev) (sr_hw s);
          s \<leftarrow> pc16550_loop io dev isr (s\<lparr>sr_hw := d\<rparr>);
          d \<leftarrow> irq_ack io (sr_irqs s) (io_irq dev) (sr_hw s);
          Some (s\<lparr>sr_hw := d\<rparr>) }"

definition pc16550_uart_start_xmit :: "'d ports \<Rightarrow> 'd serial \<Rightarrow> 'd serial option" where
  "pc16550_uart_start_xmit io s =
     do { dev \<leftarrow> sr_uart s;
          let (ier, d) = inb io (PC16550_IER dev) (sr_hw s);
          Some (s\<lparr>sr_hw := outb io (PC16550_IER dev) (ier OR IER_TX_RDY) d\<rparr>) }"

section \<open>The 8251\<close>

definition P8251A_CMD :: "io_device \<Rightarrow> u16" where "P8251A_CMD dev = io_port dev OR 1"
definition P8251A_DATA :: "io_device \<Rightarrow> u16" where "P8251A_DATA dev = io_port dev"

definition MODE_ASYNC_1 :: u8 where "MODE_ASYNC_1 = 1"
definition CHAR_8BITS :: u8 where "CHAR_8BITS = push_bit 2 3"
definition PARITY_DISABLED :: u8 where "PARITY_DISABLED = 0"
definition STOP_1BIT :: u8 where "STOP_1BIT = push_bit 6 1"
definition CMD_TX_ENABLE :: u8 where "CMD_TX_ENABLE = 1"
definition CMD_RX_ENABLE :: u8 where "CMD_RX_ENABLE = push_bit 2 1"
definition CMD_FORCE_RTS :: u8 where "CMD_FORCE_RTS = push_bit 5 1"
definition CMD_RESET :: u8 where "CMD_RESET = push_bit 6 1"
definition STATUS_TXRDY :: u8 where "STATUS_TXRDY = 1"
definition STATUS_RXRDY :: u8 where "STATUS_RXRDY = push_bit 1 1"

definition p8251a_cmd :: "'d ports \<Rightarrow> io_device \<Rightarrow> u8 \<Rightarrow> 'd serial \<Rightarrow> 'd serial" where
  "p8251a_cmd io dev command s =
     (let s = s\<lparr>sr_cmd := command\<rparr>
      in s\<lparr>sr_hw := outb io (P8251A_CMD dev) (sr_cmd s) (sr_hw s)\<rparr>)"

definition p8251_uart_initialize ::
    "'d ports \<Rightarrow> device list \<Rightarrow> (io_device_t \<Rightarrow> io_device option) \<Rightarrow> u16 \<Rightarrow> u16 \<Rightarrow> u16 \<Rightarrow> 'd serial \<Rightarrow> 'd serial option" where
  "p8251_uart_initialize io board_devs devs cs uart_int_handler baud_rate s =
     do { timer2 \<leftarrow> timer_get board_devs ''timer2'';
          d \<leftarrow> timer_set_freq io timer2 (ucast baud_rate) (sr_hw s);
          let s = s\<lparr>sr_uart := board_get_io_dev devs IO_DEV_UART\<rparr>;
          dev \<leftarrow> sr_uart s;
          let d = outb io (P8251A_CMD dev) 0 d;
          let d = outb io (P8251A_CMD dev) 0 d;
          let d = outb io (P8251A_CMD dev) 0 d;
          let d = outb io (P8251A_CMD dev) CMD_RESET d;
          let d = outb io (P8251A_CMD dev) (MODE_ASYNC_1 OR CHAR_8BITS OR PARITY_DISABLED OR STOP_1BIT) d;
          v \<leftarrow> interrupts_from_irq (sr_irqs s) (io_irq dev);
          let s = s\<lparr>sr_irqs := interrupts_handle (sr_irqs s) v cs uart_int_handler\<rparr>;
          d \<leftarrow> irq_enable io (sr_irqs s) (io_irq dev) d;
          Some (p8251a_cmd io dev (CMD_RX_ENABLE OR CMD_FORCE_RTS) (s\<lparr>sr_hw := d\<rparr>)) }"

text \<open>The two halves of \<^verbatim>\<open>uart_handler\<close>: reception and transmission.\<close>

definition p8251_rx :: "'d ports \<Rightarrow> io_device \<Rightarrow> u8 \<Rightarrow> 'd serial \<Rightarrow> 'd serial" where
  "p8251_rx io dev status s =
     (if status AND STATUS_RXRDY \<noteq> 0
      then let (byte, d) = inb io (P8251A_DATA dev) (sr_hw s)
           in s\<lparr>rx_ring := ring_buffer_queue (rx_ring s) byte, sr_hw := d\<rparr>
      else s)"

definition p8251_tx :: "'d ports \<Rightarrow> io_device \<Rightarrow> u8 \<Rightarrow> 'd serial \<Rightarrow> 'd serial" where
  "p8251_tx io dev status s =
     (if status AND STATUS_TXRDY \<noteq> 0
      then case ring_buffer_dequeue (tx_ring s) of
             (Some byte, tx) \<Rightarrow> s\<lparr>tx_ring := tx, sr_hw := outb io (P8251A_DATA dev) byte (sr_hw s)\<rparr>
           | (None, tx) \<Rightarrow> s\<lparr>tx_ring := tx, sr_cmd := CMD_RX_ENABLE\<rparr>
      else s)"

definition p8251_uart_handler :: "'d ports \<Rightarrow> 'd serial \<Rightarrow> 'd serial option" where
  "p8251_uart_handler io s =
     do { dev \<leftarrow> sr_uart s;
          let s = p8251a_cmd io dev (sr_cmd s AND NOT CMD_FORCE_RTS) s;
          let (status, d) = inb io (P8251A_CMD dev) (sr_hw s);
          let s = p8251_rx io dev status (s\<lparr>sr_hw := d\<rparr>);
          let s = p8251_tx io dev status s;
          let s = p8251a_cmd io dev (sr_cmd s OR CMD_FORCE_RTS) s;
          d \<leftarrow> irq_ack io (sr_irqs s) (io_irq dev) (sr_hw s);
          Some (s\<lparr>sr_hw := d\<rparr>) }"

definition p8251_uart_start_xmit :: "'d ports \<Rightarrow> 'd serial \<Rightarrow> 'd serial option" where
  "p8251_uart_start_xmit io s =
     do { dev \<leftarrow> sr_uart s; Some (p8251a_cmd io dev (sr_cmd s OR CMD_TX_ENABLE) s) }"

section \<open>The contract of a driver\<close>

text \<open>
  What a handler does to the shared state, in terms of the bytes \<open>sent\<close> by the hardware and those
  received and not yet delivered (\<open>inp\<close>): the bytes sent followed by those queued for sending stay
  the same stream, and the bytes taken from the hardware are appended to the receive ring, which
  keeps the latest ones.
\<close>

definition serial_moves :: "('d \<Rightarrow> u8 list) \<Rightarrow> ('d \<Rightarrow> u8 list) \<Rightarrow> 'd serial \<Rightarrow> 'd serial \<Rightarrow> bool" where
  "serial_moves sent inp s s' \<longleftrightarrow>
     sent (sr_hw s') @ rb_contents (tx_ring s') = sent (sr_hw s) @ rb_contents (tx_ring s) \<and>
     (\<exists>got. inp (sr_hw s) = got @ inp (sr_hw s') \<and>
        rb_contents (rx_ring s') = keep_last (rb_cap (rx_ring s)) (rb_contents (rx_ring s) @ got)) \<and>
     rb_cap (rx_ring s') = rb_cap (rx_ring s) \<and> rb_cap (tx_ring s') = rb_cap (tx_ring s) \<and> binded s' = binded s"

definition rings_wf :: "'d serial \<Rightarrow> bool" where
  "rings_wf s \<longleftrightarrow> rb_wf (rx_ring s) \<and> rb_wf (tx_ring s)"

locale uart_driver =
  fixes ready :: "'d serial \<Rightarrow> bool"
    and xmit :: "'d serial \<Rightarrow> 'd serial option"
    and handler :: "'d serial \<Rightarrow> 'd serial option"
    and sent :: "'d \<Rightarrow> u8 list"
    and inp :: "'d \<Rightarrow> u8 list"
  assumes ready_rings: "ready s \<Longrightarrow> ready (s\<lparr>rx_ring := r, tx_ring := t\<rparr>)"
    and xmit_ok: "ready s \<Longrightarrow> \<exists>s'. xmit s = Some s' \<and> ready s' \<and> rx_ring s' = rx_ring s \<and> tx_ring s' = tx_ring s \<and>
      binded s' = binded s \<and> sent (sr_hw s') = sent (sr_hw s) \<and> inp (sr_hw s') = inp (sr_hw s)"
    and handler_ok: "ready s \<Longrightarrow> rings_wf s \<Longrightarrow>
      \<exists>s'. handler s = Some s' \<and> ready s' \<and> rings_wf s' \<and> serial_moves sent inp s s'"

lemma serial_moves_refl: "rings_wf s \<Longrightarrow> serial_moves sent inp s s"
  unfolding serial_moves_def rings_wf_def using rbq.contents_cap [of "rx_ring s"] by (auto intro: exI [of _ "[]"])

lemma serial_moves_trans:
  assumes "serial_moves sent inp s t" "serial_moves sent inp t u"
  shows "serial_moves sent inp s u"
proof -
  obtain g where g: "inp (sr_hw s) = g @ inp (sr_hw t)"
      "rb_contents (rx_ring t) = keep_last (rb_cap (rx_ring s)) (rb_contents (rx_ring s) @ g)"
    using assms(1) by (auto simp: serial_moves_def)
  obtain k where k: "inp (sr_hw t) = k @ inp (sr_hw u)"
      "rb_contents (rx_ring u) = keep_last (rb_cap (rx_ring t)) (rb_contents (rx_ring t) @ k)"
    using assms(2) by (auto simp: serial_moves_def)
  have "rb_cap (rx_ring t) = rb_cap (rx_ring s)" using assms(1) by (simp add: serial_moves_def)
  then have "inp (sr_hw s) = (g @ k) @ inp (sr_hw u) \<and>
      rb_contents (rx_ring u) = keep_last (rb_cap (rx_ring s)) (rb_contents (rx_ring s) @ g @ k)"
    using g k by simp
  then show ?thesis using assms unfolding serial_moves_def by auto
qed

text \<open>Ports of a UART: eight consecutive ones.  The interrupt controllers are elsewhere.\<close>

definition uart_reg :: "io_device \<Rightarrow> u16 \<Rightarrow> bool" where
  "uart_reg dev q \<longleftrightarrow> q - io_port dev < 8"

section \<open>The 16550 driver\<close>

text \<open>
  The registers of the 16550 in FIFO mode with the divisor latch closed (\<open>ok\<close>).  A status
  register that reports an interrupt names a cause that is present: fourteen bytes in the receive
  FIFO for a trigger, a byte for a timeout, a line error for a line status, and the transmitter
  interrupt only while it is enabled.  Modem interrupts stay disabled.  Reading the line status
  clears the errors.
\<close>

definition isr_cause :: "u8 list \<Rightarrow> nat \<Rightarrow> u8 \<Rightarrow> u8 \<Rightarrow> bool" where
  "isr_cause inp errs ier v \<longleftrightarrow> bit v 0 \<or>
     ISR_INT_ID v = RX_DATA \<and> 14 \<le> length inp \<or> ISR_INT_ID v = RX_FIFO_TIMEOUT \<and> inp \<noteq> [] \<or>
     ISR_INT_ID v = RX_LINE_STATUS \<and> 0 < errs \<or> ISR_INT_ID v = TX_EMPTY \<and> bit ier 1"

lemmas isr_ids = RX_DATA_def RX_FIFO_TIMEOUT_def RX_LINE_STATUS_def TX_EMPTY_def MODEM_STATUS_def

locale pc16550_chip =
  fixes io :: "'d ports" and dev :: io_device and ok :: "'d \<Rightarrow> bool" and sent :: "'d \<Rightarrow> u8 list"
    and inp :: "'d \<Rightarrow> u8 list" and ier :: "'d \<Rightarrow> u8" and errs :: "'d \<Rightarrow> nat"
  assumes isr: "ok d \<Longrightarrow> inb io (PC16550_ISR dev) d = (v, d') \<Longrightarrow> ok d' \<and> sent d' = sent d \<and> inp d' = inp d \<and>
      ier d' = ier d \<and> errs d' = errs d \<and> isr_cause (inp d) (errs d) (ier d) v"
    and lsr: "ok d \<Longrightarrow> inb io (PC16550_LSR dev) d = (v, d') \<Longrightarrow> ok d' \<and> sent d' = sent d \<and> inp d' = inp d \<and>
      ier d' = ier d \<and> errs d' = 0 \<and> (bit v 0 \<longleftrightarrow> inp d \<noteq> [])"
    and rbr: "ok d \<Longrightarrow> inp d = b # bs \<Longrightarrow> inb io (PC16550_BUFR dev) d = (v, d') \<Longrightarrow> v = b \<and> ok d' \<and>
      sent d' = sent d \<and> inp d' = bs \<and> ier d' = ier d \<and> errs d' = errs d"
    and thr: "ok d \<Longrightarrow> d' = outb io (PC16550_BUFR dev) b d \<Longrightarrow> ok d' \<and> sent d' = sent d @ [b] \<and> inp d' = inp d \<and>
      ier d' = ier d \<and> errs d' = errs d"
    and ier_read: "ok d \<Longrightarrow> inb io (PC16550_IER dev) d = (v, d') \<Longrightarrow> v = ier d \<and> ok d' \<and> sent d' = sent d \<and>
      inp d' = inp d \<and> ier d' = ier d \<and> errs d' = errs d"
    and ier_write: "ok d \<Longrightarrow> \<not> bit b 3 \<Longrightarrow> d' = outb io (PC16550_IER dev) b d \<Longrightarrow> ok d' \<and> sent d' = sent d \<and>
      inp d' = inp d \<and> ier d' = b \<and> errs d' = errs d"
    and ier_modem: "ok d \<Longrightarrow> \<not> bit (ier d) 3"
    and other: "ok d \<Longrightarrow> \<not> uart_reg dev q \<Longrightarrow> d' = outb io q b d \<Longrightarrow> ok d' \<and> sent d' = sent d \<and> inp d' = inp d"
begin

definition up :: "'d serial \<Rightarrow> bool" where
  "up s \<longleftrightarrow> sr_uart s = Some dev \<and> pics_apart (uart_reg dev) (sr_irqs s) \<and> ok (sr_hw s)"

text \<open>What is left to do for the handler.\<close>

definition work :: "'d serial \<Rightarrow> nat" where
  "work s = length (inp (sr_hw s)) + errs (sr_hw s) + length (rb_contents (tx_ring s)) + of_bool (bit (ier (sr_hw s)) 1)"

lemma rx_trig:
  "ok d \<Longrightarrow> rb_wf rx \<Longrightarrow> n \<le> length (inp d) \<Longrightarrow> pc16550_rx_trig io dev n rx d = (rx', d') \<Longrightarrow>
     rb_wf rx' \<and> rb_cap rx' = rb_cap rx \<and> ok d' \<and> sent d' = sent d \<and> inp d' = drop n (inp d) \<and> ier d' = ier d \<and>
     errs d' = errs d \<and> rb_contents rx' = keep_last (rb_cap rx) (rb_contents rx @ take n (inp d))"
proof (induction n arbitrary: rx d)
  case 0
  then show ?case using rbq.contents_cap [of rx] by auto
next
  case (Suc n)
  then obtain b bs where b: "inp d = b # bs" by (cases "inp d") auto
  obtain v d1 where v: "inb io (PC16550_BUFR dev) d = (v, d1)" by fastforce
  note r = rbr [OF Suc.prems(1) b v]
  show ?case
    using Suc.IH [of d1 "ring_buffer_queue rx b"] Suc.prems r v b
    by (auto simp: ring_buffer_queue_wf ring_buffer_queue_contents)
qed

lemma rx_drain:
  "ok d \<Longrightarrow> rb_wf rx \<Longrightarrow> bit st 0 \<longleftrightarrow> inp d \<noteq> [] \<Longrightarrow> errs d = 0 \<Longrightarrow>
     \<exists>rx' d'. pc16550_rx_drain io dev st rx d = Some (rx', d') \<and>
       rb_wf rx' \<and> rb_cap rx' = rb_cap rx \<and> ok d' \<and> sent d' = sent d \<and> inp d' = [] \<and> ier d' = ier d \<and>
       errs d' = 0 \<and> rb_contents rx' = keep_last (rb_cap rx) (rb_contents rx @ inp d)"
proof (induction "inp d" arbitrary: rx d st)
  case Nil
  then have "st AND LSR_DATA_READY = 0" using bit_iff_and_push_bit_not_eq_0 [of st 0] by (simp add: LSR_DATA_READY_def)
  then show ?case using Nil rbq.contents_cap [of rx] by (subst pc16550_rx_drain.simps) auto
next
  case (Cons b bs)
  obtain v d1 where v: "inb io (PC16550_BUFR dev) d = (v, d1)" by fastforce
  note r = rbr [OF Cons.prems(1) Cons.hyps(2) [symmetric] v]
  obtain w d2 where w: "inb io (PC16550_LSR dev) d1 = (w, d2)" by fastforce
  have l: "ok d2 \<and> sent d2 = sent d1 \<and> inp d2 = inp d1 \<and> ier d2 = ier d1 \<and> errs d2 = 0 \<and> (bit w 0 \<longleftrightarrow> inp d1 \<noteq> [])"
    using r by (intro lsr [OF _ w]) simp
  have "bit st 0" using Cons.prems(3) Cons.hyps(2) by auto
  then have "\<not> st AND LSR_DATA_READY = 0" using bit_iff_and_push_bit_not_eq_0 [of st 0] by (simp add: LSR_DATA_READY_def)
  then have u: "pc16550_rx_drain io dev st rx d = pc16550_rx_drain io dev w (ring_buffer_queue rx b) d2"
    using v w r by (subst pc16550_rx_drain.simps) simp
  have "rb_wf (ring_buffer_queue rx b)" using Cons.prems(2) by (rule ring_buffer_queue_wf)
  then show ?case
    using Cons.hyps(1) [of d2 "ring_buffer_queue rx b" w] l r Cons.prems(2)
    by (simp add: u ring_buffer_queue_wf ring_buffer_queue_contents Cons.hyps(2) [symmetric])
qed

lemma tx_fill:
  "ok d \<Longrightarrow> rb_wf tx \<Longrightarrow> pc16550_tx_fill io dev n tx d = (tx', d') \<Longrightarrow>
     rb_wf tx' \<and> rb_cap tx' = rb_cap tx \<and> ok d' \<and> inp d' = inp d \<and> ier d' = ier d \<and> errs d' = errs d \<and>
     sent d' = sent d @ take n (rb_contents tx) \<and> rb_contents tx' = drop n (rb_contents tx)"
proof (induction n arbitrary: tx d)
  case 0
  then show ?case by auto
next
  case (Suc n)
  show ?case
  proof (cases "rb_contents tx")
    case Nil
    then have "ring_buffer_is_empty tx" using Suc.prems(2) by (simp add: is_empty_count flip: length_rb_contents)
    then show ?thesis using Suc.prems Nil by auto
  next
    case (Cons b bs)
    then have ne: "\<not> ring_buffer_is_empty tx" using Suc.prems(2) by (simp add: is_empty_count flip: length_rb_contents)
    obtain t where e: "ring_buffer_dequeue tx = (Some b, t)"
      using rbq.deq_hd [OF Suc.prems(2) Cons] by (metis prod.collapse)
    have t: "rb_contents t = bs" "rb_wf t" "rb_cap t = rb_cap tx"
      using rbq.deq_hd [OF Suc.prems(2) Cons] rbq.wf_deq [OF Suc.prems(2)] rbq.cap_deq [OF Suc.prems(2)]
      by (simp_all add: e)
    let ?d = "outb io (PC16550_BUFR dev) b d"
    have "pc16550_tx_fill io dev n t ?d = (tx', d')" using Suc.prems(3) ne by (simp add: e)
    then show ?thesis using Suc.IH [of ?d t] thr [OF Suc.prems(1) refl, of b] t Cons by auto
  qed
qed

text \<open>Setting or clearing the transmitter interrupt.\<close>

lemma set_ier:
  assumes "ok d" "inb io (PC16550_IER dev) d = (v, d1)" "\<not> bit b 3" "d' = outb io (PC16550_IER dev) b d1"
  shows "v = ier d \<and> ok d' \<and> sent d' = sent d \<and> inp d' = inp d \<and> ier d' = b \<and> errs d' = errs d"
  using ier_read [OF assms(1,2)] ier_write [of d1, OF _ assms(3,4)] by simp

lemma disable_tx:
  assumes "ok d" "d' = pc16550_disable_tx_int io dev d"
  shows "ok d' \<and> sent d' = sent d \<and> inp d' = inp d \<and> errs d' = errs d \<and> \<not> bit (ier d') 1"
proof -
  obtain v d1 where r: "inb io (PC16550_IER dev) d = (v, d1)" by fastforce
  have "\<not> bit (v AND NOT IER_TX_RDY) 3"
    using ier_read [OF assms(1) r] ier_modem [OF assms(1)] by (simp add: bit_and_iff)
  moreover have "\<not> bit (v AND NOT IER_TX_RDY) 1" by (simp add: IER_TX_RDY_def bit_simps)
  moreover have "d' = outb io (PC16550_IER dev) (v AND NOT IER_TX_RDY) d1"
    using assms(2) by (simp add: pc16550_disable_tx_int_def r)
  ultimately show ?thesis using set_ier [OF assms(1) r] by metis
qed

lemma xmit_up:
  assumes "up s"
  shows "\<exists>s'. pc16550_uart_start_xmit io s = Some s' \<and> up s' \<and> rx_ring s' = rx_ring s \<and> tx_ring s' = tx_ring s \<and>
    binded s' = binded s \<and> sent (sr_hw s') = sent (sr_hw s) \<and> inp (sr_hw s') = inp (sr_hw s)"
proof -
  obtain v d1 where r: "inb io (PC16550_IER dev) (sr_hw s) = (v, d1)" by fastforce
  have h: "ok (sr_hw s)" using assms by (simp add: up_def)
  have "\<not> bit (v OR IER_TX_RDY) 3"
    using ier_read [OF h r] ier_modem [OF h] by (simp add: bit_or_iff IER_TX_RDY_def bit_simps)
  then show ?thesis
    using set_ier [OF h r, of "v OR IER_TX_RDY" "outb io (PC16550_IER dev) (v OR IER_TX_RDY) d1"] assms r
    by (auto simp: pc16550_uart_start_xmit_def up_def)
qed

lemma up_hw: "up s \<Longrightarrow> ok d \<Longrightarrow> up (s\<lparr>rx_ring := r, tx_ring := t, sr_hw := d\<rparr>)"
  "up s \<Longrightarrow> ok d \<Longrightarrow> up (s\<lparr>rx_ring := r, sr_hw := d\<rparr>)" "up s \<Longrightarrow> ok d \<Longrightarrow> up (s\<lparr>tx_ring := t, sr_hw := d\<rparr>)"
  "up s \<Longrightarrow> ok d \<Longrightarrow> up (s\<lparr>sr_hw := d\<rparr>)"
  by (simp_all add: up_def)

lemma moves_rx:
  assumes "rings_wf s" "rb_cap rx = rb_cap (rx_ring s)" "sent d = sent (sr_hw s)" "inp (sr_hw s) = g @ inp d"
    "rb_contents rx = keep_last (rb_cap (rx_ring s)) (rb_contents (rx_ring s) @ g)"
  shows "serial_moves sent inp s (s\<lparr>rx_ring := rx, sr_hw := d\<rparr>)"
  using assms by (auto simp: serial_moves_def)

lemma moves_hw:
  assumes "rings_wf s" "sent d = sent (sr_hw s)" "inp d = inp (sr_hw s)"
  shows "serial_moves sent inp s (s\<lparr>sr_hw := d\<rparr>)"
  using serial_moves_refl [OF assms(1), of sent inp] assms(2,3) by (simp add: serial_moves_def)

lemma moves_tx:
  assumes "rings_wf s" "rb_cap tx = rb_cap (tx_ring s)" "inp d = inp (sr_hw s)"
    "sent d @ rb_contents tx = sent (sr_hw s) @ rb_contents (tx_ring s)"
  shows "serial_moves sent inp s (s\<lparr>tx_ring := tx, sr_hw := d\<rparr>)"
  using serial_moves_refl [OF assms(1), of sent inp] assms(2-) by (simp add: serial_moves_def)

lemma dispatch_ok:
  assumes s: "up s" "rings_wf s" and c: "isr_cause (inp (sr_hw s)) (errs (sr_hw s)) (ier (sr_hw s)) v" "\<not> bit v 0"
  shows "\<exists>s'. pc16550_dispatch io dev v s = Some s' \<and> up s' \<and> rings_wf s' \<and> serial_moves sent inp s s' \<and> work s' < work s"
proof -
  let ?d = "sr_hw s"
  have h: "ok ?d" "rb_wf (rx_ring s)" "rb_wf (tx_ring s)" using s by (simp_all add: up_def rings_wf_def)
  consider (data) "ISR_INT_ID v = RX_DATA" "14 \<le> length (inp ?d)" | (timeout) "ISR_INT_ID v = RX_FIFO_TIMEOUT" "inp ?d \<noteq> []"
    | (line) "ISR_INT_ID v = RX_LINE_STATUS" "0 < errs ?d" | (tx) "ISR_INT_ID v = TX_EMPTY" "bit (ier ?d) 1"
    using c by (auto simp: isr_cause_def)
  then show ?thesis
  proof cases
    case data
    obtain rx d where r: "pc16550_rx_trig io dev 14 (rx_ring s) ?d = (rx, d)" by fastforce
    note t = rx_trig [OF h(1,2) data(2) r]
    have "serial_moves sent inp s (s\<lparr>rx_ring := rx, sr_hw := d\<rparr>)"
      by (rule moves_rx [where g = "take 14 (inp ?d)"]) (use t s(2) in auto)
    then show ?thesis
      using t r data s by (simp add: pc16550_dispatch_def PC16550_RX_FIFO_TRIG_def up_hw rings_wf_def work_def)
  next
    case timeout
    obtain w d1 where w: "inb io (PC16550_LSR dev) ?d = (w, d1)" by fastforce
    note l = lsr [OF h(1) w]
    obtain rx d where r: "pc16550_rx_drain io dev w (rx_ring s) d1 = Some (rx, d)" "rb_wf rx" "rb_cap rx = rb_cap (rx_ring s)"
        "ok d" "sent d = sent d1" "inp d = []" "ier d = ier d1" "errs d = 0"
        "rb_contents rx = keep_last (rb_cap (rx_ring s)) (rb_contents (rx_ring s) @ inp d1)"
      using rx_drain [of d1 "rx_ring s" w] l h(2) by auto
    have "serial_moves sent inp s (s\<lparr>rx_ring := rx, sr_hw := d\<rparr>)"
      by (rule moves_rx [where g = "inp ?d"]) (use r l s(2) in auto)
    then show ?thesis
      using r l w timeout s by (simp add: pc16550_dispatch_def isr_ids up_hw rings_wf_def work_def)
  next
    case line
    obtain w d1 where w: "inb io (PC16550_LSR dev) ?d = (w, d1)" by fastforce
    note l = lsr [OF h(1) w]
    have "serial_moves sent inp s (s\<lparr>sr_hw := d1\<rparr>)" by (rule moves_hw) (use l s(2) in auto)
    then show ?thesis
      using l w line s by (simp add: pc16550_dispatch_def isr_ids up_hw rings_wf_def work_def)
  next
    case tx
    show ?thesis
    proof (cases "ring_buffer_is_empty (tx_ring s)")
      case True
      let ?e = "pc16550_disable_tx_int io dev ?d"
      note e = disable_tx [OF h(1) refl]
      have "serial_moves sent inp s (s\<lparr>sr_hw := ?e\<rparr>)" by (rule moves_hw) (use e s(2) in auto)
      then show ?thesis using e True tx s by (simp add: pc16550_dispatch_def isr_ids up_hw rings_wf_def work_def)
    next
      case False
      then have ne: "0 < length (rb_contents (tx_ring s))" using h(3) by (simp add: is_empty_count)
      obtain t d where r: "pc16550_tx_fill io dev 16 (tx_ring s) ?d = (t, d)" by fastforce
      note f = tx_fill [OF h(1,3) r]
      have "serial_moves sent inp s (s\<lparr>tx_ring := t, sr_hw := d\<rparr>)" by (rule moves_tx) (use f s(2) in auto)
      moreover have "rb_count t < rb_count (tx_ring s)" using f ne length_rb_contents [of t] by simp
      ultimately show ?thesis
        using f r False tx s by (simp add: pc16550_dispatch_def isr_ids PC16550_TX_FIFO_SZ_def up_hw rings_wf_def work_def)
    qed
  qed
qed

lemma loop_ok:
  "up s \<Longrightarrow> rings_wf s \<Longrightarrow> isr_cause (inp (sr_hw s)) (errs (sr_hw s)) (ier (sr_hw s)) v \<Longrightarrow>
     \<exists>s'. pc16550_loop io dev v s = Some s' \<and> up s' \<and> rings_wf s' \<and> serial_moves sent inp s s'"
proof (induction "work s" arbitrary: s v rule: less_induct)
  case less
  show ?case
  proof (cases "bit v 0")
    case True
    then have "v AND ISR_NO_INTERRUPT \<noteq> 0" using bit_iff_and_push_bit_not_eq_0 [of v 0] by (simp add: ISR_NO_INTERRUPT_def)
    then show ?thesis using less.prems serial_moves_refl by (subst pc16550_loop.simps) auto
  next
    case False
    then have n: "v AND ISR_NO_INTERRUPT = 0" using bit_iff_and_push_bit_not_eq_0 [of v 0] by (simp add: ISR_NO_INTERRUPT_def)
    obtain t where t: "pc16550_dispatch io dev v s = Some t" "up t" "rings_wf t" "serial_moves sent inp s t" "work t < work s"
      using dispatch_ok [OF less.prems False] by blast
    obtain w d where w: "inb io (PC16550_ISR dev) (sr_hw t) = (w, d)" by fastforce
    have i: "ok d \<and> sent d = sent (sr_hw t) \<and> inp d = inp (sr_hw t) \<and> ier d = ier (sr_hw t) \<and> errs d = errs (sr_hw t) \<and>
        isr_cause (inp (sr_hw t)) (errs (sr_hw t)) (ier (sr_hw t)) w"
      using t(2) by (intro isr [OF _ w]) (simp add: up_def)
    have "work (t\<lparr>sr_hw := d\<rparr>) < work s" "up (t\<lparr>sr_hw := d\<rparr>)" "rings_wf (t\<lparr>sr_hw := d\<rparr>)"
      using i t by (simp_all add: work_def up_def rings_wf_def)
    moreover have "serial_moves sent inp s (t\<lparr>sr_hw := d\<rparr>)"
      using serial_moves_trans [OF t(4) moves_hw [OF t(3), of d]] i by simp
    ultimately show ?thesis
      using less.hyps [of "t\<lparr>sr_hw := d\<rparr>" w] i n t(1) w serial_moves_trans
      by (subst pc16550_loop.simps) (auto simp: isr_cause_def)
  qed
qed

lemma handler_up:
  assumes "up s" "rings_wf s"
  shows "\<exists>s'. pc16550_uart_handler io s = Some s' \<and> up s' \<and> rings_wf s' \<and> serial_moves sent inp s s'"
proof -
  obtain v d where v: "inb io (PC16550_ISR dev) (sr_hw s) = (v, d)" by fastforce
  have i: "ok d \<and> sent d = sent (sr_hw s) \<and> inp d = inp (sr_hw s) \<and> ier d = ier (sr_hw s) \<and> errs d = errs (sr_hw s) \<and>
      isr_cause (inp (sr_hw s)) (errs (sr_hw s)) (ier (sr_hw s)) v"
    using assms(1) by (intro isr [OF _ v]) (simp add: up_def)
  obtain t where t: "pc16550_loop io dev v (s\<lparr>sr_hw := d\<rparr>) = Some t" "up t" "rings_wf t"
      "serial_moves sent inp (s\<lparr>sr_hw := d\<rparr>) t"
    using loop_ok [of "s\<lparr>sr_hw := d\<rparr>" v] assms i by (auto simp: up_def rings_wf_def)
  have a: "\<exists>e. irq_ack io (sr_irqs t) (io_irq dev) (sr_hw t) = Some e \<and>
      (ok e \<and> sent e = sent (sr_hw t) \<and> inp e = inp (sr_hw t))"
    by (rule irq_ack_keeps [of "uart_reg dev"]) (use t(2) other in \<open>auto simp: up_def\<close>)
  then obtain e where e: "irq_ack io (sr_irqs t) (io_irq dev) (sr_hw t) = Some e"
      "ok e" "sent e = sent (sr_hw t)" "inp e = inp (sr_hw t)" by blast
  have "serial_moves sent inp s (s\<lparr>sr_hw := d\<rparr>)" by (rule moves_hw) (use i assms in auto)
  then have "serial_moves sent inp s (t\<lparr>sr_hw := e\<rparr>)"
    using serial_moves_trans t(4) moves_hw [OF t(3) e(3,4)] by blast
  then show ?thesis using assms(1) t v e by (auto simp: pc16550_uart_handler_def up_def rings_wf_def)
qed

end

sublocale pc16550_chip \<subseteq> driver: uart_driver up "pc16550_uart_start_xmit io" "pc16550_uart_handler io" sent inp
proof
  show "up s \<Longrightarrow> up (s\<lparr>rx_ring := r, tx_ring := t\<rparr>)" for s r t by (simp add: up_def)
qed (fact xmit_up, fact handler_up)

context pc16550_chip
begin

lemma is_driver: "uart_driver up (pc16550_uart_start_xmit io) (pc16550_uart_handler io) sent inp"
  by (fact driver.uart_driver_axioms)

end

section \<open>The 8251 driver\<close>

text \<open>
  The 8251 after its mode word (\<open>ok\<close>): a command without the reset bit only changes the command, the
  status says whether a byte was received, and the data register delivers and takes bytes.
\<close>

locale p8251_chip =
  fixes io :: "'d ports" and dev :: io_device and ok :: "'d \<Rightarrow> bool" and sent :: "'d \<Rightarrow> u8 list" and inp :: "'d \<Rightarrow> u8 list"
  assumes command: "ok d \<Longrightarrow> \<not> bit b 6 \<Longrightarrow> d' = outb io (P8251A_CMD dev) b d \<Longrightarrow> ok d' \<and> sent d' = sent d \<and> inp d' = inp d"
    and status: "ok d \<Longrightarrow> inb io (P8251A_CMD dev) d = (v, d') \<Longrightarrow> ok d' \<and> sent d' = sent d \<and> inp d' = inp d \<and>
      (bit v 1 \<longrightarrow> inp d \<noteq> [])"
    and data_in: "ok d \<Longrightarrow> inp d = b # bs \<Longrightarrow> inb io (P8251A_DATA dev) d = (v, d') \<Longrightarrow> v = b \<and> ok d' \<and>
      sent d' = sent d \<and> inp d' = bs"
    and data_out: "ok d \<Longrightarrow> d' = outb io (P8251A_DATA dev) b d \<Longrightarrow> ok d' \<and> sent d' = sent d @ [b] \<and> inp d' = inp d"
    and other: "ok d \<Longrightarrow> \<not> uart_reg dev q \<Longrightarrow> d' = outb io q b d \<Longrightarrow> ok d' \<and> sent d' = sent d \<and> inp d' = inp d"
begin

definition up :: "'d serial \<Rightarrow> bool" where
  "up s \<longleftrightarrow> sr_uart s = Some dev \<and> pics_apart (uart_reg dev) (sr_irqs s) \<and> ok (sr_hw s) \<and> \<not> bit (sr_cmd s) 6"

definition keeps :: "'d serial \<Rightarrow> 'd serial \<Rightarrow> bool" where
  "keeps s s' \<longleftrightarrow> up s' \<and> rings_wf s' \<and> serial_moves sent inp s s'"

lemma port_keeps_trans: "keeps s t \<Longrightarrow> keeps t u \<Longrightarrow> keeps s u"
  unfolding keeps_def using serial_moves_trans by blast

lemma cmd_keeps:
  assumes "up s" "rings_wf s" "\<not> bit b 6" shows "keeps s (p8251a_cmd io dev b s)"
  using assms command [of "sr_hw s" b] serial_moves_refl [OF assms(2), of sent inp]
  by (simp add: keeps_def up_def p8251a_cmd_def serial_moves_def rings_wf_def)

lemma rx_keeps:
  assumes "up s" "rings_wf s" "bit v 1 \<longrightarrow> inp (sr_hw s) \<noteq> []" shows "keeps s (p8251_rx io dev v s)"
proof (cases "bit v 1")
  case True
  then have n: "v AND STATUS_RXRDY \<noteq> 0" using bit_iff_and_push_bit_not_eq_0 [of v 1] by (simp add: STATUS_RXRDY_def)
  obtain b bs where b: "inp (sr_hw s) = b # bs" using True assms(3) by (cases "inp (sr_hw s)") auto
  obtain w d where w: "inb io (P8251A_DATA dev) (sr_hw s) = (w, d)" by fastforce
  have i: "w = b \<and> ok d \<and> sent d = sent (sr_hw s) \<and> inp d = bs"
    using assms(1) by (intro data_in [OF _ b w]) (simp add: up_def)
  have "p8251_rx io dev v s = s\<lparr>rx_ring := ring_buffer_queue (rx_ring s) b, sr_hw := d\<rparr>"
    using n w i by (simp add: p8251_rx_def)
  then show ?thesis
    using assms(1,2) i b
    by (auto simp: keeps_def up_def rings_wf_def serial_moves_def ring_buffer_queue_wf ring_buffer_queue_contents)
next
  case False
  then have "v AND STATUS_RXRDY = 0" using bit_iff_and_push_bit_not_eq_0 [of v 1] by (simp add: STATUS_RXRDY_def)
  then show ?thesis using assms serial_moves_refl by (auto simp: keeps_def p8251_rx_def)
qed

lemma tx_keeps:
  assumes "up s" "rings_wf s" shows "keeps s (p8251_tx io dev v s)"
proof (cases "v AND STATUS_TXRDY = 0")
  case True
  then show ?thesis using assms serial_moves_refl by (auto simp: keeps_def p8251_tx_def)
next
  case n: False
  have wf: "rb_wf (tx_ring s)" using assms(2) by (simp add: rings_wf_def)
  show ?thesis
  proof (cases "rb_contents (tx_ring s)")
    case Nil
    have "p8251_tx io dev v s = s\<lparr>sr_cmd := CMD_RX_ENABLE\<rparr>"
      using n rbq.deq_empty [OF wf Nil] by (simp add: p8251_tx_def)
    then show ?thesis
      using assms serial_moves_refl [OF assms(2), of sent inp]
      by (simp add: keeps_def up_def rings_wf_def serial_moves_def CMD_RX_ENABLE_def bit_simps)
  next
    case (Cons b bs)
    obtain t where e: "ring_buffer_dequeue (tx_ring s) = (Some b, t)"
      using rbq.deq_hd [OF wf Cons] by (metis prod.collapse)
    have t: "rb_contents t = bs" "rb_wf t" "rb_cap t = rb_cap (tx_ring s)"
      using rbq.deq_hd [OF wf Cons] rbq.wf_deq [OF wf] rbq.cap_deq [OF wf] by (simp_all add: e)
    have o': "ok (sr_hw s)" using assms(1) by (simp add: up_def)
    have "p8251_tx io dev v s = s\<lparr>tx_ring := t, sr_hw := outb io (P8251A_DATA dev) b (sr_hw s)\<rparr>"
      using n e by (simp add: p8251_tx_def)
    then show ?thesis
      using assms data_out [OF o' refl, of b] t Cons serial_moves_refl [OF assms(2), of sent inp]
      by (simp add: keeps_def up_def rings_wf_def serial_moves_def)
  qed
qed

lemma handler_up:
  assumes "up s" "rings_wf s"
  shows "\<exists>s'. p8251_uart_handler io s = Some s' \<and> up s' \<and> rings_wf s' \<and> serial_moves sent inp s s'"
proof -
  let ?s1 = "p8251a_cmd io dev (sr_cmd s AND NOT CMD_FORCE_RTS) s"
  have "\<not> bit (sr_cmd s AND NOT CMD_FORCE_RTS) 6" using assms(1) by (simp add: up_def bit_and_iff)
  then have k1: "keeps s ?s1" by (rule cmd_keeps [OF assms])
  obtain v d where v: "inb io (P8251A_CMD dev) (sr_hw ?s1) = (v, d)" by fastforce
  have i: "ok d \<and> sent d = sent (sr_hw ?s1) \<and> inp d = inp (sr_hw ?s1) \<and> (bit v 1 \<longrightarrow> inp (sr_hw ?s1) \<noteq> [])"
    using k1 by (intro status [OF _ v]) (simp add: keeps_def up_def)
  let ?s2 = "?s1\<lparr>sr_hw := d\<rparr>"
  have k2: "keeps ?s1 ?s2"
    using i k1 serial_moves_refl [of ?s1 sent inp] by (simp add: keeps_def up_def rings_wf_def serial_moves_def)
  let ?s3 = "p8251_rx io dev v ?s2" and ?s4 = "p8251_tx io dev v (p8251_rx io dev v ?s2)"
  have k3: "keeps ?s2 ?s3" by (rule rx_keeps) (use k2 i in \<open>auto simp: keeps_def\<close>)
  have k4: "keeps ?s3 ?s4" by (rule tx_keeps) (use k3 in \<open>auto simp: keeps_def\<close>)
  let ?s5 = "p8251a_cmd io dev (sr_cmd ?s4 OR CMD_FORCE_RTS) ?s4"
  have "\<not> bit (sr_cmd ?s4 OR CMD_FORCE_RTS) 6"
    using k4 by (simp add: keeps_def up_def bit_or_iff CMD_FORCE_RTS_def bit_simps)
  then have k5: "keeps ?s4 ?s5" using k4 by (intro cmd_keeps) (auto simp: keeps_def)
  have "keeps s ?s5" using k1 k2 k3 k4 k5 port_keeps_trans by blast
  moreover have "\<exists>e. irq_ack io (sr_irqs ?s5) (io_irq dev) (sr_hw ?s5) = Some e \<and>
      (ok e \<and> sent e = sent (sr_hw ?s5) \<and> inp e = inp (sr_hw ?s5))"
    by (rule irq_ack_keeps [of "uart_reg dev"]) (use k5 other in \<open>auto simp: keeps_def up_def\<close>)
  ultimately show ?thesis
    using assms(1) v unfolding keeps_def
    by (auto simp: p8251_uart_handler_def Let_def up_def rings_wf_def serial_moves_def)
qed

lemma xmit_up:
  assumes "up s"
  shows "\<exists>s'. p8251_uart_start_xmit io s = Some s' \<and> up s' \<and> rx_ring s' = rx_ring s \<and> tx_ring s' = tx_ring s \<and>
    binded s' = binded s \<and> sent (sr_hw s') = sent (sr_hw s) \<and> inp (sr_hw s') = inp (sr_hw s)"
proof -
  have "\<not> bit (sr_cmd s OR CMD_TX_ENABLE) 6" using assms by (simp add: up_def bit_or_iff CMD_TX_ENABLE_def)
  then show ?thesis
    using command [of "sr_hw s" "sr_cmd s OR CMD_TX_ENABLE"] assms
    by (auto simp: p8251_uart_start_xmit_def p8251a_cmd_def up_def Let_def)
qed

end

sublocale p8251_chip \<subseteq> driver: uart_driver up "p8251_uart_start_xmit io" "p8251_uart_handler io" sent inp
proof
  show "up s \<Longrightarrow> up (s\<lparr>rx_ring := r, tx_ring := t\<rparr>)" for s r t by (simp add: up_def)
qed (fact xmit_up, fact handler_up)

context p8251_chip
begin

lemma is_driver: "uart_driver up (p8251_uart_start_xmit io) (p8251_uart_handler io) sent inp"
  by (fact driver.uart_driver_axioms)

end

section \<open>Model chips\<close>

text \<open>
  A 16550 at the ports of \<open>dev\<close>, with the divisor latch behind bit 7 of the line control register,
  and the mask registers of the interrupt controllers as the other ports.
\<close>

record uart_chip =
  u_rx :: "u8 list"
  u_tx :: "u8 list"
  u_ier :: u8
  u_lcr :: u8
  u_dll :: u8
  u_dlm :: u8
  u_errs :: nat
  u_ports :: "u16 \<Rightarrow> u8"

definition u_isr :: "uart_chip \<Rightarrow> u8" where
  "u_isr c = (if bit (u_ier c) 2 \<and> 0 < u_errs c then 6
     else if bit (u_ier c) 0 \<and> 14 \<le> length (u_rx c) then 4
     else if bit (u_ier c) 0 \<and> u_rx c \<noteq> [] then 12
     else if bit (u_ier c) 1 then 2 else 1)"

definition pc16550_inb :: "io_device \<Rightarrow> u16 \<Rightarrow> uart_chip \<Rightarrow> u8 \<times> uart_chip" where
  "pc16550_inb dev q c =
     (if q = PC16550_BUFR dev
      then if bit (u_lcr c) 7 then (u_dll c, c) else case u_rx c of [] \<Rightarrow> (0, c) | b # bs \<Rightarrow> (b, c\<lparr>u_rx := bs\<rparr>)
      else if q = PC16550_IER dev then (if bit (u_lcr c) 7 then u_dlm c else u_ier c, c)
      else if q = PC16550_ISR dev then (u_isr c, c)
      else if q = PC16550_LINE_CTRL dev then (u_lcr c, c)
      else if q = PC16550_LSR dev then (if u_rx c = [] then 0x60 else 0x61, c\<lparr>u_errs := 0\<rparr>)
      else (u_ports c q, c))"

definition pc16550_outb :: "io_device \<Rightarrow> u16 \<Rightarrow> u8 \<Rightarrow> uart_chip \<Rightarrow> uart_chip" where
  "pc16550_outb dev q b c =
     (if q = PC16550_BUFR dev then if bit (u_lcr c) 7 then c\<lparr>u_dll := b\<rparr> else c\<lparr>u_tx := u_tx c @ [b]\<rparr>
      else if q = PC16550_IER dev then if bit (u_lcr c) 7 then c\<lparr>u_dlm := b\<rparr> else c\<lparr>u_ier := b\<rparr>
      else if q = PC16550_LINE_CTRL dev then c\<lparr>u_lcr := b\<rparr>
      else c\<lparr>u_ports := (u_ports c)(q := b)\<rparr>)"

definition pc16550_ports :: "io_device \<Rightarrow> uart_chip ports" where
  "pc16550_ports dev = \<lparr>inb = pc16550_inb dev, outb = pc16550_outb dev, elapse = (\<lambda>_ c. c)\<rparr>"

definition pc16550_ok :: "uart_chip \<Rightarrow> bool" where
  "pc16550_ok c \<longleftrightarrow> \<not> bit (u_lcr c) 7 \<and> \<not> bit (u_ier c) 3"

lemmas pc16550_regs = PC16550_BUFR_def PC16550_IER_def PC16550_ISR_def PC16550_FCR_def PC16550_LINE_CTRL_def
  PC16550_MCR_def PC16550_LSR_def PC16550_MSR_def PC16550_DIV_LSB_def PC16550_DIV_MSB_def

lemma uart_regs: "uart_reg dev (PC16550_BUFR dev)" "uart_reg dev (PC16550_IER dev)" "uart_reg dev (PC16550_LINE_CTRL dev)"
  by (simp_all add: uart_reg_def pc16550_regs)

lemma u_isr_cause: "isr_cause (u_rx c) (u_errs c) (u_ier c) (u_isr c)"
proof -
  have "ISR_INT_ID 6 = RX_LINE_STATUS" "ISR_INT_ID 4 = RX_DATA" "ISR_INT_ID 12 = RX_FIFO_TIMEOUT" "ISR_INT_ID 2 = TX_EMPTY"
    by (simp_all add: ISR_INT_ID_def isr_ids)
  then show ?thesis unfolding u_isr_def isr_cause_def by simp
qed

interpretation pc16550: pc16550_chip "pc16550_ports dev" dev pc16550_ok u_tx u_rx u_ier u_errs for dev
proof
  note chip = pc16550_ports_def pc16550_inb_def pc16550_outb_def pc16550_ok_def pc16550_regs
  fix d d' :: uart_chip and v b :: u8 and bs q
  show "pc16550_ok d \<Longrightarrow> inb (pc16550_ports dev) (PC16550_ISR dev) d = (v, d') \<Longrightarrow> pc16550_ok d' \<and> u_tx d' = u_tx d \<and>
      u_rx d' = u_rx d \<and> u_ier d' = u_ier d \<and> u_errs d' = u_errs d \<and> isr_cause (u_rx d) (u_errs d) (u_ier d) v"
    using u_isr_cause [of d] by (auto simp: chip)
  show "pc16550_ok d \<Longrightarrow> inb (pc16550_ports dev) (PC16550_LSR dev) d = (v, d') \<Longrightarrow> pc16550_ok d' \<and> u_tx d' = u_tx d \<and>
      u_rx d' = u_rx d \<and> u_ier d' = u_ier d \<and> u_errs d' = 0 \<and> (bit v 0 \<longleftrightarrow> u_rx d \<noteq> [])"
    by (auto simp: chip)
  show "pc16550_ok d \<Longrightarrow> u_rx d = b # bs \<Longrightarrow> inb (pc16550_ports dev) (PC16550_BUFR dev) d = (v, d') \<Longrightarrow>
      v = b \<and> pc16550_ok d' \<and> u_tx d' = u_tx d \<and> u_rx d' = bs \<and> u_ier d' = u_ier d \<and> u_errs d' = u_errs d"
    by (auto simp: chip)
  show "pc16550_ok d \<Longrightarrow> d' = outb (pc16550_ports dev) (PC16550_BUFR dev) b d \<Longrightarrow> pc16550_ok d' \<and>
      u_tx d' = u_tx d @ [b] \<and> u_rx d' = u_rx d \<and> u_ier d' = u_ier d \<and> u_errs d' = u_errs d"
    by (simp add: chip)
  show "pc16550_ok d \<Longrightarrow> inb (pc16550_ports dev) (PC16550_IER dev) d = (v, d') \<Longrightarrow> v = u_ier d \<and> pc16550_ok d' \<and>
      u_tx d' = u_tx d \<and> u_rx d' = u_rx d \<and> u_ier d' = u_ier d \<and> u_errs d' = u_errs d"
    by (auto simp: chip)
  show "pc16550_ok d \<Longrightarrow> \<not> bit b 3 \<Longrightarrow> d' = outb (pc16550_ports dev) (PC16550_IER dev) b d \<Longrightarrow> pc16550_ok d' \<and>
      u_tx d' = u_tx d \<and> u_rx d' = u_rx d \<and> u_ier d' = b \<and> u_errs d' = u_errs d"
    by (simp add: chip)
  show "pc16550_ok d \<Longrightarrow> \<not> bit (u_ier d) 3" by (simp add: chip)
  show "pc16550_ok d \<Longrightarrow> \<not> uart_reg dev q \<Longrightarrow> d' = outb (pc16550_ports dev) q b d \<Longrightarrow> pc16550_ok d' \<and>
      u_tx d' = u_tx d \<and> u_rx d' = u_rx d"
    using uart_regs [of dev] by (auto simp: pc16550_ports_def pc16550_outb_def pc16550_ok_def)
qed

text \<open>An 8251 at the ports of \<open>dev\<close>, ready to transmit at any time; a reset makes it expect a mode word.\<close>

record usart_chip =
  v_rx :: "u8 list"
  v_tx :: "u8 list"
  v_cmd :: u8
  v_mode :: "u8 option"
  v_ports :: "u16 \<Rightarrow> u8"

definition p8251_inb :: "io_device \<Rightarrow> u16 \<Rightarrow> usart_chip \<Rightarrow> u8 \<times> usart_chip" where
  "p8251_inb dev q c =
     (if q = P8251A_CMD dev then (if v_rx c = [] then 1 else 3, c)
      else if q = P8251A_DATA dev then case v_rx c of [] \<Rightarrow> (0, c) | b # bs \<Rightarrow> (b, c\<lparr>v_rx := bs\<rparr>)
      else (v_ports c q, c))"

definition p8251_outb :: "io_device \<Rightarrow> u16 \<Rightarrow> u8 \<Rightarrow> usart_chip \<Rightarrow> usart_chip" where
  "p8251_outb dev q b c =
     (if q = P8251A_CMD dev
      then case v_mode c of
             None \<Rightarrow> c\<lparr>v_mode := Some b\<rparr>
           | Some _ \<Rightarrow> if bit b 6 then c\<lparr>v_mode := None\<rparr> else c\<lparr>v_cmd := b\<rparr>
      else if q = P8251A_DATA dev then c\<lparr>v_tx := v_tx c @ [b]\<rparr>
      else c\<lparr>v_ports := (v_ports c)(q := b)\<rparr>)"

definition p8251_ports :: "io_device \<Rightarrow> usart_chip ports" where
  "p8251_ports dev = \<lparr>inb = p8251_inb dev, outb = p8251_outb dev, elapse = (\<lambda>_ c. c)\<rparr>"

text \<open>The UART of the 8088-rev2 board, whose data port is even.\<close>

definition rev2_uart :: io_device where
  "rev2_uart = uart board_8088_rev2"

interpretation p8251: p8251_chip "p8251_ports rev2_uart" rev2_uart "\<lambda>c. v_mode c \<noteq> None" v_tx v_rx
  by unfold_locales
    (auto simp: p8251_ports_def p8251_inb_def p8251_outb_def P8251A_CMD_def P8251A_DATA_def uart_reg_def
      rev2_uart_def board_8088_rev2_def split: option.splits)

lemma word_cat_bytes:
  "(word_cat (ucast (drop_bit 8 v AND 0xff) :: u8) (ucast (v AND 0xff) :: u8) :: u16) = ucast (v :: u32)"
proof (rule bit_word_eqI)
  have m: "(0xff :: u32) = mask 8" by (simp add: mask_eq_exp_minus_1)
  fix n assume "n < LENGTH(16)"
  then show "bit (word_cat (ucast (drop_bit 8 v AND 0xff) :: u8) (ucast (v AND 0xff) :: u8) :: u16) n = bit (ucast v :: u16) n"
    unfolding m by (auto simp: bit_simps)
qed

lemma pc16550_set_baud_rate_chip:
  assumes "baud \<noteq> 0" "u_lcr c = 3"
  shows "\<exists>c'. pc16550_set_baud_rate (pc16550_ports dev) dev baud c = Some c' \<and>
    c' = c\<lparr>u_dll := u_dll c', u_dlm := u_dlm c'\<rparr> \<and>
    (word_cat (u_dlm c') (u_dll c') :: u16) = ucast (uart_freq dev div 16 div ucast baud)"
proof -
  have f: "drop_bit 4 (uart_freq dev) = uart_freq dev div 16" by (simp add: drop_bit_eq_div)
  have s: "c\<lparr>u_dll := a, u_dlm := b, u_lcr := 3\<rparr> = c\<lparr>u_dll := a, u_dlm := b\<rparr>" for a b
    using assms(2) by (cases c) simp
  show ?thesis
    using assms
    by (simp add: s Let_def pc16550_set_baud_rate_def pc16550_ports_def pc16550_inb_def pc16550_outb_def pc16550_regs
        LCR_DLAB_def f word_cat_bytes)
qed

lemma pc16550_initialize_chip:
  assumes "devs IO_DEV_UART = Some dev" "pics_apart (uart_reg dev) (sr_irqs s)" "baud \<noteq> 0"
    and "master (sr_irqs s) = Some p" "irq_base p = 0" "0 \<le> io_irq dev" "io_irq dev < irq_max p" "irq_max p \<le> 8"
    and "uint (idt_offset p) + 8 \<le> IDT_ENTRIES"
  shows "\<exists>s'. pc16550_uart_initialize (pc16550_ports dev) devs cs h baud s = Some s' \<and> pc16550.up dev s' \<and>
    rx_ring s' = rx_ring s \<and> tx_ring s' = tx_ring s \<and>
    u_lcr (sr_hw s') = 3 \<and> bit (u_ier (sr_hw s')) 0 \<and> \<not> bit (u_ier (sr_hw s')) 1 \<and> u_tx (sr_hw s') = u_tx (sr_hw s) \<and>
    (word_cat (u_dlm (sr_hw s')) (u_dll (sr_hw s')) :: u16) = ucast (uart_freq dev div 16 div ucast baud) \<and>
    idt (sr_irqs s') (uint (idt_offset p) + io_irq dev) = (cs, h) \<and>
    \<not> bit (u_ports (sr_hw s') (PIC_DATA p)) (nat (io_irq dev)) \<and>
    sr_irqs s' = interrupts_handle (sr_irqs s) (uint (idt_offset p) + io_irq dev) cs h"
proof -
  let ?io = "pc16550_ports dev" and ?c = "sr_hw s"
  define c1 where "c1 = outb ?io (PC16550_IER dev) 5 (outb ?io (PC16550_LINE_CTRL dev) 3 (outb ?io (PC16550_FCR dev) 0xC7 ?c))"
  have c1: "u_lcr c1 = 3" "u_ier c1 = 5" "u_tx c1 = u_tx ?c"
    by (simp_all add: c1_def pc16550_ports_def pc16550_outb_def pc16550_regs)
  obtain c2 where c2: "pc16550_set_baud_rate ?io dev baud c1 = Some c2" "c2 = c1\<lparr>u_dll := u_dll c2, u_dlm := u_dlm c2\<rparr>"
      "(word_cat (u_dlm c2) (u_dll c2) :: u16) = ucast (uart_freq dev div 16 div ucast baud)"
    using pc16550_set_baud_rate_chip [OF assms(3) c1(1)] by blast
  have k2: "u_lcr c2 = 3" "u_ier c2 = 5" "u_tx c2 = u_tx ?c" 
    using c1 arg_cong [OF c2(2), of u_lcr] arg_cong [OF c2(2), of u_ier] arg_cong [OF c2(2), of u_tx] by simp_all
  define c3 where "c3 = outb ?io (PC16550_MCR dev) MCR_RTS c2"
  have c3: "u_lcr c3 = 3" "u_ier c3 = 5" "u_tx c3 = u_tx ?c" "u_dll c3 = u_dll c2" "u_dlm c3 = u_dlm c2"
    using k2 by (simp_all add: c3_def pc16550_ports_def pc16550_outb_def pc16550_regs)
  have q: "\<not> uart_reg dev (PIC_DATA p)" using assms(2,4) by (simp add: pics_apart_def)
  have r: "uart_reg dev (PC16550_ISR dev)" "uart_reg dev (PC16550_LSR dev)"
    by (simp_all add: uart_reg_def pc16550_regs)
  let ?v = "u_ports c3 (PIC_DATA p) AND NOT (irq_bit (io_irq dev))"
  have e: "p8259a_irq_enable ?io p (io_irq dev) c3 = c3\<lparr>u_ports := (u_ports c3)(PIC_DATA p := ?v)\<rparr>"
  proof -
    have "PIC_DATA p \<noteq> PC16550_BUFR dev" "PIC_DATA p \<noteq> PC16550_IER dev" "PIC_DATA p \<noteq> PC16550_LINE_CTRL dev"
      "PIC_DATA p \<noteq> PC16550_ISR dev" "PIC_DATA p \<noteq> PC16550_LSR dev"
      using q r uart_regs [of dev] by metis+
    then show ?thesis by (simp add: p8259a_irq_enable_def pc16550_ports_def pc16550_inb_def pc16550_outb_def)
  qed
  let ?irqs = "interrupts_handle (sr_irqs s) (uint (idt_offset p) + io_irq dev) cs h"
  have i: "interrupts_from_irq (sr_irqs s) (io_irq dev) = Some (uint (idt_offset p) + io_irq dev)"
    "master ?irqs = Some p" "idt ?irqs (uint (idt_offset p) + io_irq dev) = (cs, h)"
  proof -
    have "\<not> uint (idt_offset p) + io_irq dev < 0" "uint (idt_offset p) + io_irq dev < IDT_ENTRIES"
      using assms(6-) uint_nonnegative [of "idt_offset p"] by linarith+
    then show "interrupts_from_irq (sr_irqs s) (io_irq dev) = Some (uint (idt_offset p) + io_irq dev)"
      "master ?irqs = Some p" "idt ?irqs (uint (idt_offset p) + io_irq dev) = (cs, h)"
      using assms(4-) by (simp_all add: interrupts_from_irq_def interrupts_handle_def)
  qed
  let ?s = "s\<lparr>sr_uart := Some dev, sr_irqs := ?irqs, sr_hw := c3\<lparr>u_ports := (u_ports c3)(PIC_DATA p := ?v)\<rparr>\<rparr>"
  have "pc16550_uart_initialize ?io devs cs h baud s = Some ?s"
    using assms(1,6,7) c2(1) i e
    by (simp add: pc16550_uart_initialize_def board_get_io_dev_def irq_enable_def FCR_RX_TX_ENABLE_def FCR_RX_CLEAR_def
        FCR_TX_CLEAR_def FCR_TRIGGER_14B_def LCR_8BITS_def IER_RX_RDY_def IER_RX_LINE_STATUS_def flip: c1_def c3_def)
  moreover have "pc16550.up dev ?s"
    using assms(2,4) i(2) c3 by (simp add: pc16550.up_def pc16550_ok_def pics_apart_def)
  moreover have "\<not> bit ?v (nat (io_irq dev))"
    using assms(6-8) by (simp add: irq_bit_def bit_simps)
  ultimately show ?thesis using c3 c2(3) i(3) by (intro exI [of _ ?s]) simp
qed

section \<open>Properties\<close>

text \<open>
  C28.  The interrupt handler of the 16550 driver returns whatever causes the chip reports, and moves
  bytes in order: those sent followed by those still queued are the same stream as before, and the
  bytes it takes from the chip are appended to the receive ring.
\<close>

theorem pc16550_handler_streams:
  assumes "pc16550_chip io dev ok sent inp ier errs" "sr_uart s = Some dev" "pics_apart (uart_reg dev) (sr_irqs s)" "ok (sr_hw s)"
    and "rings_wf s"
  shows "\<exists>s'. pc16550_uart_handler io s = Some s' \<and> ok (sr_hw s') \<and> rings_wf s' \<and> serial_moves sent inp s s'"
  using pc16550_chip.handler_up [OF assms(1) _ assms(5)] assms(2-4) by (auto simp: pc16550_chip.up_def [OF assms(1)])

text \<open>
  Initialising the 16550 driver, from any state of the chip: eight data bits, the divisor of the
  baud rate in the latch and the latch closed, reception and line status interrupts enabled, the
  handler in the vector of the interrupt line and the line unmasked; nothing is sent.
\<close>

theorem pc16550_initialize_correct:
  assumes "devs IO_DEV_UART = Some dev" "pics_apart (uart_reg dev) (sr_irqs s)" "baud \<noteq> 0"
    and "master (sr_irqs s) = Some p" "irq_base p = 0" "0 \<le> io_irq dev" "io_irq dev < irq_max p" "irq_max p \<le> 8"
    and "uint (idt_offset p) + 8 \<le> IDT_ENTRIES"
  shows "\<exists>s'. pc16550_uart_initialize (pc16550_ports dev) devs cs h baud s = Some s' \<and> pc16550.up dev s' \<and>
    u_lcr (sr_hw s') = 3 \<and> bit (u_ier (sr_hw s')) 0 \<and> \<not> bit (u_ier (sr_hw s')) 1 \<and> u_tx (sr_hw s') = u_tx (sr_hw s) \<and>
    (word_cat (u_dlm (sr_hw s')) (u_dll (sr_hw s')) :: u16) = ucast (uart_freq dev div 16 div ucast baud) \<and>
    idt (sr_irqs s') (uint (idt_offset p) + io_irq dev) = (cs, h) \<and>
    \<not> bit (u_ports (sr_hw s') (PIC_DATA p)) (nat (io_irq dev))"
  using pc16550_initialize_chip [of devs dev s baud p cs h] assms by blast

section \<open>A sample state\<close>

definition rev3_uart :: io_device where "rev3_uart = uart board_8088_rev3"

definition rev3_irqs :: irq_state where
  "rev3_irqs = \<lparr>idt = (\<lambda>_. (0, 0)), master = Some (Pic 0x20 (- 1) 0 8 32 None)\<rparr>"

definition rev3_chip :: uart_chip where
  "rev3_chip = \<lparr>u_rx = [1, 2], u_tx = [], u_ier = 7, u_lcr = 3, u_dll = 8, u_dlm = 0, u_errs = 1, u_ports = (\<lambda>_. 0xff)\<rparr>"

definition rev3_serial :: "uart_chip serial" where
  "rev3_serial = \<lparr>rx_ring = ring_buffer_init (replicate 8 0) 8,
     tx_ring = ring_buffer_queue_arr (ring_buffer_init (replicate 8 0) 8) [65, 66],
     sr_uart = Some rev3_uart, sr_cmd = 0, binded = True, sr_irqs = rev3_irqs, sr_hw = rev3_chip\<rparr>"

lemma rev3_ok: "rings_wf rev3_serial" "pics_apart (uart_reg rev3_uart) rev3_irqs" "pc16550_ok rev3_chip"
  using ring_buffer_init_wf(1) [of 8 "replicate 8 0"]
  by (simp_all add: RING_BUFFER_IS_POWER_OF_TWO_def ring_buffer_queue_wf rings_wf_def rev3_serial_def pics_apart_def rev3_irqs_def rev3_uart_def board_8088_rev3_def
      uart_reg_def PIC_CMD_def PIC_DATA_def pc16550_ok_def rev3_chip_def)

theorem pc16550_handler_streams_witness:
  "\<exists>s'. pc16550_uart_handler (pc16550_ports rev3_uart) rev3_serial = Some s' \<and> serial_moves u_tx u_rx rev3_serial s'"
  using pc16550_handler_streams [OF pc16550.pc16550_chip_axioms, of rev3_serial] rev3_ok
  by (auto simp: rev3_serial_def)

theorem pc16550_initialize_correct_witness:
  "\<exists>s'. pc16550_uart_initialize (pc16550_ports rev3_uart) (\<lambda>_. Some rev3_uart) 0 0x1234 38400 rev3_serial = Some s' \<and>
    (word_cat (u_dlm (sr_hw s')) (u_dll (sr_hw s')) :: u16) = 8 \<and> idt (sr_irqs s') 36 = (0, 0x1234)"
  using pc16550_initialize_correct [of "\<lambda>_. Some rev3_uart" rev3_uart rev3_serial 38400 "Pic 0x20 (- 1) 0 8 32 None", where cs = 0 and h = "0x1234"]
    rev3_ok(2)
  by (auto simp: rev3_serial_def rev3_irqs_def IDT_ENTRIES_def rev3_uart_def board_8088_rev3_def)

end
