(* ===== verification/Console.thy ===== *)
theory Console
  imports Uart
begin

text \<open>
  The console (\<^verbatim>\<open>kernel/console.c\<close>): two rings of 512 bytes between the callers of
  \<^verbatim>\<open>console_putchar\<close>, \<^verbatim>\<open>console_puts\<close> and \<^verbatim>\<open>console_getchar\<close> and the UART driver the board links, whose
  functions are arguments here.  The client lemmas are proved once in the locale \<open>uart_driver\<close> and hold
  for both drivers.
\<close>

definition RINGBUF_SIZE :: size_t where "RINGBUF_SIZE = 512"

definition console_start_xmit :: "('d serial \<Rightarrow> 'd serial option) \<Rightarrow> 'd serial \<Rightarrow> 'd serial option" where
  "console_start_xmit uart_start_xmit s = (if binded s then uart_start_xmit s else Some s)"

text \<open>The static arrays \<^verbatim>\<open>rx_buf\<close> and \<^verbatim>\<open>tx_buf\<close> are the arguments.\<close>

definition console_initialize :: "u8 list \<Rightarrow> u8 list \<Rightarrow> 'd serial \<Rightarrow> 'd serial" where
  "console_initialize rx_buf tx_buf s =
     s\<lparr>rx_ring := ring_buffer_init rx_buf RINGBUF_SIZE, tx_ring := ring_buffer_init tx_buf RINGBUF_SIZE, binded := False\<rparr>"

definition console_bind_uart ::
    "(u16 \<Rightarrow> 'd serial \<Rightarrow> 'd serial option) \<Rightarrow> ('d serial \<Rightarrow> 'd serial option) \<Rightarrow> 'd serial \<Rightarrow> 'd serial option" where
  "console_bind_uart uart_initialize uart_start_xmit s =
     do { s \<leftarrow> uart_initialize 38400 s;
          let s = s\<lparr>binded := True\<rparr>;
          if \<not> ring_buffer_is_empty (tx_ring s) then console_start_xmit uart_start_xmit s else Some s }"

definition console_putchar :: "('d serial \<Rightarrow> 'd serial option) \<Rightarrow> u16 \<Rightarrow> 'd serial \<Rightarrow> (int \<times> 'd serial) option" where
  "console_putchar uart_start_xmit c s =
     do { let s = (if (ucast c :: u8) = 10 then s\<lparr>tx_ring := ring_buffer_queue (tx_ring s) 13\<rparr> else s);
          let s = s\<lparr>tx_ring := ring_buffer_queue (tx_ring s) (ucast c)\<rparr>;
          s \<leftarrow> console_start_xmit uart_start_xmit s;
          Some (1, s) }"

text \<open>The string is the list of its bytes before the terminator, \<^verbatim>\<open>strlen\<close> of them.\<close>

definition console_puts :: "('d serial \<Rightarrow> 'd serial option) \<Rightarrow> u8 list \<Rightarrow> 'd serial \<Rightarrow> (int \<times> 'd serial) option" where
  "console_puts uart_start_xmit str s =
     do { let len = int16 (int (length str));
          let s = s\<lparr>tx_ring := ring_buffer_queue_arr (tx_ring s) str\<rparr>;
          let s = s\<lparr>tx_ring := ring_buffer_queue_arr (tx_ring s) [13, 10]\<rparr>;
          s \<leftarrow> console_start_xmit uart_start_xmit s;
          Some (int16 (len + 2), s) }"

definition console_getchar :: "'d serial \<Rightarrow> int \<times> 'd serial" where
  "console_getchar s =
     (if ring_buffer_is_empty (rx_ring s) then (- 1, s)
      else case ring_buffer_dequeue (rx_ring s) of
             (Some c, rx) \<Rightarrow> (uint c, s\<lparr>rx_ring := rx\<rparr>)
           | (None, rx) \<Rightarrow> (- 1, s\<lparr>rx_ring := rx\<rparr>))"

section \<open>Sequences of calls and interrupts\<close>

datatype con_event = PutChar u16 | PutStr "u8 list" | GetChar | UartInt

text \<open>The bytes an event puts on the line, and the running of a sequence with the results of \<^verbatim>\<open>console_getchar\<close>.\<close>

fun con_output :: "con_event \<Rightarrow> u8 list" where
  "con_output (PutChar c) = (if (ucast c :: u8) = 10 then [13, 10] else [ucast c])"
| "con_output (PutStr str) = str @ [13, 10]"
| "con_output _ = []"

fun con_step :: "('d serial \<Rightarrow> 'd serial option) \<Rightarrow> ('d serial \<Rightarrow> 'd serial option) \<Rightarrow> con_event \<Rightarrow> 'd serial \<Rightarrow> (int list \<times> 'd serial) option" where
  "con_step xmit handler (PutChar c) s = do { (_, s) \<leftarrow> console_putchar xmit c s; Some ([], s) }"
| "con_step xmit handler (PutStr str) s = do { (_, s) \<leftarrow> console_puts xmit str s; Some ([], s) }"
| "con_step xmit handler GetChar s = (let (c, s) = console_getchar s in Some (if c < 0 then [] else [c], s))"
| "con_step xmit handler UartInt s = do { s \<leftarrow> handler s; Some ([], s) }"

fun con_run :: "('d serial \<Rightarrow> 'd serial option) \<Rightarrow> ('d serial \<Rightarrow> 'd serial option) \<Rightarrow> con_event list \<Rightarrow> 'd serial \<Rightarrow> (int list \<times> 'd serial) option" where
  "con_run xmit handler [] s = Some ([], s)"
| "con_run xmit handler (e # es) s =
     do { (c, s) \<leftarrow> con_step xmit handler e s; (cs, s) \<leftarrow> con_run xmit handler es s; Some (c @ cs, s) }"

text \<open>
  No ring overflows: each output fits in the free space of the transmit ring, and at each interrupt
  the bytes the chip holds fit in the receive ring.
\<close>

fun con_fits :: "('d serial \<Rightarrow> 'd serial option) \<Rightarrow> ('d serial \<Rightarrow> 'd serial option) \<Rightarrow> ('d \<Rightarrow> u8 list) \<Rightarrow> con_event list \<Rightarrow> 'd serial \<Rightarrow> bool" where
  "con_fits xmit handler inp [] s = True"
| "con_fits xmit handler inp (e # es) s =
     (length (rb_contents (tx_ring s)) + length (con_output e) \<le> rb_cap (tx_ring s) \<and>
      (e = UartInt \<longrightarrow> length (rb_contents (rx_ring s)) + length (inp (sr_hw s)) \<le> rb_cap (rx_ring s)) \<and>
      (case con_step xmit handler e s of None \<Rightarrow> True | Some (_, s) \<Rightarrow> con_fits xmit handler inp es s))"

lemma console_putchar_eq:
  "console_putchar xmit c s =
     do { s \<leftarrow> console_start_xmit xmit (s\<lparr>tx_ring := ring_buffer_queue_arr (tx_ring s) (con_output (PutChar c))\<rparr>); Some (1, s) }"
  by (simp add: console_putchar_def)

lemma queue_arr_append: "ring_buffer_queue_arr r (xs @ ys) = ring_buffer_queue_arr (ring_buffer_queue_arr r xs) ys"
  by (simp add: ring_buffer_queue_arr_foldl)

lemma console_puts_eq:
  "console_puts xmit str s =
     do { s \<leftarrow> console_start_xmit xmit (s\<lparr>tx_ring := ring_buffer_queue_arr (tx_ring s) (con_output (PutStr str))\<rparr>);
          Some (int16 (int16 (int (length str)) + 2), s) }"
  by (simp add: console_puts_def queue_arr_append)

text \<open>What one event does to the two streams.\<close>

definition con_moves :: "('d \<Rightarrow> u8 list) \<Rightarrow> ('d \<Rightarrow> u8 list) \<Rightarrow> 'd serial \<Rightarrow> u8 list \<Rightarrow> int list \<Rightarrow> 'd serial \<Rightarrow> bool" where
  "con_moves sent inp s out cs s' \<longleftrightarrow>
     sent (sr_hw s') @ rb_contents (tx_ring s') = sent (sr_hw s) @ rb_contents (tx_ring s) @ out \<and>
     (\<exists>got. inp (sr_hw s) = got @ inp (sr_hw s') \<and>
        cs @ map uint (rb_contents (rx_ring s')) = map uint (rb_contents (rx_ring s) @ got))"

lemma con_moves_trans:
  assumes "con_moves sent inp s o1 c1 t" "con_moves sent inp t o2 c2 u"
  shows "con_moves sent inp s (o1 @ o2) (c1 @ c2) u"
proof -
  obtain g where g: "inp (sr_hw s) = g @ inp (sr_hw t)"
      "c1 @ map uint (rb_contents (rx_ring t)) = map uint (rb_contents (rx_ring s) @ g)"
    using assms(1) by (auto simp: con_moves_def)
  obtain k where k: "inp (sr_hw t) = k @ inp (sr_hw u)"
      "c2 @ map uint (rb_contents (rx_ring u)) = map uint (rb_contents (rx_ring t) @ k)"
    using assms(2) by (auto simp: con_moves_def)
  have "(c1 @ c2) @ map uint (rb_contents (rx_ring u)) = map uint (rb_contents (rx_ring s) @ g @ k)"
    using g(2) k(2) by (metis append.assoc map_append)
  moreover have "sent (sr_hw u) @ rb_contents (tx_ring u) = sent (sr_hw s) @ rb_contents (tx_ring s) @ o1 @ o2"
    using assms by (simp add: con_moves_def flip: append_assoc)
  ultimately show ?thesis using g(1) k(1) unfolding con_moves_def by auto
qed

context uart_driver
begin

definition live :: "'d serial \<Rightarrow> bool" where
  "live s \<longleftrightarrow> ready s \<and> rings_wf s \<and> binded s"

lemma output_step:
  assumes "live s" "length (rb_contents (tx_ring s)) + length out \<le> rb_cap (tx_ring s)"
  shows "\<exists>s'. console_start_xmit xmit (s\<lparr>tx_ring := ring_buffer_queue_arr (tx_ring s) out\<rparr>) = Some s' \<and> live s' \<and>
    con_moves sent inp s out [] s'"
proof -
  let ?s = "s\<lparr>tx_ring := ring_buffer_queue_arr (tx_ring s) out\<rparr>"
  have wf: "rb_wf (tx_ring s)" "rb_wf (rx_ring s)" using assms(1) by (simp_all add: live_def rings_wf_def)
  have c: "rb_contents (ring_buffer_queue_arr (tx_ring s) out) = rb_contents (tx_ring s) @ out"
    using wf(1) assms(2) by (simp add: ring_buffer_queue_arr_contents)
  have "ready ?s" using ready_rings [of s, where r = "rx_ring s"] assms(1) by (simp add: live_def)
  then obtain s' where s': "xmit ?s = Some s'" "ready s'" "rx_ring s' = rx_ring ?s" "tx_ring s' = tx_ring ?s"
      "binded s' = binded ?s" "sent (sr_hw s') = sent (sr_hw ?s)" "inp (sr_hw s') = inp (sr_hw ?s)"
    using xmit_ok by blast
  have "live s'" using s' assms(1) wf by (simp add: live_def rings_wf_def)
  moreover have "con_moves sent inp s out [] s'" using s' c by (simp add: con_moves_def)
  ultimately show ?thesis using s'(1) assms(1) by (auto simp: console_start_xmit_def live_def)
qed

lemma getchar_step:
  assumes "live s"
  shows "\<exists>cs s'. con_step xmit handler GetChar s = Some (cs, s') \<and> live s' \<and> con_moves sent inp s [] cs s'"
proof -
  have wf: "rb_wf (rx_ring s)" using assms by (simp add: live_def rings_wf_def)
  show ?thesis
  proof (cases "rb_contents (rx_ring s)")
    case Nil
    then have "ring_buffer_is_empty (rx_ring s)" using wf by (simp add: is_empty_count flip: length_rb_contents)
    then show ?thesis using assms by (simp add: console_getchar_def con_moves_def)
  next
    case (Cons b bs)
    then have ne: "\<not> ring_buffer_is_empty (rx_ring s)" using wf by (simp add: is_empty_count flip: length_rb_contents)
    obtain r where e: "ring_buffer_dequeue (rx_ring s) = (Some b, r)"
      using rbq.deq_hd [OF wf Cons] by (metis prod.collapse)
    have r: "rb_contents r = bs" "rb_wf r" using rbq.deq_hd [OF wf Cons] rbq.wf_deq [OF wf] by (simp_all add: e)
    have "live (s\<lparr>rx_ring := r\<rparr>)" using assms r(2) ready_rings [of s, where r = r and t = "tx_ring s"] by (simp add: live_def rings_wf_def)
    then show ?thesis using ne e r(1) Cons by (simp add: console_getchar_def con_moves_def)
  qed
qed

lemma int_step:
  assumes "live s" "length (rb_contents (rx_ring s)) + length (inp (sr_hw s)) \<le> rb_cap (rx_ring s)"
  shows "\<exists>s'. handler s = Some s' \<and> live s' \<and> con_moves sent inp s [] [] s'"
proof -
  obtain s' where s': "handler s = Some s'" "ready s'" "rings_wf s'" "serial_moves sent inp s s'"
    using handler_ok assms(1) by (auto simp: live_def)
  then obtain got where g: "inp (sr_hw s) = got @ inp (sr_hw s')"
      "rb_contents (rx_ring s') = keep_last (rb_cap (rx_ring s)) (rb_contents (rx_ring s) @ got)"
    by (auto simp: serial_moves_def)
  have "rb_contents (rx_ring s') = rb_contents (rx_ring s) @ got" using g assms(2) by simp
  then have "con_moves sent inp s [] [] s'" using s'(4) g(1) by (auto simp: con_moves_def serial_moves_def)
  moreover have "live s'" using s' assms(1) by (simp add: live_def serial_moves_def)
  ultimately show ?thesis using s'(1) by blast
qed

lemma step_ok:
  assumes "live s" "length (rb_contents (tx_ring s)) + length (con_output e) \<le> rb_cap (tx_ring s)"
    and "e = UartInt \<longrightarrow> length (rb_contents (rx_ring s)) + length (inp (sr_hw s)) \<le> rb_cap (rx_ring s)"
  shows "\<exists>cs s'. con_step xmit handler e s = Some (cs, s') \<and> live s' \<and> con_moves sent inp s (con_output e) cs s'"
proof (cases e)
  case (PutChar c)
  then show ?thesis using output_step [OF assms(1,2)] by (auto simp: console_putchar_eq simp del: con_output.simps)
next
  case (PutStr str)
  then show ?thesis using output_step [OF assms(1,2)] by (auto simp: console_puts_eq simp del: con_output.simps)
next
  case GetChar
  then show ?thesis using getchar_step [OF assms(1)] by simp
next
  case UartInt
  then show ?thesis using int_step [OF assms(1)] assms(3) by auto
qed

lemma run_ok:
  "live s \<Longrightarrow> con_fits xmit handler inp es s \<Longrightarrow>
     \<exists>cs s'. con_run xmit handler es s = Some (cs, s') \<and> live s' \<and> con_moves sent inp s (concat (map con_output es)) cs s'"
proof (induction es arbitrary: s)
  case Nil
  then show ?case by (simp add: con_moves_def)
next
  case (Cons e es)
  obtain c t where t: "con_step xmit handler e s = Some (c, t)" "live t" "con_moves sent inp s (con_output e) c t"
    using step_ok [of s e] Cons.prems by auto
  obtain cs u where u: "con_run xmit handler es t = Some (cs, u)" "live u" "con_moves sent inp t (concat (map con_output es)) cs u"
    using Cons.IH [OF t(2)] Cons.prems(2) t(1) by auto
  show ?case using t u con_moves_trans [OF t(3) u(3)] by simp
qed

end

section \<open>Properties\<close>

text \<open>
  C15.  The console over the 16550: any sequence of \<^verbatim>\<open>console_putchar\<close>, \<^verbatim>\<open>console_puts\<close>,
  \<^verbatim>\<open>console_getchar\<close> and UART interrupts in which no ring overflows runs without a fault.  The bytes
  sent so far followed by those in the ring are what was written, with a carriage return before
  each line feed and a line end after each string; the characters read followed by those in the
  ring are the bytes received, in order.
\<close>

theorem console_16550_in_order:
  assumes "pc16550_chip io dev ok sent inp ier errs"
    and "sr_uart s = Some dev" "pics_apart (uart_reg dev) (sr_irqs s)" "ok (sr_hw s)" "rings_wf s" "binded s"
    and "con_fits (pc16550_uart_start_xmit io) (pc16550_uart_handler io) inp es s"
  shows "\<exists>cs s'. con_run (pc16550_uart_start_xmit io) (pc16550_uart_handler io) es s = Some (cs, s') \<and>
    sent (sr_hw s') @ rb_contents (tx_ring s') = sent (sr_hw s) @ rb_contents (tx_ring s) @ concat (map con_output es) \<and>
    (\<exists>got. inp (sr_hw s) = got @ inp (sr_hw s') \<and>
       cs @ map uint (rb_contents (rx_ring s')) = map uint (rb_contents (rx_ring s) @ got))"
  using uart_driver.run_ok [OF pc16550_chip.is_driver [OF assms(1)] _ assms(7)] assms(2-6)
  by (auto simp: con_moves_def uart_driver.live_def [OF pc16550_chip.is_driver [OF assms(1)]] pc16550_chip.up_def [OF assms(1)])

text \<open>
  The console over the 8251 has the same behaviour.
\<close>

theorem console_8251_in_order:
  assumes "p8251_chip io dev ok sent inp"
    and "sr_uart s = Some dev" "pics_apart (uart_reg dev) (sr_irqs s)" "ok (sr_hw s)" "\<not> bit (sr_cmd s) 6" "rings_wf s" "binded s"
    and "con_fits (p8251_uart_start_xmit io) (p8251_uart_handler io) inp es s"
  shows "\<exists>cs s'. con_run (p8251_uart_start_xmit io) (p8251_uart_handler io) es s = Some (cs, s') \<and>
    sent (sr_hw s') @ rb_contents (tx_ring s') = sent (sr_hw s) @ rb_contents (tx_ring s) @ concat (map con_output es) \<and>
    (\<exists>got. inp (sr_hw s) = got @ inp (sr_hw s') \<and>
       cs @ map uint (rb_contents (rx_ring s')) = map uint (rb_contents (rx_ring s) @ got))"
  using uart_driver.run_ok [OF p8251_chip.is_driver [OF assms(1)] _ assms(8)] assms(2-7)
  by (auto simp: con_moves_def uart_driver.live_def [OF p8251_chip.is_driver [OF assms(1)]] p8251_chip.up_def [OF assms(1)])

text \<open>
  Binding the console to the 16550 driver after the initialisation keeps what was written before: it
  is in the transmit ring and the transmitter interrupt is enabled if there is any.
\<close>

theorem console_bind_16550:
  assumes "devs IO_DEV_UART = Some dev" "pics_apart (uart_reg dev) (sr_irqs s)"
    and "master (sr_irqs s) = Some p" "irq_base p = 0" "0 \<le> io_irq dev" "io_irq dev < irq_max p" "irq_max p \<le> 8"
    and "uint (idt_offset p) + 8 \<le> IDT_ENTRIES"
    and "length rx_buf = 512" "length tx_buf = 512" "length out \<le> 511"
    and "t = (console_initialize rx_buf tx_buf s)\<lparr>tx_ring := ring_buffer_queue_arr (ring_buffer_init tx_buf RINGBUF_SIZE) out\<rparr>"
  shows "\<exists>s'. console_bind_uart (pc16550_uart_initialize (pc16550_ports dev) devs cs h) (pc16550_uart_start_xmit (pc16550_ports dev)) t
      = Some s' \<and> binded s' \<and> rb_contents (tx_ring s') = out \<and> rb_contents (rx_ring s') = [] \<and>
      (out \<noteq> [] \<longrightarrow> bit (u_ier (sr_hw s')) 1) \<and> u_tx (sr_hw s') = u_tx (sr_hw s) \<and>
      pc16550.up dev s' \<and> rings_wf s' \<and> sr_irqs s' = interrupts_handle (sr_irqs s) (uint (idt_offset p) + io_irq dev) cs h"
proof -
  have r: "rb_wf (ring_buffer_init tx_buf RINGBUF_SIZE)" "rb_contents (ring_buffer_init tx_buf RINGBUF_SIZE) = []"
      "rb_cap (ring_buffer_init tx_buf RINGBUF_SIZE) = 511" "rb_contents (ring_buffer_init rx_buf RINGBUF_SIZE) = []"
      "rb_wf (ring_buffer_init rx_buf RINGBUF_SIZE)"
    using ring_buffer_init_wf [of RINGBUF_SIZE] assms(9,10) by (simp_all add: RINGBUF_SIZE_def RING_BUFFER_IS_POWER_OF_TWO_def)
  have tx: "rb_contents (tx_ring t) = out" "rb_wf (tx_ring t)" and rx: "rb_contents (rx_ring t) = []" "rb_wf (rx_ring t)"
    using r assms(11,12) by (simp_all add: ring_buffer_queue_arr_contents console_initialize_def)
  have e: "ring_buffer_is_empty (tx_ring t) \<longleftrightarrow> out = []" 
    using is_empty_count [OF tx(2)] length_rb_contents [of "tx_ring t"] length_0_conv [of out] unfolding tx(1) by simp
  have t: "sr_irqs t = sr_irqs s" "sr_hw t = sr_hw s" using assms(12) by (simp_all add: console_initialize_def)
  obtain u where u: "pc16550_uart_initialize (pc16550_ports dev) devs cs h 38400 t = Some u" "pc16550.up dev u"
      "rx_ring u = rx_ring t" "tx_ring u = tx_ring t" "u_tx (sr_hw u) = u_tx (sr_hw s)"
      "sr_irqs u = interrupts_handle (sr_irqs s) (uint (idt_offset p) + io_irq dev) cs h"
    using pc16550_initialize_chip [of devs dev t 38400 p cs h] assms(1-8) t by auto
  show ?thesis
  proof (cases "out = []")
    case True
    then show ?thesis using u e tx rx by (auto simp: console_bind_uart_def pc16550.up_def rings_wf_def)
  next
    case False
    have up: "pc16550_ok (sr_hw u)" "sr_uart u = Some dev" using u(2) by (simp_all add: pc16550.up_def)
    then show ?thesis
      using u e tx rx False
      by (auto simp: console_bind_uart_def console_start_xmit_def pc16550_uart_start_xmit_def pc16550_ports_def
          pc16550_inb_def pc16550_outb_def pc16550_regs pc16550_ok_def IER_TX_RDY_def bit_simps pc16550.up_def rings_wf_def)
  qed
qed

section \<open>Sample runs\<close>

definition rev2_serial :: "usart_chip serial" where
  "rev2_serial = \<lparr>rx_ring = ring_buffer_init (replicate 8 0) 8,
     tx_ring = ring_buffer_queue_arr (ring_buffer_init (replicate 8 0) 8) [65, 66],
     sr_uart = Some rev2_uart, sr_cmd = 0x24, binded = True, sr_irqs = rev3_irqs,
     sr_hw = \<lparr>v_rx = [1], v_tx = [], v_cmd = 0x24, v_mode = Some 0x4D, v_ports = (\<lambda>_. 0)\<rparr>\<rparr>"

lemma ring8: "rb_wf (ring_buffer_init (replicate 8 0) 8)" "rb_contents (ring_buffer_init (replicate 8 0) 8) = []"
  "rb_cap (ring_buffer_init (replicate 8 0) 8) = 7"
  using ring_buffer_init_wf [of 8 "replicate 8 0"] by (simp_all add: RING_BUFFER_IS_POWER_OF_TWO_def)

lemma ring8_tx: "rb_contents (ring_buffer_queue_arr (ring_buffer_init (replicate 8 0) 8) [65, 66]) = [65, 66]"
  "rb_cap (ring_buffer_queue_arr (ring_buffer_init (replicate 8 0) 8) [65, 66]) = 7"
  "rb_wf (ring_buffer_queue_arr (ring_buffer_init (replicate 8 0) 8) [65, 66])"
  using ring8 by (simp_all add: ring_buffer_queue_arr_contents del: ring_buffer_queue_arr.simps)

lemma sample_fits: "con_fits xmit handler inp [PutChar 10] s \<longleftrightarrow> length (rb_contents (tx_ring s)) + 2 \<le> rb_cap (tx_ring s)"
  by (auto split: option.split)

theorem console_16550_in_order_witness:
  "\<exists>cs s'. con_run (pc16550_uart_start_xmit (pc16550_ports rev3_uart)) (pc16550_uart_handler (pc16550_ports rev3_uart))
      [PutChar 10] rev3_serial = Some (cs, s') \<and> u_tx (sr_hw s') @ rb_contents (tx_ring s') = [65, 66, 13, 10]"
proof -
  let ?x = "pc16550_uart_start_xmit (pc16550_ports rev3_uart)" and ?h = "pc16550_uart_handler (pc16550_ports rev3_uart)"
  have s: "sr_uart rev3_serial = Some rev3_uart" "sr_irqs rev3_serial = rev3_irqs" "sr_hw rev3_serial = rev3_chip" "binded rev3_serial"
      "rb_contents (tx_ring rev3_serial) = [65, 66]" "rb_cap (tx_ring rev3_serial) = 7" "u_tx rev3_chip = []"
    by (simp_all add: rev3_serial_def ring8_tx rev3_chip_def del: ring_buffer_queue_arr.simps)
  have f: "con_fits ?x ?h u_rx [PutChar 10] rev3_serial" unfolding sample_fits using s by simp
  show ?thesis
    using console_16550_in_order [OF pc16550.pc16550_chip_axioms s(1) _ _ rev3_ok(1) s(4) f] rev3_ok s
    by (auto simp del: con_run.simps)
qed

theorem console_8251_in_order_witness:
  "\<exists>cs s'. con_run (p8251_uart_start_xmit (p8251_ports rev2_uart)) (p8251_uart_handler (p8251_ports rev2_uart))
      [PutChar 10] rev2_serial = Some (cs, s') \<and> v_tx (sr_hw s') @ rb_contents (tx_ring s') = [65, 66, 13, 10]"
proof -
  let ?x = "p8251_uart_start_xmit (p8251_ports rev2_uart)" and ?h = "p8251_uart_handler (p8251_ports rev2_uart)"
  have s: "sr_uart rev2_serial = Some rev2_uart" "sr_irqs rev2_serial = rev3_irqs" "v_mode (sr_hw rev2_serial) \<noteq> None"
      "\<not> bit (sr_cmd rev2_serial) 6" "rings_wf rev2_serial" "binded rev2_serial"
      "rb_contents (tx_ring rev2_serial) = [65, 66]" "rb_cap (tx_ring rev2_serial) = 7" "v_tx (sr_hw rev2_serial) = []"
    by (simp_all add: rev2_serial_def ring8_tx ring8 rings_wf_def del: ring_buffer_queue_arr.simps)
  have p: "pics_apart (uart_reg rev2_uart) (sr_irqs rev2_serial)" using s(2)
    by (simp add: pics_apart_def uart_reg_def rev2_uart_def board_8088_rev2_def rev3_irqs_def PIC_CMD_def PIC_DATA_def)
  have f: "con_fits ?x ?h v_rx [PutChar 10] rev2_serial" unfolding sample_fits using s by simp
  show ?thesis
    using console_8251_in_order [OF p8251.p8251_chip_axioms s(1) p s(3-6) f] s(7,9) by (auto simp del: con_run.simps)
qed

end
