(* ===== verification/Kernel.thy ===== *)
theory Kernel
  imports Syscall_Fs Clk Console Malloc
begin

text \<open>
  The kernel seen from its system calls: kernel threads (\<^verbatim>\<open>kernel/kthread.c\<close>), the dispatchers of the
  software interrupts 0x21 and 0x80 (\<^verbatim>\<open>kernel/syscall.c\<close>), the wrappers of the C library that raise
  them (\<^verbatim>\<open>libc/process.c\<close>, \<^verbatim>\<open>libc/fs.c\<close>, \<^verbatim>\<open>libc/time.c\<close>, \<^verbatim>\<open>libc/io.c\<close>), the driver table
  (\<^verbatim>\<open>kernel/drivers/driver.c\<close>) and the first process (\<^verbatim>\<open>kernel/init.c\<close>).

  The state joins those of the scheduler, the file system, the break, the console and the clock, and
  has the bytes of the data segment, which system calls read strings and buffers from and write
  results to.  Kernel objects are modelled as typed objects in the component states, not as bytes of
  this memory.
\<close>

record ('s, 'd) kernel = "'s fsys" +
  k_brk :: brk_state
  k_serial :: "'d serial"
  k_now :: u64
  k_blocked :: ptr
  k_mem :: "u16 \<Rightarrow> u8"

section \<open>Memory\<close>

text \<open>The bytes of a string before its terminator; a scan that finds none does not end.\<close>

partial_function (option) cstring :: "(u16 \<Rightarrow> u8) \<Rightarrow> u16 \<Rightarrow> u8 list option" where
  "cstring m a = (if m a = 0 then Some [] else do { s \<leftarrow> cstring m (a + 1); Some (m a # s) })"

definition text_of :: "u8 list \<Rightarrow> string" where
  "text_of bs = map (\<lambda>b. char_of (unat b)) bs"

definition load64 :: "(u16 \<Rightarrow> u8) \<Rightarrow> u16 \<Rightarrow> u64" where
  "load64 m a = ucast (load m a) OR push_bit 16 (ucast (load m (a + 2))) OR
     push_bit 32 (ucast (load m (a + 4))) OR push_bit 48 (ucast (load m (a + 6)))"

definition store64 :: "(u16 \<Rightarrow> u8) \<Rightarrow> u16 \<Rightarrow> u64 \<Rightarrow> (u16 \<Rightarrow> u8)" where
  "store64 m a v = store16 (store16 (store16 (store16 m a (ucast v)) (a + 2) (ucast (drop_bit 16 v)))
     (a + 4) (ucast (drop_bit 32 v))) (a + 6) (ucast (drop_bit 48 v))"

text \<open>\<^verbatim>\<open>struct timespec\<close>: two \<^verbatim>\<open>long long\<close>.\<close>

definition timespec_at :: "(u16 \<Rightarrow> u8) \<Rightarrow> u16 \<Rightarrow> timespec" where
  "timespec_at m a = \<lparr>tv_sec = sint (load64 m a), tv_nsec = sint (load64 m (a + 8))\<rparr>"

definition store_timespec :: "(u16 \<Rightarrow> u8) \<Rightarrow> u16 \<Rightarrow> timespec \<Rightarrow> (u16 \<Rightarrow> u8)" where
  "store_timespec m a t = store64 (store64 m a (word_of_int (tv_sec t))) (a + 8) (word_of_int (tv_nsec t))"

text \<open>The argument of the clock calls; every value but 1 is a clock they refuse.\<close>

definition clockid_of :: "u16 \<Rightarrow> clockid" where
  "clockid_of v = (if v = 1 then CLOCK_MONOTONIC else if v = 0 then CLOCK_REALTIME
     else if v = 2 then CLOCK_BOOTTIME else CLOCK_PROCESS_CPUTIME_ID)"

section \<open>Kernel threads\<close>

definition INTERRUPT_ENABLE_FLAG :: u16 where "INTERRUPT_ENABLE_FLAG = push_bit 9 1"

text \<open>The offsets of \<^verbatim>\<open>struct bootstrap_stack\<close>, nine 16-bit members.\<close>

definition sizeof_bootstrap_stack :: u16 where "sizeof_bootstrap_stack = 18"

definition bootstrap_stack :: "board \<Rightarrow> u16 \<Rightarrow> u16 \<Rightarrow> u16 \<Rightarrow> (u16 \<Rightarrow> u8) \<Rightarrow> (u16 \<Rightarrow> u8)" where
  "bootstrap_stack b kthread_bootstrap fn bst m =
     (let m = store16 m bst INTERRUPT_ENABLE_FLAG;
          m = store16 m (bst + 2) (KERNEL_DS b);
          m = store16 m (bst + 4) (KERNEL_DS b);
          m = store16 m (bst + 12) kthread_bootstrap
      in store16 m (bst + 16) fn)"

text \<open>
  \<open>boot\<close> is the address of \<^verbatim>\<open>_kthread_bootstrap\<close>; \<open>st\<close> and \<open>new\<close> are the allocations of the stack and of
  the task.  When the second fails the first is not freed.
\<close>

definition kthread_start :: "board \<Rightarrow> u16 \<Rightarrow> ptr \<Rightarrow> ptr \<Rightarrow> u16 \<Rightarrow> size_t \<Rightarrow> int \<Rightarrow> ('s, 'd) kernel \<Rightarrow> (int \<times> ('s, 'd) kernel) option" where
  "kthread_start b boot st new fn sz pr k =
     (if sz < sizeof_bootstrap_stack then Some (ERR_INVAL, k)
      else if st = 0 then Some (ERR_NO_MEM, k)
      else if new = 0 then Some (ERR_NO_MEM, k)
      else do {
        let bst = st + sz - sizeof_bootstrap_stack;
        let k = k\<lparr>k_mem := bootstrap_stack b boot fn bst (k_mem k)\<rparr>;
        let t = zero_task\<lparr>stack := st, ctx := \<lparr>ctx_sp = bst, ctx_ss = KERNEL_SS b\<rparr>\<rparr>;
        (r, s) \<leftarrow> scheduler_queue_new ((f_sched k)\<lparr>tasks := (tasks (f_sched k))(new \<mapsto> t)\<rparr>) new pr;
        Some (r, k\<lparr>f_sched := s\<rparr>) })"

definition kthread_initialize :: "board \<Rightarrow> u16 \<Rightarrow> u16 \<Rightarrow> ptr \<Rightarrow> ptr \<Rightarrow> ('s, 'd) kernel \<Rightarrow> (int \<times> ('s, 'd) kernel) option" where
  "kthread_initialize b boot kernel_idle st new k = kthread_start b boot st new kernel_idle 510 (- 32767) k"

text \<open>What \<^verbatim>\<open>ctx_switch\<close> pops from the stack of the task it switches to, ending with its return address.\<close>

record popped_regs =
  r_flags :: u16
  r_es :: u16
  r_ds :: u16
  r_di :: u16
  r_si :: u16
  r_bp :: u16
  r_ip :: u16
  r_sp :: u16

definition ctx_pops :: "(u16 \<Rightarrow> u8) \<Rightarrow> u16 \<Rightarrow> popped_regs" where
  "ctx_pops m sp = \<lparr>r_flags = load m sp, r_es = load m (sp + 2), r_ds = load m (sp + 4), r_di = load m (sp + 6),
     r_si = load m (sp + 8), r_bp = load m (sp + 10), r_ip = load m (sp + 12), r_sp = sp + 14\<rparr>"

section \<open>The software interrupts\<close>

definition syscall_setup :: "board \<Rightarrow> u16 \<Rightarrow> u16 \<Rightarrow> u16 \<Rightarrow> irq_state \<Rightarrow> irq_state" where
  "syscall_setup b int3_handler int21_handler int80_handler s =
     (let s = interrupts_handle s 0x3 (KERNEL_CS b) int3_handler;
          s = interrupts_handle s 0x21 (KERNEL_CS b) int21_handler
      in interrupts_handle s 0x80 (KERNEL_CS b) int80_handler)"

definition syscall_int21 :: "('d serial \<Rightarrow> 'd serial option) \<Rightarrow> u16 \<Rightarrow> u16 \<Rightarrow> ('s, 'd) kernel \<Rightarrow> (int \<times> ('s, 'd) kernel) option" where
  "syscall_int21 uart_start_xmit ax dx k =
     (let ah = drop_bit 8 ax
      in if ah = 1 then let (c, s) = console_getchar (k_serial k) in Some (c, k\<lparr>k_serial := s\<rparr>)
         else if ah = 2
         then do { (_, s) \<leftarrow> console_putchar uart_start_xmit dx (k_serial k); Some (- 1, k\<lparr>k_serial := s\<rparr>) }
         else if ah = 9
         then do { str \<leftarrow> cstring (k_mem k) dx;
                   (r, s) \<leftarrow> console_puts uart_start_xmit str (k_serial k);
                   Some (r, k\<lparr>k_serial := s\<rparr>) }
         else Some (- 1, k))"

text \<open>
  A system call returns to its caller, or the caller goes to sleep or exits and another task runs.
  The rest of a sleeping call runs when the caller is scheduled again: \<^verbatim>\<open>scheduler_wait\<close> makes another
  pass, \<^verbatim>\<open>clk_nanosleep\<close> clears the remaining time and returns 0.
\<close>

datatype sysret = Returns int | Switches

definition nanosleep_finish :: "u16 \<Rightarrow> ('s, 'd) kernel \<Rightarrow> int \<times> ('s, 'd) kernel" where
  "nanosleep_finish remain k =
     (0, k\<lparr>k_mem := store_timespec (k_mem k) remain \<lparr>tv_sec = 0, tv_nsec = 0\<rparr>\<rparr>)"

definition sys_wait :: "u16 \<Rightarrow> u16 \<Rightarrow> u16 \<Rightarrow> ('s, 'd) kernel \<Rightarrow> (sysret \<times> ('s, 'd) kernel) option" where
  "sys_wait p wstatus options k =
     do { (r, s) \<leftarrow> scheduler_wait (f_sched k) (sint p) (sint options);
          let k = k\<lparr>f_sched := s\<rparr>;
          case r of
            WaitReturns n \<Rightarrow> Some (Returns n, k)
          | WaitCollects d st _ \<Rightarrow>
              Some (Returns d, if wstatus \<noteq> 0 then k\<lparr>k_mem := store16 (k_mem k) wstatus (word_of_int st)\<rparr> else k)
          | WaitSleeps \<Rightarrow> Some (Switches, k) }"

definition sys_exit :: "u16 \<Rightarrow> ('s, 'd) kernel \<Rightarrow> (sysret \<times> ('s, 'd) kernel) option" where
  "sys_exit st k =
     do { s \<leftarrow> scheduler_exit (f_sched k) (sint st);
          Some (if current s = current (f_sched k) then Returns (- 1) else Switches, k\<lparr>f_sched := s\<rparr>) }"

definition sys_gettime :: "u16 \<Rightarrow> u16 \<Rightarrow> ('s, 'd) kernel \<Rightarrow> sysret \<times> ('s, 'd) kernel" where
  "sys_gettime clockid tp k =
     (let (r, t) = clk_gettime (k_now k) (clockid_of clockid) (tp \<noteq> 0)
      in (Returns r, case t of None \<Rightarrow> k | Some t \<Rightarrow> k\<lparr>k_mem := store_timespec (k_mem k) tp t\<rparr>))"

definition sys_nanosleep :: "u16 \<Rightarrow> u16 \<Rightarrow> u16 \<Rightarrow> u16 \<Rightarrow> ('s, 'd) kernel \<Rightarrow> (sysret \<times> ('s, 'd) kernel) option" where
  "sys_nanosleep clockid flags request remain k =
     do { (r, s) \<leftarrow> clk_nanosleep (k_blocked k) (k_now k) (clockid_of clockid) (sint flags)
            (if request = 0 then None else Some (timespec_at (k_mem k) request)) (remain \<noteq> 0) (f_sched k);
          Some (case r of NanoReturns n \<Rightarrow> Returns n | NanoSleeps _ \<Rightarrow> Switches, k\<lparr>f_sched := s\<rparr>) }"

text \<open>
  \<open>alloc\<close>, \<open>f\<close> and \<open>q\<close> are the allocations the call makes: whether a descriptor table can be had, the
  handle or mount structure, and the copy of a mount path.
\<close>

definition syscall_int80 ::
    "bool \<Rightarrow> ptr \<Rightarrow> ptr \<Rightarrow> u16 \<Rightarrow> u16 \<Rightarrow> u16 \<Rightarrow> u16 \<Rightarrow> u16 \<Rightarrow> ('s, 'd) kernel \<Rightarrow> (sysret \<times> ('s, 'd) kernel) option" where
  "syscall_int80 alloc f q nr arg0 arg1 arg2 arg3 k =
     (if nr = 0x0
      then do { (r, b, k) \<leftarrow> sys_read (sint arg0) (mem_bytes (k_mem k) arg1 (unat arg2)) arg2 k;
                Some (Returns r, k\<lparr>k_mem := mem_store (k_mem k) arg1 b\<rparr>) }
      else if nr = 0x1
      then do { (r, k) \<leftarrow> sys_write (sint arg0) (mem_bytes (k_mem k) arg1 (unat arg2)) arg2 k; Some (Returns r, k) }
      else if nr = 0x2
      then do { path \<leftarrow> cstring (k_mem k) arg0;
                (r, k) \<leftarrow> sys_open alloc f (text_of path) (sint arg1) (sint arg2) k;
                Some (Returns r, k) }
      else if nr = 0x3 then do { (r, k) \<leftarrow> sys_close (sint arg0) k; Some (Returns r, k) }
      else if nr = 0x27 then do { r \<leftarrow> scheduler_getpid (f_sched k); Some (Returns r, k) }
      else if nr = 0x0c then let (r, b) = heap_brk (k_brk k) arg0 in Some (Returns (sint r), k\<lparr>k_brk := b\<rparr>)
      else if nr = 0xa5
      then do { source \<leftarrow> (if arg0 = 0 then Some None else do { s \<leftarrow> cstring (k_mem k) arg0; Some (Some (text_of s)) });
                target \<leftarrow> cstring (k_mem k) arg1;
                name \<leftarrow> cstring (k_mem k) arg2;
                (r, k) \<leftarrow> sys_mount f q source (text_of target) (text_of name) k;
                Some (Returns r, k) }
      else if nr = 0x3c then sys_exit arg0 k
      else if nr = 0x3d then sys_wait arg0 arg1 arg2 k
      else if nr = 0xe3 then Some (sys_gettime arg0 arg1 k)
      else if nr = 0xe6 then sys_nanosleep arg0 arg1 arg2 arg3 k
      else Some (Returns (- 1), k))"

section \<open>The wrappers of the C library\<close>

text \<open>
  Each wrapper loads the number into \<^verbatim>\<open>ax\<close> and its arguments into \<^verbatim>\<open>bx\<close>, \<^verbatim>\<open>cx\<close>, \<^verbatim>\<open>dx\<close> and \<^verbatim>\<open>si\<close>, which
  \<^verbatim>\<open>int80_handler\<close> pushes as the parameters of the dispatcher.  A register a wrapper does not load
  holds whatever it held before (\<open>R\<close>).
\<close>

record regs86 =
  reg_bx :: u16
  reg_cx :: u16
  reg_dx :: u16
  reg_si :: u16

definition int80 :: "bool \<Rightarrow> ptr \<Rightarrow> ptr \<Rightarrow> u16 \<Rightarrow> regs86 \<Rightarrow> ('s, 'd) kernel \<Rightarrow> (sysret \<times> ('s, 'd) kernel) option" where
  "int80 alloc f q ax R k = syscall_int80 alloc f q ax (reg_bx R) (reg_cx R) (reg_dx R) (reg_si R) k"

definition libc_exit :: "regs86 \<Rightarrow> u16 \<Rightarrow> ('s, 'd) kernel \<Rightarrow> (sysret \<times> ('s, 'd) kernel) option" where
  "libc_exit R st k = int80 True 0 0 0x3c (R\<lparr>reg_bx := st\<rparr>) k"

definition libc_getpid :: "regs86 \<Rightarrow> ('s, 'd) kernel \<Rightarrow> (sysret \<times> ('s, 'd) kernel) option" where
  "libc_getpid R k = int80 True 0 0 0x27 R k"

definition wait4 :: "u16 \<Rightarrow> u16 \<Rightarrow> u16 \<Rightarrow> u16 \<Rightarrow> ('s, 'd) kernel \<Rightarrow> (sysret \<times> ('s, 'd) kernel) option" where
  "wait4 p wstatus options rusage k =
     int80 True 0 0 0x3d \<lparr>reg_bx = p, reg_cx = wstatus, reg_dx = options, reg_si = rusage\<rparr> k"

definition wait3 :: "u16 \<Rightarrow> u16 \<Rightarrow> u16 \<Rightarrow> ('s, 'd) kernel \<Rightarrow> (sysret \<times> ('s, 'd) kernel) option" where
  "wait3 wstatus options rusage k = wait4 (- 1) wstatus options rusage k"

definition waitpid :: "u16 \<Rightarrow> u16 \<Rightarrow> u16 \<Rightarrow> ('s, 'd) kernel \<Rightarrow> (sysret \<times> ('s, 'd) kernel) option" where
  "waitpid p wstatus options k = wait4 p wstatus options 0 k"

definition libc_wait :: "u16 \<Rightarrow> ('s, 'd) kernel \<Rightarrow> (sysret \<times> ('s, 'd) kernel) option" where
  "libc_wait wstatus k = wait4 (- 1) wstatus 0 0 k"

definition libc_open :: "bool \<Rightarrow> ptr \<Rightarrow> regs86 \<Rightarrow> u16 \<Rightarrow> u16 \<Rightarrow> u16 \<Rightarrow> ('s, 'd) kernel \<Rightarrow> (sysret \<times> ('s, 'd) kernel) option" where
  "libc_open alloc f R pathname flags mode k =
     int80 alloc f 0 0x02 (R\<lparr>reg_bx := pathname, reg_cx := flags, reg_dx := mode\<rparr>) k"

definition libc_read :: "regs86 \<Rightarrow> u16 \<Rightarrow> u16 \<Rightarrow> u16 \<Rightarrow> ('s, 'd) kernel \<Rightarrow> (sysret \<times> ('s, 'd) kernel) option" where
  "libc_read R fd buf count k = int80 True 0 0 0x00 (R\<lparr>reg_bx := fd, reg_cx := buf, reg_dx := count\<rparr>) k"

definition libc_write :: "regs86 \<Rightarrow> u16 \<Rightarrow> u16 \<Rightarrow> u16 \<Rightarrow> ('s, 'd) kernel \<Rightarrow> (sysret \<times> ('s, 'd) kernel) option" where
  "libc_write R fd buf count k = int80 True 0 0 0x01 (R\<lparr>reg_bx := fd, reg_cx := buf, reg_dx := count\<rparr>) k"

definition libc_close :: "regs86 \<Rightarrow> u16 \<Rightarrow> ('s, 'd) kernel \<Rightarrow> (sysret \<times> ('s, 'd) kernel) option" where
  "libc_close R fd k = int80 True 0 0 0x03 (R\<lparr>reg_bx := fd\<rparr>) k"

definition libc_mount :: "ptr \<Rightarrow> ptr \<Rightarrow> regs86 \<Rightarrow> u16 \<Rightarrow> u16 \<Rightarrow> u16 \<Rightarrow> ('s, 'd) kernel \<Rightarrow> (sysret \<times> ('s, 'd) kernel) option" where
  "libc_mount p q R source target filesystemtype k =
     int80 True p q 0xa5 (R\<lparr>reg_bx := source, reg_cx := target, reg_dx := filesystemtype\<rparr>) k"

definition clock_gettime :: "regs86 \<Rightarrow> u16 \<Rightarrow> u16 \<Rightarrow> ('s, 'd) kernel \<Rightarrow> (sysret \<times> ('s, 'd) kernel) option" where
  "clock_gettime R clockid tp k = int80 True 0 0 0xe3 (R\<lparr>reg_bx := clockid, reg_cx := tp\<rparr>) k"

definition clock_nanosleep :: "u16 \<Rightarrow> u16 \<Rightarrow> u16 \<Rightarrow> u16 \<Rightarrow> ('s, 'd) kernel \<Rightarrow> (sysret \<times> ('s, 'd) kernel) option" where
  "clock_nanosleep clockid flags request remain k =
     int80 True 0 0 0xe6 \<lparr>reg_bx = clockid, reg_cx = flags, reg_dx = request, reg_si = remain\<rparr> k"

text \<open>The wrappers of the interrupt 0x21 load only the high half of \<^verbatim>\<open>ax\<close>; \<open>al\<close> is what it held.\<close>

definition libc_putchar :: "('d serial \<Rightarrow> 'd serial option) \<Rightarrow> u16 \<Rightarrow> u16 \<Rightarrow> ('s, 'd) kernel \<Rightarrow> (int \<times> ('s, 'd) kernel) option" where
  "libc_putchar xmit al c k = do { (_, k) \<leftarrow> syscall_int21 xmit (0x0200 OR (al AND 0xff)) c k; Some (1, k) }"

definition libc_puts :: "('d serial \<Rightarrow> 'd serial option) \<Rightarrow> u16 \<Rightarrow> u16 \<Rightarrow> ('s, 'd) kernel \<Rightarrow> (int \<times> ('s, 'd) kernel) option" where
  "libc_puts xmit al s k = syscall_int21 xmit (0x0900 OR (al AND 0xff)) s k"

definition libc_getchar :: "('d serial \<Rightarrow> 'd serial option) \<Rightarrow> u16 \<Rightarrow> u16 \<Rightarrow> ('s, 'd) kernel \<Rightarrow> (int \<times> ('s, 'd) kernel) option" where
  "libc_getchar xmit al dx k = syscall_int21 xmit (0x0100 OR (al AND 0xff)) dx k"

section \<open>Drivers and the first process\<close>

record 'k driver =
  driver_name :: string
  probe :: "'k \<Rightarrow> (bool \<times> 'k) option"

text \<open>Every probe runs; a failure is only printed.\<close>

fun driver_probes :: "'k driver list \<Rightarrow> 'k \<Rightarrow> 'k option" where
  "driver_probes [] k = Some k"
| "driver_probes (d # ds) k = do { (_, k) \<leftarrow> probe d k; driver_probes ds k }"

text \<open>\<open>sda1\<close>, \<open>rootfs\<close> and \<open>ext2\<close> are the addresses of the string constants.\<close>

definition init :: "ptr \<Rightarrow> ptr \<Rightarrow> regs86 \<Rightarrow> u16 \<Rightarrow> u16 \<Rightarrow> u16 \<Rightarrow> ('s, 'd) kernel \<Rightarrow> (sysret \<times> ('s, 'd) kernel) option" where
  "init p q R sda1 rootfs ext2 k = libc_mount p q R sda1 rootfs ext2 k"

section \<open>The first switch to a kernel thread\<close>

lemma apart_offset: "apart (a + x) (a + y) \<longleftrightarrow> apart x y" for a :: u16
  by (auto simp: apart_def add.assoc)

lemma bootstrap_pops:
  assumes "m' = bootstrap_stack b boot fn bst m"
  shows "r_flags (ctx_pops m' bst) = INTERRUPT_ENABLE_FLAG" "r_es (ctx_pops m' bst) = KERNEL_DS b"
    "r_ds (ctx_pops m' bst) = KERNEL_DS b" "r_ip (ctx_pops m' bst) = boot" "load m' (r_sp (ctx_pops m' bst) + 2) = fn"
proof -
  have a: "apart (bst + x) (bst + y)" if "apart x y" for x y using that by (simp add: apart_offset)
  have z: "apart (bst + x) bst" if "apart x 0" for x using a [OF that] by simp
  show "r_flags (ctx_pops m' bst) = INTERRUPT_ENABLE_FLAG" "r_es (ctx_pops m' bst) = KERNEL_DS b"
    "r_ds (ctx_pops m' bst) = KERNEL_DS b" "r_ip (ctx_pops m' bst) = boot" "load m' (r_sp (ctx_pops m' bst) + 2) = fn"
    unfolding assms by (simp_all add: bootstrap_stack_def ctx_pops_def load_apart a z apart_def add.commute [of 16 bst])
qed

section \<open>The kernel invariant\<close>

text \<open>
  The scheduler is well formed on the queues \<open>Qs\<close>, one of which is the clock's list of sleepers, and
  the descriptors of all tasks are live.
\<close>

definition kernel_ok :: "ptr list \<Rightarrow> ptr \<Rightarrow> ptr set \<Rightarrow> ('s, 'd) kernel \<Rightarrow> bool" where
  "kernel_ok Qs idle M k \<longleftrightarrow> (\<exists>a. well Qs idle (f_sched k) a) \<and> sys_ok k M \<and> k_blocked k \<in> set Qs \<and>
     k_blocked k \<noteq> ready (f_sched k) \<and> k_blocked k \<noteq> zombies (f_sched k) \<and> k_blocked k \<noteq> waiters (f_sched k)"

text \<open>The scheduler does not look at the descriptors.\<close>

lemma well_descriptors:
  assumes w: "well Qs idle s a" and t: "tasks s p = Some t"
  shows "\<exists>a'. well Qs idle (s\<lparr>tasks := (tasks s)(p \<mapsto> t\<lparr>descriptors := D\<rparr>)\<rparr>) a'"
proof -
  note d = wellD [OF w]
  let ?g = "\<lambda>t. t\<lparr>descriptors := D\<rparr>"
  have ta: "tasks a p = Some t" using t rep_sched_eqs(1) [OF d(1)] by simp
  have c: "core_inv Qs (a_set p ?g a)" by (rule core_inv_cong [OF d(2)]) auto
  have "rep_sched Qs (s\<lparr>tasks := (tasks s)(p \<mapsto> ?g t)\<rparr>) (a_set p ?g a)"
    using rep_schedD [OF d(1)] rep_sched_eqs [OF d(1)] ta by (intro rep_schedI) (simp_all add: a_set_def)
  moreover have "sched_inv Qs idle (a_set p ?g a)"
    using w c ta unfolding well_def sched_inv_def by (auto simp: a_members_def)
  ultimately show ?thesis by (auto simp: well_def)
qed

lemma set_cur_well:
  assumes "well Qs idle (f_sched k) a" "cur_task k = Some t" "t' = t\<lparr>descriptors := D\<rparr>"
  shows "\<exists>a'. well Qs idle (f_sched (set_cur_task t' k)) a'"
  using well_descriptors [OF assms(1), of "scheduler_current (f_sched k)" t D] assms(2,3)
  by (simp add: cur_task_def set_cur_task_def)

lemma task_put_desc_frame: "task_put_desc al t ty h = Some (r, t') \<Longrightarrow> \<exists>D. t' = t\<lparr>descriptors := D\<rparr>"
  by (auto simp: task_put_desc_def split: bind_splits)

lemma task_reset_desc_frame: "task_reset_desc t fd = Some t' \<Longrightarrow> \<exists>D. t' = t\<lparr>descriptors := D\<rparr>"
  by (auto simp: task_reset_desc_def split: option.splits if_splits)

text \<open>What a file system call leaves of the scheduler and of the rest of the kernel.\<close>

definition fs_frame :: "ptr list \<Rightarrow> ptr \<Rightarrow> ('s, 'd) kernel \<Rightarrow> ('s, 'd) kernel \<Rightarrow> bool" where
  "fs_frame Qs idle k k' \<longleftrightarrow> (\<exists>a. well Qs idle (f_sched k') a) \<and> k_blocked k' = k_blocked k \<and>
     ready (f_sched k') = ready (f_sched k) \<and> zombies (f_sched k') = zombies (f_sched k) \<and> waiters (f_sched k') = waiters (f_sched k)"

lemma fs_frame_vfs: "well Qs idle (f_sched k) a \<Longrightarrow> fs_frame Qs idle k (k\<lparr>f_vfs := v\<rparr>)"
  by (auto simp: fs_frame_def)

lemma fs_frame_cur:
  "well Qs idle (f_sched k) a \<Longrightarrow> cur_task k = Some t \<Longrightarrow> \<exists>D. t' = t\<lparr>descriptors := D\<rparr> \<Longrightarrow>
     fs_frame Qs idle k (set_cur_task t' (k\<lparr>f_vfs := v\<rparr>))"
  using set_cur_well [of Qs idle k a t t'] by (auto simp: fs_frame_def set_cur_task_def)

lemma sys_open_frame:
  assumes w: "well Qs idle (f_sched k) a" and o': "sys_open al f path flags mode k = Some (r, k')"
  shows "fs_frame Qs idle k k'"
proof -
  obtain n h v where v: "fs_open_file (f_vfs k) path f = Some (n, h, v)" using o' by (auto simp: sys_open_def split: bind_splits)
  show ?thesis
  proof (cases "n < 0")
    case True
    then show ?thesis using o' v fs_frame_vfs [OF w] by (auto simp: sys_open_def)
  next
    case False
    then obtain h' t r' t' where t: "h = Some h'" "cur_task k = Some t" "task_put_desc al t DESC_FILE h' = Some (r', t')"
      using o' v by (auto simp: sys_open_def split: bind_splits)
    have "\<exists>v'. k' = set_cur_task t' (k\<lparr>f_vfs := v'\<rparr>)"
    proof (cases "r' < 0")
      case True
      then obtain e v' where "fs_close_file v h' = Some (e, v')" "k' = (set_cur_task t' (k\<lparr>f_vfs := v\<rparr>))\<lparr>f_vfs := v'\<rparr>"
        using o' v False t by (auto simp: sys_open_def split: bind_splits)
      then show ?thesis by (intro exI [of _ v']) (simp add: set_cur_task_def)
    next
      case False
      then show ?thesis using o' v \<open>\<not> n < 0\<close> t by (auto simp: sys_open_def)
    qed
    then show ?thesis using fs_frame_cur [OF w t(2) task_put_desc_frame [OF t(3)]] by blast
  qed
qed

lemma sys_close_frame:
  assumes w: "well Qs idle (f_sched k) a" and c: "sys_close fd k = Some (r, k')"
  shows "fs_frame Qs idle k k'"
proof -
  obtain t d where t: "cur_task k = Some t" "task_get_desc t fd = Some d" using c by (auto simp: sys_close_def split: bind_splits)
  have "k' = k \<or> (\<exists>t' v. task_reset_desc t fd = Some t' \<and> k' = set_cur_task t' (k\<lparr>f_vfs := v\<rparr>))"
    using c t by (auto simp: sys_close_def split: option.splits desc_t.splits bind_splits)
  then show ?thesis
    using fs_frame_cur [OF w t(1)] task_reset_desc_frame fs_frame_vfs [OF w, of "f_vfs k"] by fastforce
qed

text \<open>The list heads do not move.\<close>

definition heads :: "sched \<Rightarrow> ptr \<times> ptr \<times> ptr" where
  "heads s = (ready s, zombies s, waiters s)"

lemma heads_fields [simp]: "heads (s\<lparr>sched.heap := h\<rparr>) = heads s" "heads (s\<lparr>current := c\<rparr>) = heads s"
  "heads (s\<lparr>regs := r\<rparr>) = heads s" "heads (s\<lparr>next_pid := n\<rparr>) = heads s" "heads (s\<lparr>tasks := t\<rparr>) = heads s"
  by (simp_all add: heads_def)

lemma upd_task_heads: "upd_task p g s = Some s' \<Longrightarrow> heads s' = heads s"
  by (auto simp: upd_task_def split: bind_splits)

lemma task_put_heads: "task_put s l t = Some s' \<Longrightarrow> heads s' = heads s"
  by (auto simp: task_put_def Let_def split: bind_splits if_splits option.splits)

lemma ctx_switch_heads: "ctx_switch p n s = Some s' \<Longrightarrow> heads s' = heads s"
  unfolding ctx_switch_def by (auto split: bind_splits dest: upd_task_heads)

lemma schedule_heads: "schedule s = Some s' \<Longrightarrow> heads s' = heads s"
  unfolding schedule_def Let_def task_get_def
  by (auto split: if_splits bind_splits prod.splits dest!: upd_task_heads task_put_heads ctx_switch_heads)

lemma sleep_on_heads: "scheduler_sleep_on s q d = Some s' \<Longrightarrow> heads s' = heads s"
  unfolding scheduler_sleep_on_def by (auto split: if_splits bind_splits dest!: upd_task_heads schedule_heads)

lemma exit_heads: "scheduler_exit s st = Some s' \<Longrightarrow> heads s' = heads s"
  unfolding scheduler_exit_def Let_def scheduler_wake_up_def
  by (auto split: if_splits bind_splits option.splits dest!: upd_task_heads task_put_heads schedule_heads)

lemma wait_heads:
  assumes "scheduler_wait s p opt = Some (r, s')" shows "heads s' = heads s"
proof -
  have "s' = s \<or> (\<exists>q d. scheduler_sleep_on s q d = Some s') \<or> (\<exists>t. s' = s\<lparr>tasks := (tasks s)(t := None)\<rparr>)"
    using assms unfolding scheduler_wait_def scheduler_wait_pass_def
    by (simp split: if_splits bind_splits) blast+
  then show ?thesis using sleep_on_heads by auto
qed

lemma kernel_ok_frame:
  assumes "kernel_ok Qs idle M k" "\<exists>a. well Qs idle (f_sched k') a" "heads (f_sched k') = heads (f_sched k)"
    "k_blocked k' = k_blocked k" "sys_ok k' M'"
  shows "kernel_ok Qs idle M' k'"
  using assms by (simp add: kernel_ok_def heads_def)

lemma kernel_ok_fs:
  "kernel_ok Qs idle M k \<Longrightarrow> fs_frame Qs idle k k' \<Longrightarrow> sys_ok k' M' \<Longrightarrow> kernel_ok Qs idle M' k'"
  by (rule kernel_ok_frame) (auto simp: fs_frame_def heads_def)

lemma kernel_ok_sched:
  assumes "kernel_ok Qs idle M k" "\<exists>a. well Qs idle s' a" "heads s' = heads (f_sched k)" "sched_call (f_sched k) s'"
  shows "kernel_ok Qs idle M (k\<lparr>f_sched := s'\<rparr>)"
proof (rule kernel_ok_frame [OF assms(1)])
  have "fds_ok (tables (f_sched k)) (f_vfs k)" using assms(1) by (simp add: kernel_ok_def sys_ok_def)
  then have "fds_ok (tables s') (f_vfs k)" using fds_ok_sub sched_call_tables [OF assms(4)] by blast
  then show "sys_ok (k\<lparr>f_sched := s'\<rparr>) M" using assms(1) by (simp add: kernel_ok_def sys_ok_def)
qed (use assms in auto)

lemma kernel_ok_other [simp]: "kernel_ok Qs idle M (k\<lparr>k_mem := m\<rparr>) = kernel_ok Qs idle M k"
  "kernel_ok Qs idle M (k\<lparr>k_brk := b\<rparr>) = kernel_ok Qs idle M k"
  by (simp_all add: kernel_ok_def sys_ok_def)

lemma cstring_nonzero: "cstring m a = Some bs \<Longrightarrow> 0 \<notin> set bs"
proof (induction bs arbitrary: a)
  case Nil
  then show ?case by simp
next
  case (Cons b bs)
  note u = Cons.prems [unfolded cstring.simps [of m a]]
  have "m a \<noteq> 0" using u by (auto split: if_splits)
  moreover have "b = m a" "cstring m (a + 1) = Some bs" using u by (auto split: if_splits bind_splits)
  ultimately show ?case using Cons.IH by auto
qed

lemma text_of_NUL: "0 \<notin> set bs \<Longrightarrow> NUL \<notin> set (text_of bs)"
proof
  assume z: "0 \<notin> set bs" and "NUL \<in> set (text_of bs)"
  then obtain b :: u8 where b: "b \<in> set bs" "NUL = char_of (unat b)" by (auto simp: text_of_def)
  have "of_char (char_of (unat b)) = (of_char NUL :: nat)" using b(2) by simp
  then have "unat b = 0" by simp
  then show False using b z by (simp add: unat_eq_zero)
qed

section \<open>Each system call\<close>

text \<open>
  What a caller has to respect: a descriptor number inside the table, strings with a terminator, a
  free descriptor for an open; and what the allocator promises: \<open>f\<close> is new memory.
\<close>

definition call_ok :: "ptr \<Rightarrow> u16 \<Rightarrow> u16 \<Rightarrow> u16 \<Rightarrow> u16 \<Rightarrow> ('s, 'd) kernel \<Rightarrow> bool" where
  "call_ok f nr arg0 arg1 arg2 k \<longleftrightarrow>
     (nr = 0 \<or> nr = 1 \<or> nr = 3 \<longrightarrow> 0 \<le> sint arg0 \<and> sint arg0 < 8) \<and>
     (nr = 2 \<longrightarrow> f \<noteq> 0 \<and> files (f_vfs k) f = None \<and> cstring (k_mem k) arg0 \<noteq> None \<and>
        (\<forall>t. cur_task k = Some t \<longrightarrow> has_free_fd t)) \<and>
     (nr = 0xa5 \<longrightarrow> f \<notin> dom (mount_at (f_vfs k)) \<and> (arg0 \<noteq> 0 \<longrightarrow> cstring (k_mem k) arg0 \<noteq> None) \<and>
        cstring (k_mem k) arg1 \<noteq> None \<and> cstring (k_mem k) arg2 \<noteq> None)"

text \<open>The call \<open>r\<close> returns and the invariant holds afterwards, perhaps with another mount.\<close>

definition returns_ok :: "ptr list \<Rightarrow> ptr \<Rightarrow> ('r \<times> ('s, 'd) kernel) option \<Rightarrow> bool" where
  "returns_ok Qs idle r \<longleftrightarrow> (\<exists>x k M. r = Some (x, k) \<and> kernel_ok Qs idle M k)"

lemma kernel_okD:
  assumes "kernel_ok Qs idle M k"
  obtains a t where "well Qs idle (f_sched k) a" "sys_ok k M" "cur_task k = Some t" "tasks (f_sched k) (current (f_sched k)) = Some t"
proof -
  obtain a where a: "well Qs idle (f_sched k) a" "sys_ok k M" using assms by (auto simp: kernel_ok_def)
  obtain t where "tasks a (current a) = Some t" using wellD(6) [OF a(1)] by blast
  then show thesis
    using that a rep_sched_eqs [OF wellD(1) [OF a(1)]] by (auto simp: cur_task_def scheduler_current_def)
qed

lemma read_call:
  assumes k: "kernel_ok Qs idle M k" and fd: "0 \<le> sint arg0" "sint arg0 < 8"
  shows "returns_ok Qs idle (syscall_int80 al f q 0 arg0 arg1 arg2 arg3 k)"
proof -
  obtain a t where a: "well Qs idle (f_sched k) a" "sys_ok k M" "cur_task k = Some t" by (rule kernel_okD [OF k])
  obtain r b s where r: "sys_read (sint arg0) (mem_bytes (k_mem k) arg1 (unat arg2)) arg2 k =
      Some (r, b, k\<lparr>f_vfs := (f_vfs k)\<lparr>drv := s\<rparr>\<rparr>)"
    using sys_read_ok [OF a(2,3) fd] by blast
  have "kernel_ok Qs idle M (k\<lparr>f_vfs := (f_vfs k)\<lparr>drv := s\<rparr>\<rparr>)"
    by (rule kernel_ok_fs [OF k fs_frame_vfs [OF a(1)]]) (simp add: sys_ok_drv a(2))
  then show ?thesis using r by (auto simp: syscall_int80_def returns_ok_def)
qed

lemma write_call:
  assumes k: "kernel_ok Qs idle M k" and fd: "0 \<le> sint arg0" "sint arg0 < 8"
  shows "returns_ok Qs idle (syscall_int80 al f q 1 arg0 arg1 arg2 arg3 k)"
proof -
  obtain a t where a: "well Qs idle (f_sched k) a" "sys_ok k M" "cur_task k = Some t" by (rule kernel_okD [OF k])
  obtain r s where r: "sys_write (sint arg0) (mem_bytes (k_mem k) arg1 (unat arg2)) arg2 k =
      Some (r, k\<lparr>f_vfs := (f_vfs k)\<lparr>drv := s\<rparr>\<rparr>)"
    using sys_write_ok [OF a(2,3) fd] by blast
  have "kernel_ok Qs idle M (k\<lparr>f_vfs := (f_vfs k)\<lparr>drv := s\<rparr>\<rparr>)"
    by (rule kernel_ok_fs [OF k fs_frame_vfs [OF a(1)]]) (simp add: sys_ok_drv a(2))
  then show ?thesis using r by (auto simp: syscall_int80_def returns_ok_def)
qed

lemma open_call:
  assumes k: "kernel_ok Qs idle M k" "few (f_vfs k)" and f: "f \<noteq> 0" "files (f_vfs k) f = None"
    and p: "cstring (k_mem k) arg0 = Some path" and t: "\<And>t. cur_task k = Some t \<Longrightarrow> has_free_fd t"
  shows "returns_ok Qs idle (syscall_int80 True f q 2 arg0 arg1 arg2 arg3 k)"
proof -
  obtain a t where a: "well Qs idle (f_sched k) a" "sys_ok k M" "cur_task k = Some t" by (rule kernel_okD [OF k(1)])
  obtain r k' where r: "sys_open True f (text_of path) (sint arg1) (sint arg2) k = Some (r, k')" "sys_ok k' M"
    using sys_open_ok [OF a(2) k(2) text_of_NUL [OF cstring_nonzero [OF p]] f a(3) t [OF a(3)]] by blast
  have "kernel_ok Qs idle M k'" by (rule kernel_ok_fs [OF k(1) sys_open_frame [OF a(1) r(1)] r(2)])
  then show ?thesis using r(1) p by (auto simp: syscall_int80_def returns_ok_def)
qed

lemma close_call:
  assumes k: "kernel_ok Qs idle M k" "few (f_vfs k)" and fd: "0 \<le> sint arg0" "sint arg0 < 8"
  shows "returns_ok Qs idle (syscall_int80 al f q 3 arg0 arg1 arg2 arg3 k)"
proof -
  obtain a t where a: "well Qs idle (f_sched k) a" "sys_ok k M" "cur_task k = Some t" by (rule kernel_okD [OF k(1)])
  obtain r k' where r: "sys_close (sint arg0) k = Some (r, k')" "sys_ok k' M"
    using sys_close_ok [OF a(2) k(2) a(3) fd] by blast
  have "kernel_ok Qs idle M k'" by (rule kernel_ok_fs [OF k(1) sys_close_frame [OF a(1) r(1)] r(2)])
  then show ?thesis using r(1) by (auto simp: syscall_int80_def returns_ok_def)
qed

lemma mount_call:
  assumes k: "kernel_ok Qs idle M k" "few (f_vfs k)" and f: "f \<notin> dom (mount_at (f_vfs k))"
    and s: "arg0 \<noteq> 0 \<Longrightarrow> cstring (k_mem k) arg0 \<noteq> None" "cstring (k_mem k) arg1 = Some tg" "cstring (k_mem k) arg2 = Some name"
  shows "returns_ok Qs idle (syscall_int80 al f q 0xa5 arg0 arg1 arg2 arg3 k)"
proof -
  obtain a t where a: "well Qs idle (f_sched k) a" "sys_ok k M" "cur_task k = Some t" by (rule kernel_okD [OF k(1)])
  obtain src where src: "(if arg0 = 0 then Some None else do { s \<leftarrow> cstring (k_mem k) arg0; Some (Some (text_of s)) }) = Some src"
    using s(1) by (cases "arg0 = 0") auto
  have inv: "vfs_ok (f_vfs k) M" "fds_ok (tables (f_sched k)) (f_vfs k)" using a(2) by (simp_all add: sys_ok_def)
  obtain r v where v: "fs_mount (f_vfs k) (text_of tg) (text_of name) src f q = Some (r, v)"
      "vfs_ok v (if r = 0 then insert f M else M)" "files v = files (f_vfs k)" "dirs v = dirs (f_vfs k)"
    using fs_mount_ok [OF inv(1) k(2) text_of_NUL [OF cstring_nonzero [OF s(2)]] f] by blast
  have "sys_ok (k\<lparr>f_vfs := v\<rparr>) (if r = 0 then insert f M else M)"
    using v inv(2) by (auto simp: sys_ok_def intro: fds_ok_mono)
  then have "kernel_ok Qs idle (if r = 0 then insert f M else M) (k\<lparr>f_vfs := v\<rparr>)"
    by (rule kernel_ok_fs [OF k(1) fs_frame_vfs [OF a(1)]])
  then show ?thesis using v(1) src s(2,3) by (auto simp: syscall_int80_def sys_mount_def returns_ok_def)
qed

lemma exit_call:
  assumes k: "kernel_ok Qs idle M k" and c: "current (f_sched k) \<noteq> idle"
  shows "returns_ok Qs idle (sys_exit st k)"
proof -
  obtain a where a: "well Qs idle (f_sched k) a" using k by (auto simp: kernel_ok_def)
  obtain s' a' where s': "scheduler_exit (f_sched k) (sint st) = Some s'" "well Qs idle s' a'"
    using exit_well [OF a c] by blast
  have "kernel_ok Qs idle M (k\<lparr>f_sched := s'\<rparr>)"
    by (rule kernel_ok_sched [OF k _ exit_heads [OF s'(1)] call_exit [OF s'(1)]]) (use s' in blast)
  then show ?thesis using s'(1) by (auto simp: sys_exit_def returns_ok_def)
qed

lemma wait_call:
  assumes k: "kernel_ok Qs idle M k" and c: "current (f_sched k) \<noteq> idle"
    and n: "\<And>d st fs s. scheduler_wait (f_sched k) (sint p) (sint opt) \<noteq> Some (WaitCollects d st fs, s)"
  shows "returns_ok Qs idle (sys_wait p ws opt k)"
proof -
  obtain a where a: "well Qs idle (f_sched k) a" using k by (auto simp: kernel_ok_def)
  obtain r s' where r: "scheduler_wait (f_sched k) (sint p) (sint opt) = Some (r, s')" "\<exists>a'. well Qs idle s' a'"
    using wait_well [OF a c, of "sint p" "sint opt"] n by blast
  have "kernel_ok Qs idle M (k\<lparr>f_sched := s'\<rparr>)"
    by (rule kernel_ok_sched [OF k r(2) wait_heads [OF r(1)] call_wait [OF r(1)]])
  then show ?thesis using r(1) n by (cases r) (auto simp: sys_wait_def returns_ok_def)
qed

lemma nanosleep_call:
  assumes k: "kernel_ok Qs idle M k" and c: "current (f_sched k) \<noteq> idle"
  shows "returns_ok Qs idle (sys_nanosleep ci fl' rq rm k)"
proof -
  obtain a where a: "well Qs idle (f_sched k) a" using k by (auto simp: kernel_ok_def)
  let ?rq = "if rq = 0 then None else Some (timespec_at (k_mem k) rq)"
  have s: "\<exists>s' a'. scheduler_sleep_on (f_sched k) (k_blocked k) (WDeadline d) = Some s' \<and> well Qs idle s' a'" for d
    using well_sleep_on [OF a, of "k_blocked k" "WDeadline d"] k c rep_sched_eqs [OF wellD(1) [OF a]] by (auto simp: kernel_ok_def)
  have "\<exists>r s'. clk_nanosleep (k_blocked k) (k_now k) (clockid_of ci) (sint fl') ?rq (rm \<noteq> 0) (f_sched k) = Some (r, s') \<and>
      (s' = f_sched k \<or> (\<exists>d a'. scheduler_sleep_on (f_sched k) (k_blocked k) (WDeadline d) = Some s' \<and> well Qs idle s' a'))"
  proof (cases "rq = 0 \<or> clockid_of ci \<noteq> CLOCK_MONOTONIC \<or> rm = 0 \<or>
      clk_deadline (k_now k) (sint fl') (timespec_at (k_mem k) rq) \<le> k_now k")
    case True
    then show ?thesis by (auto simp: clk_nanosleep_def Let_def)
  next
    case False
    obtain s' a' where "scheduler_sleep_on (f_sched k) (k_blocked k)
        (WDeadline (clk_deadline (k_now k) (sint fl') (timespec_at (k_mem k) rq))) = Some s'" "well Qs idle s' a'"
      using s by blast
    then show ?thesis using False by (auto simp: clk_nanosleep_def Let_def)
  qed
  then obtain r s' where r: "clk_nanosleep (k_blocked k) (k_now k) (clockid_of ci) (sint fl') ?rq (rm \<noteq> 0) (f_sched k) = Some (r, s')"
      "s' = f_sched k \<or> (\<exists>d a'. scheduler_sleep_on (f_sched k) (k_blocked k) (WDeadline d) = Some s' \<and> well Qs idle s' a')"
    by blast
  have "kernel_ok Qs idle M (k\<lparr>f_sched := s'\<rparr>)"
    using r(2) k kernel_ok_sched [OF k _ sleep_on_heads call_sleep] by fastforce
  then show ?thesis using r(1) by (auto simp: sys_nanosleep_def returns_ok_def)
qed

lemma queue_new_heads: "scheduler_queue_new s t pr = Some (r, s') \<Longrightarrow> heads s' = heads s"
  unfolding scheduler_queue_new_def Let_def by (auto split: bind_splits dest!: upd_task_heads task_put_heads)

lemma load64_store64: "load64 (store64 m a v) a = v"
proof -
  have ap: "apart (a + x) (a + y)" if "apart x y" for x y using that by (simp add: apart_offset)
  have z: "apart (a + x) a" if "apart x 0" for x using ap [OF that] by simp
  have "load64 (store64 m a v) a = ucast (ucast v :: u16) OR push_bit 16 (ucast (ucast (drop_bit 16 v) :: u16)) OR
      push_bit 32 (ucast (ucast (drop_bit 32 v) :: u16)) OR push_bit 48 (ucast (ucast (drop_bit 48 v) :: u16))"
    by (simp add: load64_def store64_def load_apart ap z apart_def)
  also have "\<dots> = v"
  proof (rule bit_word_eqI)
    fix n assume "n < LENGTH(64)"
    then consider "n < 16" | "16 \<le> n" "n < 32" | "32 \<le> n" "n < 48" | "48 \<le> n" "n < 64" by force
    then show "bit (ucast (ucast v :: u16) OR push_bit 16 (ucast (ucast (drop_bit 16 v) :: u16)) OR
      push_bit 32 (ucast (ucast (drop_bit 32 v) :: u16)) OR push_bit 48 (ucast (ucast (drop_bit 48 v) :: u16)) :: u64) n = bit v n"
      by cases (auto simp: bit_simps)
  qed
  finally show ?thesis .
qed

lemma load64_apart: "load64 (store64 m (a + 8) v) a = load64 m a"
proof -
  have ap: "apart (a + x) (a + y)" if "apart x y" for x y using that by (simp add: apart_offset)
  have z: "apart (a + x) a" if "apart x 0" for x using ap [OF that] by simp
  show ?thesis by (simp add: load64_def store64_def load_apart ap z apart_def add.assoc)
qed

lemma timespec_roundtrip:
  "0 \<le> tv_sec t \<Longrightarrow> tv_sec t < 2 ^ 63 \<Longrightarrow> 0 \<le> tv_nsec t \<Longrightarrow> tv_nsec t < 2 ^ 63 \<Longrightarrow> timespec_at (store_timespec m a t) a = t"
  by (simp add: timespec_at_def store_timespec_def load64_store64 load64_apart sint_sbintrunc' signed_take_bit_int_eq_self)

text \<open>A string constant in memory.\<close>

definition c_str :: "string \<Rightarrow> u8 list" where
  "c_str s = map (\<lambda>ch. word_of_nat (of_char ch)) s"

lemma text_of_c_str: "text_of (c_str s) = s"
proof -
  have "char_of (unat (word_of_nat (of_char ch) :: u8)) = ch" for ch
    using of_char_mod_256 [of ch, where 'a = nat] by (simp add: unat_of_nat)
  then show ?thesis by (simp add: text_of_def c_str_def map_idI)
qed

section \<open>Properties\<close>


text \<open>
  C24.  \<^verbatim>\<open>kthread_start\<close> with a stack large enough and allocations that succeed returns the next process
  id and leaves the kernel well formed, with the new task ready at its priority.  When the task is
  switched to for the first time, \<^verbatim>\<open>ctx_switch\<close> pops the kernel's data segments and enabled interrupts
  from its stack and returns to \<^verbatim>\<open>_kthread_bootstrap\<close>, with the thread function as its argument.
\<close>

theorem kthread_start_joins:
  assumes k: "kernel_ok Qs idle M k" and n: "tasks (f_sched k) new = None" "new \<noteq> 0" "new \<notin> set Qs" "st \<noteq> 0" "18 \<le> sz"
  shows "\<exists>k' t R. kthread_start b boot st new fn sz pr k = Some (next_pid (f_sched k), k') \<and> kernel_ok Qs idle M k' \<and>
    tasks (f_sched k') new = Some t \<and> state t = READY \<and> prio t = pr \<and> stack t = st \<and> descriptors t = None \<and>
    R = ctx_pops (k_mem k') (ctx_sp (ctx t)) \<and> r_ip R = boot \<and> r_flags R = INTERRUPT_ENABLE_FLAG \<and>
    r_ds R = KERNEL_DS b \<and> r_es R = KERNEL_DS b \<and> load (k_mem k') (r_sp R + 2) = fn"
proof -
  obtain a where a: "well Qs idle (f_sched k) a" using k by (auto simp: kernel_ok_def)
  let ?bst = "st + sz - sizeof_bootstrap_stack"
  let ?t = "zero_task\<lparr>stack := st, ctx := \<lparr>ctx_sp = ?bst, ctx_ss = KERNEL_SS b\<rparr>\<rparr>"
  let ?m = "bootstrap_stack b boot fn ?bst (k_mem k)"
  have eq: "tasks a = tasks (f_sched k)" "next_pid a = next_pid (f_sched k)" using rep_sched_eqs [OF wellD(1) [OF a]] by simp_all
  have fr: "new \<notin> dom (tasks a)" using n(1) eq(1) by (simp add: domIff)
  obtain s' where s': "scheduler_queue_new ((f_sched k)\<lparr>tasks := (tasks (f_sched k))(new \<mapsto> ?t)\<rparr>) new pr = Some (next_pid (f_sched k), s')"
      "\<exists>a'. well Qs idle s' a'"
    using well_queue_new [OF a fr well_fresh [OF a n(1,3)] n(2), of ?t pr] eq(2) by auto
  obtain pp where t: "tasks s' new = Some (?t\<lparr>pid := next_pid (f_sched k), parent := pp, prio := pr, state := READY\<rparr>)"
    using queue_new_task [OF s'(1)] by auto
  have "kernel_ok Qs idle M (k\<lparr>k_mem := ?m\<rparr>)" using k by simp
  then have "kernel_ok Qs idle M (k\<lparr>k_mem := ?m, f_sched := s'\<rparr>)"
    by (rule kernel_ok_sched [OF _ s'(2)])
      (use queue_new_heads [OF s'(1)] call_new [OF _ s'(1)] in \<open>auto simp: zero_task_def\<close>)
  moreover have "kthread_start b boot st new fn sz pr k = Some (next_pid (f_sched k), k\<lparr>k_mem := ?m, f_sched := s'\<rparr>)"
  proof -
    have "\<not> sz < sizeof_bootstrap_stack" using n(5) by (simp add: sizeof_bootstrap_stack_def not_less)
    then show ?thesis using n(2,4) s'(1) by (simp add: kthread_start_def)
  qed
  ultimately show ?thesis using t bootstrap_pops [OF refl, of b boot fn ?bst "k_mem k"] by (simp add: zero_task_def)
qed

text \<open>
  C30.  The library's \<^verbatim>\<open>read\<close> on an open file: it returns the driver's result, the buffer holds the
  driver's bytes, and no other byte of memory changes.
\<close>

theorem libc_read_memory:
  assumes k: "kernel_ok Qs idle M k" "cur_task k = Some t" "task_get_desc t (sint fd) = Some (Some d)" "desc_type d = DESC_FILE"
    and h: "files (f_vfs k) (handle d) = Some x" "mount_at (f_vfs k) (h_mount x) = Some m" "api_read (m_api m) = Some rd"
    and r: "rd (h_cookie x) (mem_bytes (k_mem k) buf (unat count)) 0 count (drv (f_vfs k)) = (n, b, s)" "length b = unat count"
  shows "\<exists>k'. libc_read R fd buf count k = Some (Returns n, k') \<and> kernel_ok Qs idle M k' \<and>
    mem_bytes (k_mem k') buf (unat count) = b \<and> (\<forall>a. unat count \<le> unat (a - buf) \<longrightarrow> k_mem k' a = k_mem k a)"
proof -
  obtain a where a: "well Qs idle (f_sched k) a" "sys_ok k M" using k(1) by (auto simp: kernel_ok_def)
  let ?k = "k\<lparr>f_vfs := (f_vfs k)\<lparr>drv := s\<rparr>\<rparr>"
  have "sys_read (sint fd) (mem_bytes (k_mem k) buf (unat count)) count k = Some (n, b, ?k)"
    using k(2-4) h r(1) by (simp add: sys_read_def fs_read_file_def handle_mount_def)
  then have "libc_read R fd buf count k = Some (Returns n, ?k\<lparr>k_mem := mem_store (k_mem k) buf b\<rparr>)"
    by (simp add: libc_read_def int80_def syscall_int80_def)
  moreover have "kernel_ok Qs idle M ?k"
    by (rule kernel_ok_fs [OF k(1) fs_frame_vfs [OF a(1)]]) (simp add: sys_ok_drv a(2))
  moreover have "mem_bytes (mem_store (k_mem k) buf b) buf (unat count) = b"
    using mem_bytes_store [of b "k_mem k" buf] r(2) unat_u16_lt [of count] by simp
  ultimately show ?thesis using r(2) by (simp add: mem_store_def)
qed

text \<open>
  \<^verbatim>\<open>clock_gettime\<close> of the monotonic clock stores a time that reads back as the clock's value:
  seconds and nanoseconds recombine to the nanoseconds since boot.
\<close>

theorem clock_gettime_reads_back:
  assumes "tp \<noteq> 0" "uint (k_now k) < 2 ^ 63"
  shows "\<exists>k' t. clock_gettime R 1 tp k = Some (Returns 0, k') \<and> t = timespec_at (k_mem k') tp \<and>
    tv_sec t * 1000000000 + tv_nsec t = uint (k_now k) \<and> 0 \<le> tv_nsec t \<and> tv_nsec t < 1000000000"
proof -
  let ?c = "word_of_int (S_TO_NS 1) :: u64"
  let ?t = "\<lparr>tv_sec = uint (k_now k div ?c), tv_nsec = uint (k_now k mod ?c)\<rparr>"
  have c: "uint ?c = 1000000000" by (simp add: S_TO_NS_def)
  have d: "uint (k_now k div ?c) = uint (k_now k) div 1000000000" "uint (k_now k mod ?c) = uint (k_now k) mod 1000000000"
    by (simp_all add: uint_div uint_mod c)
  have n: "uint (k_now k) < 2 ^ 63" using assms(2) .
  have "timespec_at (store_timespec (k_mem k) tp ?t) tp = ?t"
  proof (rule timespec_roundtrip)
    show "tv_sec ?t < 2 ^ 63" using n uint_nonnegative [of "k_now k"] by (simp add: d)
    show "tv_nsec ?t < 2 ^ 63" using pos_mod_bound [of 1000000000 "uint (k_now k)"] by (simp add: d)
  qed simp_all
  moreover have "clock_gettime R 1 tp k = Some (Returns 0, k\<lparr>k_mem := store_timespec (k_mem k) tp ?t\<rparr>)"
    using assms(1) by (simp add: clock_gettime_def int80_def syscall_int80_def sys_gettime_def clk_gettime_def clockid_of_def)
  moreover have "uint (k_now k) div 1000000000 * 1000000000 + uint (k_now k) mod 1000000000 = uint (k_now k)" by simp
  ultimately show ?thesis using d by (intro exI [of _ "k\<lparr>k_mem := store_timespec (k_mem k) tp ?t\<rparr>"]) simp
qed


section \<open>A sample kernel\<close>

definition kern0 :: "(unit, uart_chip) kernel" where
  "kern0 = \<lparr>f_sched = idle_sched, f_vfs = vfs2, k_brk = \<lparr>heap_base = 0, heap_max = 0, cur_brk = 0, lib_brk = 0\<rparr>,
     k_serial = rev3_serial, k_now = 5000000007, k_blocked = 4, k_mem = (\<lambda>_. 0)\<rparr>"

lemma idle_tables: "tables idle_sched p \<noteq> Some (Some ds)"
proof -
  obtain r where r: "scheduler_queue_new (kernel_sched\<lparr>tasks := (tasks kernel_sched)(32 \<mapsto> zero_task)\<rparr>) 32 (- 32767) = Some (r, idle_sched)"
    using started_sched_ok(1) [of 32 "- 32767"] by (auto simp: idle_sched_def)
  have "tables (kernel_sched\<lparr>tasks := (tasks kernel_sched)(32 \<mapsto> zero_task)\<rparr>) p \<noteq> Some (Some ds)"
    by (simp add: tables_def kernel_sched_def boot_sched_def zero_task_def scheduler_initialize_def upd_task_def)
  then show ?thesis using queue_new_tables [OF r] by simp
qed

lemma kern0_sched: "current idle_sched = 16" "heads idle_sched = (1, 2, 3)" "tasks idle_sched 64 = None"
proof -
  obtain a where a: "well [1, 2, 3, 4] 32 idle_sched a" "current a = 16" "ready a = 1" "zombies a = 2" "waiters a = 3"
    using idle_sched_ok by blast
  note e = rep_sched_eqs [OF wellD(1) [OF a(1)]]
  show "current idle_sched = 16" "heads idle_sched = (1, 2, 3)" using a e by (simp_all add: heads_def)
  show "tasks idle_sched 64 = None" by (rule idle_sched_tasks) simp_all
qed

lemma vfs2_ok: "vfs_ok vfs2 {100}" by (rule vfs_run_ok [OF sample_run(3)])

lemma kern0_ok: "kernel_ok [1, 2, 3, 4] 32 {100} kern0"
proof -
  have "open_fds (tables idle_sched) = {}" using idle_tables by (auto simp: open_fds_def)
  then have "sys_ok kern0 {100}" using vfs2_ok idle_tables by (auto simp: sys_ok_def fds_ok_def kern0_def)
  then show ?thesis using idle_sched_ok kern0_sched(2) by (auto simp: kernel_ok_def kern0_def heads_def)
qed

text \<open>The same with the file opened by the running task.\<close>

definition kern1 :: "(unit, uart_chip) kernel" where
  "kern1 = set_cur_task ((the (cur_task kern0))\<lparr>descriptors := Some sample_table\<rparr>) kern0"

lemma kern1_ok: "kernel_ok [1, 2, 3, 4] 32 {100} kern1" and kern1_cur: "\<exists>t. cur_task kern1 = Some (t\<lparr>descriptors := Some sample_table\<rparr>)"
proof -
  obtain a t where a: "well [1, 2, 3, 4] 32 (f_sched kern0) a" "sys_ok kern0 {100}" "cur_task kern0 = Some t"
    by (rule kernel_okD [OF kern0_ok])
  let ?t = "t\<lparr>descriptors := Some sample_table\<rparr>"
  have k: "kern1 = set_cur_task ?t (kern0\<lparr>f_vfs := f_vfs kern0\<rparr>)" using a(3) by (simp add: kern1_def)
  have t: "descriptors t = None" using tables_Some [OF a(3)] idle_tables by (cases "descriptors t") (auto simp: kern0_def)
  have ok: "fds_ok (tables (f_sched kern0)) (f_vfs kern0)" using a(2) by (simp add: sys_ok_def)
  have e: "open_fds (tables (f_sched kern0)) = {}" using idle_tables by (auto simp: open_fds_def kern0_def)
  have "fds_ok ((tables (f_sched kern0))(current (f_sched kern0) \<mapsto> Some sample_table)) (f_vfs kern0)"
    unfolding sample_table_def
    by (rule fds_put [OF ok])
      (use t tables_Some [OF a(3)] e in \<open>auto simp: desc_live_def kern0_def vfs2_def calloc_descriptors_def zero_descriptor_def
        MAX_FD_def sizeof_desc_t_def sizeof_descriptor_def\<close>)
  then have "sys_ok kern1 {100}" using a(2) tables_cur [OF a(3), of ?t] unfolding k by (simp add: sys_ok_def)
  moreover have "fs_frame [1, 2, 3, 4] 32 kern0 kern1" unfolding k by (rule fs_frame_cur [OF a(1,3)]) blast
  ultimately show "kernel_ok [1, 2, 3, 4] 32 {100} kern1" by (rule kernel_ok_fs [OF kern0_ok, rotated])
  show "\<exists>t. cur_task kern1 = Some (t\<lparr>descriptors := Some sample_table\<rparr>)"
    unfolding k by (intro exI [of _ t]) (simp add: cur_task_def set_cur_task_def scheduler_current_def)
qed

lemma kern_few: "few (f_vfs kern0)" by (simp add: kern0_def sample_few)

lemma cstring_bytes:
  "mem_bytes m a (length s) = s \<Longrightarrow> 0 \<notin> set s \<Longrightarrow> m (a + of_nat (length s)) = 0 \<Longrightarrow> cstring m a = Some s"
proof (induction s arbitrary: a)
  case Nil
  then show ?case by (simp add: cstring.simps)
next
  case (Cons b s)
  have "mem_bytes m a (length (b # s)) = m a # mem_bytes m (a + 1) (length s)"
    by (simp add: mem_bytes_def upt_conv_Cons map_Suc_upt [symmetric] ac_simps del: upt_Suc)
  then have "m a = b" "mem_bytes m (a + 1) (length s) = s" using Cons.prems(1) by simp_all
  moreover have "m (a + 1 + of_nat (length s)) = 0" using Cons.prems(3) by (simp add: ac_simps)
  ultimately show ?case using Cons.IH [of "a + 1"] Cons.prems(2) by (subst cstring.simps) auto
qed

text \<open>One at boot, with a registered disk, a driver named \<^verbatim>\<open>ext2\<close> and the strings of \<^verbatim>\<open>init\<close> in memory.\<close>

definition boot_mem :: "u16 \<Rightarrow> u8" where
  "boot_mem = mem_store (mem_store (mem_store (\<lambda>_. 0) 0x10 (c_str ''sda1'')) 0x20 (c_str ''/rootfs'')) 0x30 (c_str ''ext2'')"

definition boot_disk :: "unit blkdev" where
  "boot_disk = \<lparr>blk_name = ''sda1'', block_size = 512, block_shift = 9, block_count = 64, read_block = None,
     write_block = None, dev_read = None, dev_write = None\<rparr>"

definition kern2 :: "(unit, uart_chip) kernel" where
  "kern2 = kern0\<lparr>f_vfs := vfs0\<lparr>fs_table := [sample_fs\<lparr>fs_name := ''ext2''\<rparr>], disks := [boot_disk]\<rparr>, k_mem := boot_mem\<rparr>"

lemma boot_strings: "cstring boot_mem 0x10 = Some (c_str ''sda1'')" "cstring boot_mem 0x20 = Some (c_str ''/rootfs'')"
    "cstring boot_mem 0x30 = Some (c_str ''ext2'')"
  by (rule cstring_bytes; simp add: boot_mem_def mem_store_def mem_bytes_def c_str_def upt_rec of_char_def)+


theorem kthread_start_joins_witness:
  "\<exists>k' t. kthread_start board_8088_rev3 0x1234 0x8000 64 0x5678 510 0 kern0 = Some (next_pid (f_sched kern0), k') \<and>
     tasks (f_sched k') 64 = Some t \<and> load (k_mem k') (r_sp (ctx_pops (k_mem k') (ctx_sp (ctx t))) + 2) = 0x5678"
proof -
  have "tasks (f_sched kern0) 64 = None" using kern0_sched(3) by (simp add: kern0_def)
  then show ?thesis
    using kthread_start_joins [OF kern0_ok, where new = 64 and st = "0x8000" and sz = 510 and b = board_8088_rev3
        and boot = "0x1234" and fn = "0x5678" and pr = 0]
    by auto
qed

definition regs0 :: regs86 where "regs0 = \<lparr>reg_bx = 0, reg_cx = 0, reg_dx = 0, reg_si = 0\<rparr>"

theorem libc_read_memory_witness:
  "\<exists>k'. libc_read regs0 0 0x100 4 kern1 = Some (Returns 0, k') \<and> mem_bytes (k_mem k') 0x100 4 = [0, 0, 0, 0]"
proof -
  obtain t where t: "cur_task kern1 = Some (t\<lparr>descriptors := Some sample_table\<rparr>)" using kern1_cur by blast
  have d: "task_get_desc (t\<lparr>descriptors := Some sample_table\<rparr>) (sint (0 :: u16)) = Some (Some \<lparr>desc_type = DESC_FILE, handle = 200\<rparr>)"
    using sample_table_0 by (simp add: task_get_desc_def)
  have v: "f_vfs kern1 = vfs2" "k_mem kern1 = (\<lambda>_. 0)" by (simp_all add: kern1_def kern0_def set_cur_task_def)
  have m: "mem_bytes (\<lambda>_. 0) 0x100 4 = [0, 0, 0, 0]" by (simp add: mem_bytes_def upt_rec)
  have "\<exists>k'. libc_read regs0 0 0x100 4 kern1 = Some (Returns 0, k') \<and> kernel_ok [1, 2, 3, 4] 32 {100} k' \<and>
    mem_bytes (k_mem k') 0x100 (unat (4 :: u16)) = [0, 0, 0, 0] \<and>
    (\<forall>a. unat (4 :: u16) \<le> unat (a - 0x100) \<longrightarrow> k_mem k' a = k_mem kern1 a)"
    by (rule libc_read_memory [OF kern1_ok t d, where x = "\<lparr>h_cookie = 2, h_mount = 100\<rparr>" and
          m = "sample_mount\<lparr>m_ref := 2\<rparr>" and rd = "\<lambda>_ buf _ _ s. (0, buf, s)"])
      (simp_all add: v m sample_defs)
  then show ?thesis by auto
qed

theorem clock_gettime_reads_back_witness:
  "\<exists>k' t. clock_gettime regs0 1 0x200 kern0 = Some (Returns 0, k') \<and> t = timespec_at (k_mem k') 0x200 \<and>
     tv_sec t * 1000000000 + tv_nsec t = 5000000007"
proof -
  have n: "k_now kern0 = 5000000007" by (simp add: kern0_def)
  then show ?thesis using clock_gettime_reads_back [of "0x200" kern0 regs0] by auto
qed


end
