(* ===== verification/Cf20.thy ===== *)
theory Cf20
  imports Clk Subdev
begin

text \<open>
  The CompactFlash driver (\<^verbatim>\<open>kernel/drivers/block/cf20\<close>): the commands of the card, its identification,
  the queue of block requests and the interrupt handler that moves one sector per interrupt, and the
  probe.  A caller of \<^verbatim>\<open>cf20_read_block\<close> or \<^verbatim>\<open>cf20_write_block\<close> sleeps in the queue \<^verbatim>\<open>requests\<close> until
  the handler has finished its request; the part of the call after it is woken is a function of its
  own.  The buffers are in the bytes of the data segment.
\<close>

section \<open>Registers and commands\<close>

definition CF20_SECTOR_SHIFT :: nat where "CF20_SECTOR_SHIFT = 9"
definition CF20_SECTOR_SIZE :: u16 where "CF20_SECTOR_SIZE = push_bit CF20_SECTOR_SHIFT 1"

definition REG_DATA :: "u16 \<Rightarrow> u16" where "REG_DATA p = p"
definition REG_ERROR :: "u16 \<Rightarrow> u16" where "REG_ERROR p = p + 1"
definition REG_FEATURES :: "u16 \<Rightarrow> u16" where "REG_FEATURES p = p + 1"
definition REG_SECTOR_COUNT :: "u16 \<Rightarrow> u16" where "REG_SECTOR_COUNT p = p + 2"
definition REG_LBA_LOW :: "u16 \<Rightarrow> u16" where "REG_LBA_LOW p = p + 3"
definition REG_LBA_MID :: "u16 \<Rightarrow> u16" where "REG_LBA_MID p = p + 4"
definition REG_LBA_HIGH :: "u16 \<Rightarrow> u16" where "REG_LBA_HIGH p = p + 5"
definition REG_CARD_HEAD :: "u16 \<Rightarrow> u16" where "REG_CARD_HEAD p = p + 6"
definition REG_CMD :: "u16 \<Rightarrow> u16" where "REG_CMD p = p + 7"
definition REG_STATUS :: "u16 \<Rightarrow> u16" where "REG_STATUS p = p + 7"

lemmas cf_regs_def = REG_DATA_def REG_ERROR_def REG_FEATURES_def REG_SECTOR_COUNT_def REG_LBA_LOW_def
  REG_LBA_MID_def REG_LBA_HIGH_def REG_CARD_HEAD_def REG_CMD_def REG_STATUS_def

definition SR_ERR :: u8 where "SR_ERR = push_bit 2 1"
definition SR_BSY :: u8 where "SR_BSY = push_bit 7 1"
definition ERR_ABORT :: u8 where "ERR_ABORT = push_bit 2 1"
definition CHR_LBA :: u8 where "CHR_LBA = push_bit 6 1"
definition CHR_CARD0 :: u8 where "CHR_CARD0 = 0xa0"
definition CHR_HEAD_MASK :: u32 where "CHR_HEAD_MASK = 0xf"
definition CMD_READ_SECTORS :: u8 where "CMD_READ_SECTORS = 0x20"
definition CMD_WRITE_SECTORS :: u8 where "CMD_WRITE_SECTORS = 0x30"
definition CMD_IDENTIFY :: u8 where "CMD_IDENTIFY = 0xec"
definition CMD_SET_FEATURE :: u8 where "CMD_SET_FEATURE = 0xef"
definition FEAT_8BIT_ENABLE :: u8 where "FEAT_8BIT_ENABLE = 0x01"
definition CAP_LBA :: u16 where "CAP_LBA = push_bit 9 1"
definition DEV_DISABLE_INT :: u8 where "DEV_DISABLE_INT = push_bit 1 1"
definition CF20_SIGNATURE :: u16 where "CF20_SIGNATURE = 0x848A"

record cf20_private =
  p_irq :: int
  sector_sz :: u16
  r_data :: u16
  r_error :: u16
  r_features :: u16
  r_sector_count :: u16
  r_lba_low :: u16
  r_lba_mid :: u16
  r_lba_high :: u16
  r_card_head :: u16
  r_cmd :: u16
  r_status :: u16
  r_dev_ctrl :: u16

definition cf20_set_interrupts :: "'d ports \<Rightarrow> cf20_private \<Rightarrow> bool \<Rightarrow> 'd \<Rightarrow> 'd" where
  "cf20_set_interrupts io pdev enabled d =
     (if enabled then outb io (r_dev_ctrl pdev) 0 d else outb io (r_dev_ctrl pdev) DEV_DISABLE_INT d)"

text \<open>The loop that waits while the card is busy.\<close>

partial_function (option) cf20_wait :: "'d ports \<Rightarrow> u16 \<Rightarrow> 'd \<Rightarrow> 'd option" where
  "cf20_wait io st d =
     (case inb io st d of (v, d) \<Rightarrow> if v AND SR_BSY \<noteq> 0 then cf20_wait io st d else Some d)"

definition cf20_set_feature :: "'d ports \<Rightarrow> cf20_private \<Rightarrow> u8 \<Rightarrow> u8 \<Rightarrow> 'd \<Rightarrow> (bool \<times> 'd) option" where
  "cf20_set_feature io pdev feature config d =
     do { let d = outb io (r_features pdev) feature d;
          let d = outb io (r_sector_count pdev) config d;
          let d = outb io (r_card_head pdev) CHR_CARD0 d;
          let d = outb io (r_cmd pdev) CMD_SET_FEATURE d;
          d \<leftarrow> cf20_wait io (r_status pdev) d;
          let (byte, d) = inb io (r_status pdev) d;
          if byte AND SR_ERR \<noteq> 0
          then let (byte, d) = inb io (r_error pdev) d in Some (byte AND ERR_ABORT = 0, d)
          else Some (True, d) }"

definition cf20_send :: "u8 \<Rightarrow> 'd ports \<Rightarrow> cf20_private \<Rightarrow> u32 \<Rightarrow> u16 \<Rightarrow> 'd \<Rightarrow> 'd" where
  "cf20_send cmd io pdev block count d =
     (let d = outb io (r_sector_count pdev) (if count < 256 then ucast count else 0) d;
          d = outb io (r_lba_low pdev) (ucast block) d;
          d = outb io (r_lba_mid pdev) (ucast (drop_bit 8 block)) d;
          d = outb io (r_lba_high pdev) (ucast (drop_bit 16 block)) d;
          d = outb io (r_card_head pdev) (CHR_CARD0 OR CHR_LBA OR ucast (drop_bit 24 block AND CHR_HEAD_MASK)) d
      in outb io (r_cmd pdev) cmd d)"

definition cf20_send_read_sectors :: "'d ports \<Rightarrow> cf20_private \<Rightarrow> u32 \<Rightarrow> u16 \<Rightarrow> 'd \<Rightarrow> 'd" where
  "cf20_send_read_sectors = cf20_send CMD_READ_SECTORS"

definition cf20_send_write_sectors :: "'d ports \<Rightarrow> cf20_private \<Rightarrow> u32 \<Rightarrow> u16 \<Rightarrow> 'd \<Rightarrow> 'd" where
  "cf20_send_write_sectors = cf20_send CMD_WRITE_SECTORS"

text \<open>The loops over the bytes of a sector.\<close>

fun cf20_read_bytes :: "'d ports \<Rightarrow> u16 \<Rightarrow> nat \<Rightarrow> 'd \<Rightarrow> u8 list \<times> 'd" where
  "cf20_read_bytes io port 0 d = ([], d)"
| "cf20_read_bytes io port (Suc n) d =
     (let (b, d) = inb io port d; (bs, d) = cf20_read_bytes io port n d in (b # bs, d))"

fun cf20_write_bytes :: "'d ports \<Rightarrow> u16 \<Rightarrow> u8 list \<Rightarrow> 'd \<Rightarrow> 'd" where
  "cf20_write_bytes io port [] d = d"
| "cf20_write_bytes io port (b # bs) d = cf20_write_bytes io port bs (outb io port b d)"

definition cf20_read_sector :: "'d ports \<Rightarrow> cf20_private \<Rightarrow> 'd \<Rightarrow> u8 list \<times> 'd" where
  "cf20_read_sector io pdev d = cf20_read_bytes io (r_data pdev) (unat (sector_sz pdev)) d"

definition cf20_write_sector :: "'d ports \<Rightarrow> cf20_private \<Rightarrow> u8 list \<Rightarrow> 'd \<Rightarrow> 'd" where
  "cf20_write_sector io pdev buf d = cf20_write_bytes io (r_data pdev) buf d"

section \<open>Requests\<close>

datatype bio_state_t = READ_CMD | READ_SECTOR | WRITE_CMD | WRITE_SECTOR | DONE | ERROR

definition BIO_SEND :: "bio_state_t \<Rightarrow> bool" where "BIO_SEND s \<longleftrightarrow> s = READ_CMD \<or> s = WRITE_CMD"
definition BIO_RW_SECTOR :: "bio_state_t \<Rightarrow> bool" where "BIO_RW_SECTOR s \<longleftrightarrow> s = READ_SECTOR \<or> s = WRITE_SECTOR"
definition BIO_DONE :: "bio_state_t \<Rightarrow> bool" where "BIO_DONE s \<longleftrightarrow> s = DONE"

record bio_request =
  bio_state :: bio_state_t
  bio_block :: u32
  bio_count :: u16
  bio_buf :: u16

record 'd cf20 =
  cf_sched :: sched
  requests :: ptr
  cf_bios :: "ptr \<Rightarrow> bio_request option"
  cf_pdev :: "cf20_private option"
  cf_irqs :: irq_state
  cf_mem :: "u16 \<Rightarrow> u8"
  cf_hw :: 'd

text \<open>The request a waiting task points to.\<close>

definition task_bio :: "sched \<Rightarrow> ptr \<Rightarrow> ptr option" where
  "task_bio s x = do { t \<leftarrow> tasks s x; case wait_state t of WBio r \<Rightarrow> Some r | _ \<Rightarrow> None }"

definition bio_transfer :: "'d ports \<Rightarrow> cf20_private \<Rightarrow> ptr \<Rightarrow> bio_request \<Rightarrow> 'd cf20 \<Rightarrow> 'd cf20" where
  "bio_transfer io pdev r q c =
     (let c = (if bio_state q = READ_SECTOR
               then let (bs, d) = cf20_read_sector io pdev (cf_hw c)
                    in c\<lparr>cf_hw := d, cf_mem := mem_store (cf_mem c) (bio_buf q) bs\<rparr>
               else c\<lparr>cf_hw := cf20_write_sector io pdev
                        (mem_bytes (cf_mem c) (bio_buf q) (unat (sector_sz pdev))) (cf_hw c)\<rparr>);
          q = q\<lparr>bio_block := bio_block q + 1, bio_count := bio_count q - 1, bio_buf := bio_buf q + sector_sz pdev\<rparr>;
          q = (if bio_count q = 0 then q\<lparr>bio_state := DONE\<rparr> else q)
      in c\<lparr>cf_bios := (cf_bios c)(r \<mapsto> q)\<rparr>)"

definition bio_send :: "'d ports \<Rightarrow> cf20_private \<Rightarrow> bio_request \<Rightarrow> 'd cf20 \<Rightarrow> 'd cf20" where
  "bio_send io pdev q c =
     (if BIO_SEND (bio_state q)
      then if bio_state q = READ_CMD
           then c\<lparr>cf_hw := cf20_send_read_sectors io pdev (bio_block q) (bio_count q) (cf_hw c)\<rparr>
           else c\<lparr>cf_hw := cf20_send_write_sectors io pdev (bio_block q) (bio_count q) (cf_hw c)\<rparr>
      else c)"

definition cf20_handler :: "'d ports \<Rightarrow> 'd cf20 \<Rightarrow> 'd cf20 option" where
  "cf20_handler io c =
     do { pdev \<leftarrow> cf_pdev c;
          d \<leftarrow> irq_ack io (cf_irqs c) (p_irq pdev) (cf_hw c);
          let c = c\<lparr>cf_hw := d\<rparr>;
          if list_is_empty (heap (cf_sched c)) (requests c) then Some c
          else do {
            let task = list_peek_head (heap (cf_sched c)) (requests c);
            r \<leftarrow> task_bio (cf_sched c) task;
            q \<leftarrow> cf_bios c r;
            let c = (if BIO_RW_SECTOR (bio_state q) then bio_transfer io pdev r q c else c);
            q \<leftarrow> cf_bios c r;
            if BIO_DONE (bio_state q)
            then do {
              s \<leftarrow> unblock task (cf_sched c);
              let c = c\<lparr>cf_sched := s\<rparr>;
              if list_is_empty (heap s) (requests c) then Some c
              else do {
                r \<leftarrow> task_bio s (list_peek_head (heap s) (requests c));
                q \<leftarrow> cf_bios c r;
                Some (bio_send io pdev q c) } }
            else Some (bio_send io pdev q c) } }"

text \<open>
  A block call refuses its arguments or sleeps.  \<open>r\<close> is the address of the request, which the source
  allocates without a check; \<open>buf\<close> is 0 for a null pointer.
\<close>

datatype bio_call = BioReturns int | BioSleeps

definition bio_submit ::
    "('d ports \<Rightarrow> cf20_private \<Rightarrow> u32 \<Rightarrow> u16 \<Rightarrow> 'd \<Rightarrow> 'd) \<Rightarrow> bio_state_t \<Rightarrow> bio_state_t \<Rightarrow>
     'd ports \<Rightarrow> cf20_private \<Rightarrow> ptr \<Rightarrow> u16 \<Rightarrow> u32 \<Rightarrow> u16 \<Rightarrow> 'd cf20 \<Rightarrow> (bio_call \<times> 'd cf20) option" where
  "bio_submit send first waiting io pdev r buf block count c =
     (if count = 0 \<or> count > 256 \<or> buf = 0 then Some (BioReturns ERR_INVAL, c)
      else if r = 0 then None
      else do {
        let q = \<lparr>bio_state = READ_CMD, bio_block = block, bio_count = count, bio_buf = buf\<rparr>;
        let (q, c) = (if list_is_empty (heap (cf_sched c)) (requests c)
                      then (q\<lparr>bio_state := first\<rparr>, c\<lparr>cf_hw := send io pdev block count (cf_hw c)\<rparr>)
                      else (q\<lparr>bio_state := waiting\<rparr>, c));
        let c = c\<lparr>cf_bios := (cf_bios c)(r \<mapsto> q)\<rparr>;
        s \<leftarrow> scheduler_sleep_on (cf_sched c) (requests c) (WBio r);
        Some (BioSleeps, c\<lparr>cf_sched := s\<rparr>) })"

definition cf20_read_block where
  "cf20_read_block = bio_submit cf20_send_read_sectors READ_SECTOR READ_CMD"

definition cf20_write_block where
  "cf20_write_block = bio_submit cf20_send_write_sectors WRITE_SECTOR WRITE_CMD"

text \<open>The rest of both calls: the number of bytes moved, a 16-bit product, and the request is freed.\<close>

definition bio_finish :: "cf20_private \<Rightarrow> ptr \<Rightarrow> u16 \<Rightarrow> 'd cf20 \<Rightarrow> (int \<times> 'd cf20) option" where
  "bio_finish pdev r count c =
     do { q \<leftarrow> cf_bios c r;
          Some (sint ((count - bio_count q) * sector_sz pdev), c\<lparr>cf_bios := (cf_bios c)(r := None)\<rparr>) }"

section \<open>Identification\<close>

record cf20_identity =
  default_cyl_count :: u16
  default_heads_count :: u16
  default_sec_per_track :: u16
  sec_per_card :: u32
  serial_nr :: "u8 list"
  ecc_bytes_count :: u16
  firmware :: "u8 list"
  model :: "u8 list"
  max_sec_count :: u16
  capabilities :: u16
  pio_timing_mode :: u16
  field_validity :: u16
  curr_cyl_count :: u16
  curr_heads_count :: u16
  curr_sec_per_track :: u16
  cur_capacity :: u32
  multiple_sector_setting :: u16
  total_sec_count :: u32
  advanced_pio_modes :: u16
  min_pio_xfer_cycle_wo_fc :: u16
  min_pio_xfer_cycle_with_fc :: u16
  feat_cmd_supported :: "u16 list"
  feat_cmd_enabled :: "u16 list"
  security_erase_time :: u16
  enhanced_security_erase_time :: u16
  adv_pm_value :: u16
  security_status :: u16
  power_req :: u16
  key_mgmt_schemes :: u16

text \<open>The 16-bit words of the buffer, an array of bytes of a little-endian machine.\<close>

definition word_at :: "u8 list \<Rightarrow> nat \<Rightarrow> u16" where
  "word_at b k = ucast (b ! (2 * k)) OR push_bit 8 (ucast (b ! (2 * k + 1)))"

text \<open>The loop that clears the spaces at the end of a string, from index \<open>i - 1\<close> down.\<close>

fun trim_spaces :: "nat \<Rightarrow> u8 list \<Rightarrow> u8 list" where
  "trim_spaces 0 s = s"
| "trim_spaces (Suc i) s = (if s ! i \<noteq> 0 \<and> s ! i \<noteq> 0x20 then s else trim_spaces i (s[i := 0]))"

text \<open>
  The two loops that take a string of \<open>2 * n\<close> characters from the words at \<open>k\<close>: the serial number
  from the low bytes first, the firmware and the model from the high bytes first.
\<close>

definition id_string_lo :: "u8 list \<Rightarrow> nat \<Rightarrow> nat \<Rightarrow> u8 list" where
  "id_string_lo b k n =
     trim_spaces (2 * n) (concat (map (\<lambda>i. [ucast (word_at b (k + i)), ucast (drop_bit 8 (word_at b (k + i)))]) [0..<n]) @ [0])"

definition id_string_hi :: "u8 list \<Rightarrow> nat \<Rightarrow> nat \<Rightarrow> u8 list" where
  "id_string_hi b k n =
     trim_spaces (2 * n) (concat (map (\<lambda>i. [ucast (drop_bit 8 (word_at b (k + i))), ucast (word_at b (k + i))]) [0..<n]) @ [0])"

definition identity_of :: "u8 list \<Rightarrow> cf20_identity" where
  "identity_of b = \<lparr>default_cyl_count = word_at b 1, default_heads_count = word_at b 3,
     default_sec_per_track = word_at b 6,
     sec_per_card = push_bit 16 (ucast (word_at b 7)) OR ucast (word_at b 8),
     serial_nr = id_string_lo b 10 10, ecc_bytes_count = word_at b 22, firmware = id_string_hi b 23 4,
     model = id_string_hi b 27 20, max_sec_count = word_at b 47, capabilities = word_at b 49,
     pio_timing_mode = word_at b 51, field_validity = word_at b 53, curr_cyl_count = word_at b 54,
     curr_heads_count = word_at b 55, curr_sec_per_track = word_at b 56,
     cur_capacity = ucast (word_at b 57) OR push_bit 16 (ucast (word_at b 58)),
     multiple_sector_setting = word_at b 59,
     total_sec_count = ucast (word_at b 60) OR push_bit 16 (ucast (word_at b 61)),
     advanced_pio_modes = word_at b 64, min_pio_xfer_cycle_wo_fc = word_at b 67,
     min_pio_xfer_cycle_with_fc = word_at b 68,
     feat_cmd_supported = [word_at b 82, word_at b 83, word_at b 84],
     feat_cmd_enabled = [word_at b 85, word_at b 86, word_at b 87], security_erase_time = word_at b 89,
     enhanced_security_erase_time = word_at b 90, adv_pm_value = word_at b 91,
     security_status = word_at b 128, power_req = word_at b 160, key_mgmt_schemes = word_at b 162\<rparr>"

text \<open>
  \<open>buf\<close> is the allocation of \<^verbatim>\<open>sector_sz / 2\<close> bytes; the whole sector is stored there and the words are
  read from there.
\<close>

definition cf20_identify :: "'d ports \<Rightarrow> cf20_private \<Rightarrow> ptr \<Rightarrow> 'd cf20 \<Rightarrow> (cf20_identity option \<times> 'd cf20) option" where
  "cf20_identify io pdev buf c =
     (if buf = 0 then Some (None, c)
      else do {
        let d = outb io (r_card_head pdev) CHR_CARD0 (cf_hw c);
        let d = outb io (r_cmd pdev) CMD_IDENTIFY d;
        d \<leftarrow> cf20_wait io (r_status pdev) d;
        let (bs, d) = cf20_read_bytes io (r_data pdev) (unat (sector_sz pdev)) d;
        let c = c\<lparr>cf_hw := d, cf_mem := mem_store (cf_mem c) buf bs\<rparr>;
        let b = mem_bytes (cf_mem c) buf (unat (sector_sz pdev));
        Some (if word_at b 0 \<noteq> CF20_SIGNATURE then None else Some (identity_of b), c) })"

section \<open>Probe\<close>

definition cf20_pdev :: "cf20_config \<Rightarrow> cf20_private" where
  "cf20_pdev cfg = \<lparr>p_irq = cf_irq cfg, sector_sz = CF20_SECTOR_SIZE, r_data = REG_DATA (cf_port cfg),
     r_error = REG_ERROR (cf_port cfg), r_features = REG_FEATURES (cf_port cfg),
     r_sector_count = REG_SECTOR_COUNT (cf_port cfg), r_lba_low = REG_LBA_LOW (cf_port cfg),
     r_lba_mid = REG_LBA_MID (cf_port cfg), r_lba_high = REG_LBA_HIGH (cf_port cfg),
     r_card_head = REG_CARD_HEAD (cf_port cfg), r_cmd = REG_CMD (cf_port cfg),
     r_status = REG_STATUS (cf_port cfg), r_dev_ctrl = REG_STATUS (cf_port cfg)\<rparr>"

text \<open>
  \<open>rd\<close> and \<open>wr\<close> stand for whole block calls, from the submission of the request to its result, with
  whatever other tasks and interrupts run in between.
\<close>

definition cf20_blkdev ::
    "(u8 list \<Rightarrow> u32 \<Rightarrow> u16 \<Rightarrow> 'd cf20 \<Rightarrow> int \<times> u8 list \<times> 'd cf20) \<Rightarrow> (u8 list \<Rightarrow> u32 \<Rightarrow> u16 \<Rightarrow> 'd cf20 \<Rightarrow> int \<times> 'd cf20) \<Rightarrow>
     cf20_identity \<Rightarrow> 'd cf20 blkdev" where
  "cf20_blkdev rd wr cf_id = \<lparr>blk_name = ''sda'', block_size = CF20_SECTOR_SIZE,
     block_shift = of_nat CF20_SECTOR_SHIFT, block_count = cur_capacity cf_id, read_block = Some rd,
     write_block = Some wr, dev_read = None, dev_write = None\<rparr>"

text \<open>
  The error path frees the private structure; the pointer to it stays in \<^verbatim>\<open>pdev\<close> but must not be
  followed any more.  \<open>pdev_ok\<close>, \<open>id_ok\<close>, \<open>buf\<close> and \<open>dev_ok\<close> are the allocations; \<open>mal\<close>, \<open>oks\<close> and \<open>mbr\<close>
  those of the registration.
\<close>

definition cf20_release :: "'d cf20 \<Rightarrow> 'd cf20" where
  "cf20_release c = c\<lparr>cf_pdev := None\<rparr>"

definition cf20_probe ::
    "'d ports \<Rightarrow> board \<Rightarrow> u16 \<Rightarrow> (u8 list \<Rightarrow> u32 \<Rightarrow> u16 \<Rightarrow> 'd cf20 \<Rightarrow> int \<times> u8 list \<times> 'd cf20) \<Rightarrow>
     (u8 list \<Rightarrow> u32 \<Rightarrow> u16 \<Rightarrow> 'd cf20 \<Rightarrow> int \<times> 'd cf20) \<Rightarrow> bool \<Rightarrow> bool \<Rightarrow> ptr \<Rightarrow> bool \<Rightarrow> (u16 \<Rightarrow> u8 list option) \<Rightarrow>
     (nat \<Rightarrow> bool \<times> bool) \<Rightarrow> u8 list option \<Rightarrow> 'd cf20 blkdev list \<Rightarrow> 'd cf20 \<Rightarrow>
     (bool \<times> 'd cf20 blkdev list \<times> 'd cf20) option" where
  "cf20_probe io b cf20_int_handler rd wr pdev_ok id_ok buf dev_ok mal oks mbr devs c =
     (case board_get_by_driver (devices b) ''cf20'' of
        None \<Rightarrow> Some (False, devs, c)
      | Some bdev \<Rightarrow>
          (case dev_config bdev of
             CCf20 cfg \<Rightarrow>
               if \<not> pdev_ok then Some (False, devs, c\<lparr>cf_pdev := None\<rparr>)
               else do {
                 let pdev = cf20_pdev cfg;
                 let c = c\<lparr>cf_pdev := Some pdev\<rparr>;
                 (ok, d) \<leftarrow> (if is_8bit cfg then cf20_set_feature io pdev FEAT_8BIT_ENABLE 0 (cf_hw c) else Some (True, cf_hw c));
                 let c = c\<lparr>cf_hw := d\<rparr>;
                 if \<not> ok then Some (False, devs, cf20_release c)
                 else do {
                   let c = c\<lparr>cf_hw := cf20_set_interrupts io pdev False (cf_hw c)\<rparr>;
                   if \<not> id_ok then Some (False, devs, cf20_release c)
                   else do {
                     (idn, c) \<leftarrow> cf20_identify io pdev buf c;
                     case idn of
                       None \<Rightarrow> Some (False, devs, cf20_release c)
                     | Some cf_id \<Rightarrow>
                         if capabilities cf_id AND CAP_LBA = 0 then Some (False, devs, cf20_release c)
                         else do {
                           v \<leftarrow> interrupts_from_irq (cf_irqs c) (p_irq pdev);
                           let c = c\<lparr>cf_irqs := interrupts_handle (cf_irqs c) v (KERNEL_CS b) cf20_int_handler\<rparr>;
                           d \<leftarrow> irq_enable io (cf_irqs c) (p_irq pdev) (cf_hw c);
                           let c = c\<lparr>cf_hw := cf20_set_interrupts io pdev True d\<rparr>;
                           if \<not> dev_ok then Some (False, devs, cf20_release c)
                           else let (devs, c) = blk_register mal oks mbr devs (Some (cf20_blkdev rd wr cf_id)) c
                                in Some (True, devs, c) } } } }
           | _ \<Rightarrow> Some (False, devs, c)))"

section \<open>The interface: a card\<close>

text \<open>
  What the card does with the ports the driver uses, as the CompactFlash specification says: the task
  file holds what is written to it, a command starts a transfer of the sectors it names, and the data
  port gives or takes their bytes one after the other.
\<close>

datatype cf_phase = CF_Idle | CF_Read nat nat | CF_Write nat nat

definition cf_reg :: "u16 \<Rightarrow> u16 \<Rightarrow> bool" where
  "cf_reg pt q \<longleftrightarrow> q - pt < 8"

definition cf_lba :: "u16 \<Rightarrow> (u16 \<Rightarrow> u8) \<Rightarrow> nat" where
  "cf_lba pt t = unat (t (REG_LBA_LOW pt)) + 256 * unat (t (REG_LBA_MID pt)) + 65536 * unat (t (REG_LBA_HIGH pt)) +
     16777216 * unat (t (REG_CARD_HEAD pt) AND 0xf)"

definition cf_cnt :: "u16 \<Rightarrow> (u16 \<Rightarrow> u8) \<Rightarrow> nat" where
  "cf_cnt pt t = (if t (REG_SECTOR_COUNT pt) = 0 then 256 else unat (t (REG_SECTOR_COUNT pt)))"

locale cf_card =
  fixes io :: "'d ports" and pt :: u16 and tf :: "'d \<Rightarrow> u16 \<Rightarrow> u8" and disk :: "'d \<Rightarrow> nat \<Rightarrow> u8" and phase :: "'d \<Rightarrow> cf_phase"
  assumes task_file: "2 \<le> q - pt \<Longrightarrow> q - pt \<le> 6 \<Longrightarrow> d' = outb io q v d \<Longrightarrow>
      tf d' = (tf d)(q := v) \<and> disk d' = disk d \<and> phase d' = phase d"
    and read_cmd: "d' = outb io (REG_CMD pt) CMD_READ_SECTORS d \<Longrightarrow>
      disk d' = disk d \<and> phase d' = CF_Read (512 * cf_lba pt (tf d)) (512 * cf_cnt pt (tf d))"
    and write_cmd: "d' = outb io (REG_CMD pt) CMD_WRITE_SECTORS d \<Longrightarrow>
      disk d' = disk d \<and> phase d' = CF_Write (512 * cf_lba pt (tf d)) (512 * cf_cnt pt (tf d))"
    and data_read: "phase d = CF_Read a (Suc n) \<Longrightarrow> inb io (REG_DATA pt) d = (v, d') \<Longrightarrow>
      v = disk d a \<and> disk d' = disk d \<and> phase d' = CF_Read (Suc a) n"
    and data_write: "phase d = CF_Write a (Suc n) \<Longrightarrow> d' = outb io (REG_DATA pt) v d \<Longrightarrow>
      disk d' = (disk d)(a := v) \<and> phase d' = CF_Write (Suc a) n"
    and elsewhere: "\<not> cf_reg pt q \<Longrightarrow> d' = outb io q v d \<Longrightarrow> disk d' = disk d \<and> phase d' = phase d"

text \<open>The registers a command with a block number and a count leaves in the task file name them.\<close>

definition cf_task_file :: "u16 \<Rightarrow> u32 \<Rightarrow> u16 \<Rightarrow> (u16 \<Rightarrow> u8) \<Rightarrow> u16 \<Rightarrow> u8" where
  "cf_task_file pt block count t = t(REG_SECTOR_COUNT pt := if count < 256 then ucast count else 0,
     REG_LBA_LOW pt := ucast block, REG_LBA_MID pt := ucast (drop_bit 8 block), REG_LBA_HIGH pt := ucast (drop_bit 16 block),
     REG_CARD_HEAD pt := CHR_CARD0 OR CHR_LBA OR ucast (drop_bit 24 block AND CHR_HEAD_MASK))"

lemma cf_task_file_cnt:
  assumes "0 < count" "count \<le> 256"
  shows "cf_cnt pt (cf_task_file pt block count t) = unat count"
proof (cases "count < 256")
  case True
  then have "unat count < 256" by (simp add: word_less_nat_alt)
  then have "unat (ucast count :: u8) = unat count" by (simp add: unsigned_ucast_eq take_bit_eq_mod)
  moreover have "unat count \<noteq> 0" using assms(1) by (simp add: word_less_nat_alt)
  ultimately have "(ucast count :: u8) \<noteq> 0" "unat (ucast count :: u8) = unat count" by (auto simp: unat_eq_zero)
  then show ?thesis using True by (simp add: cf_cnt_def cf_task_file_def cf_regs_def)
next
  case False
  then have "count = 256" using assms(2) by simp
  then show ?thesis by (simp add: cf_cnt_def cf_task_file_def cf_regs_def)
qed

lemma base256:
  "n mod 256 + 256 * (n div 256 mod 256) + 65536 * (n div 65536 mod 256) + 16777216 * (n div 16777216) = (n :: nat)"
proof -
  have "n div 65536 = n div 256 div 256" "n div 16777216 = n div 65536 div 256" by (simp_all add: div_mult2_eq [symmetric])
  then show ?thesis
    using div_mult_mod_eq [of n 256] div_mult_mod_eq [of "n div 256" 256] div_mult_mod_eq [of "n div 65536" 256] by linarith
qed

lemma cf_task_file_lba:
  assumes "block < 2 ^ 28"
  shows "cf_lba pt (cf_task_file pt block count t) = unat block"
proof -
  have b: "unat block < 268435456" using assms by (simp add: word_less_nat_alt)
  have u: "unat (ucast (drop_bit n block) :: u8) = unat block div 2 ^ n mod 256" for n
    by (simp only: unsigned_ucast_eq unat_drop_bit_eq) (simp add: take_bit_eq_mod drop_bit_eq_div)
  have m: "(0xf :: u8) = mask 4" "(0xf :: u32) = mask 4" by (simp_all add: mask_eq_exp_minus_1)
  have "(CHR_CARD0 OR CHR_LBA OR x) AND 0xf = x AND 0xf" for x
  proof -
    have "(CHR_CARD0 OR CHR_LBA) AND 0xf = 0" by (simp add: CHR_CARD0_def CHR_LBA_def)
    then show ?thesis by (simp only: or.assoc [symmetric] bit.conj_disj_distrib2 or.left_neutral)
  qed
  moreover have "ucast (drop_bit 24 block AND CHR_HEAD_MASK) AND 0xf = (ucast (drop_bit 24 block) AND 0xf :: u8)"
    unfolding CHR_HEAD_MASK_def m by (rule bit_word_eqI) (auto simp: bit_simps)
  moreover have "unat (ucast (drop_bit 24 block) AND 0xf :: u8) = unat block div 16777216"
  proof -
    have "unat (ucast (drop_bit 24 block) AND 0xf :: u8) = unat (ucast (drop_bit 24 block) :: u8) mod 16"
      unfolding m unat_and_mask by simp
    moreover have "unat block div 2 ^ 24 mod 256 = unat block div 16777216" using b by simp
    ultimately show ?thesis using u [of 24] b by simp
  qed
  moreover have "unat (ucast block :: u8) = unat block mod 256" using u [of 0] by simp
  moreover have "unat (ucast (drop_bit 8 block) :: u8) = unat block div 256 mod 256"
      "unat (ucast (drop_bit 16 block) :: u8) = unat block div 65536 mod 256"
    using u [of 8] u [of 16] by simp_all
  moreover have "cf_task_file pt block count t (REG_LBA_LOW pt) = ucast block"
      "cf_task_file pt block count t (REG_LBA_MID pt) = ucast (drop_bit 8 block)"
      "cf_task_file pt block count t (REG_LBA_HIGH pt) = ucast (drop_bit 16 block)"
      "cf_task_file pt block count t (REG_CARD_HEAD pt) = CHR_CARD0 OR CHR_LBA OR ucast (drop_bit 24 block AND CHR_HEAD_MASK)"
    by (simp_all add: cf_task_file_def cf_regs_def)
  ultimately show ?thesis using base256 [of "unat block"] by (simp only: cf_lba_def)
qed

section \<open>The interrupt handler and the queue\<close>

text \<open>The task \<open>x\<close> waits at the head of the queue of requests, the tasks \<open>xs\<close> behind it.\<close>

definition cf_waits :: "ptr list \<Rightarrow> ptr \<Rightarrow> 'd cf20 \<Rightarrow> asched \<Rightarrow> ptr list \<Rightarrow> bool" where
  "cf_waits Qs idle c a xs \<longleftrightarrow> well Qs idle (cf_sched c) a \<and> clk_queue Qs (requests c) a \<and> queues a (requests c) = xs"

lemma cf_waits_list:
  assumes "cf_waits Qs idle c a xs"
  shows "list_is_empty (heap (cf_sched c)) (requests c) \<longleftrightarrow> xs = []"
    "xs \<noteq> [] \<Longrightarrow> list_peek_head (heap (cf_sched c)) (requests c) = hd xs"
proof -
  have l: "is_list (heap (cf_sched c)) (requests c) xs"
    using rep_queuesD [OF rep_schedD [OF wellD(1)], of Qs idle "cf_sched c" a "requests c"] assms
    by (auto simp: cf_waits_def clk_queue_def)
  show "list_is_empty (heap (cf_sched c)) (requests c) \<longleftrightarrow> xs = []"
    "xs \<noteq> [] \<Longrightarrow> list_peek_head (heap (cf_sched c)) (requests c) = hd xs"
    using list_is_empty_iff [OF l] list_peek_head_is_list [OF l] by simp_all
qed

lemma bio_transfer_frame [simp]:
  "cf_sched (bio_transfer io pdev r q c) = cf_sched c" "requests (bio_transfer io pdev r q c) = requests c"
  "cf_pdev (bio_transfer io pdev r q c) = cf_pdev c" "cf_irqs (bio_transfer io pdev r q c) = cf_irqs c"
  "cf_bios (bio_transfer io pdev r q c) = (cf_bios c)(r \<mapsto>
     (q\<lparr>bio_state := if bio_count q = 1 then DONE else bio_state q, bio_block := bio_block q + 1,
        bio_count := bio_count q - 1, bio_buf := bio_buf q + sector_sz pdev\<rparr>))"
  by (auto simp: bio_transfer_def Let_def split: prod.split)

lemma bio_send_frame [simp]:
  "cf_sched (bio_send io pdev q c) = cf_sched c" "requests (bio_send io pdev q c) = requests c"
  "cf_pdev (bio_send io pdev q c) = cf_pdev c" "cf_irqs (bio_send io pdev q c) = cf_irqs c"
  "cf_bios (bio_send io pdev q c) = cf_bios c" "cf_mem (bio_send io pdev q c) = cf_mem c"
  by (simp_all add: bio_send_def)

lemma handler_busy:
  assumes "cf_pdev c = Some pdev" "irq_ack io (cf_irqs c) (p_irq pdev) (cf_hw c) = Some d" "cf_waits Qs idle c a (x # xs)"
    and "task_bio (cf_sched c) x = Some r" "cf_bios c r = Some q" "BIO_RW_SECTOR (bio_state q)" "bio_count q \<noteq> 1"
  shows "cf20_handler io c = Some (bio_transfer io pdev r q (c\<lparr>cf_hw := d\<rparr>))"
proof -
  note l = cf_waits_list [OF assms(3)]
  have "\<not> BIO_DONE (bio_state q)" "\<not> BIO_SEND (bio_state q)"
    using assms(6) by (auto simp: BIO_DONE_def BIO_SEND_def BIO_RW_SECTOR_def)
  then show ?thesis using assms l by (simp add: cf20_handler_def bio_send_def)
qed

lemma handler_last:
  assumes "cf_pdev c = Some pdev" "irq_ack io (cf_irqs c) (p_irq pdev) (cf_hw c) = Some d" and w: "cf_waits Qs idle c a (x # xs)"
    and "task_bio (cf_sched c) x = Some r" "cf_bios c r = Some q" "BIO_RW_SECTOR (bio_state q)" "bio_count q = 1"
    and n: "\<And>y. y \<in> set xs \<Longrightarrow> \<exists>r'. task_bio (cf_sched c) y = Some r' \<and> r' \<in> dom (cf_bios c)"
  shows "\<exists>s' c'. cf20_handler io c = Some c' \<and> well Qs idle s' (a_wake x (a_queue (requests c) (remove1 x) a)) \<and>
    (\<forall>y. task_bio s' y = task_bio (cf_sched c) y) \<and>
    (let C = (bio_transfer io pdev r q (c\<lparr>cf_hw := d\<rparr>))\<lparr>cf_sched := s'\<rparr>
     in if xs = [] then c' = C else \<exists>q'. c' = bio_send io pdev q' C)"
proof -
  let ?t = "bio_transfer io pdev r q (c\<lparr>cf_hw := d\<rparr>)" and ?b = "a_wake x (a_queue (requests c) (remove1 x) a)"
  note l = cf_waits_list [OF w]
  have a: "well Qs idle (cf_sched c) a" "requests c \<in> set Qs" "requests c \<noteq> ready a" "queues a (requests c) = x # xs"
    using w by (auto simp: cf_waits_def clk_queue_def)
  obtain s' where s': "unblock x (cf_sched c) = Some s'" "well Qs idle s' ?b"
    using well_wake_up [OF a(1-3), of x] a(4) by (auto simp: unblock_def)
  have w': "cf_waits Qs idle (?t\<lparr>cf_sched := s'\<rparr>) ?b xs"
    using s'(2) w a(3,4) by (simp add: cf_waits_def clk_queue_def)
  note l' = cf_waits_list [OF w']
  have ts: "tasks s' = (tasks (cf_sched c))(x := map_option (\<lambda>t. t\<lparr>state := READY\<rparr>) (tasks (cf_sched c) x))"
    using rep_sched_eqs(1) [OF wellD(1) [OF s'(2)]] rep_sched_eqs(1) [OF wellD(1) [OF a(1)]] by simp
  have tb: "task_bio s' y = task_bio (cf_sched c) y" for y
    by (cases "tasks (cf_sched c) x") (auto simp: task_bio_def ts)
  have e: "cf20_handler io c = (if xs = [] then Some (?t\<lparr>cf_sched := s'\<rparr>)
      else do { r \<leftarrow> task_bio s' (hd xs); q \<leftarrow> cf_bios ?t r; Some (bio_send io pdev q (?t\<lparr>cf_sched := s'\<rparr>)) })"
    using assms(1,2,4-7) l l' s'(1) by (auto simp: cf20_handler_def BIO_DONE_def)
  show ?thesis
  proof (cases "xs = []")
    case True
    then show ?thesis using e s'(2) tb by auto
  next
    case False
    then obtain r' where "task_bio s' (hd xs) = Some r'" "r' \<in> dom (cf_bios ?t)" using n [of "hd xs"] tb by auto
    then show ?thesis using False e s'(2) tb by fastforce
  qed
qed

text \<open>\<open>n\<close> interrupts of the card, one after the other.\<close>

primrec cf20_interrupts :: "'d ports \<Rightarrow> nat \<Rightarrow> 'd cf20 \<Rightarrow> 'd cf20 option" where
  "cf20_interrupts io 0 c = Some c"
| "cf20_interrupts io (Suc n) c = do { c \<leftarrow> cf20_interrupts io n c; cf20_handler io c }"

text \<open>A request with \<open>k\<close> sectors done.\<close>

definition bio_at :: "bio_state_t \<Rightarrow> u16 \<Rightarrow> u32 \<Rightarrow> u16 \<Rightarrow> nat \<Rightarrow> bio_request" where
  "bio_at st buf block count k = \<lparr>bio_state = st, bio_block = block + of_nat k, bio_count = count - of_nat k, bio_buf = buf + 512 * of_nat k\<rparr>"

text \<open>Submitting a request to an idle card.\<close>

lemma cf_sleep:
  assumes w: "cf_waits Qs idle c a xs" and ne: "current a \<noteq> idle"
  shows "\<exists>s'. scheduler_sleep_on (cf_sched c) (requests c) (WBio r) = Some s' \<and>
    cf_waits Qs idle (c\<lparr>cf_sched := s'\<rparr>) (a_sleep_on (requests c) (WBio r) a) (xs @ [current a]) \<and> task_bio s' (current a) = Some r \<and>
    (\<forall>y. y \<noteq> current a \<longrightarrow> task_bio s' y = task_bio (cf_sched c) y)"
proof -
  have a: "well Qs idle (cf_sched c) a" "requests c \<in> set Qs" "requests c \<noteq> ready a" "requests c \<noteq> zombies a"
      "requests c \<noteq> waiters a" "queues a (requests c) = xs"
    using w by (auto simp: cf_waits_def clk_queue_def)
  let ?b = "a_sleep_on (requests c) (WBio r) a"
  obtain s' where s': "scheduler_sleep_on (cf_sched c) (requests c) (WBio r) = Some s'" "well Qs idle s' ?b"
    using well_sleep_on [OF a(1-4) ne, of "WBio r"] a(5) by auto
  have b: "queues ?b (requests c) = xs @ [current a]" "map_option wait_state (tasks ?b (current a)) = Some (WBio r)"
      "ready ?b = ready a" "zombies ?b = zombies a" "waiters ?b = waiters a"
    using a(3,6) wellD(6) [OF a(1)] by (auto simp: a_sleep_on_def a_schedule_def a_run_def Let_def split: list.split)
  have "task_bio s' (current a) = Some r"
    using b(2) rep_sched_eqs(1) [OF wellD(1) [OF s'(2)]] by (auto simp: task_bio_def)
  moreover have "task_bio s' y = task_bio (cf_sched c) y" if "y \<noteq> current a" for y
  proof -
    have "map_option wait_state (tasks ?b y) = map_option wait_state (tasks a y)"
      using that by (cases "tasks a y") (auto simp: a_sleep_on_def a_schedule_def a_run_def Let_def split: list.split)
    then have "map_option wait_state (tasks s' y) = map_option wait_state (tasks (cf_sched c) y)"
      using rep_sched_eqs(1) [OF wellD(1) [OF s'(2)]] rep_sched_eqs(1) [OF wellD(1) [OF a(1)]] by simp
    then show ?thesis by (cases "tasks s' y"; cases "tasks (cf_sched c) y") (simp_all add: task_bio_def)
  qed
  ultimately show ?thesis using s' b a by (auto simp: cf_waits_def clk_queue_def)
qed

lemma submit:
  assumes w: "cf_waits Qs idle c a []" and ne: "current a \<noteq> idle" and "r \<noteq> 0" "0 < count" "count \<le> 256" "buf \<noteq> 0"
  shows "\<exists>s' C. bio_submit send first waiting io pdev r buf block count c = Some (BioSleeps, C) \<and>
    C = c\<lparr>cf_hw := send io pdev block count (cf_hw c), cf_bios := (cf_bios c)(r \<mapsto> bio_at first buf block count 0), cf_sched := s'\<rparr> \<and>
    cf_waits Qs idle C (a_sleep_on (requests c) (WBio r) a) [current a] \<and> task_bio s' (current a) = Some r"
proof -
  obtain s' where s': "scheduler_sleep_on (cf_sched c) (requests c) (WBio r) = Some s'"
      "cf_waits Qs idle (c\<lparr>cf_sched := s'\<rparr>) (a_sleep_on (requests c) (WBio r) a) [current a]" "task_bio s' (current a) = Some r"
    using cf_sleep [OF w ne] by auto
  have "count \<noteq> 0" "\<not> 256 < count" using assms(4,5) by auto
  then have "bio_submit send first waiting io pdev r buf block count c = Some (BioSleeps, c\<lparr>cf_hw := send io pdev block count (cf_hw c),
      cf_bios := (cf_bios c)(r \<mapsto> bio_at first buf block count 0), cf_sched := s'\<rparr>)"
    using assms s'(1) cf_waits_list(1) [OF w] by (simp add: bio_submit_def bio_at_def)
  then show ?thesis using s'(2,3) by (auto simp: cf_waits_def)
qed

context cf_card
begin

lemma send_regs:
  assumes "cf_port cfg = pt"
  shows "\<exists>e. cf20_send cmd io (cf20_pdev cfg) block count d = outb io (REG_CMD pt) cmd e \<and>
    tf e = cf_task_file pt block count (tf d) \<and> disk e = disk d \<and> phase e = phase d"
proof -
  define d1 where "d1 = outb io (REG_SECTOR_COUNT pt) (if count < 256 then ucast count else 0) d"
  define d2 where "d2 = outb io (REG_LBA_LOW pt) (ucast block) d1"
  define d3 where "d3 = outb io (REG_LBA_MID pt) (ucast (drop_bit 8 block)) d2"
  define d4 where "d4 = outb io (REG_LBA_HIGH pt) (ucast (drop_bit 16 block)) d3"
  define d5 where "d5 = outb io (REG_CARD_HEAD pt) (CHR_CARD0 OR CHR_LBA OR ucast (drop_bit 24 block AND CHR_HEAD_MASK)) d4"
  note t = task_file [OF _ _ d1_def] task_file [OF _ _ d2_def] task_file [OF _ _ d3_def] task_file [OF _ _ d4_def]
    task_file [OF _ _ d5_def]
  have "tf d5 = cf_task_file pt block count (tf d)" "disk d5 = disk d" "phase d5 = phase d"
    using t by (simp_all add: cf_task_file_def cf_regs_def)
  moreover have "cf20_send cmd io (cf20_pdev cfg) block count d = outb io (REG_CMD pt) cmd d5"
    using assms by (simp add: cf20_send_def cf20_pdev_def Let_def d1_def d2_def d3_def d4_def d5_def)
  ultimately show ?thesis by blast
qed

lemma send_read:
  assumes "cf_port cfg = pt" "0 < count" "count \<le> 256" "block < 2 ^ 28"
    and "d' = cf20_send_read_sectors io (cf20_pdev cfg) block count d"
  shows "disk d' = disk d \<and> phase d' = CF_Read (512 * unat block) (512 * unat count)"
proof -
  obtain e where e: "d' = outb io (REG_CMD pt) CMD_READ_SECTORS e" "tf e = cf_task_file pt block count (tf d)" "disk e = disk d"
    using send_regs [OF assms(1), of CMD_READ_SECTORS block count d] assms(5) unfolding cf20_send_read_sectors_def by blast
  show ?thesis using read_cmd [OF e(1)] e cf_task_file_lba [OF assms(4)] cf_task_file_cnt [OF assms(2,3)] by simp
qed

lemma send_write:
  assumes "cf_port cfg = pt" "0 < count" "count \<le> 256" "block < 2 ^ 28"
    and "d' = cf20_send_write_sectors io (cf20_pdev cfg) block count d"
  shows "disk d' = disk d \<and> phase d' = CF_Write (512 * unat block) (512 * unat count)"
proof -
  obtain e where e: "d' = outb io (REG_CMD pt) CMD_WRITE_SECTORS e" "tf e = cf_task_file pt block count (tf d)" "disk e = disk d"
    using send_regs [OF assms(1), of CMD_WRITE_SECTORS block count d] assms(5) unfolding cf20_send_write_sectors_def by blast
  show ?thesis using write_cmd [OF e(1)] e cf_task_file_lba [OF assms(4)] cf_task_file_cnt [OF assms(2,3)] by simp
qed

lemma read_bytes:
  "phase d = CF_Read a (n + m) \<Longrightarrow> cf20_read_bytes io (REG_DATA pt) n d = (bs, d') \<Longrightarrow>
     bs = map (disk d) [a..<a + n] \<and> disk d' = disk d \<and> phase d' = CF_Read (a + n) m"
proof (induction n arbitrary: d a bs)
  case 0
  then show ?case by simp
next
  case (Suc n)
  obtain v d1 where v: "inb io (REG_DATA pt) d = (v, d1)" by fastforce
  have r: "v = disk d a \<and> disk d1 = disk d \<and> phase d1 = CF_Read (Suc a) (n + m)"
    by (rule data_read [OF _ v]) (use Suc.prems(1) in simp)
  obtain cs d2 where c: "cf20_read_bytes io (REG_DATA pt) n d1 = (cs, d2)" by fastforce
  have "bs = v # cs" "d' = d2" using Suc.prems(2) v c by simp_all
  moreover have "[a..<a + Suc n] = a # [Suc a..<Suc a + n]" by (simp add: upt_conv_Cons)
  ultimately show ?case using Suc.IH [of d1 "Suc a" cs] r c by auto
qed

lemma write_bytes:
  "phase d = CF_Write a (length bs + m) \<Longrightarrow> d' = cf20_write_bytes io (REG_DATA pt) bs d \<Longrightarrow>
     disk d' = (\<lambda>x. if a \<le> x \<and> x < a + length bs then bs ! (x - a) else disk d x) \<and> phase d' = CF_Write (a + length bs) m"
proof (induction bs arbitrary: d a)
  case Nil
  then show ?case by (auto simp: fun_eq_iff)
next
  case (Cons b bs)
  let ?d = "outb io (REG_DATA pt) b d"
  have r: "disk ?d = (disk d)(a := b) \<and> phase ?d = CF_Write (Suc a) (length bs + m)"
    by (rule data_write [OF _ refl]) (use Cons.prems(1) in simp)
  then have e: "disk ?d = (disk d)(a := b)" by blast
  have "disk d' = (\<lambda>x. if Suc a \<le> x \<and> x < Suc a + length bs then bs ! (x - Suc a) else ((disk d)(a := b)) x) \<and>
      phase d' = CF_Write (Suc a + length bs) m"
    using Cons.IH [of ?d "Suc a", unfolded e] Cons.prems(2) r by simp
  moreover have "(\<lambda>x. if Suc a \<le> x \<and> x < Suc a + length bs then bs ! (x - Suc a) else ((disk d)(a := b)) x) =
      (\<lambda>x. if a \<le> x \<and> x < a + length (b # bs) then (b # bs) ! (x - a) else disk d x)"
  proof
    fix x
    consider "x = a" | "x < a" | "Suc a \<le> x" by linarith
    then show "(if Suc a \<le> x \<and> x < Suc a + length bs then bs ! (x - Suc a) else ((disk d)(a := b)) x) =
        (if a \<le> x \<and> x < a + length (b # bs) then (b # bs) ! (x - a) else disk d x)"
    proof cases
      case 3
      then have "x - a = Suc (x - Suc a)" by linarith
      then show ?thesis using 3 by simp
    qed simp_all
  qed
  ultimately show ?case by (simp only: list.size(4) add_Suc add_Suc_right plus_1_eq_Suc add_0_right One_nat_def)
qed

lemma ack:
  assumes "pics_apart (cf_reg pt) irqs"
  shows "\<exists>d'. irq_ack io irqs i d = Some d' \<and> disk d' = disk d \<and> phase d' = phase d"
  by (rule irq_ack_keeps [OF assms]) (use elsewhere in auto)

lemma bio_send_disk: "cf_port cfg = pt \<Longrightarrow> disk (cf_hw (bio_send io (cf20_pdev cfg) q c)) = disk (cf_hw c)"
  using send_regs [of cfg CMD_READ_SECTORS "bio_block q" "bio_count q" "cf_hw c"]
    send_regs [of cfg CMD_WRITE_SECTORS "bio_block q" "bio_count q" "cf_hw c"] read_cmd [OF refl] write_cmd [OF refl]
  by (auto simp: bio_send_def cf20_send_read_sectors_def cf20_send_write_sectors_def)

text \<open>
  A request of the task at the head of the queue, \<open>k\<close> of its sectors moved since the state \<open>c0\<close>; \<open>F k\<close> is
  what holds of the card and of memory then.
\<close>

definition xf_state :: "bio_state_t \<Rightarrow> (nat \<Rightarrow> 'd \<Rightarrow> (u16 \<Rightarrow> u8) \<Rightarrow> bool) \<Rightarrow> 'd cf20 \<Rightarrow> ptr \<Rightarrow> u16 \<Rightarrow> u32 \<Rightarrow> u16 \<Rightarrow> nat \<Rightarrow> 'd cf20 \<Rightarrow> bool" where
  "xf_state st F c0 r buf block count k c \<longleftrightarrow> cf_sched c = cf_sched c0 \<and> requests c = requests c0 \<and> cf_pdev c = cf_pdev c0 \<and>
     cf_irqs c = cf_irqs c0 \<and> F k (cf_hw c) (cf_mem c) \<and> cf_bios c = (cf_bios c0)(r \<mapsto> bio_at st buf block count k)"

text \<open>The assumption on \<open>F\<close> below: acknowledging an interrupt and moving a sector leads from \<open>F k\<close> to \<open>F (Suc k)\<close>.\<close>

definition xf_moves :: "bio_state_t \<Rightarrow> (nat \<Rightarrow> 'd \<Rightarrow> (u16 \<Rightarrow> u8) \<Rightarrow> bool) \<Rightarrow> cf20_config \<Rightarrow> ptr \<Rightarrow> u16 \<Rightarrow> u32 \<Rightarrow> u16 \<Rightarrow> bool" where
  "xf_moves st F cfg r buf block count \<longleftrightarrow> BIO_RW_SECTOR st \<and> (\<forall>k c d. k < unat count \<longrightarrow> F k (cf_hw c) (cf_mem c) \<longrightarrow>
     disk d = disk (cf_hw c) \<longrightarrow> phase d = phase (cf_hw c) \<longrightarrow>
     (let c' = bio_transfer io (cf20_pdev cfg) r (bio_at st buf block count k) (c\<lparr>cf_hw := d\<rparr>)
      in F (Suc k) (cf_hw c') (cf_mem c')))"

lemma xf_moves_step:
  assumes "xf_moves st F cfg r buf block count" "xf_state st F c0 r buf block count k c" "k < unat count"
    and "disk d = disk (cf_hw c)" "phase d = phase (cf_hw c)"
    and "c' = bio_transfer io (cf20_pdev cfg) r (bio_at st buf block count k) (c\<lparr>cf_hw := d\<rparr>)"
  shows "F (Suc k) (cf_hw c') (cf_mem c')"
  using assms unfolding xf_moves_def xf_state_def Let_def by blast

lemma bio_count_left: "k < unat count \<Longrightarrow> bio_count (bio_at st buf block count k) = 1 \<longleftrightarrow> unat count = Suc k"
proof -
  assume k: "k < unat count"
  have c: "of_nat (unat count) = count" by simp
  have "Suc k < 65536" using k unat_u16_lt [of count] by linarith
  then have u: "unat (of_nat (Suc k) :: u16) = Suc k" by (rule unat_of_nat_u16)
  have "count - of_nat k = 1 \<longleftrightarrow> count = of_nat (Suc k)" by (auto simp: algebra_simps)
  then show ?thesis using u c unfolding bio_at_def by (metis bio_request.select_convs(3))
qed

lemma xf_ack:
  assumes "xf_state st F c0 r buf block count k c" "pics_apart (cf_reg pt) (cf_irqs c0)"
  shows "\<exists>d. irq_ack io (cf_irqs c) i (cf_hw c) = Some d \<and> disk d = disk (cf_hw c) \<and> phase d = phase (cf_hw c)"
  using ack [of "cf_irqs c"] assms unfolding xf_state_def by metis

lemma xf_steps:
  assumes c0: "cf_pdev c0 = Some (cf20_pdev cfg)" "pics_apart (cf_reg pt) (cf_irqs c0)"
    and w: "cf_waits Qs idle c0 a (x # xs)" and b: "task_bio (cf_sched c0) x = Some r"
    and F: "xf_moves st F cfg r buf block count"
  shows "xf_state st F c0 r buf block count 0 c \<Longrightarrow> k < unat count \<Longrightarrow>
    \<exists>c'. cf20_interrupts io k c = Some c' \<and> xf_state st F c0 r buf block count k c'"
proof (induction k)
  case 0
  then show ?case by simp
next
  case (Suc k)
  then obtain c1 where c1: "cf20_interrupts io k c = Some c1" "xf_state st F c0 r buf block count k c1" by auto
  let ?q = "bio_at st buf block count k"
  have f: "cf_sched c1 = cf_sched c0" "requests c1 = requests c0" "cf_pdev c1 = cf_pdev c0" "cf_irqs c1 = cf_irqs c0"
      "cf_bios c1 = (cf_bios c0)(r \<mapsto> ?q)"
    using c1(2) by (simp_all add: xf_state_def)
  obtain d where d: "irq_ack io (cf_irqs c1) (p_irq (cf20_pdev cfg)) (cf_hw c1) = Some d" "disk d = disk (cf_hw c1)" "phase d = phase (cf_hw c1)"
    using xf_ack [OF c1(2) c0(2)] by blast
  have k: "k < unat count" using Suc.prems(2) by simp
  then have one: "bio_count ?q \<noteq> 1" using bio_count_left [OF k] Suc.prems(2) by simp
  let ?c = "bio_transfer io (cf20_pdev cfg) r ?q (c1\<lparr>cf_hw := d\<rparr>)"
  have "BIO_RW_SECTOR (bio_state ?q)" using F by (simp add: xf_moves_def bio_at_def)
  then have h: "cf20_handler io c1 = Some ?c"
    by (intro handler_busy [OF _ d(1), of Qs idle a x xs]) (use c0(1) f w b one in \<open>simp_all add: cf_waits_def\<close>)
  have "xf_state st F c0 r buf block count (Suc k) ?c"
    using xf_moves_step [OF F c1(2) k d(2,3) refl] f one
    by (simp add: xf_state_def bio_at_def cf20_pdev_def CF20_SECTOR_SIZE_def CF20_SECTOR_SHIFT_def algebra_simps)
  then show ?case using c1(1) h by simp
qed

text \<open>The last sector ends the request and wakes the task.\<close>

lemma xf_done:
  assumes c0: "cf_pdev c0 = Some (cf20_pdev cfg)" "pics_apart (cf_reg pt) (cf_irqs c0)" and pt: "cf_port cfg = pt"
    and w: "cf_waits Qs idle c0 a (x # xs)" and b: "task_bio (cf_sched c0) x = Some r"
    and F: "xf_moves st F cfg r buf block count" and n: "0 < count" and c: "xf_state st F c0 r buf block count 0 c"
    and ot: "\<And>y. y \<in> set xs \<Longrightarrow> \<exists>r'. task_bio (cf_sched c0) y = Some r' \<and> r' \<in> dom (cf_bios c0)"
  shows "\<exists>c' h. cf20_interrupts io (unat count) c = Some c' \<and>
    well Qs idle (cf_sched c') (a_wake x (a_queue (requests c0) (remove1 x) a)) \<and>
    F (unat count) h (cf_mem c') \<and> disk (cf_hw c') = disk h \<and> requests c' = requests c0 \<and>
    (\<exists>q. cf_bios c' r = Some q \<and> bio_state q = DONE \<and> bio_count q = 0)"
proof -
  obtain k where k: "unat count = Suc k" using n by (cases "unat count") (auto simp: word_less_nat_alt)
  then have kl: "k < unat count" by simp
  obtain c1 where c1: "cf20_interrupts io k c = Some c1" "xf_state st F c0 r buf block count k c1"
    using xf_steps [OF c0 w b F c kl] by auto
  let ?q = "bio_at st buf block count k"
  have f: "cf_sched c1 = cf_sched c0" "requests c1 = requests c0" "cf_pdev c1 = cf_pdev c0" "cf_irqs c1 = cf_irqs c0"
      "cf_bios c1 = (cf_bios c0)(r \<mapsto> ?q)"
    using c1(2) by (simp_all add: xf_state_def)
  obtain d where d: "irq_ack io (cf_irqs c1) (p_irq (cf20_pdev cfg)) (cf_hw c1) = Some d" "disk d = disk (cf_hw c1)" "phase d = phase (cf_hw c1)"
    using xf_ack [OF c1(2) c0(2)] by blast
  have one: "bio_count ?q = 1" using bio_count_left [OF kl] k by simp
  let ?c = "bio_transfer io (cf20_pdev cfg) r ?q (c1\<lparr>cf_hw := d\<rparr>)"
  have w1: "cf_waits Qs idle c1 a (x # xs)" using w f by (simp add: cf_waits_def)
  have rw: "BIO_RW_SECTOR (bio_state ?q)" using F by (simp add: xf_moves_def bio_at_def)
  have "\<exists>s' c'. cf20_handler io c1 = Some c' \<and> well Qs idle s' (a_wake x (a_queue (requests c1) (remove1 x) a)) \<and>
    (\<forall>y. task_bio s' y = task_bio (cf_sched c1) y) \<and>
    (let C = ?c\<lparr>cf_sched := s'\<rparr> in if xs = [] then c' = C else \<exists>q'. c' = bio_send io (cf20_pdev cfg) q' C)"
    by (rule handler_last [OF _ d(1) w1]) (use c0(1) f b one ot rw in auto)
  then obtain s' c' where h: "cf20_handler io c1 = Some c'" "well Qs idle s' (a_wake x (a_queue (requests c0) (remove1 x) a))"
      "if xs = [] then c' = ?c\<lparr>cf_sched := s'\<rparr> else \<exists>q'. c' = bio_send io (cf20_pdev cfg) q' (?c\<lparr>cf_sched := s'\<rparr>)"
    using f(2) by (auto simp: Let_def)
  have "F (unat count) (cf_hw ?c) (cf_mem ?c)" using xf_moves_step [OF F c1(2) kl d(2,3) refl] k by simp
  moreover have "disk (cf_hw c') = disk (cf_hw ?c)" using h(3) bio_send_disk [OF pt] by (auto split: if_splits)
  moreover have "cf_mem c' = cf_mem ?c" "cf_bios c' = cf_bios ?c" "cf_sched c' = s'" "requests c' = requests c0"
    using h(3) f by (auto split: if_splits)
  moreover have "cf20_interrupts io (unat count) c = Some c'" using c1(1) h(1) k by simp
  ultimately show ?thesis using h(2) one by auto
qed

text \<open>Reading: the bytes of the card reach memory.\<close>

definition rdF :: "(nat \<Rightarrow> u8) \<Rightarrow> (u16 \<Rightarrow> u8) \<Rightarrow> u16 \<Rightarrow> u32 \<Rightarrow> u16 \<Rightarrow> nat \<Rightarrow> 'd \<Rightarrow> (u16 \<Rightarrow> u8) \<Rightarrow> bool" where
  "rdF D m0 buf block count k h m \<longleftrightarrow> disk h = D \<and> phase h = CF_Read (512 * (unat block + k)) (512 * (unat count - k)) \<and>
     m = mem_store m0 buf (map D [512 * unat block..<512 * (unat block + k)])"

lemma rd_moves:
  assumes n: "512 * unat count \<le> 65536" and pt: "cf_port cfg = pt"
  shows "xf_moves READ_SECTOR (rdF D m0 buf block count) cfg r buf block count"
  unfolding xf_moves_def Let_def
proof (intro conjI allI impI)
  fix k and c :: "'d cf20" and d
  assume k: "k < unat count" and F: "rdF D m0 buf block count k (cf_hw c) (cf_mem c)" and d: "disk d = disk (cf_hw c)" "phase d = phase (cf_hw c)"
  let ?a = "512 * (unat block + k)" and ?c = "bio_transfer io (cf20_pdev cfg) r (bio_at READ_SECTOR buf block count k) (c\<lparr>cf_hw := d\<rparr>)"
  obtain bs d' where b: "cf20_read_bytes io (REG_DATA pt) 512 d = (bs, d')" by fastforce
  have "512 * (unat count - k) = 512 + 512 * (unat count - Suc k)" using k by linarith
  then have r: "bs = map D [?a..<?a + 512]" "disk d' = D" "phase d' = CF_Read (?a + 512) (512 * (unat count - Suc k))"
    using read_bytes [OF _ b, of ?a "512 * (unat count - Suc k)"] F d by (simp_all add: rdF_def)
  have sz: "unat (sector_sz (cf20_pdev cfg)) = 512" "r_data (cf20_pdev cfg) = REG_DATA pt"
    using pt by (simp_all add: cf20_pdev_def CF20_SECTOR_SIZE_def CF20_SECTOR_SHIFT_def)
  have t: "cf_hw ?c = d'" "cf_mem ?c = mem_store (cf_mem c) (buf + 512 * of_nat k) bs"
    using b sz by (simp_all add: bio_transfer_def bio_at_def cf20_read_sector_def Let_def)
  have u: "[512 * unat block..<512 * (unat block + Suc k)] = [512 * unat block..<?a] @ [?a..<?a + 512]"
    using upt_add_eq_append [of "512 * unat block" ?a 512] by (simp add: add.commute)
  have l: "length (map D [512 * unat block..<?a]) = 512 * k" by simp
  have "mem_store (mem_store m0 buf (map D [512 * unat block..<?a])) (buf + of_nat (512 * k)) (map D [?a..<?a + 512]) =
      mem_store m0 buf (map D [512 * unat block..<?a] @ map D [?a..<?a + 512])"
    using mem_store_append [of "map D [512 * unat block..<?a]" "map D [?a..<?a + 512]" m0 buf] k n unfolding l by simp
  then have "cf_mem ?c = mem_store m0 buf (map D [512 * unat block..<512 * (unat block + Suc k)])"
    using t(2) F r(1) unfolding u by (simp add: rdF_def)
  then show "rdF D m0 buf block count (Suc k) (cf_hw ?c) (cf_mem ?c)" using r t(1) by (simp add: rdF_def algebra_simps)
qed (simp add: BIO_RW_SECTOR_def)

text \<open>Writing: the bytes of memory reach the card.\<close>

definition wrF :: "(nat \<Rightarrow> u8) \<Rightarrow> (u16 \<Rightarrow> u8) \<Rightarrow> u16 \<Rightarrow> u32 \<Rightarrow> u16 \<Rightarrow> nat \<Rightarrow> 'd \<Rightarrow> (u16 \<Rightarrow> u8) \<Rightarrow> bool" where
  "wrF D m0 buf block count k h m \<longleftrightarrow> m = m0 \<and> phase h = CF_Write (512 * (unat block + k)) (512 * (unat count - k)) \<and>
     disk h = (\<lambda>x. if 512 * unat block \<le> x \<and> x < 512 * (unat block + k) then m0 (buf + of_nat (x - 512 * unat block)) else D x)"

lemma wr_moves:
  assumes pt: "cf_port cfg = pt"
  shows "xf_moves WRITE_SECTOR (wrF D m0 buf block count) cfg r buf block count"
  unfolding xf_moves_def Let_def
proof (intro conjI allI impI)
  fix k and c :: "'d cf20" and d
  assume k: "k < unat count" and F: "wrF D m0 buf block count k (cf_hw c) (cf_mem c)" and d: "disk d = disk (cf_hw c)" "phase d = phase (cf_hw c)"
  let ?a = "512 * (unat block + k)" and ?c = "bio_transfer io (cf20_pdev cfg) r (bio_at WRITE_SECTOR buf block count k) (c\<lparr>cf_hw := d\<rparr>)"
  let ?bs = "mem_bytes m0 (buf + 512 * of_nat k) 512"
  have "512 * (unat count - k) = 512 + 512 * (unat count - Suc k)" using k by linarith
  then have r: "disk (cf20_write_bytes io (REG_DATA pt) ?bs d) = (\<lambda>x. if ?a \<le> x \<and> x < ?a + 512 then ?bs ! (x - ?a) else disk d x)"
      "phase (cf20_write_bytes io (REG_DATA pt) ?bs d) = CF_Write (?a + 512) (512 * (unat count - Suc k))"
    using write_bytes [of d ?a ?bs "512 * (unat count - Suc k)", OF _ refl] F d by (simp_all add: wrF_def)
  have sz: "unat (sector_sz (cf20_pdev cfg)) = 512" "r_data (cf20_pdev cfg) = REG_DATA pt"
    using pt by (simp_all add: cf20_pdev_def CF20_SECTOR_SIZE_def CF20_SECTOR_SHIFT_def)
  have t: "cf_hw ?c = cf20_write_bytes io (REG_DATA pt) ?bs d" "cf_mem ?c = m0"
    using sz F by (simp_all add: bio_transfer_def bio_at_def cf20_write_sector_def Let_def wrF_def)
  have "?bs ! (x - ?a) = m0 (buf + of_nat (x - 512 * unat block))" if "?a \<le> x" "x < ?a + 512" for x
  proof -
    have "x - 512 * unat block = 512 * k + (x - ?a)" using that by simp
    then have "(of_nat (x - 512 * unat block) :: u16) = 512 * of_nat k + of_nat (x - ?a)" by (metis of_nat_add of_nat_mult of_nat_numeral)
    then show ?thesis using that by (simp add: mem_bytes_def add.assoc)
  qed
  then have "disk (cf_hw ?c) = (\<lambda>x. if 512 * unat block \<le> x \<and> x < 512 * (unat block + Suc k)
      then m0 (buf + of_nat (x - 512 * unat block)) else D x)"
    using F d(1) unfolding t(1) r(1) by (auto simp: wrF_def fun_eq_iff)
  then show "wrF D m0 buf block count (Suc k) (cf_hw ?c) (cf_mem ?c)" using r(2) t by (simp add: wrF_def algebra_simps)
qed (simp add: BIO_RW_SECTOR_def)

lemma block_call:
  assumes c: "cf_pdev c = Some (cf20_pdev cfg)" "cf_port cfg = pt" "pics_apart (cf_reg pt) (cf_irqs c)" "cf_waits Qs idle c a []"
    and ne: "current a \<noteq> idle" "r \<noteq> 0" "0 < count" "count \<le> 256" "buf \<noteq> 0"
    and F: "xf_moves st F cfg r buf block count" "F 0 (send io (cf20_pdev cfg) block count (cf_hw c)) (cf_mem c)"
  shows "\<exists>c1 c2 h q b. bio_submit send st wt io (cf20_pdev cfg) r buf block count c = Some (BioSleeps, c1) \<and>
    cf20_interrupts io (unat count) c1 = Some c2 \<and> cf_bios c2 r = Some q \<and> bio_count q = 0 \<and>
    F (unat count) h (cf_mem c2) \<and> disk (cf_hw c2) = disk h \<and>
    well Qs idle (cf_sched c2) b \<and> current a \<in> set (queues b (ready b)) \<and> queues b (requests c) = []"
proof -
  let ?a = "a_sleep_on (requests c) (WBio r) a" and ?x = "current a"
  obtain s' c1 where s: "bio_submit send st wt io (cf20_pdev cfg) r buf block count c = Some (BioSleeps, c1)"
      "c1 = c\<lparr>cf_hw := send io (cf20_pdev cfg) block count (cf_hw c), cf_bios := (cf_bios c)(r \<mapsto> bio_at st buf block count 0), cf_sched := s'\<rparr>"
      "cf_waits Qs idle c1 ?a [?x]" "task_bio s' ?x = Some r"
    using submit [OF c(4) ne] by blast
  have x: "xf_state st F c1 r buf block count 0 c1" using F(2) s(2) by (simp add: xf_state_def)
  have p: "cf_pdev c1 = Some (cf20_pdev cfg)" "pics_apart (cf_reg pt) (cf_irqs c1)" "task_bio (cf_sched c1) ?x = Some r" "requests c1 = requests c"
    using c s(2,4) by simp_all
  obtain c2 h q where d: "cf20_interrupts io (unat count) c1 = Some c2"
      "well Qs idle (cf_sched c2) (a_wake ?x (a_queue (requests c) (remove1 ?x) ?a))" "F (unat count) h (cf_mem c2)"
      "disk (cf_hw c2) = disk h" "cf_bios c2 r = Some q" "bio_count q = 0"
    using xf_done [OF p(1,2) c(2) s(3) p(3) F(1) ne(3) x] p(4) by auto
  have "requests c \<noteq> ready ?a" "queues ?a (requests c) = [?x]" using s(3) p(4) by (auto simp: cf_waits_def clk_queue_def)
  then show ?thesis using s(1) d
    by - (rule exI [of _ c1], rule exI [of _ c2], rule exI [of _ h], rule exI [of _ q],
      rule exI [of _ "a_wake ?x (a_queue (requests c) (remove1 ?x) ?a)"], simp)
qed

end

section \<open>Properties\<close>

lemma sint_bytes:
  assumes "count < 64"
  shows "sint ((count - 0) * CF20_SECTOR_SIZE) = 512 * int (unat count)"
proof -
  have n: "unat count < 64" using assms by (simp add: word_less_nat_alt)
  have "sint (word_of_int (512 * int (unat count)) :: u16) = 512 * int (unat count)"
  proof -
    have "- 32768 \<le> 512 * int (unat count)" "512 * int (unat count) < 32768" using n by linarith+
    then show ?thesis by (simp only: sint_sbintrunc') (simp add: signed_take_bit_int_eq_self)
  qed
  moreover have "(count - 0) * CF20_SECTOR_SIZE = word_of_int (512 * int (unat count))"
    by (simp add: CF20_SECTOR_SIZE_def CF20_SECTOR_SHIFT_def mult.commute)
  ultimately show ?thesis by simp
qed

text \<open>
  C16.  A read of \<open>count\<close> sectors from an idle card: the caller sleeps, and after one interrupt per sector
  the sectors of the card are in the buffer, no other byte of memory and no byte of the card has
  changed, the caller is ready to run again and the queue of requests is empty.  The call then returns
  the number of bytes, as long as that fits an \<^verbatim>\<open>int\<close>.
\<close>

theorem cf20_read_correct:
  assumes card: "cf_card io pt tf disk phase"
    and c: "cf_pdev c = Some (cf20_pdev cfg)" "cf_port cfg = pt" "pics_apart (cf_reg pt) (cf_irqs c)" "cf_waits Qs idle c a []"
    and ne: "current a \<noteq> idle" "r \<noteq> 0" "0 < count" "count \<le> 128" "buf \<noteq> 0" "block < 2 ^ 28"
  shows "\<exists>c1 c2 c3 n b. cf20_read_block io (cf20_pdev cfg) r buf block count c = Some (BioSleeps, c1) \<and>
    cf20_interrupts io (unat count) c1 = Some c2 \<and> bio_finish (cf20_pdev cfg) r count c2 = Some (n, c3) \<and>
    mem_bytes (cf_mem c3) buf (512 * unat count) = map (disk (cf_hw c)) [512 * unat block..<512 * (unat block + unat count)] \<and>
    (\<forall>x. 512 * unat count \<le> unat (x - buf) \<longrightarrow> cf_mem c3 x = cf_mem c x) \<and> disk (cf_hw c3) = disk (cf_hw c) \<and>
    well Qs idle (cf_sched c3) b \<and> current a \<in> set (queues b (ready b)) \<and> queues b (requests c) = [] \<and>
    (count < 64 \<longrightarrow> n = 512 * int (unat count))"
proof -
  let ?D = "disk (cf_hw c)" and ?B = "512 * unat block"
  have k: "unat count \<le> 128" "count \<le> 256" using ne(4) by (simp_all add: word_le_nat_alt)
  then have n: "512 * unat count \<le> 65536" by simp
  note F = cf_card.rd_moves [OF card n c(2), of ?D "cf_mem c" buf block r]
  have "cf_card.rdF disk phase ?D (cf_mem c) buf block count 0 (cf20_send_read_sectors io (cf20_pdev cfg) block count (cf_hw c)) (cf_mem c)"
    using cf_card.send_read [OF card c(2) ne(3) k(2) ne(6) refl, of "cf_hw c"] by (simp add: cf_card.rdF_def [OF card] mem_store_def)
  from cf_card.block_call [where send = cf20_send_read_sectors and st = READ_SECTOR and wt = READ_CMD and
      F = "cf_card.rdF disk phase ?D (cf_mem c) buf block count", OF card c ne(1-3) k(2) ne(5) F this] obtain c1 c2 h q b where
    e: "cf20_read_block io (cf20_pdev cfg) r buf block count c = Some (BioSleeps, c1)" "cf20_interrupts io (unat count) c1 = Some c2"
      "cf_bios c2 r = Some q" "bio_count q = 0" "cf_card.rdF disk phase ?D (cf_mem c) buf block count (unat count) h (cf_mem c2)"
      "disk (cf_hw c2) = disk h" "well Qs idle (cf_sched c2) b" "current a \<in> set (queues b (ready b))" "queues b (requests c) = []"
    unfolding cf20_read_block_def by blast
  let ?bs = "map ?D [?B..<512 * (unat block + unat count)]"
  have m: "disk h = ?D" "cf_mem c2 = mem_store (cf_mem c) buf ?bs" using e(5) by (simp_all add: cf_card.rdF_def [OF card])
  have l: "length ?bs = 512 * unat count" by simp
  have "mem_bytes (cf_mem c2) buf (512 * unat count) = ?bs" using mem_bytes_store [of ?bs "cf_mem c" buf] n unfolding m(2) l by simp
  moreover have "cf_mem c2 x = cf_mem c x" if "512 * unat count \<le> unat (x - buf)" for x
    using that unfolding m(2) by (simp add: mem_store_def)
  moreover have "count < 64 \<longrightarrow> sint ((count - bio_count q) * sector_sz (cf20_pdev cfg)) = 512 * int (unat count)"
    using sint_bytes e(4) by (simp add: cf20_pdev_def)
  ultimately show ?thesis using e m(1)
    by - (rule exI [of _ c1], rule exI [of _ c2], rule exI [of _ "c2\<lparr>cf_bios := (cf_bios c2)(r := None)\<rparr>"],
      auto simp: bio_finish_def)
qed

text \<open>
  C25.  A write of \<open>count\<close> sectors to an idle card: after one interrupt per sector the sectors of the card
  hold the bytes of the buffer, the rest of the card and memory are unchanged, and the caller is ready
  to run again.
\<close>

theorem cf20_write_correct:
  assumes card: "cf_card io pt tf disk phase"
    and c: "cf_pdev c = Some (cf20_pdev cfg)" "cf_port cfg = pt" "pics_apart (cf_reg pt) (cf_irqs c)" "cf_waits Qs idle c a []"
    and ne: "current a \<noteq> idle" "r \<noteq> 0" "0 < count" "count \<le> 256" "buf \<noteq> 0" "block < 2 ^ 28"
  shows "\<exists>c1 c2 c3 n b. cf20_write_block io (cf20_pdev cfg) r buf block count c = Some (BioSleeps, c1) \<and>
    cf20_interrupts io (unat count) c1 = Some c2 \<and> bio_finish (cf20_pdev cfg) r count c2 = Some (n, c3) \<and>
    disk (cf_hw c3) = (\<lambda>x. if 512 * unat block \<le> x \<and> x < 512 * (unat block + unat count)
      then cf_mem c (buf + of_nat (x - 512 * unat block)) else disk (cf_hw c) x) \<and> cf_mem c3 = cf_mem c \<and>
    well Qs idle (cf_sched c3) b \<and> current a \<in> set (queues b (ready b)) \<and> queues b (requests c) = [] \<and>
    (count < 64 \<longrightarrow> n = 512 * int (unat count))"
proof -
  let ?D = "disk (cf_hw c)"
  note F = cf_card.wr_moves [OF card c(2), of ?D "cf_mem c" buf block count r]
  have "cf_card.wrF disk phase ?D (cf_mem c) buf block count 0 (cf20_send_write_sectors io (cf20_pdev cfg) block count (cf_hw c)) (cf_mem c)"
    using cf_card.send_write [OF card c(2) ne(3,4,6) refl, of "cf_hw c"] by (auto simp: cf_card.wrF_def [OF card] fun_eq_iff)
  from cf_card.block_call [where send = cf20_send_write_sectors and st = WRITE_SECTOR and wt = WRITE_CMD and
      F = "cf_card.wrF disk phase ?D (cf_mem c) buf block count", OF card c ne(1-5) F this] obtain c1 c2 h q b where
    e: "cf20_write_block io (cf20_pdev cfg) r buf block count c = Some (BioSleeps, c1)" "cf20_interrupts io (unat count) c1 = Some c2"
      "cf_bios c2 r = Some q" "bio_count q = 0" "cf_card.wrF disk phase ?D (cf_mem c) buf block count (unat count) h (cf_mem c2)"
      "disk (cf_hw c2) = disk h" "well Qs idle (cf_sched c2) b" "current a \<in> set (queues b (ready b))" "queues b (requests c) = []"
    unfolding cf20_write_block_def by blast
  have "count < 64 \<longrightarrow> sint ((count - bio_count q) * sector_sz (cf20_pdev cfg)) = 512 * int (unat count)"
    using sint_bytes e(4) by (simp add: cf20_pdev_def)
  then show ?thesis using e
    by - (rule exI [of _ c1], rule exI [of _ c2], rule exI [of _ "c2\<lparr>cf_bios := (cf_bios c2)(r := None)\<rparr>"],
      auto simp: bio_finish_def cf_card.wrF_def [OF card])
qed

text \<open>The handler sends the command of a queued request again and again: it never changes its state.\<close>

lemma resends:
  assumes "cf_pdev c = Some pdev" and ack: "\<And>d. irq_ack io (cf_irqs c) (p_irq pdev) d \<noteq> None" and w: "cf_waits Qs idle c a (x # xs)"
    and "task_bio (cf_sched c) x = Some r" "cf_bios c r = Some q" "BIO_SEND (bio_state q)"
  shows "\<exists>h. cf20_interrupts io n c = Some (c\<lparr>cf_hw := h\<rparr>)"
proof (induction n)
  case 0
  show ?case by (rule exI [of _ "cf_hw c"]) simp
next
  case (Suc n)
  then obtain h where h: "cf20_interrupts io n c = Some (c\<lparr>cf_hw := h\<rparr>)" by blast
  obtain d where d: "irq_ack io (cf_irqs c) (p_irq pdev) h = Some d" using ack [of h] by blast
  have s: "\<not> BIO_RW_SECTOR (bio_state q)" "\<not> BIO_DONE (bio_state q)"
    using assms(6) by (auto simp: BIO_DONE_def BIO_SEND_def BIO_RW_SECTOR_def)
  have "cf20_handler io (c\<lparr>cf_hw := h\<rparr>) = Some (bio_send io pdev q (c\<lparr>cf_hw := d\<rparr>))"
    using assms d s cf_waits_list [OF w] by (simp add: cf20_handler_def)
  then show ?case using h by (auto simp: bio_send_def)
qed

text \<open>
  C26.  A request submitted while another one is in progress is never served.  The handler finishes the
  first request and sends the command of the second, but leaves it in the state \<^verbatim>\<open>READ_CMD\<close>: at every
  later interrupt the command is sent again, no sector is moved, and the task sleeps forever.
\<close>

theorem cf20_second_request_starves:
  assumes p: "cf_pdev c = Some pdev" "\<And>d. irq_ack io (cf_irqs c) (p_irq pdev) d \<noteq> None" and w: "cf_waits Qs idle c a [x]"
    and x: "task_bio (cf_sched c) x = Some r0" "cf_bios c r0 = Some q0" "BIO_RW_SECTOR (bio_state q0)" "bio_count q0 = 1"
    and ne: "current a \<noteq> idle" "r \<noteq> 0" "r \<noteq> r0" "0 < count" "count \<le> 256" "buf \<noteq> 0"
  shows "\<exists>c1 c2 b. cf20_read_block io pdev r buf block count c = Some (BioSleeps, c1) \<and> cf20_handler io c1 = Some c2 \<and>
    well Qs idle (cf_sched c2) b \<and> queues b (requests c) = [current a] \<and>
    (\<forall>n. \<exists>c3. cf20_interrupts io n c2 = Some c3 \<and> cf_sched c3 = cf_sched c2 \<and> cf_mem c3 = cf_mem c2 \<and>
       cf_bios c3 r = Some \<lparr>bio_state = READ_CMD, bio_block = block, bio_count = count, bio_buf = buf\<rparr>)"
proof -
  let ?y = "current a" and ?a = "a_sleep_on (requests c) (WBio r) a"
  let ?q = "\<lparr>bio_state = READ_CMD, bio_block = block, bio_count = count, bio_buf = buf\<rparr>"
  have a: "well Qs idle (cf_sched c) a" "requests c \<in> set Qs" "queues a (requests c) = [x]"
    using w by (auto simp: cf_waits_def clk_queue_def)
  have xy: "x \<noteq> ?y" using wellD(5) [OF a(1)] queued_mem [OF a(2), of x "queues a"] a(3) by auto
  obtain s1 where s1: "scheduler_sleep_on (cf_sched c) (requests c) (WBio r) = Some s1"
      "cf_waits Qs idle (c\<lparr>cf_sched := s1\<rparr>) ?a [x, ?y]" "task_bio s1 ?y = Some r" "task_bio s1 x = Some r0"
    using cf_sleep [OF w ne(1), of r] x(1) xy by auto
  let ?c1 = "c\<lparr>cf_bios := (cf_bios c)(r \<mapsto> ?q), cf_sched := s1\<rparr>"
  have "count \<noteq> 0" "\<not> 256 < count" using ne(4,5) by auto
  then have sub: "cf20_read_block io pdev r buf block count c = Some (BioSleeps, ?c1)"
    using ne cf_waits_list(1) [OF w] s1(1) by (simp add: cf20_read_block_def bio_submit_def)
  have w1: "cf_waits Qs idle ?c1 ?a [x, ?y]" using s1(2) by (simp add: cf_waits_def)
  obtain d where d: "irq_ack io (cf_irqs ?c1) (p_irq pdev) (cf_hw ?c1) = Some d" using p(2) [of "cf_hw c"] by auto
  let ?b = "a_wake x (a_queue (requests c) (remove1 x) ?a)"
  have "\<exists>s' c'. cf20_handler io ?c1 = Some c' \<and> well Qs idle s' (a_wake x (a_queue (requests ?c1) (remove1 x) ?a)) \<and>
    (\<forall>y. task_bio s' y = task_bio (cf_sched ?c1) y) \<and>
    (let C = (bio_transfer io pdev r0 q0 (?c1\<lparr>cf_hw := d\<rparr>))\<lparr>cf_sched := s'\<rparr>
     in if [?y] = [] then c' = C else \<exists>q'. c' = bio_send io pdev q' C)"
    by (rule handler_last [OF _ d w1]) (use p(1) x s1(3,4) ne(3) in auto)
  then obtain s2 c2 where c2: "cf20_handler io ?c1 = Some c2" "well Qs idle s2 ?b" "\<And>y. task_bio s2 y = task_bio s1 y"
      "\<exists>q'. c2 = bio_send io pdev q' ((bio_transfer io pdev r0 q0 (?c1\<lparr>cf_hw := d\<rparr>))\<lparr>cf_sched := s2\<rparr>)"
    by (auto simp: Let_def)
  then have f: "cf_sched c2 = s2" "requests c2 = requests c" "cf_pdev c2 = Some pdev" "cf_irqs c2 = cf_irqs c" "cf_bios c2 r = Some ?q"
    using p(1) ne(3) by auto
  have q2: "queues ?b (requests c) = [?y]" "clk_queue Qs (requests c) ?b" using w1 by (auto simp: cf_waits_def clk_queue_def)
  then have w2: "cf_waits Qs idle c2 ?b [?y]" using c2(2) f by (simp add: cf_waits_def)
  have "\<exists>h. cf20_interrupts io n c2 = Some (c2\<lparr>cf_hw := h\<rparr>)" for n
    by (rule resends [OF f(3) _ w2]) (use p(2) f c2(3) s1(3) in \<open>auto simp: BIO_SEND_def\<close>)
  then have "\<exists>c3. cf20_interrupts io n c2 = Some c3 \<and> cf_sched c3 = cf_sched c2 \<and> cf_mem c3 = cf_mem c2 \<and> cf_bios c3 r = Some ?q" for n
    using f(5) by fastforce
  then show ?thesis using sub c2(1,2) f(1) q2(1) by blast
qed

section \<open>A card\<close>

record cf_chip =
  cc_tf :: "u16 \<Rightarrow> u8"
  cc_disk :: "nat \<Rightarrow> u8"
  cc_phase :: cf_phase

definition cf_chip_ports :: "u16 \<Rightarrow> cf_chip ports" where
  "cf_chip_ports pt = \<lparr>
     inb = (\<lambda>q d. if q = pt
                  then case cc_phase d of
                         CF_Read a (Suc n) \<Rightarrow> (cc_disk d a, d\<lparr>cc_phase := CF_Read (Suc a) n\<rparr>)
                       | _ \<Rightarrow> (0, d)
                  else if q = pt + 7 then (0x50, d) else (cc_tf d q, d)),
     outb = (\<lambda>q v d. if q = pt
                     then case cc_phase d of
                            CF_Write a (Suc n) \<Rightarrow> d\<lparr>cc_disk := (cc_disk d)(a := v), cc_phase := CF_Write (Suc a) n\<rparr>
                          | _ \<Rightarrow> d
                     else if q = pt + 7
                     then if v = CMD_READ_SECTORS then d\<lparr>cc_phase := CF_Read (512 * cf_lba pt (cc_tf d)) (512 * cf_cnt pt (cc_tf d))\<rparr>
                          else if v = CMD_WRITE_SECTORS then d\<lparr>cc_phase := CF_Write (512 * cf_lba pt (cc_tf d)) (512 * cf_cnt pt (cc_tf d))\<rparr>
                          else d
                     else if cf_reg pt q then d\<lparr>cc_tf := (cc_tf d)(q := v)\<rparr> else d),
     elapse = (\<lambda>_ d. d)\<rparr>"

interpretation cfc: cf_card "cf_chip_ports pt" pt cc_tf cc_disk cc_phase for pt
proof
  fix q v and d d' :: cf_chip
  assume q: "2 \<le> q - pt" "q - pt \<le> 6" and d': "d' = outb (cf_chip_ports pt) q v d"
  have "q \<noteq> pt" "q \<noteq> pt + 7" using q by auto
  moreover have "q - pt < 8" using q(2) by (rule order.strict_trans1) simp
  ultimately show "cc_tf d' = (cc_tf d)(q := v) \<and> cc_disk d' = cc_disk d \<and> cc_phase d' = cc_phase d"
    by (simp add: d' cf_chip_ports_def cf_reg_def)
next
  fix q v and d d' :: cf_chip
  assume q: "\<not> cf_reg pt q" and d': "d' = outb (cf_chip_ports pt) q v d"
  have "q \<noteq> pt" "q \<noteq> pt + 7" using q by (auto simp: cf_reg_def)
  then show "cc_disk d' = cc_disk d \<and> cc_phase d' = cc_phase d" using q by (simp add: d' cf_chip_ports_def)
qed (auto simp: cf_chip_ports_def cf_regs_def CMD_READ_SECTORS_def CMD_WRITE_SECTORS_def)

definition sample_cfg :: cf20_config where
  "sample_cfg = \<lparr>cf_port = 0x1f0, cf_irq = 5, is_8bit = True\<rparr>"

definition sample_irqs :: irq_state where
  "sample_irqs = \<lparr>idt = (\<lambda>_. (0, 0)), master = (case dev_config (hd (devices board_8088_rev3)) of CPic p \<Rightarrow> Some p | _ \<Rightarrow> None)\<rparr>"

definition sample_cf :: "cf_chip cf20" where
  "sample_cf = \<lparr>cf_sched = idle_sched, requests = 4, cf_bios = Map.empty, cf_pdev = Some (cf20_pdev sample_cfg), cf_irqs = sample_irqs,
     cf_mem = (\<lambda>_. 7), cf_hw = \<lparr>cc_tf = (\<lambda>_. 0), cc_disk = (\<lambda>x. of_nat x), cc_phase = CF_Idle\<rparr>\<rparr>"

lemma sample_cf_ok:
  "\<exists>a. cf_waits [1, 2, 3, 4] 32 sample_cf a [] \<and> current a = 16"
  "pics_apart (cf_reg 0x1f0) (cf_irqs sample_cf)" "cf_pdev sample_cf = Some (cf20_pdev sample_cfg)" "cf_port sample_cfg = 0x1f0"
proof -
  obtain a where "well [1, 2, 3, 4] 32 idle_sched a" "current a = 16" "ready a = 1" "zombies a = 2" "waiters a = 3" "queues a 4 = []"
    using idle_sched_ok by blast
  then show "\<exists>a. cf_waits [1, 2, 3, 4] 32 sample_cf a [] \<and> current a = 16"
    by (intro exI [of _ a]) (simp add: cf_waits_def clk_queue_def sample_cf_def)
  show "pics_apart (cf_reg 0x1f0) (cf_irqs sample_cf)"
    by (simp add: pics_apart_def sample_cf_def sample_irqs_def board_8088_rev3_def DEVICE_def cf_reg_def PIC_CMD_def PIC_DATA_def)
qed (simp_all add: sample_cf_def sample_cfg_def)

text \<open>The same with three tasks, one of which waits for the last sector of a request.\<close>

definition two_sched :: sched where
  "two_sched = snd (the (scheduler_queue_new (idle_sched\<lparr>tasks := (tasks idle_sched)(48 \<mapsto> zero_task)\<rparr>) 48 0))"

definition two_cf :: "cf_chip cf20" where
  "two_cf = sample_cf\<lparr>cf_sched := the (scheduler_sleep_on two_sched 4 (WBio 0x900)),
     cf_bios := [0x900 \<mapsto> \<lparr>bio_state = READ_SECTOR, bio_block = 3, bio_count = 1, bio_buf = 0x1000\<rparr>]\<rparr>"

lemma two_cf_ok:
  "\<exists>idle a. cf_waits [1, 2, 3, 4] idle two_cf a [16] \<and> current a \<noteq> idle \<and> task_bio (cf_sched two_cf) 16 = Some 0x900"
proof -
  obtain a where a: "well [1, 2, 3, 4] 32 idle_sched a" "current a = 16" "ready a = 1" "zombies a = 2" "waiters a = 3"
      "queues a 1 = [32]" "queues a 4 = []" using idle_sched_ok by blast
  have t: "tasks idle_sched 48 = None" by (rule idle_sched_tasks) simp_all
  have f: "48 \<notin> dom (tasks a)" "48 \<notin> queued [1, 2, 3, 4] (queues a)"
    using t rep_sched_eqs(1) [OF wellD(1) [OF a(1)]] well_fresh [OF a(1) t] by auto
  let ?b = "a_new 48 0 (a\<lparr>tasks := (tasks a)(48 \<mapsto> zero_task)\<rparr>)"
  have w: "well [1, 2, 3, 4] 32 two_sched ?b" using well_queue_new [OF a(1) f, of zero_task 0] by (auto simp: two_sched_def)
  have b: "current ?b = 16" "ready ?b = 1" "zombies ?b = 2" "waiters ?b = 3" "queues ?b 4 = []"
    using a by (simp_all add: a_new_def a_put_def)
  have "queues ?b 1 = prio_insert (tasks (a_set 48 (\<lambda>t. t\<lparr>pid := next_pid a, parent := pid (the (tasks a 16)), prio := 0, state := READY\<rparr>)
      (a\<lparr>tasks := (tasks a)(48 \<mapsto> zero_task)\<rparr>))) 48 [32]"
    using a by (simp add: a_new_def a_put_def)
  moreover have "\<exists>u v. prio_insert ts 48 [32] = [u, v] \<and> u \<noteq> v" for ts
    by (cases "prio_of ts 48 \<le> prio_of ts 32") (auto simp: prio_insert_def)
  ultimately obtain u v where uv: "queues ?b 1 = [u, v]" "u \<noteq> v" by metis
  let ?c = "sample_cf\<lparr>cf_sched := two_sched\<rparr>"
  have cw: "cf_waits [1, 2, 3, 4] 32 ?c ?b []" using w b by (simp add: cf_waits_def clk_queue_def sample_cf_def)
  obtain s' where s': "scheduler_sleep_on two_sched 4 (WBio 0x900) = Some s'"
      "cf_waits [1, 2, 3, 4] 32 (?c\<lparr>cf_sched := s'\<rparr>) (a_sleep_on 4 (WBio 0x900) ?b) [16]" "task_bio s' 16 = Some 0x900"
    using cf_sleep [OF cw, of "0x900"] b(1) by (auto simp: sample_cf_def)
  let ?d = "a_sleep_on 4 (WBio 0x900) ?b"
  have d: "current ?d = u" "queues ?d (ready ?d) = [v]"
    using uv b wellD(6) [OF w] by (auto simp: a_sleep_on_def a_schedule_def Let_def)
  have "well [1, 2, 3, 4] v s' ?d" using s'(2) d by (auto simp: cf_waits_def intro: well_idle)
  then have "cf_waits [1, 2, 3, 4] v two_cf ?d [16]" "task_bio (cf_sched two_cf) 16 = Some 0x900"
    using s' by (simp_all add: cf_waits_def two_cf_def sample_cf_def)
  then show ?thesis using d(1) uv(2) by blast
qed

theorem cf20_read_correct_witness:
  "\<exists>c1 c2 c3. cf20_read_block (cf_chip_ports 0x1f0) (cf20_pdev sample_cfg) 0x900 0x1000 3 2 sample_cf = Some (BioSleeps, c1) \<and>
     cf20_interrupts (cf_chip_ports 0x1f0) 2 c1 = Some c2 \<and> bio_finish (cf20_pdev sample_cfg) 0x900 2 c2 = Some (1024, c3) \<and>
     mem_bytes (cf_mem c3) 0x1000 1024 = map of_nat [1536..<2560] \<and> cf_mem c3 0x1400 = 7"
proof -
  obtain a where a: "cf_waits [1, 2, 3, 4] 32 sample_cf a []" "current a = 16" using sample_cf_ok(1) by blast
  have ne: "current a \<noteq> 32" "(0x900 :: ptr) \<noteq> 0" "(0 :: u16) < 2" "(2 :: u16) \<le> 128" "(0x1000 :: u16) \<noteq> 0" "(3 :: u32) < 2 ^ 28"
    using a(2) by simp_all
  have h: "cc_disk (cf_hw sample_cf) = of_nat" "cf_mem sample_cf 0x1400 = 7" by (simp_all add: sample_cf_def)
  show ?thesis
    using cf20_read_correct [OF cfc.cf_card_axioms sample_cf_ok(3,4,2) a(1) ne] h by auto
qed

theorem cf20_write_correct_witness:
  "\<exists>c1 c2. cf20_write_block (cf_chip_ports 0x1f0) (cf20_pdev sample_cfg) 0x900 0x1000 3 2 sample_cf = Some (BioSleeps, c1) \<and>
     cf20_interrupts (cf_chip_ports 0x1f0) 2 c1 = Some c2 \<and> cc_disk (cf_hw c2) 1536 = 7 \<and> cc_disk (cf_hw c2) 2560 = 0"
proof -
  obtain a where a: "cf_waits [1, 2, 3, 4] 32 sample_cf a []" "current a = 16" using sample_cf_ok(1) by blast
  have ne: "current a \<noteq> 32" "(0x900 :: ptr) \<noteq> 0" "(0 :: u16) < 2" "(2 :: u16) \<le> 256" "(0x1000 :: u16) \<noteq> 0" "(3 :: u32) < 2 ^ 28"
    using a(2) by simp_all
  have h: "cc_disk (cf_hw sample_cf) 2560 = 0" "cf_mem sample_cf x = 7" for x by (simp_all add: sample_cf_def)
  show ?thesis
    using cf20_write_correct [OF cfc.cf_card_axioms sample_cf_ok(3,4,2) a(1) ne] h by (auto simp: bio_finish_def split: bind_splits)
qed

theorem cf20_second_request_starves_witness:
  "\<exists>c1 c2. cf20_read_block (cf_chip_ports 0x1f0) (cf20_pdev sample_cfg) 0x920 0x2000 5 1 two_cf = Some (BioSleeps, c1) \<and>
     cf20_handler (cf_chip_ports 0x1f0) c1 = Some c2 \<and> (\<exists>c3. cf20_interrupts (cf_chip_ports 0x1f0) 9 c2 = Some c3 \<and> cf_mem c3 = cf_mem c2)"
proof -
  obtain idle a where a: "cf_waits [1, 2, 3, 4] idle two_cf a [16]" "current a \<noteq> idle" "task_bio (cf_sched two_cf) 16 = Some 0x900"
    using two_cf_ok by blast
  have p: "cf_pdev two_cf = Some (cf20_pdev sample_cfg)" "irq_ack (cf_chip_ports 0x1f0) (cf_irqs two_cf) i d \<noteq> None" for i d
    by (simp_all add: two_cf_def sample_cf_def irq_ack_def sample_irqs_def board_8088_rev3_def DEVICE_def)
  have q: "cf_bios two_cf 0x900 = Some \<lparr>bio_state = READ_SECTOR, bio_block = 3, bio_count = 1, bio_buf = 0x1000\<rparr>"
    by (simp add: two_cf_def)
  have "BIO_RW_SECTOR READ_SECTOR" by (simp add: BIO_RW_SECTOR_def)
  then show ?thesis
    using cf20_second_request_starves [OF p a(1,3) q _ _ a(2), of "0x920" 1 "0x2000" 5] by simp blast
qed

end
