(* ===== verification/Page.thy ===== *)
theory Page
  imports Intrusive_List Board
begin

text \<open>
  The page allocator and the memory check (\<^verbatim>\<open>kernel/page.c\<close>, \<^verbatim>\<open>kernel/mem.c\<close>): free areas of one to 64 pages
  of 1024 bytes, in lists linked by far pointers through the areas themselves.  A far pointer is the
  32-bit value with the segment in its upper half.  The array \<^verbatim>\<open>free_areas\<close> has seven heads; an access
  past its end is \<open>None\<close>, as is a shift of a 16-bit \<^verbatim>\<open>int\<close> by 16 or more places.  A shift into the sign
  bit is what the compiler makes of it, a negative number.
\<close>

section \<open>Lists of far pointers\<close>

definition flist_init :: "u32 node_heap \<Rightarrow> u32 \<Rightarrow> u32 node_heap" where
  "flist_init h node = set_prv (set_nxt h node node) node node"

definition flist_is_empty :: "u32 node_heap \<Rightarrow> u32 \<Rightarrow> bool" where
  "flist_is_empty h node \<longleftrightarrow> nxt h node = node"

definition flist_delete :: "u32 node_heap \<Rightarrow> u32 \<Rightarrow> u32 node_heap" where
  "flist_delete h item =
     (let h = set_prv h (nxt h item) (prv h item);
          h = set_nxt h (prv h item) (nxt h item);
          h = set_nxt h item 0
      in set_prv h item 0)"

definition flist_push :: "u32 node_heap \<Rightarrow> u32 \<Rightarrow> u32 \<Rightarrow> u32 node_heap" where
  "flist_push h list item =
     (let h = set_nxt h item (nxt h list);
          h = set_prv h item list;
          h = set_prv h (nxt h list) item
      in set_nxt h list item)"

definition flist_queue :: "u32 node_heap \<Rightarrow> u32 \<Rightarrow> u32 \<Rightarrow> u32 node_heap" where
  "flist_queue h list item =
     (let h = set_nxt h item list;
          h = set_prv h item (prv h list);
          h = set_nxt h (prv h list) item
      in set_prv h list item)"

definition flist_pop :: "u32 node_heap \<Rightarrow> u32 \<Rightarrow> u32 \<times> u32 node_heap" where
  "flist_pop h list =
     (if flist_is_empty h list then (0, h) else (nxt h list, flist_delete h (nxt h list)))"

text \<open>They are the lists of \<^verbatim>\<open>list.h\<close>.\<close>

lemma flist_list:
  "flist_is_empty h l \<longleftrightarrow> list_is_empty h l" "flist_delete h x = list_delete h x" "flist_push h l x = list_add_head h l x"
  "flist_pop h l = list_remove_head h l" "flist_init h l = list_initialize h l"
  by (simp_all add: flist_is_empty_def flist_delete_def flist_push_def flist_pop_def flist_init_def list_is_empty_def list_delete_def
      list_add_head_def list_remove_head_def list_initialize_def)

lemma flist_queue_list: "flist_queue h l x = list_add_tail h l x"
  by (simp add: flist_queue_def list_add_tail_def set_prv_def set_nxt_def Let_def)

interpretation flistq: node_queues rep_queues flist_push flist_queue flist_pop flist_is_empty
  unfolding flist_list flist_queue_list by (rule listq.node_queues_axioms)

section \<open>Pages\<close>

definition PAGE_SHIFT :: nat where "PAGE_SHIFT = 10"
definition PAGE_MAGIC :: u32 where "PAGE_MAGIC = 0xDEAD5A5A"
definition MAX_ORDER :: u16 where "MAX_ORDER = 7"

record page =
  page_addr :: u32
  page_order :: u16

record pages =
  free_areas :: u32
  pg_heap :: "u32 node_heap"
  pg_magic :: "u32 \<Rightarrow> u32"

text \<open>The address of \<^verbatim>\<open>free_areas[i]\<close>: a \<^verbatim>\<open>struct fnode\<close> is two far pointers.\<close>

definition area_head :: "u32 \<Rightarrow> u16 \<Rightarrow> u32" where
  "area_head base i = base + 8 * ucast i"

definition page_buddy :: "u32 \<Rightarrow> u16 \<Rightarrow> u32 option" where
  "page_buddy ptr order =
     (if 16 \<le> unat order + PAGE_SHIFT then None
      else let base = ptr AND 0xffff0000
           in Some (base + (scast (push_bit (unat order + PAGE_SHIFT) 1 :: u16) XOR (ptr - base))))"

definition page_push :: "u32 \<Rightarrow> u16 \<Rightarrow> pages \<Rightarrow> pages option" where
  "page_push a order s =
     (if MAX_ORDER \<le> order then None
      else Some (s\<lparr>pg_magic := (pg_magic s)(a := PAGE_MAGIC), pg_heap := flist_push (pg_heap s) (area_head (free_areas s) order) a\<rparr>))"

definition page_queue :: "u32 \<Rightarrow> u16 \<Rightarrow> pages \<Rightarrow> pages option" where
  "page_queue a order s =
     (if MAX_ORDER \<le> order then None
      else Some (s\<lparr>pg_magic := (pg_magic s)(a := PAGE_MAGIC), pg_heap := flist_queue (pg_heap s) (area_head (free_areas s) order) a\<rparr>))"

definition page_pop :: "u16 \<Rightarrow> pages \<Rightarrow> (u32 \<times> pages) option" where
  "page_pop order s =
     (if MAX_ORDER \<le> order then None
      else let (area, h) = flist_pop (pg_heap s) (area_head (free_areas s) order);
               s = s\<lparr>pg_heap := h\<rparr>
           in Some (area, if area \<noteq> 0 then s\<lparr>pg_magic := (pg_magic s)(area := 0)\<rparr> else s))"

text \<open>The search for a free area, from the order asked for upwards.\<close>

partial_function (option) page_find :: "u16 \<Rightarrow> pages \<Rightarrow> (u32 \<times> u16 \<times> pages) option" where
  "page_find index s =
     do { (zone, s) \<leftarrow> page_pop index s;
          if zone = 0 \<and> index < MAX_ORDER then page_find (index + 1) s else Some (zone, index, s) }"

text \<open>The loop that gives back what is too much.\<close>

partial_function (option) page_split :: "u32 \<Rightarrow> u16 \<Rightarrow> u16 \<Rightarrow> pages \<Rightarrow> pages option" where
  "page_split zone index order s =
     (if index - 1 > order
      then do { b \<leftarrow> page_buddy zone (index - 1); s \<leftarrow> page_push b (index - 1) s; page_split zone (index - 1) order s }
      else Some s)"

text \<open>\<open>p\<close> is the allocation of the \<^verbatim>\<open>struct page\<close>, used without a check.\<close>

definition page_alloc :: "u16 \<Rightarrow> u16 \<Rightarrow> pages \<Rightarrow> (page option \<times> pages) option" where
  "page_alloc p order s =
     (if MAX_ORDER \<le> order then Some (None, s)
      else do {
        (zone, index, s) \<leftarrow> page_find order s;
        if zone = 0 then Some (None, s)
        else do {
          s \<leftarrow> page_split zone index order s;
          if p = 0 then None else Some (Some \<lparr>page_addr = zone, page_order = order\<rparr>, s) } })"

definition page_is_before :: "u32 \<Rightarrow> u32 \<Rightarrow> bool" where
  "page_is_before a b \<longleftrightarrow> a \<le> b"

partial_function (option) page_merge :: "u32 \<Rightarrow> u32 \<Rightarrow> u16 \<Rightarrow> (u32 \<times> u16) option" where
  "page_merge a buddy order =
     (if order < MAX_ORDER
      then do { b \<leftarrow> page_buddy (if page_is_before a buddy then a else buddy) (order + 1);
                page_merge (if page_is_before a buddy then a else buddy) b (order + 1) }
      else Some (a, order))"

definition page_free :: "page option \<Rightarrow> pages \<Rightarrow> pages option" where
  "page_free p s =
     (case p of
        None \<Rightarrow> Some s
      | Some p \<Rightarrow>
          do { buddy \<leftarrow> page_buddy (page_addr p) (page_order p);
               if pg_magic s buddy \<noteq> PAGE_MAGIC then page_push (page_addr p) (page_order p) s
               else do { (a, order) \<leftarrow> page_merge (page_addr p) buddy (page_order p); page_push a order s } })"

definition page_add :: "u32 \<Rightarrow> u16 \<Rightarrow> pages \<Rightarrow> pages option" where
  "page_add area order s = (if MAX_ORDER \<le> order then Some s else page_queue area order s)"

definition page_initialize :: "pages \<Rightarrow> pages" where
  "page_initialize s =
     s\<lparr>pg_heap := foldl (\<lambda>h i. flist_init h (area_head (free_areas s) (of_nat i))) (pg_heap s) [0..<7]\<rparr>"

section \<open>The memory map\<close>

definition fmem_void_fptr :: "u16 \<Rightarrow> u16 \<Rightarrow> u32" where
  "fmem_void_fptr seg p = push_bit 16 (ucast seg) OR ucast p"

text \<open>
  \<open>ram seg\<close> tells whether the two words written to a segment read back.  They are the \<^verbatim>\<open>prev\<close> pointer of a
  node at its start.
\<close>

definition mem_check_segment :: "(u16 \<Rightarrow> bool) \<Rightarrow> u16 \<Rightarrow> pages \<Rightarrow> bool \<times> pages" where
  "mem_check_segment ram seg s = (ram seg, s\<lparr>pg_heap := set_prv (pg_heap s) (fmem_void_fptr seg 0) 0xAA5555AA\<rparr>)"

fun mem_add_segments :: "(u16 \<Rightarrow> bool) \<Rightarrow> u16 \<Rightarrow> nat \<Rightarrow> pages \<Rightarrow> pages option" where
  "mem_add_segments ram seg 0 s = Some s"
| "mem_add_segments ram seg (Suc n) s =
     do { let (_, s) = mem_check_segment ram seg s;
          s \<leftarrow> page_add (fmem_void_fptr seg 0) 6 s;
          mem_add_segments ram (seg + 0x1000) n s }"

definition mem_initialize :: "(u16 \<Rightarrow> bool) \<Rightarrow> device list \<Rightarrow> pages \<Rightarrow> pages option" where
  "mem_initialize ram devs s =
     (case board_get_by_name devs ''memmap'' of
        None \<Rightarrow> Some s
      | Some dev \<Rightarrow>
          (case dev_config dev of
             CMemmap m \<Rightarrow> mem_add_segments ram (ram_segment m) (unat (ram_count m)) (page_initialize s)
           | _ \<Rightarrow> Some s))"

section \<open>The free lists\<close>

definition area_heads :: "u32 \<Rightarrow> u32 list" where
  "area_heads base = map (\<lambda>i. area_head base (of_nat i)) [0..<7]"

lemma area_heads_simps: "area_heads base = [base, base + 8, base + 16, base + 24, base + 32, base + 40, base + 48]"
  by (simp add: area_heads_def area_head_def upt_rec)

lemma area_head_in: "i < 7 \<Longrightarrow> area_head base i \<in> set (area_heads base)"
proof -
  assume "i < 7"
  then have "unat i < 7" by (simp add: word_less_nat_alt)
  then have "unat i \<in> set [0..<7]" by simp
  moreover have "area_head base i = area_head base (of_nat (unat i))" by simp
  ultimately show ?thesis unfolding area_heads_def set_map by (rule rev_image_eqI)
qed

definition segments :: "u16 \<Rightarrow> nat \<Rightarrow> u32 list" where
  "segments seg n = map (\<lambda>k. fmem_void_fptr (seg + 0x1000 * of_nat k) 0) [0..<n]"

lemma segments_Suc: "segments seg (Suc n) = fmem_void_fptr seg 0 # segments (seg + 0x1000) n"
  by (simp add: segments_def upt_conv_Cons map_Suc_upt [symmetric] algebra_simps del: upt_Suc)

lemma fmem_inj: "fmem_void_fptr a 0 = fmem_void_fptr b 0 \<longleftrightarrow> a = b"
proof -
  have "ucast (drop_bit 16 (fmem_void_fptr a 0)) = a" for a
    by (rule bit_word_eqI) (auto simp: fmem_void_fptr_def bit_simps)
  then show ?thesis by metis
qed

lemma segments_distinct:
  assumes "0 < seg" "unat seg + 4096 * n \<le> 65536"
  shows "distinct (segments seg n)" "0 \<notin> set (segments seg n)"
proof -
  have u: "unat (seg + 0x1000 * of_nat k) = unat seg + 4096 * k" if "k < n" for k
  proof -
    have "seg + 0x1000 * of_nat k = of_nat (unat seg + 4096 * k)" by simp
    moreover have "unat seg + 4096 * k < 65536" using that assms(2) by linarith
    ultimately show ?thesis using unat_of_nat_u16 by metis
  qed
  have "inj_on (\<lambda>k. seg + 0x1000 * of_nat k) {0..<n}"
  proof (rule inj_onI)
    fix k l assume "k \<in> {0..<n}" "l \<in> {0..<n}" "seg + 0x1000 * of_nat k = seg + 0x1000 * of_nat l"
    then have "unat seg + 4096 * k = unat seg + 4096 * l" using u [of k] u [of l] by (metis atLeastLessThan_iff)
    then show "k = l" by simp
  qed
  then have "inj_on (\<lambda>k. fmem_void_fptr (seg + 0x1000 * of_nat k) 0) {0..<n}" by (auto simp: inj_on_def fmem_inj)
  then show "distinct (segments seg n)" by (simp add: segments_def distinct_map)
  have "fmem_void_fptr (seg + 0x1000 * of_nat k) 0 \<noteq> 0" if "k < n" for k
  proof -
    have "unat (seg + 0x1000 * of_nat k) \<noteq> 0" using u [OF that] assms(1) by (simp add: word_less_nat_alt)
    then have "seg + 0x1000 * of_nat k \<noteq> 0" by (metis unat_0)
    moreover have "fmem_void_fptr 0 0 = 0" by (simp add: fmem_void_fptr_def)
    ultimately show ?thesis using fmem_inj by metis
  qed
  then show "0 \<notin> set (segments seg n)" by (auto simp: segments_def)
qed

lemma rep_set_prv: "rep_queues h Qs f \<Longrightarrow> x \<notin> queued Qs f \<Longrightarrow> rep_queues (set_prv h x v) Qs f"
proof -
  assume r: "rep_queues h Qs f" and x: "x \<notin> queued Qs f"
  have "is_list (set_prv h x v) q (f q) \<longleftrightarrow> is_list h q (f q)" if "q \<in> set Qs" for q
    by (rule is_list_frame) (use x that in \<open>auto simp: queued_def set_prv_def\<close>)
  then show ?thesis using r by (simp add: rep_queues_def)
qed

lemma init_heads: "distinct Qs \<Longrightarrow> 0 \<notin> set Qs \<Longrightarrow> rep_queues (foldl flist_init h Qs) Qs (\<lambda>_. [])"
proof -
  assume d: "distinct Qs" "0 \<notin> set Qs"
  have "q \<in> set Qs \<longrightarrow> nxt (foldl flist_init h Qs) q = q \<and> prv (foldl flist_init h Qs) q = q" for q
    by (induction Qs rule: rev_induct) (auto simp: flist_init_def set_nxt_def set_prv_def)
  then show ?thesis using d by (auto simp: rep_queues_def is_list_def)
qed

lemma page_add_rep:
  assumes "rep_queues (pg_heap s) (area_heads (free_areas s)) f" "a \<notin> queued (area_heads (free_areas s)) f" "a \<noteq> 0"
  shows "\<exists>s'. page_add a 6 s = Some s' \<and> free_areas s' = free_areas s \<and> pg_magic s' = (pg_magic s)(a := PAGE_MAGIC) \<and>
    rep_queues (pg_heap s') (area_heads (free_areas s)) (f(area_head (free_areas s) 6 := f (area_head (free_areas s) 6) @ [a]))"
  using flistq.queue_rep [OF assms(1) area_head_in assms(2,3), of 6] by (simp add: page_add_def page_queue_def MAX_ORDER_def)

lemma mem_add_rep:
  "rep_queues (pg_heap s) (area_heads (free_areas s)) f \<Longrightarrow> set (segments seg n) \<inter> queued (area_heads (free_areas s)) f = {} \<Longrightarrow>
    distinct (segments seg n) \<Longrightarrow> 0 \<notin> set (segments seg n) \<Longrightarrow>
    \<exists>s'. mem_add_segments ram seg n s = Some s' \<and> free_areas s' = free_areas s \<and>
      (\<forall>a. pg_magic s' a = (if a \<in> set (segments seg n) then PAGE_MAGIC else pg_magic s a)) \<and>
      rep_queues (pg_heap s') (area_heads (free_areas s)) (f(area_head (free_areas s) 6 := f (area_head (free_areas s) 6) @ segments seg n))"
proof (induction n arbitrary: seg s f)
  case 0
  then show ?case by (simp add: segments_def)
next
  case (Suc n)
  let ?Q = "area_heads (free_areas s)" and ?a = "fmem_void_fptr seg 0" and ?h = "area_head (free_areas s) 6"
  let ?s = "s\<lparr>pg_heap := set_prv (pg_heap s) ?a 0xAA5555AA\<rparr>" and ?f = "f(?h := f ?h @ [?a])"
  have a: "?a \<notin> queued ?Q f" "?a \<noteq> 0" "?a \<notin> set (segments (seg + 0x1000) n)" using Suc.prems by (auto simp: segments_Suc)
  obtain s1 where s1: "page_add ?a 6 ?s = Some s1" "free_areas s1 = free_areas s" "pg_magic s1 = (pg_magic s)(?a := PAGE_MAGIC)"
      "rep_queues (pg_heap s1) ?Q ?f"
    using page_add_rep [of ?s f ?a] rep_set_prv [OF Suc.prems(1) a(1)] a by auto
  have "queued ?Q ?f = insert ?a (queued ?Q f)" using area_head_in [of 6 "free_areas s"] by (auto simp: queued_def split: if_splits)
  then have fr: "set (segments (seg + 0x1000) n) \<inter> queued ?Q ?f = {}" using Suc.prems(2) a(3) by (auto simp: segments_Suc)
  have d: "distinct (segments (seg + 0x1000) n)" "0 \<notin> set (segments (seg + 0x1000) n)"
    using Suc.prems(3,4) by (simp_all add: segments_Suc)
  obtain s' where s': "mem_add_segments ram (seg + 0x1000) n s1 = Some s'" "free_areas s' = free_areas s"
      "\<forall>b. pg_magic s' b = (if b \<in> set (segments (seg + 0x1000) n) then PAGE_MAGIC else pg_magic s1 b)"
      "rep_queues (pg_heap s') ?Q (?f(?h := ?f ?h @ segments (seg + 0x1000) n))"
    using Suc.IH [of s1 ?f "seg + 0x1000", unfolded s1(2), OF s1(4) fr d] by blast
  have "?f(?h := ?f ?h @ segments (seg + 0x1000) n) = f(?h := f ?h @ segments seg (Suc n))" by (simp add: segments_Suc fun_eq_iff)
  then have "rep_queues (pg_heap s') ?Q (f(?h := f ?h @ segments seg (Suc n)))" using s'(4) by simp
  moreover have "mem_add_segments ram seg (Suc n) s = Some s'" using s1(1) s'(1) by (simp add: mem_check_segment_def)
  moreover have "\<forall>b. pg_magic s' b = (if b \<in> set (segments seg (Suc n)) then PAGE_MAGIC else pg_magic s b)"
    using s'(3) s1(3) by (simp add: segments_Suc)
  ultimately show ?case using s'(2) by blast
qed

lemma mem_initialize_rep:
  assumes "board_get_by_name devs ''memmap'' = Some dev" "dev_config dev = CMemmap m"
    and m: "0 < ram_segment m" "unat (ram_segment m) + 4096 * unat (ram_count m) \<le> 65536"
    and heads: "0 \<notin> set (area_heads (free_areas s))"
      "set (segments (ram_segment m) (unat (ram_count m))) \<inter> set (area_heads (free_areas s)) = {}"
  shows "\<exists>s'. mem_initialize ram devs s = Some s' \<and> free_areas s' = free_areas s \<and>
    rep_queues (pg_heap s') (area_heads (free_areas s))
      ((\<lambda>_. [])(area_head (free_areas s) 6 := segments (ram_segment m) (unat (ram_count m)))) \<and>
    (\<forall>a. pg_magic s' a = (if a \<in> set (segments (ram_segment m) (unat (ram_count m))) then PAGE_MAGIC else pg_magic s a))"
proof -
  let ?Q = "area_heads (free_areas s)" and ?n = "unat (ram_count m)"
  have "distinct ?Q" by (simp add: area_heads_simps)
  moreover have "pg_heap (page_initialize s) = foldl flist_init (pg_heap s) ?Q"
    by (simp add: page_initialize_def area_heads_def foldl_map)
  ultimately have r: "rep_queues (pg_heap (page_initialize s)) ?Q (\<lambda>_. [])" using init_heads heads(1) by simp
  have f: "set (segments (ram_segment m) ?n) \<inter> queued ?Q (\<lambda>_. []) = {}" using heads(2) by (auto simp: queued_def)
  have i: "free_areas (page_initialize s) = free_areas s" "pg_magic (page_initialize s) = pg_magic s" by (simp_all add: page_initialize_def)
  show ?thesis
    using mem_add_rep [of "page_initialize s", unfolded i, OF r f segments_distinct [OF m], of ram] assms(1,2)
    by (auto simp: mem_initialize_def)
qed

section \<open>Properties\<close>

text \<open>
  C27.  The memory initialisation of a board gives every 64 KiB segment of its memory map to the page
  allocator, whether or not its check succeeds: the free list of the largest areas holds the segments
  in order, the other lists are empty, and every area is marked free.
\<close>

theorem mem_initialize_free_lists:
  assumes "board_get_by_name devs ''memmap'' = Some dev" "dev_config dev = CMemmap m"
    and m: "0 < ram_segment m" "unat (ram_segment m) + 4096 * unat (ram_count m) \<le> 65536"
    and heads: "0 \<notin> set (area_heads (free_areas s))"
      "set (segments (ram_segment m) (unat (ram_count m))) \<inter> set (area_heads (free_areas s)) = {}"
  shows "\<exists>s'. mem_initialize ram devs s = Some s' \<and> free_areas s' = free_areas s \<and>
    rep_queues (pg_heap s') (area_heads (free_areas s))
      ((\<lambda>_. [])(area_head (free_areas s) 6 := segments (ram_segment m) (unat (ram_count m)))) \<and>
    (\<forall>a. pg_magic s' a = (if a \<in> set (segments (ram_segment m) (unat (ram_count m))) then PAGE_MAGIC else pg_magic s a))"
  using assms by (rule mem_initialize_rep)

text \<open>The pages in the free lists, in a state they represent.\<close>

lemma page_pop_empty:
  "rep_queues (pg_heap s) (area_heads (free_areas s)) F \<Longrightarrow> i < 7 \<Longrightarrow> F (area_head (free_areas s) i) = [] \<Longrightarrow> page_pop i s = Some (0, s)"
  using flistq.pop_empty [of "pg_heap s" "area_heads (free_areas s)" F "area_head (free_areas s) i"] area_head_in [of i "free_areas s"]
  by (simp add: page_pop_def MAX_ORDER_def not_le)

lemma page_pop_first:
  assumes "rep_queues (pg_heap s) (area_heads (free_areas s)) F" "i < 7" "F (area_head (free_areas s) i) = x # xs"
  shows "\<exists>s'. page_pop i s = Some (x, s') \<and> free_areas s' = free_areas s \<and> pg_magic s' = (pg_magic s)(x := 0) \<and>
    rep_queues (pg_heap s') (area_heads (free_areas s)) (F(area_head (free_areas s) i := xs))"
proof -
  note p = flistq.pop_rep [OF assms(1) area_head_in [OF assms(2)] assms(3)]
  have "x \<noteq> 0" using is_list_nonzero [OF rep_queuesD [OF assms(1) area_head_in [OF assms(2)]]] assms(3) by simp
  then show ?thesis using p assms(2) by (simp add: page_pop_def MAX_ORDER_def not_le split_beta)
qed

text \<open>
  Allocating a whole segment: the first area of the list is returned, marked as used, and the list
  holds the others; the other lists are unchanged.  With an empty list the search runs past the end of
  the array of lists.
\<close>

theorem page_alloc_segment:
  assumes r: "rep_queues (pg_heap s) (area_heads (free_areas s)) F" and "p \<noteq> 0"
  shows "case F (area_head (free_areas s) 6) of
    [] \<Rightarrow> page_alloc p 6 s = None
  | x # xs \<Rightarrow> \<exists>s'. page_alloc p 6 s = Some (Some \<lparr>page_addr = x, page_order = 6\<rparr>, s') \<and> pg_magic s' = (pg_magic s)(x := 0) \<and>
      rep_queues (pg_heap s') (area_heads (free_areas s)) (F(area_head (free_areas s) 6 := xs))"
proof (cases "F (area_head (free_areas s) 6)")
  case Nil
  have "page_find 6 s = None"
    using page_pop_empty [OF r _ Nil] by (subst page_find.simps) (simp add: page_find.simps [of 7] page_pop_def MAX_ORDER_def)
  then show ?thesis using Nil by (simp add: page_alloc_def MAX_ORDER_def)
next
  case (Cons x xs)
  then obtain s' where s': "page_pop 6 s = Some (x, s')" "pg_magic s' = (pg_magic s)(x := 0)"
      "rep_queues (pg_heap s') (area_heads (free_areas s)) (F(area_head (free_areas s) 6 := xs))"
    using page_pop_first [OF r _ Cons] by auto
  have x: "x \<noteq> 0" using is_list_nonzero [OF rep_queuesD [OF r area_head_in [of 6]]] Cons by simp
  have "page_find 6 s = Some (x, 6, s')" using s'(1) x by (subst page_find.simps) simp
  moreover have "page_split x 6 6 s' = Some s'" by (subst page_split.simps) simp
  ultimately show ?thesis using Cons s' x assms(2) by (simp add: page_alloc_def MAX_ORDER_def)
qed

text \<open>The buddies of an area at the start of a segment.\<close>

definition bud :: "u32 \<Rightarrow> nat \<Rightarrow> u32" where
  "bud x j = x + scast (push_bit (j + 10) 1 :: u16)"

lemma page_buddy_segment:
  assumes "x AND 0xffff = 0" "j \<le> 5"
  shows "page_buddy x (of_nat j) = Some (bud x j)"
proof -
  have "x AND 0xffff0000 = x"
  proof -
    have m: "(0xffff :: u32) = mask 16" "(0xffff0000 :: u32) = NOT (mask 16)" by (simp_all add: mask_eq_exp_minus_1)
    have "x = (x AND mask 16) OR (x AND NOT (mask 16))" by (simp add: bit.conj_disj_distrib [symmetric])
    then show ?thesis using assms(1) unfolding m by simp
  qed
  moreover have "unat (of_nat j :: u16) = j" using assms(2) by (intro unat_of_nat_u16) simp
  ultimately show ?thesis using assms(2) by (simp add: page_buddy_def bud_def PAGE_SHIFT_def Let_def)
qed

lemma le5: "j \<le> 5 \<longleftrightarrow> j = 0 \<or> j = 1 \<or> j = 2 \<or> j = 3 \<or> j = 4 \<or> j = (5 :: nat)" by linarith

lemma bud_values: "bud x 0 = x + 0x400" "bud x 1 = x + 0x800" "bud x 2 = x + 0x1000" "bud x 3 = x + 0x2000" "bud x 4 = x + 0x4000"
    "bud x 5 = x + 0xffff8000"
  by (simp_all add: bud_def)

lemma bud_inj: "i \<le> 5 \<Longrightarrow> j \<le> 5 \<Longrightarrow> bud x i = bud x j \<longleftrightarrow> i = j"
  unfolding le5 by (elim disjE) (simp_all add: bud_values bud_values(2) [unfolded One_nat_def])

lemma head_inj: "i < 7 \<Longrightarrow> j < 7 \<Longrightarrow> area_head b (of_nat i) = area_head b (of_nat j) \<longleftrightarrow> i = j"
proof -
  assume ij: "i < 7" "j < 7"
  have "distinct (area_heads b)" by (simp add: area_heads_simps)
  then have "area_heads b ! i = area_heads b ! j \<longleftrightarrow> i = j" using ij by (intro nth_eq_iff_index_eq) (simp_all add: area_heads_def)
  then show ?thesis using ij by (simp add: area_heads_def)
qed

primrec pushed :: "u32 \<Rightarrow> u32 \<Rightarrow> nat \<Rightarrow> nat \<Rightarrow> (u32 \<Rightarrow> u32 list) \<Rightarrow> (u32 \<Rightarrow> u32 list)" where
  "pushed b x o' 0 F = F"
| "pushed b x o' (Suc n) F =
     (if o' < Suc n then pushed b x o' n (F(area_head b (of_nat (Suc n)) := bud x (Suc n) # F (area_head b (of_nat (Suc n))))) else F)"

lemma pushed_at:
  "n < 7 \<Longrightarrow> i < 7 \<Longrightarrow> pushed b x o' n F (area_head b (of_nat i)) =
     (if o' < i \<and> i \<le> n then bud x i # F (area_head b (of_nat i)) else F (area_head b (of_nat i)))"
proof (induction n arbitrary: F)
  case 0
  then show ?case by simp
next
  case (Suc n)
  show ?case
  proof (cases "o' < Suc n")
    case True
    have "area_head b (of_nat i) = area_head b (of_nat (Suc n)) \<longleftrightarrow> i = Suc n" using Suc.prems by (intro head_inj)
    then show ?thesis using True Suc.IH Suc.prems by (auto simp del: of_nat_Suc)
  next
    case False
    then show ?thesis by auto
  qed
qed

lemma page_split_down:
  "rep_queues (pg_heap s) (area_heads (free_areas s)) F \<Longrightarrow> x AND 0xffff = 0 \<Longrightarrow> n \<le> 5 \<Longrightarrow> o' \<le> 5 \<Longrightarrow>
    (\<And>j. j \<le> n \<Longrightarrow> bud x j \<noteq> 0 \<and> bud x j \<notin> queued (area_heads (free_areas s)) F) \<Longrightarrow>
    \<exists>s'. page_split x (of_nat (Suc n)) (of_nat o') s = Some s' \<and> free_areas s' = free_areas s \<and>
      rep_queues (pg_heap s') (area_heads (free_areas s)) (pushed (free_areas s) x o' n F)"
proof (induction n arbitrary: s F)
  case 0
  have "page_split x (of_nat (Suc 0)) (of_nat o') s = Some s" by (subst page_split.simps) simp
  then show ?case using 0 by simp
next
  case (Suc n)
  have lt: "(of_nat o' :: u16) < of_nat (Suc n) \<longleftrightarrow> o' < Suc n"
    using unat_of_nat_u16 [of o'] unat_of_nat_u16 [of "Suc n"] Suc.prems(3,4) by (simp only: word_less_nat_alt)
  have e: "(of_nat (Suc (Suc n)) :: u16) - 1 = of_nat (Suc n)" by simp
  show ?case
  proof (cases "o' < Suc n")
    case False
    then have "page_split x (of_nat (Suc (Suc n))) (of_nat o') s = Some s"
      using lt by (subst page_split.simps) (simp only: e if_False)
    then show ?thesis using False Suc.prems(1) by simp
  next
    case True
    let ?Q = "area_heads (free_areas s)" and ?h = "area_head (free_areas s) (of_nat (Suc n))" and ?b = "bud x (Suc n)"
    let ?F = "F(?h := ?b # F ?h)"
    have "unat (of_nat (Suc n) :: u16) = Suc n" using Suc.prems(3) by (intro unat_of_nat_u16) simp
    then have i: "(of_nat (Suc n) :: u16) < 7" using Suc.prems(3) by (simp only: word_less_nat_alt) simp
    have fr: "?b \<noteq> 0" "?b \<notin> queued ?Q F" using Suc.prems(5) [of "Suc n"] by auto
    let ?s = "s\<lparr>pg_magic := (pg_magic s)(?b := PAGE_MAGIC), pg_heap := flist_push (pg_heap s) ?h ?b\<rparr>"
    have p: "page_push ?b (of_nat (Suc n)) s = Some ?s" using i by (simp add: page_push_def MAX_ORDER_def not_le del: of_nat_Suc)
    have r: "rep_queues (pg_heap ?s) (area_heads (free_areas ?s)) ?F"
      using flistq.push_rep [OF Suc.prems(1) area_head_in [OF i] fr(2,1)] by simp
    have "queued ?Q ?F = insert ?b (queued ?Q F)" using area_head_in [OF i, of "free_areas s"] by (auto simp: queued_def split: if_splits)
    then have "bud x j \<noteq> 0 \<and> bud x j \<notin> queued (area_heads (free_areas ?s)) ?F" if "j \<le> n" for j
      using Suc.prems(5) [of j] bud_inj [of j "Suc n" x] that Suc.prems(3) by auto
    moreover have "n \<le> 5" "free_areas ?s = free_areas s" using Suc.prems(3) by simp_all
    ultimately obtain s' where
      s': "page_split x (of_nat (Suc n)) (of_nat o') ?s = Some s'" "free_areas s' = free_areas s"
        "rep_queues (pg_heap s') ?Q (pushed (free_areas s) x o' n ?F)"
      using Suc.IH [OF r Suc.prems(2) _ Suc.prems(4)] by metis
    have "page_split x (of_nat (Suc (Suc n))) (of_nat o') s = page_split x (of_nat (Suc n)) (of_nat o') ?s"
      using True lt page_buddy_segment [OF Suc.prems(2), of "Suc n"] Suc.prems(3) p
      by (subst page_split.simps) (simp only: e if_True Option.bind.bind_lunit)
    then show ?thesis using s' True by (simp del: of_nat_Suc)
  qed
qed

lemma page_find_up:
  "rep_queues (pg_heap s) (area_heads (free_areas s)) F \<Longrightarrow> n \<le> 6 \<Longrightarrow>
    (\<And>i. n \<le> i \<Longrightarrow> i < 6 \<Longrightarrow> F (area_head (free_areas s) (of_nat i)) = []) \<Longrightarrow> F (area_head (free_areas s) 6) = x # xs \<Longrightarrow>
    \<exists>s'. page_find (of_nat n) s = Some (x, 6, s') \<and> free_areas s' = free_areas s \<and> x \<noteq> 0 \<and>
      rep_queues (pg_heap s') (area_heads (free_areas s)) (F(area_head (free_areas s) 6 := xs))"
proof (induction "6 - n" arbitrary: n)
  case 0
  then have n: "n = 6" by simp
  obtain s' where s': "page_pop 6 s = Some (x, s')" "free_areas s' = free_areas s"
      "rep_queues (pg_heap s') (area_heads (free_areas s)) (F(area_head (free_areas s) 6 := xs))"
    using page_pop_first [OF 0(2) _ 0(5)] by auto
  have "x \<noteq> 0" using is_list_nonzero [OF rep_queuesD [OF 0(2) area_head_in [of 6]]] 0(5) by simp
  then have "page_find 6 s = Some (x, 6, s')" using s'(1) by (subst page_find.simps) simp
  then show ?case unfolding n of_nat_numeral using s'(2,3) \<open>x \<noteq> 0\<close> by blast
next
  case (Suc k)
  then have n: "n < 6" "k = 6 - Suc n" by simp_all
  have u: "unat (of_nat n :: u16) = n" using n by (intro unat_of_nat_u16) simp
  then have i: "(of_nat n :: u16) < 7" using n by (simp add: word_less_nat_alt)
  have "page_pop (of_nat n) s = Some (0, s)" by (rule page_pop_empty [OF Suc.prems(1) i]) (use Suc.prems(3) [of n] n in simp)
  then have "page_find (of_nat n) s = page_find (of_nat (Suc n)) s"
    using i by (subst page_find.simps) (simp add: MAX_ORDER_def add.commute)
  moreover have "\<exists>s'. page_find (of_nat (Suc n)) s = Some (x, 6, s') \<and> free_areas s' = free_areas s \<and> x \<noteq> 0 \<and>
      rep_queues (pg_heap s') (area_heads (free_areas s)) (F(area_head (free_areas s) 6 := xs))"
    by (rule Suc.hyps(1) [OF n(2)]) (use Suc.prems n in auto)
  ultimately show ?case by simp
qed


text \<open>
  Freeing an area whose buddy is free never succeeds: the merging loop does not stop at the first
  order whose buddy is in use but runs to the end of the orders, where the shift and the array index are
  out of range.
\<close>

theorem page_free_merge_faults:
  assumes "page_order p < 7" "page_buddy (page_addr p) (page_order p) = Some b" "pg_magic s b = PAGE_MAGIC"
  shows "page_free (Some p) s = None"
proof -
  have "page_merge a b' (of_nat n) = None" if "n < 7" for a b' n
    using that
  proof (induction "6 - n" arbitrary: n a b')
    case 0
    then have "n = 6" by simp
    then show ?case by (subst page_merge.simps) (simp add: page_buddy_def PAGE_SHIFT_def MAX_ORDER_def)
  next
    case (Suc k)
    then have n: "k = 6 - Suc n" "Suc n < 7" by simp_all
    have "unat (of_nat n :: u16) = n" using Suc.prems by (intro unat_of_nat_u16) simp
    then have i: "(of_nat n :: u16) < MAX_ORDER" using Suc.prems by (simp add: word_less_nat_alt MAX_ORDER_def)
    have "page_merge c d (of_nat n + 1) = None" for c d using Suc.hyps(1) [OF n, of c d] by (simp add: add.commute)
    then show ?case using i by (subst page_merge.simps) (simp split: bind_splits)
  qed
  from this [of "unat (page_order p)"] have "page_merge (page_addr p) b (page_order p) = None"
    using assms(1) by (simp add: word_less_nat_alt)
  then show ?thesis using assms(2,3) by (simp add: page_free_def)
qed

section \<open>The memory of a board\<close>

definition pages0 :: pages where
  "pages0 = \<lparr>free_areas = 0x200, pg_heap = \<lparr>prv = (\<lambda>_. 0), nxt = (\<lambda>_. 0)\<rparr>, pg_magic = (\<lambda>_. 0)\<rparr>"

definition boot_pages :: pages where
  "boot_pages = the (mem_initialize (\<lambda>_. True) (devices board_8088_rev3) pages0)"

lemma rev3_memmap: "\<exists>dev m. board_get_by_name (devices board_8088_rev3) ''memmap'' = Some dev \<and> dev_config dev = CMemmap m \<and>
    ram_segment m = 0x1000 \<and> ram_count m = 13"
  by (simp add: board_8088_rev3_def timer_devices_def DEVICE_def)

lemma rev3_segments: "segments 0x1000 13 = [0x10000000, 0x20000000, 0x30000000, 0x40000000, 0x50000000, 0x60000000, 0x70000000,
    0x80000000, 0x90000000, 0xA0000000, 0xB0000000, 0xC0000000, 0xD0000000]"
  by (simp add: segments_def fmem_void_fptr_def upt_rec)

lemma pages0_heads: "0 \<notin> set (area_heads (free_areas pages0))" "set (segments 0x1000 13) \<inter> set (area_heads (free_areas pages0)) = {}"
  by (simp_all add: pages0_def area_heads_simps rev3_segments)

lemma boot_pages_ok:
  "mem_initialize (\<lambda>_. True) (devices board_8088_rev3) pages0 = Some boot_pages" "free_areas boot_pages = 0x200"
  "rep_queues (pg_heap boot_pages) (area_heads (free_areas boot_pages)) ((\<lambda>_. [])(area_head (free_areas boot_pages) 6 := segments 0x1000 13))"
  "pg_magic boot_pages 0x20000000 = PAGE_MAGIC"
proof -
  obtain dev m where m: "board_get_by_name (devices board_8088_rev3) ''memmap'' = Some dev" "dev_config dev = CMemmap m"
      "ram_segment m = 0x1000" "ram_count m = 13" using rev3_memmap by blast
  have n: "unat (ram_count m) = 13" "0 < ram_segment m" "unat (ram_segment m) + 4096 * unat (ram_count m) \<le> 65536" using m by simp_all
  obtain s' where s': "mem_initialize (\<lambda>_. True) (devices board_8088_rev3) pages0 = Some s'" "free_areas s' = free_areas pages0"
      "rep_queues (pg_heap s') (area_heads (free_areas pages0)) ((\<lambda>_. [])(area_head (free_areas pages0) 6 := segments 0x1000 13))"
      "\<forall>a. pg_magic s' a = (if a \<in> set (segments 0x1000 13) then PAGE_MAGIC else pg_magic pages0 a)"
    using mem_initialize_rep [OF m(1,2) n(2,3), of pages0 "\<lambda>_. True"] pages0_heads m(3) n(1) by auto
  have b: "boot_pages = s'" using s'(1) by (simp add: boot_pages_def)
  show "mem_initialize (\<lambda>_. True) (devices board_8088_rev3) pages0 = Some boot_pages" using s'(1) b by simp
  show "free_areas boot_pages = 0x200" using s'(2) b by (simp add: pages0_def)
  show "rep_queues (pg_heap boot_pages) (area_heads (free_areas boot_pages)) ((\<lambda>_. [])(area_head (free_areas boot_pages) 6 := segments 0x1000 13))"
    unfolding b s'(2) by (rule s'(3))
  show "pg_magic boot_pages 0x20000000 = PAGE_MAGIC" unfolding b using s'(4) by (simp add: rev3_segments)
qed

theorem mem_initialize_free_lists_witness:
  "\<exists>s'. mem_initialize (\<lambda>_. False) (devices board_8088_rev3) pages0 = Some s' \<and> pg_magic s' 0x30000000 = PAGE_MAGIC"
proof -
  obtain dev m where m: "board_get_by_name (devices board_8088_rev3) ''memmap'' = Some dev" "dev_config dev = CMemmap m"
      "ram_segment m = 0x1000" "ram_count m = 13" using rev3_memmap by blast
  have n: "unat (ram_count m) = 13" "0 < ram_segment m" "unat (ram_segment m) + 4096 * unat (ram_count m) \<le> 65536" using m by simp_all
  show ?thesis
    using mem_initialize_free_lists [OF m(1,2) n(2,3), of pages0 "\<lambda>_. False"] pages0_heads m(3) n(1) rev3_segments by auto
qed

theorem page_alloc_segment_witness:
  "\<exists>s'. page_alloc 0x700 6 boot_pages = Some (Some \<lparr>page_addr = 0x10000000, page_order = 6\<rparr>, s')"
  using page_alloc_segment [OF boot_pages_ok(3), of "0x700"] by (auto simp: rev3_segments)


theorem page_free_merge_faults_witness:
  "page_free (Some \<lparr>page_addr = 0x20000400, page_order = 0\<rparr>) boot_pages = None"
  using page_free_merge_faults [of "\<lparr>page_addr = 0x20000400, page_order = 0\<rparr>" "0x20000000" boot_pages] boot_pages_ok(4)
  by (simp add: page_buddy_def PAGE_SHIFT_def)

end
