(* ===== verification/Boot.thy ===== *)
theory Boot
  imports Kernel Page Cfi
begin

text \<open>
  The boot sequence (\<^verbatim>\<open>kernel/kernel.c\<close>): the initialisers of the components in the order in which the
  kernel calls them, on one state.  The interrupts that \<^verbatim>\<open>sti\<close> lets through between two of the later
  calls are not part of the sequence.  The first process is started at its end, and the loop on \<^verbatim>\<open>hlt\<close>
  when it returns has no effect.
\<close>

text \<open>The state of the kernel with what only the initialisers and the hardware look at.\<close>

record ('s, 'd) machine =
  kern :: "('s, 'd) kernel"
  io_devs :: "io_device_t \<Rightarrow> io_device option"
  loop_ns :: u32
  pages_of :: pages
  clk_timer :: "timer option"
  clk_ticks :: u64

text \<open>Addresses of the program, fixed by the linker.\<close>

record image =
  bss_end :: u16
  int3_handler :: u16
  int21_handler :: u16
  int80_handler :: u16
  clk_int_handler :: u16
  uart_int_handler :: u16
  kthread_bootstrap :: u16
  kernel_idle :: u16
  str_sda1 :: u16
  str_rootfs :: u16
  str_ext2 :: u16

text \<open>The results of the allocations of the sequence.\<close>

record allocations =
  kernel_task :: ptr
  idle_stack :: ptr
  idle_task :: ptr
  rootfs_mount :: ptr
  rootfs_path :: ptr

section \<open>The sequence\<close>

text \<open>Up to the first kernel thread, with interrupts disabled.\<close>

definition kernel_core ::
    "'d ports \<Rightarrow> board \<Rightarrow> (u16 \<Rightarrow> bool) \<Rightarrow> image \<Rightarrow> allocations \<Rightarrow> u8 list \<Rightarrow> u8 list \<Rightarrow> ('s, 'd) machine \<Rightarrow> ('s, 'd) machine option" where
  "kernel_core io b ram im al rx_buf tx_buf m =
     do { let k = kern m;
          (devs, ns, irqs, d) \<leftarrow> board_initialize io b (io_devs m) (sr_irqs (k_serial k)) (sr_hw (k_serial k));
          let k = k\<lparr>k_serial := (k_serial k)\<lparr>sr_irqs := irqs, sr_hw := d\<rparr>\<rparr>;
          let k = k\<lparr>k_brk := heap_initialize (k_brk k) (bss_end im) (KERNEL_STACK_LOW b)\<rparr>;
          let k = k\<lparr>k_serial := console_initialize rx_buf tx_buf (k_serial k)\<rparr>;
          let irqs = syscall_setup b (int3_handler im) (int21_handler im) (int80_handler im) (sr_irqs (k_serial k));
          let k = k\<lparr>k_serial := (k_serial k)\<lparr>sr_irqs := irqs\<rparr>\<rparr>;
          pg \<leftarrow> mem_initialize ram (devices b) (pages_of m);
          s \<leftarrow> scheduler_initialize (f_sched k) (kernel_task al);
          let k = k\<lparr>f_sched := s\<rparr>;
          (_, k) \<leftarrow> kthread_initialize b (kthread_bootstrap im) (kernel_idle im) (idle_stack al) (idle_task al) k;
          Some (m\<lparr>kern := k, io_devs := devs, loop_ns := ns, pages_of := pg\<rparr>) }"

text \<open>The clock's view of the machine and back.\<close>

definition clk_of :: "('s, 'd) machine \<Rightarrow> 'd clk" where
  "clk_of m = \<lparr>ck_sched = f_sched (kern m), blocked = k_blocked (kern m), ticks = clk_ticks m, now_ns = k_now (kern m),
     ck_timer = clk_timer m, ck_irqs = sr_irqs (k_serial (kern m)), ck_hw = sr_hw (k_serial (kern m))\<rparr>"

definition set_clk :: "'d clk \<Rightarrow> ('s, 'd) machine \<Rightarrow> ('s, 'd) machine" where
  "set_clk c m = m\<lparr>clk_timer := ck_timer c, clk_ticks := ticks c,
     kern := (kern m)\<lparr>f_sched := ck_sched c, k_now := now_ns c, k_blocked := blocked c,
       k_serial := (k_serial (kern m))\<lparr>sr_irqs := ck_irqs c, sr_hw := ck_hw c\<rparr>\<rparr>\<rparr>"

text \<open>The rest before \<^verbatim>\<open>init\<close>; the two functions are those of the board's UART driver.\<close>

definition kernel_devices ::
    "'d ports \<Rightarrow> board \<Rightarrow> image \<Rightarrow> ((io_device_t \<Rightarrow> io_device option) \<Rightarrow> u16 \<Rightarrow> u16 \<Rightarrow> u16 \<Rightarrow> 'd serial \<Rightarrow> 'd serial option) \<Rightarrow>
     ('d serial \<Rightarrow> 'd serial option) \<Rightarrow> ('s, 'd) machine driver list \<Rightarrow> ('s, 'd) machine \<Rightarrow> ('s, 'd) machine option" where
  "kernel_devices io b im uart_initialize uart_start_xmit drivers m =
     do { let k = kern m;
          s \<leftarrow> console_bind_uart (uart_initialize (io_devs m) (KERNEL_CS b) (uart_int_handler im)) uart_start_xmit (k_serial k);
          let m = m\<lparr>kern := k\<lparr>k_serial := s\<rparr>\<rparr>;
          c \<leftarrow> clk_initialize io b (clk_int_handler im) (clk_of m);
          driver_probes drivers (set_clk c m) }"

definition kernel_main ::
    "'d ports \<Rightarrow> board \<Rightarrow> (u16 \<Rightarrow> bool) \<Rightarrow> image \<Rightarrow> allocations \<Rightarrow> u8 list \<Rightarrow> u8 list \<Rightarrow>
     ((io_device_t \<Rightarrow> io_device option) \<Rightarrow> u16 \<Rightarrow> u16 \<Rightarrow> u16 \<Rightarrow> 'd serial \<Rightarrow> 'd serial option) \<Rightarrow> ('d serial \<Rightarrow> 'd serial option) \<Rightarrow>
     ('s, 'd) machine driver list \<Rightarrow> regs86 \<Rightarrow> ('s, 'd) machine \<Rightarrow> (sysret \<times> ('s, 'd) machine) option" where
  "kernel_main io b ram im al rx_buf tx_buf uart_initialize uart_start_xmit drivers R m =
     do { m \<leftarrow> kernel_core io b ram im al rx_buf tx_buf m;
          m \<leftarrow> kernel_devices io b im uart_initialize uart_start_xmit drivers m;
          (r, k) \<leftarrow> init (rootfs_mount al) (rootfs_path al) R (str_sda1 im) (str_rootfs im) (str_ext2 im) (kern m);
          Some (r, m\<lparr>kern := k\<rparr>) }"

text \<open>
  The entry of the flash driver in the driver table.  The state of the file system's drivers is that of
  the flash bus; on a machine that was lost in a polling loop, \<^const>\<open>None\<close>, nothing more happens.
\<close>

definition cfi_driver ::
    "'h bus \<Rightarrow> device list \<Rightarrow> bool \<Rightarrow> bool \<Rightarrow> (u16 \<Rightarrow> u8 list option) \<Rightarrow> (nat \<Rightarrow> bool \<times> bool) \<Rightarrow> u8 list option \<Rightarrow>
     ('h option, 'd) machine driver" where
  "cfi_driver bus devs pdev_ok bdev_ok mal oks b =
     \<lparr>driver_name = ''cfi'',
      probe = (\<lambda>m. do {
        let v = f_vfs (kern m);
        case drv v of
          None \<Rightarrow> Some (False, m)
        | Some h \<Rightarrow>
            let (ok, ds, s) = cfi_probe bus devs pdev_ok bdev_ok mal oks b (disks v) h
            in Some (ok, m\<lparr>kern := (kern m)\<lparr>f_vfs := v\<lparr>disks := ds, drv := s\<rparr>\<rparr>\<rparr>) })\<rparr>"

section \<open>The interface: drivers that probe\<close>

text \<open>
  What the boot sequence relies on when it probes the drivers: a probe returns, successful or not, and
  keeps the kernel in order.
\<close>

locale probed_drivers =
  fixes drivers :: "'m driver list"
    and ok :: "'m \<Rightarrow> bool"
  assumes probe_ok: "d \<in> set drivers \<Longrightarrow> ok m \<Longrightarrow> \<exists>r m'. probe d m = Some (r, m') \<and> ok m'"
begin

lemma all_probed:
  assumes "set ds \<subseteq> set drivers" "ok m"
  shows "\<exists>m'. driver_probes ds m = Some m' \<and> ok m'"
  using assms
proof (induction ds arbitrary: m)
  case (Cons d ds)
  obtain r m' where "probe d m = Some (r, m')" "ok m'" using probe_ok [of d m] Cons.prems by auto
  then show ?case using Cons.IH [of m'] Cons.prems(1) by simp
qed simp

lemma probes_ok: "ok m \<Longrightarrow> \<exists>m'. driver_probes drivers m = Some m' \<and> ok m'"
  by (rule all_probed) simp

end

section \<open>The state that boots\<close>

text \<open>
  The static data of the kernel before the sequence runs: the list heads are initialised, there are no
  tasks, no mounts, no handles and no registered device, and the buffers have their sizes.
\<close>

definition static_data :: "ptr list \<Rightarrow> u8 list \<Rightarrow> u8 list \<Rightarrow> ('s, 'd) machine \<Rightarrow> bool" where
  "static_data Qs rx_buf tx_buf m \<longleftrightarrow>
     (let s = f_sched (kern m); v = f_vfs (kern m); h = area_heads (free_areas (pages_of m)) in
      rep_queues (sched.heap s) Qs (\<lambda>_. []) \<and> tasks s = Map.empty \<and>
      {ready s, zombies s, waiters s, k_blocked (kern m)} \<subseteq> set Qs \<and> distinct [ready s, zombies s, waiters s, k_blocked (kern m)] \<and>
      list_all driver_ok (fs_table v) \<and> mounts v = [] \<and> mount_at v = Map.empty \<and> files v = Map.empty \<and> dirs v = Map.empty \<and>
      io_devs m IO_DEV_UART = None \<and> length rx_buf = 512 \<and> length tx_buf = 512 \<and>
      0 \<notin> set h \<and> set (segments 0x1000 13) \<inter> set h = {})"

text \<open>What the allocator promises: the objects are not null, and the tasks are new ones.\<close>

definition fresh_allocations :: "ptr list \<Rightarrow> allocations \<Rightarrow> bool" where
  "fresh_allocations Qs al \<longleftrightarrow> kernel_task al \<noteq> 0 \<and> idle_stack al \<noteq> 0 \<and> idle_task al \<noteq> 0 \<and>
     kernel_task al \<notin> set Qs \<and> idle_task al \<notin> set Qs \<and> kernel_task al \<noteq> idle_task al"

text \<open>
  The 8088 board (revision 3) when it has booted: the kernel is well formed and runs the boot task; the
  interrupt vectors of the system calls, the clock and the UART lead to their handlers; the console is
  bound to a UART that works; the heap lies between the end of the program and the stack; every segment
  of memory is free.
\<close>

definition booted :: "ptr list \<Rightarrow> image \<Rightarrow> allocations \<Rightarrow> ('s, uart_chip) machine \<Rightarrow> bool" where
  "booted Qs im al m \<longleftrightarrow>
     (let k = kern m; s = k_serial k; v = idt (sr_irqs s) in
      kernel_ok Qs (idle_task al) {} k \<and> current (f_sched k) = kernel_task al \<and>
      v 0x21 = (0, int21_handler im) \<and> v 0x80 = (0, int80_handler im) \<and> v 32 = (0, clk_int_handler im) \<and> v 36 = (0, uart_int_handler im) \<and>
      pc16550.up (uart board_8088_rev3) s \<and> rings_wf s \<and> binded s \<and>
      heap_base (k_brk k) = bss_end im \<and> heap_max (k_brk k) = 0xE000 \<and>
      rep_queues (pg_heap (pages_of m)) (area_heads (free_areas (pages_of m)))
        ((\<lambda>_. [])(area_head (free_areas (pages_of m)) 6 := segments 0x1000 13)))"

text \<open>The flash driver gives the interface: its probe changes the disks and its own state only.\<close>

lemma sys_ok_disks: "sys_ok (k\<lparr>f_vfs := (f_vfs k)\<lparr>disks := ds, drv := s\<rparr>\<rparr>) M = sys_ok k M"
proof -
  have "vfs_ok ((f_vfs k)\<lparr>disks := ds, drv := s\<rparr>) M = vfs_ok (f_vfs k) M"
    by (simp add: vfs_inv_def linked_def counted_def refs_def users_def)
  then show ?thesis by (simp add: sys_ok_def fds_ok_def desc_live_def)
qed

lemma kernel_ok_disks: "kernel_ok Qs idle M (k\<lparr>f_vfs := (f_vfs k)\<lparr>disks := ds, drv := s\<rparr>\<rparr>) = kernel_ok Qs idle M k"
  by (simp add: kernel_ok_def sys_ok_disks)

lemma booted_disks:
  "booted Qs im al (m\<lparr>kern := (kern m)\<lparr>f_vfs := (f_vfs (kern m))\<lparr>disks := ds, drv := s\<rparr>\<rparr>\<rparr>) = booted Qs im al m"
  by (simp add: booted_def Let_def kernel_ok_disks)

interpretation rom_drivers: probed_drivers "[cfi_driver bus devs pdev_ok bdev_ok mal oks b]" "booted Qs im al"
  for bus :: "'h bus" and devs pdev_ok bdev_ok mal oks b Qs im al
proof unfold_locales
  fix d :: "('h option, uart_chip) machine driver" and m :: "('h option, uart_chip) machine"
  assume d: "d \<in> set [cfi_driver bus devs pdev_ok bdev_ok mal oks b]" and m: "booted Qs im al m"
  obtain ok ds s where "drv (f_vfs (kern m)) = Some h \<Longrightarrow> cfi_probe bus devs pdev_ok bdev_ok mal oks b (disks (f_vfs (kern m))) h = (ok, ds, s)" for h
    by (cases "drv (f_vfs (kern m))") (auto intro: prod_cases3)
  then show "\<exists>r m'. probe d m = Some (r, m') \<and> booted Qs im al m'"
    using d m by (cases "drv (f_vfs (kern m))") (auto simp: cfi_driver_def booted_disks)
qed

section \<open>The steps\<close>

abbreviation rev3_pic :: pic where "rev3_pic \<equiv> Pic 0x20 (- 1) 0 8 32 None"

lemma rev3_segs: "KERNEL_CS board_8088_rev3 = 0" "KERNEL_STACK_LOW board_8088_rev3 = 0xE000"
  by (simp_all add: board_8088_rev3_def)

lemma rev3_timer: "timer_get (devices board_8088_rev3) ''timer0'' = Some (p8254_timer 2457600 0 0)"
  by (simp add: timer_get_def board_8088_rev3_def timer_devices_def DEVICE_def)

lemma board_initialize_rev3:
  assumes "devs IO_DEV_UART = None"
  shows "\<exists>ns d'. board_initialize io board_8088_rev3 devs s d =
    Some (devs(IO_DEV_UART := Some (uart board_8088_rev3)), ns, \<lparr>idt = (\<lambda>_. (0, 0)), master = Some rev3_pic\<rparr>, d')"
proof -
  have f: "t_freq (p8254_timer 2457600 0 0) \<noteq> 0" by (simp add: p8254_timer_def)
  obtain d1 where i: "interrupts_initialize io (devices board_8088_rev3) s d' =
      (\<lparr>idt = (\<lambda>_. (0, 0)), master = Some rev3_pic\<rparr>, d1 d')" for d'
    by (simp add: interrupts_initialize_def board_8088_rev3_def DEVICE_def IDT_IRQ_OFFSET_def Let_def)
  show ?thesis
    using assms f by (simp add: board_initialize_def board_register_io_dev_def rev3_timer delay_calibrate_def timer_ns_per_tick_def
        p8254_ns_per_tick_def i Let_def split: prod.split)
qed

lemma syscall_setup_vectors:
  "s' = syscall_setup b h3 h21 h80 s \<Longrightarrow> master s' = master s \<and> idt s' 0x21 = (KERNEL_CS b, h21) \<and> idt s' 0x80 = (KERNEL_CS b, h80)"
  by (simp add: syscall_setup_def interrupts_handle_def IDT_ENTRIES_def)

lemma console_initialize_irqs:
  "(console_initialize rx tx s)\<lparr>sr_irqs := i\<rparr> = console_initialize rx tx (s\<lparr>sr_irqs := i\<rparr>)"
  "sr_irqs (console_initialize rx tx s) = sr_irqs s"
  by (simp_all add: console_initialize_def)

lemma clk_initialize_rev3:
  assumes "master (ck_irqs c) = Some rev3_pic" "P (ck_hw c)"
    and P: "\<And>q v d. P d \<Longrightarrow> q \<in> {0x21, 0x40, 0x43} \<Longrightarrow> P (outb io q v d)" "\<And>d. P d \<Longrightarrow> P (snd (inb io 0x21 d))"
  shows "\<exists>d. clk_initialize io board_8088_rev3 h c = Some (c\<lparr>ck_timer := Some (p8254_timer 2457600 0 0), ticks := 0, now_ns := 0,
    ck_irqs := interrupts_handle (ck_irqs c) 32 0 h, ck_hw := d\<rparr>) \<and> P d"
proof -
  let ?t = "p8254_timer 2457600 0 0"
  let ?d = "p8259a_irq_enable io rev3_pic 0 (timer_set_alarm io ?t (ucast (t_freq ?t div 100)) (ck_hw c))"
  have "t_irq ?t = 0" "KERNEL_CS board_8088_rev3 = 0" by (simp_all add: p8254_timer_def rev3_segs)
  moreover have "interrupts_from_irq (ck_irqs c) 0 = Some 32" using assms(1) by (simp add: interrupts_from_irq_def)
  moreover have "irq_enable io (interrupts_handle (ck_irqs c) 32 0 h) 0 d = Some (p8259a_irq_enable io rev3_pic 0 d)" for d
    using assms(1) by (simp add: irq_enable_def interrupts_handle_def)
  moreover have "P ?d"
  proof -
    have "P (timer_set_alarm io ?t v d)" if "P d" for v d
      using that P(1) by (simp add: timer_set_alarm_def p8254_set_alarm_def p8254_configure_counter_def PIT_COUNTER_def PIT_MODE_def
          p8254_timer_def Let_def)
    moreover have "P (p8259a_irq_enable io rev3_pic 0 d)" if "P d" for d
      using P(1) [OF P(2) [OF that], of "0x21"] by (simp add: p8259a_irq_enable_def PIC_DATA_def split_def Let_def)
    ultimately show ?thesis using assms(2) by blast
  qed
  ultimately show ?thesis by (auto simp: clk_initialize_def rev3_timer)
qed

text \<open>The scheduler and the idle thread.\<close>

lemma kernel_core_sched:
  fixes k :: "('s, 'd) kernel"
  assumes q: "rep_queues (sched.heap (f_sched k)) Qs (\<lambda>_. [])" "tasks (f_sched k) = Map.empty"
    and h: "{ready (f_sched k), zombies (f_sched k), waiters (f_sched k), k_blocked k} \<subseteq> set Qs"
      "distinct [ready (f_sched k), zombies (f_sched k), waiters (f_sched k), k_blocked k]"
    and v: "vfs_ok (f_vfs k) {}" and al: "fresh_allocations Qs al"
  shows "\<exists>s r m s'. scheduler_initialize (f_sched k) (kernel_task al) = Some s \<and>
    kthread_initialize b boot idl (idle_stack al) (idle_task al) (k\<lparr>f_sched := s\<rparr>) = Some (r, k\<lparr>f_sched := s', k_mem := m\<rparr>) \<and>
    kernel_ok Qs (idle_task al) {} (k\<lparr>f_sched := s', k_mem := m\<rparr>) \<and> current s' = kernel_task al"
proof -
  let ?p = "kernel_task al" and ?i = "idle_task al"
  note al = al [unfolded fresh_allocations_def]
  obtain s where s: "scheduler_initialize (f_sched k) ?p = Some s" "heads s = heads (f_sched k)"
      "tasks s = [?p \<mapsto> zero_task\<lparr>pid := next_pid (f_sched k), parent := - 1, state := RUNNING, prio := 0\<rparr>]"
    using al q(2) by (simp add: scheduler_initialize_def upd_task_def)
  have h': "{ready (f_sched k), zombies (f_sched k), waiters (f_sched k)} \<subseteq> set Qs" "distinct [ready (f_sched k), zombies (f_sched k), waiters (f_sched k)]"
    using h by auto
  obtain a where a: "well Qs ?p s a" "dom (tasks a) = {?p}" "current a = ?p" "queues a = (\<lambda>_. [])"
    using boot_well [OF q h' _ s(1)] al by blast
  define bst where "bst = idle_stack al + 510 - sizeof_bootstrap_stack"
  let ?t = "zero_task\<lparr>stack := idle_stack al, ctx := \<lparr>ctx_sp = bst, ctx_ss = KERNEL_SS b\<rparr>\<rparr>"
  obtain s' where s': "scheduler_queue_new (s\<lparr>tasks := (tasks s)(?i \<mapsto> ?t)\<rparr>) ?i (- 32767) = Some (next_pid a, s')"
      "well Qs ?p s' (a_new ?i (- 32767) (a\<lparr>tasks := (tasks a)(?i \<mapsto> ?t)\<rparr>))"
    using well_queue_new [OF a(1), of ?i ?t "- 32767"] a(2,4) al by (auto simp: queued_def)
  have "sched_reach Qs ?i s'"
    by (rule reach_boot [OF q h' _ s(1) _ _ _ s'(1)]) (use al in auto)
  then have w: "\<exists>a. well Qs ?i s' a" by (rule reach_well)
  have "heads s' = heads s" using queue_new_heads [OF s'(1)] by (simp add: heads_def)
  moreover have t: "tables s' p \<noteq> Some (Some ds)" for p ds
    using queue_new_tables [OF s'(1)] s(3) by (auto simp: tables_def zero_task_def)
  then have "open_fds (tables s') = {}" by (auto simp: open_fds_def)
  ultimately have "kernel_ok Qs ?i {} (k\<lparr>f_sched := s', k_mem := m\<rparr>)" for m
    using w h v s(2) t by (auto simp: kernel_ok_def sys_ok_def fds_ok_def heads_def)
  moreover have "kthread_initialize b boot idl (idle_stack al) ?i (k\<lparr>f_sched := s\<rparr>) =
      Some (next_pid a, k\<lparr>f_sched := s', k_mem := bootstrap_stack b boot idl bst (k_mem k)\<rparr>)"
    using al s'(1) by (simp add: kthread_initialize_def kthread_start_def sizeof_bootstrap_stack_def bst_def)
  moreover have "current s' = ?p"
    using rep_sched_eqs(2) [OF wellD(1) [OF s'(2)]] a(3) by (simp add: a_new_def a_put_def)
  ultimately show ?thesis using s(1) by blast
qed

section \<open>The boot\<close>

text \<open>The machine after the first part: what it adds to the static data.\<close>

definition core_done :: "ptr list \<Rightarrow> image \<Rightarrow> allocations \<Rightarrow> u8 list \<Rightarrow> u8 list \<Rightarrow> ('s, 'd) machine \<Rightarrow> bool" where
  "core_done Qs im al rx_buf tx_buf m \<longleftrightarrow>
     (\<exists>s. let k = kern m; h = area_heads (free_areas (pages_of m)) in
      k_serial k = console_initialize rx_buf tx_buf s \<and> master (sr_irqs s) = Some rev3_pic \<and>
      idt (sr_irqs s) 0x21 = (0, int21_handler im) \<and> idt (sr_irqs s) 0x80 = (0, int80_handler im) \<and>
      kernel_ok Qs (idle_task al) {} k \<and> current (f_sched k) = kernel_task al \<and>
      heap_base (k_brk k) = bss_end im \<and> heap_max (k_brk k) = 0xE000 \<and> io_devs m IO_DEV_UART = Some (uart board_8088_rev3) \<and>
      rep_queues (pg_heap (pages_of m)) h ((\<lambda>_. [])(area_head (free_areas (pages_of m)) 6 := segments 0x1000 13)))"

lemma mem_initialize_rev3:
  assumes "0 \<notin> set (area_heads (free_areas s))" "set (segments 0x1000 13) \<inter> set (area_heads (free_areas s)) = {}"
  shows "\<exists>s'. mem_initialize ram (devices board_8088_rev3) s = Some s' \<and>
    rep_queues (pg_heap s') (area_heads (free_areas s')) ((\<lambda>_. [])(area_head (free_areas s') 6 := segments 0x1000 13))"
proof -
  obtain dev m where m: "board_get_by_name (devices board_8088_rev3) ''memmap'' = Some dev" "dev_config dev = CMemmap m"
      "ram_segment m = 0x1000" "ram_count m = 13" using rev3_memmap by blast
  then show ?thesis using mem_initialize_rep [OF m(1,2), of s ram] assms by auto
qed

lemma kernel_core_rev3:
  assumes st: "static_data Qs rx_buf tx_buf m" and al: "fresh_allocations Qs al"
  shows "\<exists>m'. kernel_core io board_8088_rev3 ram im al rx_buf tx_buf m = Some m' \<and> core_done Qs im al rx_buf tx_buf m'"
proof -
  let ?b = board_8088_rev3
  note st' = st [unfolded static_data_def Let_def]
  obtain ns d where b: "board_initialize io ?b (io_devs m) (sr_irqs (k_serial (kern m))) (sr_hw (k_serial (kern m))) =
      Some ((io_devs m)(IO_DEV_UART := Some (uart ?b)), ns, \<lparr>idt = (\<lambda>_. (0, 0)), master = Some rev3_pic\<rparr>, d)"
    using board_initialize_rev3 [of "io_devs m" io "sr_irqs (k_serial (kern m))" "sr_hw (k_serial (kern m))"] st' by auto
  define irqs where "irqs = syscall_setup ?b (int3_handler im) (int21_handler im) (int80_handler im) \<lparr>idt = (\<lambda>_. (0, 0)), master = Some rev3_pic\<rparr>"
  note irqs = syscall_setup_vectors [OF irqs_def]
  define ser where "ser = (k_serial (kern m))\<lparr>sr_hw := d, sr_irqs := irqs\<rparr>"
  define k where "k = (kern m)\<lparr>k_brk := heap_initialize (k_brk (kern m)) (bss_end im) 0xE000, k_serial := console_initialize rx_buf tx_buf ser\<rparr>"
  obtain pg where pg: "mem_initialize ram (devices ?b) (pages_of m) = Some pg"
      "rep_queues (pg_heap pg) (area_heads (free_areas pg)) ((\<lambda>_. [])(area_head (free_areas pg) 6 := segments 0x1000 13))"
    using mem_initialize_rev3 [of "pages_of m" ram] st' by auto
  have "vfs_ok (f_vfs k) {}" using st' by (intro vfs_run_ok vfs_run.boot) (simp_all add: k_def)
  then obtain s r mm s' where s: "scheduler_initialize (f_sched k) (kernel_task al) = Some s"
      "kthread_initialize ?b (kthread_bootstrap im) (kernel_idle im) (idle_stack al) (idle_task al) (k\<lparr>f_sched := s\<rparr>) = Some (r, k\<lparr>f_sched := s', k_mem := mm\<rparr>)"
      "kernel_ok Qs (idle_task al) {} (k\<lparr>f_sched := s', k_mem := mm\<rparr>)" "current s' = kernel_task al"
    using kernel_core_sched [OF _ _ _ _ _ al, of k ?b "kthread_bootstrap im" "kernel_idle im"] st' by (auto simp: k_def)
  have "kernel_core io ?b ram im al rx_buf tx_buf m = Some (m\<lparr>kern := k\<lparr>f_sched := s', k_mem := mm\<rparr>,
      io_devs := (io_devs m)(IO_DEV_UART := Some (uart ?b)), loop_ns := ns, pages_of := pg\<rparr>)"
    using b pg(1) s(1,2) by (simp add: kernel_core_def Let_def console_initialize_irqs ser_def k_def rev3_segs flip: irqs_def)
  then show ?thesis
    using irqs pg(2) s(3,4) 
    by (auto simp: core_done_def k_def ser_def heap_initialize_def rev3_segs intro!: exI [of _ ser])
qed

lemma kernel_devices_rev3:
  assumes c: "core_done Qs im al rx_buf tx_buf m" "length rx_buf = 512" "length tx_buf = 512"
    and d: "probed_drivers drivers (booted Qs im al)"
  shows "\<exists>m'. kernel_devices (pc16550_ports (uart board_8088_rev3)) board_8088_rev3 im
      (pc16550_uart_initialize (pc16550_ports (uart board_8088_rev3))) (pc16550_uart_start_xmit (pc16550_ports (uart board_8088_rev3)))
      drivers m = Some m' \<and> booted Qs im al m'"
proof -
  let ?b = board_8088_rev3 and ?u = "uart board_8088_rev3"
  let ?io = "pc16550_ports ?u"
  obtain s where s: "k_serial (kern m) = console_initialize rx_buf tx_buf s" "master (sr_irqs s) = Some rev3_pic"
      "idt (sr_irqs s) 0x21 = (0, int21_handler im)" "idt (sr_irqs s) 0x80 = (0, int80_handler im)"
      "io_devs m IO_DEV_UART = Some ?u"
    using c(1) by (auto simp: core_done_def Let_def)
  have u: "io_irq ?u = 4" "pics_apart (uart_reg ?u) (sr_irqs s)"
    using s(2) by (simp_all add: board_8088_rev3_def pics_apart_def uart_reg_def PIC_CMD_def PIC_DATA_def)
  obtain t where t: "console_bind_uart (pc16550_uart_initialize ?io (io_devs m) (KERNEL_CS ?b) (uart_int_handler im)) (pc16550_uart_start_xmit ?io)
        (k_serial (kern m)) = Some t" "binded t" "pc16550.up ?u t" "rings_wf t"
      "sr_irqs t = interrupts_handle (sr_irqs s) 36 0 (uart_int_handler im)"
  proof -
    have "k_serial (kern m) = (console_initialize rx_buf tx_buf s)\<lparr>tx_ring := ring_buffer_queue_arr (ring_buffer_init tx_buf RINGBUF_SIZE) []\<rparr>"
      using s(1) by (simp add: console_initialize_def)
    then have "\<exists>t. console_bind_uart (pc16550_uart_initialize ?io (io_devs m) (KERNEL_CS ?b) (uart_int_handler im)) (pc16550_uart_start_xmit ?io)
        (k_serial (kern m)) = Some t \<and> binded t \<and> rb_contents (tx_ring t) = [] \<and> rb_contents (rx_ring t) = [] \<and>
        ([] \<noteq> ([] :: u8 list) \<longrightarrow> bit (u_ier (sr_hw t)) 1) \<and> u_tx (sr_hw t) = u_tx (sr_hw s) \<and> pc16550.up ?u t \<and> rings_wf t \<and>
        sr_irqs t = interrupts_handle (sr_irqs s) (uint (idt_offset rev3_pic) + io_irq ?u) (KERNEL_CS ?b) (uart_int_handler im)"
      by (intro console_bind_16550) (use s u c(2,3) in \<open>simp_all add: IDT_ENTRIES_def\<close>)
    then show thesis using that u(1) by (auto simp: rev3_segs)
  qed
  let ?m = "m\<lparr>kern := (kern m)\<lparr>k_serial := t\<rparr>\<rparr>"
  have ckm: "master (ck_irqs (clk_of ?m)) = Some rev3_pic" using t(5) s(2) by (simp add: clk_of_def interrupts_handle_def)
  obtain hw where ck: "clk_initialize ?io ?b (clk_int_handler im) (clk_of ?m) =
      Some ((clk_of ?m)\<lparr>ck_timer := Some (p8254_timer 2457600 0 0), ticks := 0, now_ns := 0,
        ck_irqs := interrupts_handle (sr_irqs t) 32 0 (clk_int_handler im), ck_hw := hw\<rparr>)" (is "_ = Some ?c")
      and hw: "pc16550_ok hw"
  proof -
    have o: "pc16550_ok (ck_hw (clk_of ?m))" using t(3) by (simp add: pc16550.up_def clk_of_def)
    note chip = pc16550_ports_def pc16550_inb_def pc16550_outb_def pc16550_ok_def pc16550_regs board_8088_rev3_def
    have "pc16550_ok (outb ?io q v d)" if "pc16550_ok d" "q \<in> {0x21, 0x40, 0x43}" for q v d
      using that by (auto simp: chip)
    moreover have "pc16550_ok (snd (inb ?io 0x21 d))" if "pc16550_ok d" for d using that by (auto simp: chip)
    ultimately show thesis
      using clk_initialize_rev3 [where P = pc16550_ok, OF ckm o, of ?io "clk_int_handler im"] that by (auto simp: clk_of_def)
  qed
  have "booted Qs im al (set_clk ?c ?m)"
    using c(1) s(3,4) t(2-5) hw
    by (auto simp: booted_def core_done_def Let_def set_clk_def clk_of_def kernel_ok_def sys_ok_def interrupts_handle_def IDT_ENTRIES_def
        pc16550.up_def rings_wf_def pics_apart_def)
  then show ?thesis
    using probed_drivers.probes_ok [OF d] t(1) ck by (simp add: kernel_devices_def Let_def)
qed

section \<open>Properties\<close>


text \<open>For the witness: the board with its flash memory.\<close>

definition image0 :: image where
  "image0 = \<lparr>bss_end = 0x8000, int3_handler = 0x103, int21_handler = 0x121, int80_handler = 0x180, clk_int_handler = 0x132,
     uart_int_handler = 0x136, kthread_bootstrap = 0x200, kernel_idle = 0x210, str_sda1 = 0x10, str_rootfs = 0x20, str_ext2 = 0x30\<rparr>"

definition allocations0 :: allocations where
  "allocations0 = \<lparr>kernel_task = 16, idle_stack = 0x8100, idle_task = 32, rootfs_mount = 0x8400, rootfs_path = 0x8480\<rparr>"

definition machine0 :: "(sst39 option, uart_chip) machine" where
  "machine0 = \<lparr>kern = \<lparr>f_sched = boot_sched,
       f_vfs = \<lparr>mounts = [], mount_at = Map.empty, files = Map.empty, dirs = Map.empty, fs_table = [], disks = [], drv = Some sample_rom\<rparr>,
       k_brk = \<lparr>heap_base = 0, heap_max = 0, cur_brk = 0, lib_brk = 0\<rparr>, k_serial = rev3_serial, k_now = 0, k_blocked = 4, k_mem = boot_mem\<rparr>,
     io_devs = (\<lambda>_. None), loop_ns = 0, pages_of = pages0, clk_timer = None, clk_ticks = 0\<rparr>"

lemma machine0_static: "static_data [1, 2, 3, 4] (replicate 512 0) (replicate 512 0) machine0"
  using pages0_heads boot_rep by (simp add: static_data_def machine0_def boot_sched_def)


end
